(* ===== verification/Prelude.thy ===== *)
theory Prelude
  imports Main "HOL-Library.Word" "HOL-Library.AList"
begin

text \<open>
  What the components share: Go's fixed-width signed integers as \<open>int\<close> with the
  wrap-around written out, \<open>time.Time\<close> and \<open>time.Duration\<close> arithmetic, Go channels
  with a buffer, and the collections of rewrite rules the component proofs use.
\<close>

named_theorems go_defs \<open>definitions of the operations, unfolded to execute them\<close>
named_theorems inv_intros \<open>preservation of the component invariants\<close>

type_synonym err = string
type_synonym byte = "8 word"
type_synonym bytes = "byte list"


section \<open>Lists\<close>

lemma drop_eq_ConsD:
  assumes "drop k xs = y # ys"
  shows "k < length xs" and "xs ! k = y" and "drop (Suc k) xs = ys"
proof -
  show k: "k < length xs" using assms by (cases "k < length xs") auto
  show "xs ! k = y" and "drop (Suc k) xs = ys"
    using assms Cons_nth_drop_Suc [OF k] by auto
qed


section \<open>Splitting strings\<close>

text \<open>\<open>strings.Split(s, c)\<close>: the pieces between the separators, one more than there are
  separators.\<close>

fun Split :: "'a \<Rightarrow> 'a list \<Rightarrow> 'a list list" where
  "Split c [] = [[]]"
| "Split c (x # xs) =
     (if x = c then [] # Split c xs
      else (case Split c xs of [] \<Rightarrow> [[x]] | p # ps \<Rightarrow> (x # p) # ps))"

lemma Split_neq_Nil [simp]: "Split c s \<noteq> []"
  by (induction s) (auto split: list.splits)

fun Join :: "'a \<Rightarrow> 'a list list \<Rightarrow> 'a list" where
  "Join c [] = []"
| "Join c [p] = p"
| "Join c (p # q # ps) = p @ c # Join c (q # ps)"

lemma Join_Cons: "ps \<noteq> [] \<Longrightarrow> Join c (p # ps) = p @ c # Join c ps"
  by (cases ps) simp_all

lemma Split_piece: "c \<notin> set p \<Longrightarrow> Split c p = [p]"
  by (induction p) auto

lemma Split_append: "c \<notin> set p \<Longrightarrow> Split c (p @ c # s) = p # Split c s"
  by (induction p) auto

lemma Split_Join: "ps \<noteq> [] \<Longrightarrow> \<forall>p\<in>set ps. c \<notin> set p \<Longrightarrow> Split c (Join c ps) = ps"
  by (induction c ps rule: Join.induct) (simp_all add: Split_piece Split_append)

lemma Join_Split: "Join c (Split c s) = s"
proof (induction s)
  case (Cons x xs)
  obtain p ps where ps: "Split c xs = p # ps" by (cases "Split c xs") auto
  with Cons show ?case by (cases ps) (auto simp: Join_Cons)
qed simp

lemma Split_no_separator: "p \<in> set (Split c s) \<Longrightarrow> c \<notin> set p"
  by (induction s arbitrary: p) (auto split: list.splits if_splits)


section \<open>Signed machine integers\<close>

text \<open>
  \<open>int\<close>, \<open>int64\<close> and \<open>time.Duration\<close> are 64 bits wide and wrap around; \<open>int32\<close> is used
  for process ids and thread counts.
\<close>

definition wrap64 :: "int \<Rightarrow> int" where
  "wrap64 x = (x + 2 ^ 63) mod 2 ^ 64 - 2 ^ 63"

definition wrap32 :: "int \<Rightarrow> int" where
  "wrap32 x = (x + 2 ^ 31) mod 2 ^ 32 - 2 ^ 31"

definition in_int64 :: "int \<Rightarrow> bool" where
  "in_int64 x \<longleftrightarrow> - (2 ^ 63) \<le> x \<and> x < 2 ^ 63"

definition in_int32 :: "int \<Rightarrow> bool" where
  "in_int32 x \<longleftrightarrow> - (2 ^ 31) \<le> x \<and> x < 2 ^ 31"

lemma wrap64_id [simp]: "in_int64 x \<Longrightarrow> wrap64 x = x"
  by (simp add: wrap64_def in_int64_def)

lemma wrap32_id [simp]: "in_int32 x \<Longrightarrow> wrap32 x = x"
  by (simp add: wrap32_def in_int32_def)

lemma in_int64_wrap64 [simp]: "in_int64 (wrap64 x)"
proof -
  have "0 \<le> (x + 2 ^ 63) mod (2 ^ 64 :: int)" and "(x + 2 ^ 63) mod (2 ^ 64 :: int) < 2 ^ 64"
    by simp_all
  then show ?thesis by (simp add: wrap64_def in_int64_def)
qed

lemma in_int32_wrap32 [simp]: "in_int32 (wrap32 x)"
proof -
  have "0 \<le> (x + 2 ^ 31) mod (2 ^ 32 :: int)" and "(x + 2 ^ 31) mod (2 ^ 32 :: int) < 2 ^ 32"
    by simp_all
  then show ?thesis by (simp add: wrap32_def in_int32_def)
qed

lemma wrap64_wrap64 [simp]: "wrap64 (wrap64 x) = wrap64 x"
  by simp

lemma wrap64_add_left [simp]: "wrap64 (wrap64 x + y) = wrap64 (x + y)"
proof -
  have "((x + 2 ^ 63) mod 2 ^ 64 - 2 ^ 63 + y + 2 ^ 63) mod 2 ^ 64
      = ((x + 2 ^ 63) mod 2 ^ 64 + y) mod (2 ^ 64 :: int)"
    by (simp add: algebra_simps)
  also have "\<dots> = (x + y + 2 ^ 63) mod 2 ^ 64"
    by (simp only: mod_add_left_eq) (simp add: algebra_simps)
  finally show ?thesis by (simp add: wrap64_def)
qed

lemma wrap64_add_right [simp]: "wrap64 (x + wrap64 y) = wrap64 (x + y)"
  using wrap64_add_left [of y x] by (simp add: add.commute)

lemma wrap32_add_left [simp]: "wrap32 (wrap32 x + y) = wrap32 (x + y)"
proof -
  have "((x + 2 ^ 31) mod 2 ^ 32 - 2 ^ 31 + y + 2 ^ 31) mod 2 ^ 32
      = ((x + 2 ^ 31) mod 2 ^ 32 + y) mod (2 ^ 32 :: int)"
    by (simp add: algebra_simps)
  also have "\<dots> = (x + y + 2 ^ 31) mod 2 ^ 32"
    by (simp only: mod_add_left_eq) (simp add: algebra_simps)
  finally show ?thesis by (simp add: wrap32_def)
qed

lemma wrap32_add_right [simp]: "wrap32 (x + wrap32 y) = wrap32 (x + y)"
  using wrap32_add_left [of y x] by (simp add: add.commute)

lemma in_int64_between: "in_int64 a \<Longrightarrow> in_int64 b \<Longrightarrow> a \<le> x \<Longrightarrow> x \<le> b \<Longrightarrow> in_int64 x"
  by (simp add: in_int64_def)

lemma in_int64_zero [simp]: "in_int64 0"
  by (simp add: in_int64_def)

text \<open>Division of Go integers is rounded towards zero.\<close>

definition go_div :: "int \<Rightarrow> int \<Rightarrow> int" where
  "go_div a b = (if (a < 0) = (b < 0) then \<bar>a\<bar> div \<bar>b\<bar> else - (\<bar>a\<bar> div \<bar>b\<bar>))"

lemma go_div_nonneg: "0 \<le> a \<Longrightarrow> 0 < b \<Longrightarrow> go_div a b = a div b"
  by (simp add: go_div_def)


section \<open>Time\<close>

text \<open>
  Instants and durations in nanoseconds. \<open>Time.Sub\<close> saturates at the largest and the
  smallest \<open>Duration\<close>; adding two durations wraps.
\<close>

type_synonym instant = int
type_synonym duration = int

abbreviation millisecond :: duration where "millisecond \<equiv> 1000000"
abbreviation second :: duration where "second \<equiv> 1000000000"

definition time_sub :: "instant \<Rightarrow> instant \<Rightarrow> duration" where
  "time_sub t u = max (- (2 ^ 63)) (min (2 ^ 63 - 1) (t - u))"

lemma in_int64_time_sub [simp]: "in_int64 (time_sub t u)"
  by (simp add: time_sub_def in_int64_def)

lemma time_sub_exact: "in_int64 (t - u) \<Longrightarrow> time_sub t u = t - u"
  by (simp add: time_sub_def in_int64_def)

lemma time_sub_nonneg: "u \<le> t \<Longrightarrow> 0 \<le> time_sub t u"
  by (simp add: time_sub_def)

lemma time_sub_le: "u \<le> t \<Longrightarrow> time_sub t u \<le> t - u"
  by (simp add: time_sub_def)

lemma time_sub_self [simp]: "time_sub t t = 0"
  by (simp add: time_sub_def)


section \<open>Buffered channels\<close>

text \<open>
  \<open>make(chan T, n)\<close>. A send on a full channel and a receive on an empty one block: the
  operation has no result (\<open>None\<close>) until another goroutine acts. A \<open>select\<close> with a
  \<open>default\<close> branch takes the default exactly when the operation would block.
\<close>

record 'a chan =
  chan_cap :: nat
  chan_buf :: "'a list"

definition make_chan :: "nat \<Rightarrow> 'a chan" where
  "make_chan n = \<lparr>chan_cap = n, chan_buf = []\<rparr>"

definition chan_send :: "'a \<Rightarrow> 'a chan \<Rightarrow> 'a chan option" where
  "chan_send x c =
     (if length (chan_buf c) < chan_cap c then Some (c\<lparr>chan_buf := chan_buf c @ [x]\<rparr>) else None)"

definition chan_recv :: "'a chan \<Rightarrow> ('a \<times> 'a chan) option" where
  "chan_recv c =
     (case chan_buf c of [] \<Rightarrow> None | x # xs \<Rightarrow> Some (x, c\<lparr>chan_buf := xs\<rparr>))"

text \<open>
  The interface a client of a channel relies on: a bounded queue, first in, first out.
  The clients' lemmas are proved from these laws.
\<close>

locale bounded_queue =
  fixes send :: "'a \<Rightarrow> 'q \<Rightarrow> 'q option"
    and recv :: "'q \<Rightarrow> ('a \<times> 'q) option"
    and contents :: "'q \<Rightarrow> 'a list"
    and capacity :: "'q \<Rightarrow> nat"
  assumes send_room: "length (contents q) < capacity q \<Longrightarrow>
      \<exists>q'. send x q = Some q' \<and> contents q' = contents q @ [x] \<and> capacity q' = capacity q"
    and send_full: "capacity q \<le> length (contents q) \<Longrightarrow> send x q = None"
    and recv_empty: "contents q = [] \<Longrightarrow> recv q = None"
    and recv_head: "contents q = y # ys \<Longrightarrow>
      \<exists>q'. recv q = Some (y, q') \<and> contents q' = ys \<and> capacity q' = capacity q"
begin

lemma send_iff_room: "(\<exists>q'. send x q = Some q') \<longleftrightarrow> length (contents q) < capacity q"
  using send_room [of q x] send_full [of q x] by (cases "length (contents q) < capacity q") auto

lemma send_SomeD:
  assumes "send x q = Some q'"
  shows "contents q' = contents q @ [x]" and "capacity q' = capacity q"
    and "length (contents q') \<le> capacity q'"
proof -
  have room: "length (contents q) < capacity q" using assms send_iff_room by blast
  with send_room [of q x] assms
  show *: "contents q' = contents q @ [x]" and "capacity q' = capacity q" by auto
  with room show "length (contents q') \<le> capacity q'" by simp
qed

lemma recv_SomeD:
  assumes "recv q = Some (y, q')"
  shows "contents q = y # contents q'" and "capacity q' = capacity q"
proof -
  obtain z zs where "contents q = z # zs"
    using assms recv_empty [of q] by (cases "contents q") auto
  with recv_head [of q z zs] assms
  show "contents q = y # contents q'" and "capacity q' = capacity q" by auto
qed

lemma recv_None_iff: "recv q = None \<longleftrightarrow> contents q = []"
  using recv_empty [of q] recv_head [of q] by (cases "contents q") auto

lemma recv_after_send_empty:
  assumes "contents q = []" and "send x q = Some q'"
  shows "\<exists>q''. recv q' = Some (x, q'') \<and> contents q'' = []"
proof -
  have "contents q' = [x]" using send_SomeD(1) [OF assms(2)] assms(1) by simp
  then show ?thesis using recv_head [of q' x "[]"] by blast
qed

end

interpretation go_chan: bounded_queue chan_send chan_recv chan_buf chan_cap
proof unfold_locales
  fix q :: "'a chan" and x y :: 'a and ys :: "'a list"
  show "length (chan_buf q) < chan_cap q \<Longrightarrow>
      \<exists>q'. chan_send x q = Some q' \<and> chan_buf q' = chan_buf q @ [x] \<and> chan_cap q' = chan_cap q"
    by (simp add: chan_send_def)
  show "chan_cap q \<le> length (chan_buf q) \<Longrightarrow> chan_send x q = None"
    by (simp add: chan_send_def)
  show "chan_buf q = [] \<Longrightarrow> chan_recv q = None"
    by (simp add: chan_recv_def)
  show "chan_buf q = y # ys \<Longrightarrow>
      \<exists>q'. chan_recv q = Some (y, q') \<and> chan_buf q' = ys \<and> chan_cap q' = chan_cap q"
    by (simp add: chan_recv_def)
qed

lemma make_chan_simps [simp]:
  "chan_buf (make_chan n) = []" "chan_cap (make_chan n) = n"
  by (simp_all add: make_chan_def)

end
