(* ===== verification/Timer.thy ===== *)
theory Timer
  imports Prelude
begin

text \<open>
  The wall-clock timer, \<open>agents/timer.go\<close>: the goroutine \<open>timerTicker\<close>, woken every
  100 ms, adds the time since its last wake-up, takes at most one command from a channel
  of capacity one, and sends on the unbuffered channel \<open>done\<close> when the elapsed time has
  passed the timeout. The four operations of the \<open>Timer\<close> interface put a command into
  the channel and block while it is full.

  Clock readings are arguments: one iteration reads the clock for \<open>time.Since\<close>
  (\<open>n1\<close>), for \<open>previousTime\<close> (\<open>n2\<close>) and, in the commands start and resume, once more
  (\<open>n3\<close>). The send on \<open>done\<close> blocks until the monitor receives: the iteration stops in
  the program point \<open>SendingDone\<close> and \<open>timer_done_received\<close> is the rest of it.
\<close>

section \<open>State and operations\<close>

datatype timer_pc = Ticking | SendingDone

record wallclock_timer =
  elapsedTime :: duration
  previousTime :: instant
  timeoutTime :: duration
  command :: "string chan"
  tick :: bool
  pc :: timer_pc

definition NewTimer :: "instant \<Rightarrow> duration \<Rightarrow> wallclock_timer" where
  "NewTimer now timeout =
     \<lparr>elapsedTime = 0, previousTime = now, timeoutTime = timeout,
      command = make_chan 1, tick = False, pc = Ticking\<rparr>"

definition incrementTimer :: "instant \<Rightarrow> instant \<Rightarrow> wallclock_timer \<Rightarrow> wallclock_timer" where
  "incrementTimer n1 n2 t =
     (if tick t
      then t\<lparr>elapsedTime := wrap64 (elapsedTime t + time_sub n1 (previousTime t)),
             previousTime := n2\<rparr>
      else t)"

definition timer_command :: "string \<Rightarrow> instant \<Rightarrow> wallclock_timer \<Rightarrow> wallclock_timer" where
  "timer_command c n3 t =
     (if c = ''reset'' then t\<lparr>tick := False, elapsedTime := 0\<rparr>
      else if c = ''start'' then t\<lparr>tick := True, elapsedTime := 0, previousTime := n3\<rparr>
      else if c = ''stop'' then t\<lparr>tick := False\<rparr>
      else if c = ''resume'' then t\<lparr>tick := True, previousTime := n3\<rparr>
      else t)"

definition timer_poll :: "instant \<Rightarrow> wallclock_timer \<Rightarrow> wallclock_timer" where
  "timer_poll n3 t =
     (case chan_recv (command t) of
        None \<Rightarrow> t
      | Some (c, ch) \<Rightarrow> timer_command c n3 (t\<lparr>command := ch\<rparr>))"

definition timerTicker_iteration ::
    "instant \<Rightarrow> instant \<Rightarrow> instant \<Rightarrow> wallclock_timer \<Rightarrow> wallclock_timer" where
  "timerTicker_iteration n1 n2 n3 t =
     (let t = timer_poll n3 (incrementTimer n1 n2 t)
      in if elapsedTime t > timeoutTime t then t\<lparr>pc := SendingDone\<rparr> else t)"

definition timer_done_received :: "wallclock_timer \<Rightarrow> wallclock_timer" where
  "timer_done_received t =
     t\<lparr>pc := Ticking, tick := False, elapsedTime := timeoutTime t\<rparr>"

text \<open>
  The operations never report an error; \<open>None\<close> is a send that blocks.
\<close>

definition timer_send :: "string \<Rightarrow> wallclock_timer \<Rightarrow> (err option \<times> wallclock_timer) option" where
  "timer_send c t =
     map_option (\<lambda>ch. (None, t\<lparr>command := ch\<rparr>)) (chan_send c (command t))"

definition Timer_Reset :: "wallclock_timer \<Rightarrow> (err option \<times> wallclock_timer) option" where
  "Timer_Reset t = timer_send ''reset'' t"

definition Timer_Start :: "wallclock_timer \<Rightarrow> (err option \<times> wallclock_timer) option" where
  "Timer_Start t = timer_send ''start'' t"

definition Timer_Stop :: "wallclock_timer \<Rightarrow> (err option \<times> wallclock_timer) option" where
  "Timer_Stop t = timer_send ''stop'' t"

definition Timer_Resume :: "wallclock_timer \<Rightarrow> (err option \<times> wallclock_timer) option" where
  "Timer_Resume t = timer_send ''resume'' t"

definition Timer_ElapsedTime :: "wallclock_timer \<Rightarrow> duration \<times> err option" where
  "Timer_ElapsedTime t = (elapsedTime t, None)"

lemmas timer_ops_def =
  Timer_Reset_def Timer_Start_def Timer_Stop_def Timer_Resume_def timer_send_def

lemmas timer_iteration_defs =
  timerTicker_iteration_def timer_poll_def incrementTimer_def timer_command_def


section \<open>The interface Timer\<close>

text \<open>
  What a client of the interface relies on: an operation queues its command and never fails,
  or blocks when the queue is full; the elapsed time is not touched by the call.
\<close>

locale timer_api =
  fixes reset start stop resume :: "'t \<Rightarrow> (err option \<times> 't) option"
    and queue :: "'t \<Rightarrow> string list"
    and room :: "'t \<Rightarrow> nat"
    and elapsed :: "'t \<Rightarrow> duration"
  assumes reset_law: "reset t = Some (e, t') \<Longrightarrow>
        e = None \<and> queue t' = queue t @ [''reset''] \<and> elapsed t' = elapsed t"
    and start_law: "start t = Some (e, t') \<Longrightarrow>
        e = None \<and> queue t' = queue t @ [''start''] \<and> elapsed t' = elapsed t"
    and stop_law: "stop t = Some (e, t') \<Longrightarrow>
        e = None \<and> queue t' = queue t @ [''stop''] \<and> elapsed t' = elapsed t"
    and resume_law: "resume t = Some (e, t') \<Longrightarrow>
        e = None \<and> queue t' = queue t @ [''resume''] \<and> elapsed t' = elapsed t"
    and blocks_iff: "reset t = None \<longleftrightarrow> room t = 0" "start t = None \<longleftrightarrow> room t = 0"
        "stop t = None \<longleftrightarrow> room t = 0" "resume t = None \<longleftrightarrow> room t = 0"
begin

lemmas op_laws = reset_law start_law stop_law resume_law

lemma op_cases:
  assumes "op \<in> {reset, start, stop, resume}"
  shows "(room t = 0 \<and> op t = None) \<or>
     (\<exists>t'. op t = Some (None, t') \<and> elapsed t' = elapsed t \<and> queue t' \<noteq> queue t)"
proof (cases "op t")
  case None
  with assms blocks_iff show ?thesis by auto
next
  case (Some p)
  obtain e t' where "p = (e, t')" by fastforce
  with Some assms show ?thesis by (auto dest: op_laws)
qed

end

interpretation timer_client: timer_api Timer_Reset Timer_Start Timer_Stop Timer_Resume
  "\<lambda>t. chan_buf (command t)" "\<lambda>t. chan_cap (command t) - length (chan_buf (command t))" elapsedTime
  by unfold_locales (auto simp: timer_ops_def chan_send_def split: if_splits)


section \<open>Frame and executability facts\<close>

lemma incrementTimer_frame [simp]:
  "timeoutTime (incrementTimer n1 n2 t) = timeoutTime t"
  "command (incrementTimer n1 n2 t) = command t"
  "tick (incrementTimer n1 n2 t) = tick t"
  "pc (incrementTimer n1 n2 t) = pc t"
  by (simp_all add: incrementTimer_def)

lemma timer_command_frame [simp]:
  "timeoutTime (timer_command c n3 t) = timeoutTime t"
  "command (timer_command c n3 t) = command t"
  "pc (timer_command c n3 t) = pc t"
  by (simp_all add: timer_command_def)

lemma timer_poll_frame [simp]:
  "timeoutTime (timer_poll n3 t) = timeoutTime t"
  "pc (timer_poll n3 t) = pc t"
  by (simp_all add: timer_poll_def split: option.splits prod.splits)

lemma timer_poll_empty [simp]: "chan_buf (command t) = [] \<Longrightarrow> timer_poll n3 t = t"
  by (simp add: timer_poll_def go_chan.recv_empty)

lemma timer_poll_head:
  "chan_buf (command t) = c # cs \<Longrightarrow>
   timer_poll n3 t = timer_command c n3 (t\<lparr>command := (command t)\<lparr>chan_buf := cs\<rparr>\<rparr>)"
  by (simp add: timer_poll_def chan_recv_def)

lemma chan_buf_timer_poll [simp]: "chan_buf (command (timer_poll n3 t)) = tl (chan_buf (command t))"
  by (cases "chan_buf (command t)") (simp_all add: timer_poll_head)

lemma chan_cap_timer_poll [simp]: "chan_cap (command (timer_poll n3 t)) = chan_cap (command t)"
  by (cases "chan_buf (command t)") (simp_all add: timer_poll_head)

lemma timerTicker_iteration_frame [simp]:
  "timeoutTime (timerTicker_iteration n1 n2 n3 t) = timeoutTime t"
  "chan_buf (command (timerTicker_iteration n1 n2 n3 t)) = tl (chan_buf (command t))"
  "chan_cap (command (timerTicker_iteration n1 n2 n3 t)) = chan_cap (command t)"
  by (simp_all add: timerTicker_iteration_def Let_def)

lemma timer_done_received_frame [simp]:
  "timeoutTime (timer_done_received t) = timeoutTime t"
  "command (timer_done_received t) = command t"
  "tick (timer_done_received t) = False"
  "pc (timer_done_received t) = Ticking"
  "elapsedTime (timer_done_received t) = timeoutTime t"
  by (simp_all add: timer_done_received_def)


section \<open>Runs of the timer\<close>

text \<open>
  An event is a wake-up with its three clock readings, the receipt of the timeout by the
  monitor, or a command put into the channel. While the goroutine is blocked on \<open>done\<close>
  the ticks are dropped, as Go's \<open>Ticker\<close> does for a slow receiver. \<open>None\<close> is a run the
  program cannot make: a command sent into the full channel, or a receive with no sender.
\<close>

datatype timer_event = Tick instant instant instant | DoneReceived | Put string

fun timer_step :: "wallclock_timer \<Rightarrow> timer_event \<Rightarrow> wallclock_timer option" where
  "timer_step t (Tick n1 n2 n3) =
     (if pc t = Ticking then Some (timerTicker_iteration n1 n2 n3 t) else Some t)"
| "timer_step t DoneReceived =
     (if pc t = SendingDone then Some (timer_done_received t) else None)"
| "timer_step t (Put c) = map_option snd (timer_send c t)"

fun timer_run :: "wallclock_timer \<Rightarrow> timer_event list \<Rightarrow> wallclock_timer option" where
  "timer_run t [] = Some t"
| "timer_run t (e # es) = (case timer_step t e of None \<Rightarrow> None | Some t' \<Rightarrow> timer_run t' es)"

definition timer_commands :: "string set" where
  "timer_commands = {''reset'', ''start'', ''stop'', ''resume''}"

text \<open>
  Clock readings never go back, and a run lasts less than \<open>2 ^ 62\<close> nanoseconds (146
  years), so that no sum of durations leaves \<open>int64\<close>.
\<close>

fun timer_clock_ok :: "instant \<Rightarrow> instant \<Rightarrow> timer_event list \<Rightarrow> bool" where
  "timer_clock_ok t0 now [] \<longleftrightarrow> True"
| "timer_clock_ok t0 now (Tick n1 n2 n3 # es) \<longleftrightarrow>
     now \<le> n1 \<and> n1 \<le> n2 \<and> n2 \<le> n3 \<and> n3 \<le> t0 + 2 ^ 62 \<and> timer_clock_ok t0 n3 es"
| "timer_clock_ok t0 now (DoneReceived # es) \<longleftrightarrow> timer_clock_ok t0 now es"
| "timer_clock_ok t0 now (Put c # es) \<longleftrightarrow> c \<in> timer_commands \<and> timer_clock_ok t0 now es"

fun timer_now :: "instant \<Rightarrow> timer_event list \<Rightarrow> instant" where
  "timer_now now [] = now"
| "timer_now now (Tick n1 n2 n3 # es) = timer_now n3 es"
| "timer_now now (DoneReceived # es) = timer_now now es"
| "timer_now now (Put c # es) = timer_now now es"


section \<open>The invariant of the timer\<close>

definition timer_inv :: "instant \<Rightarrow> instant \<Rightarrow> wallclock_timer \<Rightarrow> bool" where
  "timer_inv t0 now t \<longleftrightarrow>
     chan_cap (command t) = 1 \<and> length (chan_buf (command t)) \<le> 1 \<and>
     set (chan_buf (command t)) \<subseteq> timer_commands \<and>
     t0 \<le> previousTime t \<and> previousTime t \<le> now \<and> now \<le> t0 + 2 ^ 62 \<and>
     0 \<le> elapsedTime t \<and> elapsedTime t \<le> previousTime t - t0 \<and>
     0 \<le> timeoutTime t \<and> (pc t = Ticking \<longleftrightarrow> elapsedTime t \<le> timeoutTime t)"

lemma timer_inv_NewTimer: "0 \<le> timeout \<Longrightarrow> timer_inv t0 t0 (NewTimer t0 timeout)"
  by (simp add: timer_inv_def NewTimer_def)

lemma incrementTimer_bounds:
  assumes "t0 \<le> previousTime t" "previousTime t \<le> n1" "n1 \<le> n2" "n2 \<le> t0 + 2 ^ 62"
    and "0 \<le> elapsedTime t" "elapsedTime t \<le> previousTime t - t0"
  shows "0 \<le> elapsedTime (incrementTimer n1 n2 t)"
    and "elapsedTime (incrementTimer n1 n2 t) \<le> previousTime (incrementTimer n1 n2 t) - t0"
    and "t0 \<le> previousTime (incrementTimer n1 n2 t)"
    and "previousTime (incrementTimer n1 n2 t) \<le> n2"
proof -
  have sub: "time_sub n1 (previousTime t) = n1 - previousTime t"
    using assms by (intro time_sub_exact) (simp add: in_int64_def)
  have "in_int64 (elapsedTime t + (n1 - previousTime t))"
    using assms by (simp add: in_int64_def)
  then have eq: "tick t \<Longrightarrow>
      elapsedTime (incrementTimer n1 n2 t) = elapsedTime t + (n1 - previousTime t)"
    by (simp add: incrementTimer_def sub)
  then show "0 \<le> elapsedTime (incrementTimer n1 n2 t)"
    and "elapsedTime (incrementTimer n1 n2 t) \<le> previousTime (incrementTimer n1 n2 t) - t0"
    and "t0 \<le> previousTime (incrementTimer n1 n2 t)"
    and "previousTime (incrementTimer n1 n2 t) \<le> n2"
    using assms by (auto simp: incrementTimer_def)
qed

lemma timer_command_bounds:
  assumes "t0 \<le> previousTime t" "previousTime t \<le> n3"
    and "0 \<le> elapsedTime t" "elapsedTime t \<le> previousTime t - t0"
  shows "0 \<le> elapsedTime (timer_command c n3 t)"
    and "elapsedTime (timer_command c n3 t) \<le> previousTime (timer_command c n3 t) - t0"
    and "t0 \<le> previousTime (timer_command c n3 t)"
    and "previousTime (timer_command c n3 t) \<le> n3"
  using assms by (auto simp: timer_command_def)

lemma timer_poll_bounds:
  assumes "t0 \<le> previousTime t" "previousTime t \<le> n3"
    and "0 \<le> elapsedTime t" "elapsedTime t \<le> previousTime t - t0"
  shows "0 \<le> elapsedTime (timer_poll n3 t)"
    and "elapsedTime (timer_poll n3 t) \<le> previousTime (timer_poll n3 t) - t0"
    and "t0 \<le> previousTime (timer_poll n3 t)"
    and "previousTime (timer_poll n3 t) \<le> n3"
  using assms timer_command_bounds [of t0 "t\<lparr>command := ch\<rparr>" n3 for ch]
  by (auto simp: timer_poll_def split: option.splits prod.splits)

lemma timer_inv_iteration [inv_intros]:
  assumes inv: "timer_inv t0 now t" and "now \<le> n1" "n1 \<le> n2" "n2 \<le> n3" "n3 \<le> t0 + 2 ^ 62"
    and ticking: "pc t = Ticking"
  shows "timer_inv t0 n3 (timerTicker_iteration n1 n2 n3 t)"
proof -
  let ?i = "incrementTimer n1 n2 t"
  have i: "0 \<le> elapsedTime ?i" "elapsedTime ?i \<le> previousTime ?i - t0"
      "t0 \<le> previousTime ?i" "previousTime ?i \<le> n2"
    using incrementTimer_bounds [of t0 t n1 n2] assms by (simp_all add: timer_inv_def)
  with timer_poll_bounds [of t0 ?i n3] \<open>n2 \<le> n3\<close>
  have "0 \<le> elapsedTime (timer_poll n3 ?i)"
    "elapsedTime (timer_poll n3 ?i) \<le> previousTime (timer_poll n3 ?i) - t0"
    "t0 \<le> previousTime (timer_poll n3 ?i)" "previousTime (timer_poll n3 ?i) \<le> n3"
    by auto
  moreover have "set (tl (chan_buf (command t))) \<subseteq> timer_commands"
    using inv by (cases "chan_buf (command t)") (auto simp: timer_inv_def)
  ultimately show ?thesis
    using inv assms(5) ticking
    by (auto simp: timer_inv_def timerTicker_iteration_def Let_def)
qed

lemma timer_inv_send [inv_intros]:
  assumes "timer_inv t0 now t" and "c \<in> timer_commands" and "timer_send c t = Some (e, t')"
  shows "timer_inv t0 now t'"
proof -
  from assms(3) obtain ch where "chan_send c (command t) = Some ch" and "t' = t\<lparr>command := ch\<rparr>"
    by (auto simp: timer_send_def)
  with go_chan.send_SomeD [of c "command t" ch] assms(1,2) show ?thesis
    by (simp add: timer_inv_def)
qed

lemma timer_inv_done_received [inv_intros]:
  "timer_inv t0 now t \<Longrightarrow> pc t = SendingDone \<Longrightarrow> timer_inv t0 now (timer_done_received t)"
  by (auto simp: timer_inv_def timer_done_received_def)

lemma timer_inv_run:
  assumes "timer_inv t0 now t" and "timer_clock_ok t0 now es" and "timer_run t es = Some t'"
  shows "timer_inv t0 (timer_now now es) t'"
  using assms
proof (induction es arbitrary: now t)
  case Nil
  then show ?case by simp
next
  case (Cons e es)
  show ?case
  proof (cases e)
    case (Tick n1 n2 n3)
    have "timer_inv t0 n3 (if pc t = Ticking then timerTicker_iteration n1 n2 n3 t else t)"
      using Cons.prems Tick timer_inv_iteration [of t0 now t n1 n2 n3]
      by (auto simp: timer_inv_def)
    with Cons Tick show ?thesis by (auto split: if_splits)
  next
    case DoneReceived
    with Cons show ?thesis by (auto split: if_splits intro: timer_inv_done_received)
  next
    case (Put c)
    with Cons.prems obtain e' t1 where "timer_send c t = Some (e', t1)" and run: "timer_run t1 es = Some t'"
      by (auto split: option.splits)
    with Cons.prems Put have "timer_inv t0 now t1" by (auto intro: timer_inv_send)
    with Cons.IH [OF this _ run] Cons.prems Put show ?thesis by simp
  qed
qed


section \<open>The abstract stopwatch\<close>

text \<open>
  What the \<open>Timer\<close> interface promises: a stopwatch that is a pair of a start instant and
  the time collected in earlier laps. It has no ticks; its elapsed time can be read at any
  instant.
\<close>

record stopwatch =
  sw_running :: bool
  sw_acc :: duration
  sw_since :: instant

definition sw_elapsed :: "stopwatch \<Rightarrow> instant \<Rightarrow> duration" where
  "sw_elapsed s now = sw_acc s + (if sw_running s then now - sw_since s else 0)"

definition sw_command :: "string \<Rightarrow> instant \<Rightarrow> stopwatch \<Rightarrow> stopwatch" where
  "sw_command c now s =
     (if c = ''reset'' then s\<lparr>sw_running := False, sw_acc := 0\<rparr>
      else if c = ''start'' then \<lparr>sw_running = True, sw_acc = 0, sw_since = now\<rparr>
      else if c = ''stop'' then s\<lparr>sw_running := False, sw_acc := sw_elapsed s now\<rparr>
      else if c = ''resume'' \<and> \<not> sw_running s then s\<lparr>sw_running := True, sw_since := now\<rparr>
      else s)"

text \<open>
  The stopwatch runs on a clock of its own, \<open>d\<close> behind the wall clock. The simulation
  relation: the timer has collected the stopwatch's time up to the second clock reading of
  its last wake-up.
\<close>

definition timer_sim :: "duration \<Rightarrow> wallclock_timer \<Rightarrow> stopwatch \<Rightarrow> bool" where
  "timer_sim d t s \<longleftrightarrow>
     tick t = sw_running s \<and> elapsedTime t = sw_elapsed s (previousTime t - d)"

lemma timer_sim_NewTimer:
  "timer_sim d (NewTimer now timeout) \<lparr>sw_running = False, sw_acc = 0, sw_since = now\<rparr>"
  by (simp add: timer_sim_def NewTimer_def sw_elapsed_def)


section \<open>Refinement of the abstract timer\<close>

text \<open>
  The abstract timer is a stopwatch with a limit, at most one pending command and a flag
  that says that the timeout is waiting to be received. A pending command takes effect at
  the next wake-up: a start, and a resume of a stopped stopwatch, at the third clock reading
  of it, any other at the first. \<open>lost\<close> is how far the stopwatch's clock is behind the
  wall clock: it stands still from the first to the last clock reading of every wake-up that
  finds the stopwatch running and lets it run on.
\<close>

record timer_spec =
  watch :: stopwatch
  pending :: "string list"
  expired :: bool
  limit :: duration
  lost :: duration

definition spec_wake :: "instant \<Rightarrow> instant \<Rightarrow> instant \<Rightarrow> timer_spec \<Rightarrow> timer_spec" where
  "spec_wake n1 n2 n3 a =
     (let c = (case pending a of [] \<Rightarrow> ''none'' | c # _ \<Rightarrow> c);
          running = sw_running (watch a);
          now = (if c = ''start'' \<or> c = ''resume'' \<and> \<not> running then n3 else n1) - lost a;
          w = sw_command c now (watch a);
          still = (if \<not> running \<or> c \<in> {''start'', ''stop'', ''reset''} then 0
                   else if c = ''resume'' then n3 - n1 else n2 - n1)
      in a\<lparr>watch := w, pending := tl (pending a), expired := limit a < sw_elapsed w now,
           lost := lost a + still\<rparr>)"

fun spec_step :: "timer_spec \<Rightarrow> timer_event \<Rightarrow> timer_spec option" where
  "spec_step a (Tick n1 n2 n3) = Some (if expired a then a else spec_wake n1 n2 n3 a)"
| "spec_step a DoneReceived =
     (if expired a
      then Some (a\<lparr>expired := False, watch := (watch a)\<lparr>sw_running := False, sw_acc := limit a\<rparr>\<rparr>)
      else None)"
| "spec_step a (Put c) = (if pending a = [] then Some (a\<lparr>pending := [c]\<rparr>) else None)"

fun spec_run :: "timer_spec \<Rightarrow> timer_event list \<Rightarrow> timer_spec option" where
  "spec_run a [] = Some a"
| "spec_run a (e # es) = (case spec_step a e of None \<Rightarrow> None | Some a' \<Rightarrow> spec_run a' es)"

definition spec_init :: "instant \<Rightarrow> duration \<Rightarrow> timer_spec" where
  "spec_init now timeout =
     \<lparr>watch = \<lparr>sw_running = False, sw_acc = 0, sw_since = now\<rparr>, pending = [],
      expired = False, limit = timeout, lost = 0\<rparr>"

definition timer_refines :: "wallclock_timer \<Rightarrow> timer_spec \<Rightarrow> bool" where
  "timer_refines t a \<longleftrightarrow>
     timer_sim (lost a) t (watch a) \<and> chan_buf (command t) = pending a \<and>
     (pc t = SendingDone) = expired a \<and> timeoutTime t = limit a"

text \<open>The time between the first and the last clock reading, over all wake-ups of a run.\<close>

fun wakeup_time :: "timer_event list \<Rightarrow> duration" where
  "wakeup_time [] = 0"
| "wakeup_time (Tick n1 n2 n3 # es) = (n3 - n1) + wakeup_time es"
| "wakeup_time (_ # es) = wakeup_time es"

lemma timer_refines_init: "timer_refines (NewTimer now timeout) (spec_init now timeout)"
  by (simp add: timer_refines_def spec_init_def timer_sim_NewTimer) (simp add: NewTimer_def)

lemma incrementTimer_exact:
  assumes "timer_inv t0 now t" and "now \<le> n1" "n1 \<le> t0 + 2 ^ 62"
  shows "incrementTimer n1 n2 t =
     (if tick t then t\<lparr>elapsedTime := elapsedTime t + (n1 - previousTime t), previousTime := n2\<rparr> else t)"
proof -
  have "time_sub n1 (previousTime t) = n1 - previousTime t"
    using assms by (intro time_sub_exact) (simp add: in_int64_def timer_inv_def)
  moreover have "wrap64 (elapsedTime t + (n1 - previousTime t)) = elapsedTime t + (n1 - previousTime t)"
    using assms by (intro wrap64_id) (simp add: in_int64_def timer_inv_def)
  ultimately show ?thesis by (simp add: incrementTimer_def)
qed

text \<open>One wake-up of the timer is one of the abstract timer.\<close>

lemma timer_refines_poll:
  assumes ref: "timer_refines t a" and inv: "timer_inv t0 now t"
    and clock: "now \<le> n1" "n1 \<le> t0 + 2 ^ 62"
  shows "timer_sim (lost (spec_wake n1 n2 n3 a)) (timer_poll n3 (incrementTimer n1 n2 t))
       (watch (spec_wake n1 n2 n3 a))"
    and "limit a < elapsedTime (timer_poll n3 (incrementTimer n1 n2 t)) \<longleftrightarrow> expired (spec_wake n1 n2 n3 a)"
proof -
  have sim: "tick t = sw_running (watch a)" "elapsedTime t = sw_elapsed (watch a) (previousTime t - lost a)"
    and buf: "chan_buf (command t) = pending a" and lim: "0 \<le> limit a"
    using ref inv by (simp_all add: timer_refines_def timer_sim_def timer_inv_def)
  note defs = incrementTimer_exact [OF inv clock] timer_sim_def spec_wake_def sw_elapsed_def sw_command_def
    timer_command_def Let_def
  show "timer_sim (lost (spec_wake n1 n2 n3 a)) (timer_poll n3 (incrementTimer n1 n2 t))
       (watch (spec_wake n1 n2 n3 a))"
    using sim buf by (cases "pending a") (auto simp: defs timer_poll_head)
  show "limit a < elapsedTime (timer_poll n3 (incrementTimer n1 n2 t)) \<longleftrightarrow> expired (spec_wake n1 n2 n3 a)"
    using sim buf lim by (cases "pending a") (auto simp: defs timer_poll_head)
qed

lemma timer_refines_wake:
  assumes ref: "timer_refines t a" and inv: "timer_inv t0 now t"
    and clock: "now \<le> n1" "n1 \<le> t0 + 2 ^ 62" and ticking: "pc t = Ticking"
  shows "timer_refines (timerTicker_iteration n1 n2 n3 t) (spec_wake n1 n2 n3 a)"
proof -
  have frame: "pending (spec_wake n1 n2 n3 a) = tl (pending a)" "limit (spec_wake n1 n2 n3 a) = limit a"
    by (simp_all add: spec_wake_def Let_def)
  show ?thesis
    using timer_refines_poll [OF ref inv clock, where ?n2.0 = n2 and ?n3.0 = n3] ref ticking
    by (auto simp: timer_refines_def timer_sim_def timerTicker_iteration_def Let_def frame)
qed

lemma timer_refines_step:
  assumes ref: "timer_refines t a" and inv: "timer_inv t0 now t"
    and clock: "timer_clock_ok t0 now [e]"
  shows "rel_option timer_refines (timer_step t e) (spec_step a e)"
proof (cases e)
  case (Tick n1 n2 n3)
  then show ?thesis
    using assms timer_refines_wake [OF ref inv, of n1 n2 n3]
    by (cases "pc t") (auto simp: timer_refines_def)
next
  case DoneReceived
  then show ?thesis
    using ref
    by (auto simp: timer_refines_def timer_sim_def sw_elapsed_def timer_done_received_def)
next
  case (Put c)
  have "chan_cap (command t) = 1" using inv by (simp add: timer_inv_def)
  with Put ref show ?thesis
    by (auto simp: timer_send_def chan_send_def timer_refines_def timer_sim_def)
qed

lemma timer_clock_ok_Cons:
  "timer_clock_ok t0 now (e # es) \<longleftrightarrow> timer_clock_ok t0 now [e] \<and> timer_clock_ok t0 (timer_now now [e]) es"
  by (cases e) auto

lemma timer_refines_run:
  assumes "timer_refines t a" and "timer_inv t0 now t" and "timer_clock_ok t0 now es"
  shows "rel_option timer_refines (timer_run t es) (spec_run a es)"
  using assms
proof (induction es arbitrary: t a now)
  case Nil
  then show ?case by simp
next
  case (Cons e es)
  have clock: "timer_clock_ok t0 now [e]" "timer_clock_ok t0 (timer_now now [e]) es"
    using Cons.prems(3) timer_clock_ok_Cons by blast+
  have step: "rel_option timer_refines (timer_step t e) (spec_step a e)"
    using timer_refines_step [OF Cons.prems(1,2) clock(1)] .
  show ?case
  proof (cases "timer_step t e")
    case None
    with step show ?thesis by simp
  next
    case (Some t')
    with step obtain a' where a': "spec_step a e = Some a'" "timer_refines t' a'"
      by (cases "spec_step a e") auto
    have "timer_run t [e] = Some t'" using Some by simp
    then have "timer_inv t0 (timer_now now [e]) t'"
      using timer_inv_run Cons.prems(2) clock(1) by blast
    with Cons.IH [OF a'(2) this clock(2)] Some a'(1) show ?thesis by simp
  qed
qed

lemma spec_lost_run:
  assumes "timer_clock_ok t0 now es" and "spec_run a es = Some a'"
  shows "lost a \<le> lost a' \<and> lost a' \<le> lost a + wakeup_time es"
  using assms
proof (induction es arbitrary: a now)
  case Nil
  then show ?case by simp
next
  case (Cons e es)
  from Cons.prems(2) obtain a1 where a1: "spec_step a e = Some a1" "spec_run a1 es = Some a'"
    by (auto split: option.splits)
  have clock: "timer_clock_ok t0 now [e]" "timer_clock_ok t0 (timer_now now [e]) es"
    using Cons.prems(1) timer_clock_ok_Cons by blast+
  have "lost a \<le> lost a1 \<and> lost a1 \<le> lost a + wakeup_time [e]"
    using a1(1) clock(1) by (cases e) (auto simp: spec_wake_def Let_def split: if_splits)
  moreover have "wakeup_time (e # es) = wakeup_time [e] + wakeup_time es"
    by (cases e) auto
  ultimately show ?case using Cons.IH [OF clock(2) a1(2)] by simp
qed


section \<open>One shot, and no timeout missed\<close>

text \<open>
  After the timeout has been received, nothing but a start or a resume arms the timer
  again.
\<close>

definition disarmed :: "wallclock_timer \<Rightarrow> bool" where
  "disarmed t \<longleftrightarrow> pc t = Ticking \<and> \<not> tick t \<and> elapsedTime t \<le> timeoutTime t \<and> 0 \<le> timeoutTime t \<and>
     set (chan_buf (command t)) \<inter> {''start'', ''resume''} = {}"

lemma disarmed_command:
  "disarmed t \<Longrightarrow> c \<notin> {''start'', ''resume''} \<Longrightarrow> disarmed (timer_command c n t)"
  by (auto simp: disarmed_def timer_command_def)

lemma disarmed_iteration: "disarmed t \<Longrightarrow> disarmed (timerTicker_iteration n1 n2 n3 t)"
proof -
  assume d: "disarmed t"
  have "disarmed (timer_poll n3 t)"
  proof (cases "chan_buf (command t)")
    case (Cons c cs)
    with d have "disarmed (t\<lparr>command := (command t)\<lparr>chan_buf := cs\<rparr>\<rparr>)"
      and "c \<notin> {''start'', ''resume''}"
      by (auto simp: disarmed_def)
    from disarmed_command [OF this] show ?thesis by (simp add: timer_poll_head Cons)
  qed (use d in simp)
  moreover have "incrementTimer n1 n2 t = t" using d by (simp add: incrementTimer_def disarmed_def)
  ultimately show ?thesis by (simp add: timerTicker_iteration_def disarmed_def Let_def)
qed

lemma disarmed_run:
  assumes "disarmed t" and "timer_run t es = Some t'"
    and "Put ''start'' \<notin> set es" and "Put ''resume'' \<notin> set es"
  shows "disarmed t'"
  using assms
proof (induction es arbitrary: t)
  case Nil
  then show ?case by simp
next
  case (Cons e es)
  from Cons.prems obtain t1 where t1: "timer_step t e = Some t1" "timer_run t1 es = Some t'"
    by (auto split: option.splits)
  have "disarmed t1"
  proof (cases e)
    case (Tick n1 n2 n3)
    with t1 Cons.prems(1) show ?thesis by (auto simp: disarmed_iteration split: if_splits)
  next
    case DoneReceived
    with t1 Cons.prems(1) show ?thesis by (simp add: disarmed_def split: if_splits)
  next
    case (Put c)
    with t1 Cons.prems show ?thesis
      by (auto simp: timer_send_def chan_send_def disarmed_def split: if_splits)
  qed
  with Cons t1 show ?case by auto
qed

text \<open>
  Wake-ups only, each with its three clock readings; the time between the first two readings
  is not counted.
\<close>

abbreviation wakeups :: "(instant \<times> instant \<times> instant) list \<Rightarrow> timer_event list" where
  "wakeups ws \<equiv> map (\<lambda>(n1, n2, n3). Tick n1 n2 n3) ws"

definition uncounted :: "(instant \<times> instant \<times> instant) list \<Rightarrow> duration" where
  "uncounted ws = (\<Sum>(n1, n2, n3)\<leftarrow>ws. n2 - n1)"

lemma uncounted_simps [simp]:
  "uncounted [] = 0" "uncounted ((n1, n2, n3) # ws) = (n2 - n1) + uncounted ws"
  by (simp_all add: uncounted_def)

lemma timer_run_blocked: "pc t = SendingDone \<Longrightarrow> timer_run t (wakeups ws) = Some t"
  by (induction ws) auto

lemma ex_less_Suc: "(\<exists>i<Suc n. P i) \<longleftrightarrow> P 0 \<or> (\<exists>i<n. P (Suc i))"
  using less_Suc_eq_0_disj by auto

lemma timer_run_wakeups_fires:
  assumes "timer_inv t0 now t" and "pc t = Ticking" and "tick t" and "chan_buf (command t) = []"
    and "timer_clock_ok t0 now (wakeups ws)"
  shows "\<exists>t'. timer_run t (wakeups ws) = Some t' \<and>
     (pc t' = SendingDone \<longleftrightarrow>
        (\<exists>i<length ws. timeoutTime t < elapsedTime t + (fst (ws ! i) - previousTime t) - uncounted (take i ws)))"
  using assms
proof (induction ws arbitrary: now t)
  case Nil
  then show ?case by simp
next
  case (Cons w ws)
  obtain n1 n2 n3 where w: "w = (n1, n2, n3)" by (cases w)
  let ?t = "timerTicker_iteration n1 n2 n3 t"
  have now: "now \<le> n1" "n1 \<le> n2" "n2 \<le> n3" "n3 \<le> t0 + 2 ^ 62" "timer_clock_ok t0 n3 (wakeups ws)"
    using Cons.prems(5) by (simp_all add: w)
  have inv: "timer_inv t0 n3 ?t"
    using timer_inv_iteration [OF Cons.prems(1) now(1-4)] Cons.prems(2) by simp
  have "n1 \<le> t0 + 2 ^ 62" using now by simp
  then have t: "?t = t\<lparr>elapsedTime := elapsedTime t + (n1 - previousTime t), previousTime := n2,
      pc := (if timeoutTime t < elapsedTime t + (n1 - previousTime t) then SendingDone else Ticking)\<rparr>"
    using Cons.prems(2-4) incrementTimer_exact [OF Cons.prems(1) now(1)]
    by (simp add: timerTicker_iteration_def Let_def)
  show ?case
  proof (cases "timeoutTime t < elapsedTime t + (n1 - previousTime t)")
    case True
    with Cons.prems(2) t show ?thesis by (simp add: w timer_run_blocked ex_less_Suc)
  next
    case False
    have "\<exists>t'. timer_run ?t (wakeups ws) = Some t' \<and>
       (pc t' = SendingDone \<longleftrightarrow>
          (\<exists>i<length ws. timeoutTime ?t < elapsedTime ?t + (fst (ws ! i) - previousTime ?t) - uncounted (take i ws)))"
      using Cons.prems False now by (intro Cons.IH [OF inv]) (simp_all add: t)
    with False Cons.prems(2) show ?thesis by (simp add: t w ex_less_Suc algebra_simps)
  qed
qed


section \<open>Properties of the timer\<close>

text \<open>
  C2: the timer refines an abstract stopwatch. Over every run from \<open>NewTimer\<close>, whatever
  the instants of the wake-ups and however far apart the clock readings of one wake-up, the
  goroutine blocks exactly when the abstract timer does, each command takes effect at the
  wake-up that takes it from the channel, the elapsed time is the stopwatch's, and the
  timeout is signalled exactly at the first wake-up at which the stopwatch is past the limit.
  The stopwatch's clock is the wall clock less the time between the readings of each wake-up
  it runs through, since \<open>incrementTimer\<close> reads the clock once for the time that has passed
  and again for the start of the next lap: it never gains, and over a run it loses at most
  the total time between the readings of the wake-ups.
\<close>

theorem timer_refines_stopwatch:
  assumes "0 \<le> timeout" and "timer_clock_ok t0 t0 es"
  shows "rel_option timer_refines (timer_run (NewTimer t0 timeout) es) (spec_run (spec_init t0 timeout) es) \<and>
     (\<forall>a. spec_run (spec_init t0 timeout) es = Some a \<longrightarrow> 0 \<le> lost a \<and> lost a \<le> wakeup_time es)"
  using timer_refines_run [OF timer_refines_init timer_inv_NewTimer [OF assms(1)] assms(2)]
    spec_lost_run [OF assms(2)]
  by (fastforce simp: spec_init_def)

text \<open>Started at 4, stopped at 12 and resumed at 20: 7 of the 8 and 2 of the 3 are counted.\<close>

theorem timer_refines_stopwatch_witness:
  "\<exists>t. timer_run (NewTimer 0 10) [Put ''start'', Tick 3 3 4, Tick 9 10 10, Put ''stop'', Tick 12 12 12,
        Put ''resume'', Tick 19 19 20, Tick 22 23 23] = Some t \<and>
     elapsedTime t = 9 \<and>
     (\<exists>a. timer_refines t a \<and> sw_elapsed (watch a) (previousTime t - lost a) = 9 \<and>
        lost a \<le> wakeup_time [Put ''start'', Tick 3 3 4, Tick 9 10 10, Put ''stop'', Tick 12 12 12,
          Put ''resume'', Tick 19 19 20, Tick 22 23 23])"
proof -
  let ?es = "[Put ''start'', Tick 3 3 4, Tick 9 10 10, Put ''stop'', Tick 12 12 12,
        Put ''resume'', Tick 19 19 20, Tick 22 23 23]"
  obtain t where t: "timer_run (NewTimer 0 10) ?es = Some t" "elapsedTime t = 9"
    by (simp add: NewTimer_def timer_send_def chan_send_def make_chan_def timer_iteration_defs
        chan_recv_def time_sub_def wrap64_def)
  have "rel_option timer_refines (timer_run (NewTimer 0 10) ?es) (spec_run (spec_init 0 10) ?es) \<and>
     (\<forall>a. spec_run (spec_init 0 10) ?es = Some a \<longrightarrow> 0 \<le> lost a \<and> lost a \<le> wakeup_time ?es)"
    by (rule timer_refines_stopwatch) (simp_all add: timer_commands_def)
  with t obtain a where "timer_refines t a" "lost a \<le> wakeup_time ?es"
    by (cases "spec_run (spec_init 0 10) ?es") auto
  moreover from this t have "sw_elapsed (watch a) (previousTime t - lost a) = 9"
    by (simp add: timer_refines_def timer_sim_def)
  ultimately show ?thesis using t by blast
qed

text \<open>
  C9: with any clock readings that do not go back (the readings of one wake-up may differ),
  the elapsed time is never negative, never more than the wall-clock time since the timer
  was created, and at most the timeout whenever the goroutine is not waiting to signal it;
  so the timeout is never signalled before the timeout has passed on the wall clock.
\<close>

theorem timer_never_early:
  assumes "0 \<le> timeout" and "timer_clock_ok t0 t0 es"
    and "timer_run (NewTimer t0 timeout) es = Some t"
  shows "0 \<le> elapsedTime t \<and> elapsedTime t \<le> timer_now t0 es - t0 \<and>
     (pc t = Ticking \<longrightarrow> elapsedTime t \<le> timeout) \<and>
     (pc t = SendingDone \<longrightarrow> timeout < timer_now t0 es - t0)"
proof -
  have inv: "timer_inv t0 (timer_now t0 es) t"
    using timer_inv_run [OF timer_inv_NewTimer [OF assms(1)] assms(2,3)] .
  have "timeoutTime t = timeout" if "timer_run u es = Some t" "timeoutTime u = timeout" for u
    using that
  proof (induction es arbitrary: u)
    case (Cons e es)
    then show ?case
      by (cases e) (auto split: option.splits if_splits simp: timer_send_def)
  qed simp
  then have "timeoutTime t = timeout" using assms(3) by (simp add: NewTimer_def)
  with inv show ?thesis by (auto simp: timer_inv_def)
qed

theorem timer_never_early_witness:
  "pc (timerTicker_iteration 7 8 8 (timerTicker_iteration 1 1 2
      ((NewTimer 0 4)\<lparr>command := \<lparr>chan_cap = 1, chan_buf = [''start'']\<rparr>\<rparr>))) = SendingDone \<and> (4::int) < 8"
proof -
  let ?t = "timerTicker_iteration 7 8 8 (timerTicker_iteration 1 1 2
      ((NewTimer 0 4)\<lparr>command := \<lparr>chan_cap = 1, chan_buf = [''start'']\<rparr>\<rparr>))"
  have ticking: "pc (timerTicker_iteration 1 1 2
      ((NewTimer 0 4)\<lparr>command := \<lparr>chan_cap = 1, chan_buf = [''start'']\<rparr>\<rparr>)) = Ticking"
    by (simp add: NewTimer_def timer_iteration_defs chan_recv_def)
  have run: "timer_run (NewTimer 0 4) [Put ''start'', Tick 1 1 2, Tick 7 8 8] = Some ?t"
    using ticking by (simp add: timer_send_def chan_send_def make_chan_def NewTimer_def)
  have "pc ?t = SendingDone"
    by (simp add: NewTimer_def timer_iteration_defs chan_recv_def time_sub_def wrap64_def)
  with timer_never_early [OF _ _ run] show ?thesis by (simp add: timer_commands_def)
qed

text \<open>
  C10: a started timer times out. After a start taken by the wake-up whose last clock reading
  is \<open>s\<close>, with no further command and any clock readings that do not go back, the goroutine
  is waiting to signal the timeout after the wake-ups \<open>ws\<close> if and only if the first reading
  of one of them is more than the timeout after \<open>s\<close>, not counting the time between the first
  and the second reading of each wake-up before it. So a timeout is missed at a wake-up only
  by that uncounted time, and when the readings of each wake-up coincide it is late by at
  most one wake-up.
\<close>

theorem timer_times_out:
  assumes "0 \<le> timeout" and "timer_clock_ok t0 t0 (Tick s1 s2 s # wakeups ws)"
  shows "\<exists>t. timer_run (NewTimer t0 timeout) (Put ''start'' # Tick s1 s2 s # wakeups ws) = Some t \<and>
     (pc t = SendingDone \<longleftrightarrow>
        (\<exists>i<length ws. timeout < fst (ws ! i) - s - (\<Sum>(n1, n2, n3)\<leftarrow>take i ws. n2 - n1)))"
proof -
  let ?u = "\<lparr>elapsedTime = 0, previousTime = s, timeoutTime = timeout,
      command = \<lparr>chan_cap = 1, chan_buf = []\<rparr>, tick = True, pc = Ticking\<rparr>"
  have start: "timer_run (NewTimer t0 timeout) (Put ''start'' # Tick s1 s2 s # es) = timer_run ?u es" for es
    using assms(1)
    by (simp add: NewTimer_def timer_send_def chan_send_def make_chan_def timer_iteration_defs
        chan_recv_def)
  have "timer_inv t0 s ?u"
    using assms by (simp add: timer_inv_def)
  from timer_run_wakeups_fires [OF this, of ws] show ?thesis
    using assms unfolding start by (simp add: uncounted_def)
qed

text \<open>
  A timeout of 5, started at 2: the wake-up at 8 signals it. If the wake-up at 4 takes until
  9 to read the clock again, the one at 12 does not signal it and the one at 15 does.
\<close>

theorem timer_times_out_witness:
  "(\<exists>t. timer_run (NewTimer 0 5) (Put ''start'' # Tick 2 2 2 # wakeups [(4, 4, 4), (7, 7, 7), (8, 8, 8)]) = Some t \<and>
      pc t = SendingDone) \<and>
   (\<exists>t. timer_run (NewTimer 0 5) (Put ''start'' # Tick 2 2 2 # wakeups [(4, 9, 9), (12, 12, 12)]) = Some t \<and>
      pc t \<noteq> SendingDone) \<and>
   (\<exists>t. timer_run (NewTimer 0 5) (Put ''start'' # Tick 2 2 2 # wakeups [(4, 9, 9), (12, 12, 12), (15, 15, 15)]) = Some t \<and>
      pc t = SendingDone)"
  using timer_times_out [of 5 0 2 2 2 "[(4, 4, 4), (7, 7, 7), (8, 8, 8)]"]
    timer_times_out [of 5 0 2 2 2 "[(4, 9, 9), (12, 12, 12)]"]
    timer_times_out [of 5 0 2 2 2 "[(4, 9, 9), (12, 12, 12), (15, 15, 15)]"]
  by (simp add: ex_less_Suc)

text \<open>
  The timeout is signalled once. After the monitor has received it, no wake-up, reset
  or stop makes the timer signal again; only a start or a resume arms it.
\<close>

theorem timer_one_shot:
  assumes "0 \<le> timeoutTime t" and "pc t = SendingDone"
    and "set (chan_buf (command t)) \<subseteq> {''reset'', ''stop''}"
    and "timer_run t (DoneReceived # es) = Some t'"
    and "Put ''start'' \<notin> set es" and "Put ''resume'' \<notin> set es"
  shows "pc t' = Ticking"
proof -
  have "disarmed (timer_done_received t)"
    using assms(1-3) by (auto simp: disarmed_def timer_done_received_def)
  with disarmed_run [of "timer_done_received t" es t'] assms show ?thesis
    by (auto simp: disarmed_def)
qed

theorem timer_one_shot_witness:
  "pc (the (timer_run ((NewTimer 0 5)\<lparr>pc := SendingDone, elapsedTime := 9\<rparr>)
     [DoneReceived, Put ''reset'', Tick 20 20 20, Tick 30 30 30])) = Ticking"
proof -
  have "timer_run ((NewTimer 0 5)\<lparr>pc := SendingDone, elapsedTime := 9\<rparr>)
     [DoneReceived, Put ''reset'', Tick 20 20 20, Tick 30 30 30] \<noteq> None"
    by (simp add: NewTimer_def timer_send_def chan_send_def make_chan_def timer_iteration_defs
        timer_done_received_def chan_recv_def)
  then obtain t' where "timer_run ((NewTimer 0 5)\<lparr>pc := SendingDone, elapsedTime := 9\<rparr>)
     [DoneReceived, Put ''reset'', Tick 20 20 20, Tick 30 30 30] = Some t'" by blast
  with timer_one_shot [OF _ _ _ this] show ?thesis by (simp add: NewTimer_def)
qed
end
