(* ===== verification/Measured.thy ===== *)
theory Measured
  imports Prelude
begin

text \<open>
  The byte counter of the child's stdout: \<open>iocontrol.MeasuredReader\<close> and its
  \<open>rateCounter\<close> (vendored, \<open>iocontrol/measure.go\<close> and \<open>iocontrol/counter.go\<close>), which
  \<open>agents.Job\<close> reads through \<open>StdoutByteCount\<close>. The wrapped reader is the pipe: what a
  \<open>Read\<close> returns is an argument. The mutex makes each operation atomic. Floating-point
  division is a parameter of \<open>counter_Rate\<close>.
\<close>

record rateCounter =
  count :: int
  lastCount :: int
  lastCheck :: "instant option"  \<comment> \<open>\<open>None\<close> is the zero \<open>time.Time\<close>\<close>

definition newCounter :: rateCounter where
  "newCounter = \<lparr>count = 0, lastCount = 0, lastCheck = None\<rparr>"

definition counter_Add :: "instant \<Rightarrow> int \<Rightarrow> rateCounter \<Rightarrow> rateCounter" where
  "counter_Add now n c =
     (let c = c\<lparr>count := wrap64 (count c + n)\<rparr>
      in if lastCheck c = None then c\<lparr>lastCheck := Some now\<rparr> else c)"

definition counter_Total :: "rateCounter \<Rightarrow> int" where
  "counter_Total c = count c"

text \<open>The zero time is the year 1: every later instant is past the largest duration from it.\<close>

definition counter_Rate :: "(int \<Rightarrow> int \<Rightarrow> 'f) \<Rightarrow> instant \<Rightarrow> duration \<Rightarrow> rateCounter \<Rightarrow> 'f \<times> rateCounter" where
  "counter_Rate fdiv now perPeriod c =
     (let between = (case lastCheck c of None \<Rightarrow> 2 ^ 63 - 1 | Some t \<Rightarrow> time_sub now t);
          changed = wrap64 (count c - lastCount c);
          rate = fdiv (wrap64 (changed * perPeriod)) between
      in (rate, c\<lparr>lastCount := count c, lastCheck := Some now\<rparr>))"

type_synonym measured_reader = rateCounter

definition NewMeasuredReader :: measured_reader where
  "NewMeasuredReader = newCounter"

definition reader_Total :: "measured_reader \<Rightarrow> int" where
  "reader_Total m = counter_Total m"

definition reader_Read ::
    "int \<times> err option \<Rightarrow> instant \<Rightarrow> measured_reader \<Rightarrow> (int \<times> err option) \<times> measured_reader" where
  "reader_Read res now m = (let (n, e) = res in ((n, e), counter_Add now n m))"

fun read_all :: "((int \<times> err option) \<times> instant) list \<Rightarrow> measured_reader \<Rightarrow> measured_reader" where
  "read_all [] m = m"
| "read_all ((res, now) # rs) m = read_all rs (snd (reader_Read res now m))"

lemma counter_Add_count [simp]: "count (counter_Add now n c) = wrap64 (count c + n)"
  by (simp add: counter_Add_def Let_def)

lemma count_reader_Read [simp]: "count (snd (reader_Read res now m)) = wrap64 (count m + fst res)"
  by (cases res) (simp add: reader_Read_def)

definition bytes_read :: "((int \<times> err option) \<times> instant) list \<Rightarrow> int" where
  "bytes_read rs = (\<Sum>r\<leftarrow>rs. fst (fst r))"

lemma count_read_all: "wrap64 (count (read_all rs m)) = wrap64 (count m + bytes_read rs)"
proof (induction rs m rule: read_all.induct)
  case (1 m)
  then show ?case by (simp add: bytes_read_def)
next
  case (2 res now rs m)
  then show ?case by (simp add: bytes_read_def add.assoc)
qed

lemma in_int64_count_read_all: "in_int64 (count m) \<Longrightarrow> in_int64 (count (read_all rs m))"
  by (induction rs m rule: read_all.induct) simp_all

lemma Total_read_all:
  "reader_Total (read_all rs NewMeasuredReader) = wrap64 (bytes_read rs)"
  using count_read_all [of rs newCounter] in_int64_count_read_all [of newCounter rs]
  by (simp add: reader_Total_def counter_Total_def NewMeasuredReader_def newCounter_def)

text \<open>A \<open>Read\<close> of an \<open>io.Reader\<close> returns between 0 and the buffer's length bytes.\<close>

lemma bytes_read_nonneg: "\<forall>r\<in>set rs. 0 \<le> fst (fst r) \<Longrightarrow> 0 \<le> bytes_read rs"
  by (induction rs) (auto simp: bytes_read_def)

lemma bytes_read_append [simp]: "bytes_read (xs @ ys) = bytes_read xs + bytes_read ys"
  by (simp add: bytes_read_def)

text \<open>
  The byte count reported for stdout is the number of bytes read from the pipe, over
  every sequence of reads, errors included, as long as it is below \<open>2 ^ 63\<close>; so it never
  decreases.
\<close>

theorem stdout_total_exact:
  assumes "\<forall>r\<in>set (rs @ later). 0 \<le> fst (fst r)" and "bytes_read (rs @ later) < 2 ^ 63"
  shows "reader_Total (read_all rs NewMeasuredReader) = bytes_read rs \<and>
     reader_Total (read_all rs NewMeasuredReader) \<le> reader_Total (read_all (rs @ later) NewMeasuredReader)"
proof -
  have "0 \<le> bytes_read rs" and "0 \<le> bytes_read later"
    using assms(1) by (auto intro: bytes_read_nonneg)
  then have "in_int64 (bytes_read rs)" and "in_int64 (bytes_read (rs @ later))"
    using assms(2) by (simp_all add: in_int64_def)
  then show ?thesis using \<open>0 \<le> bytes_read later\<close> by (simp add: Total_read_all)
qed

theorem stdout_total_exact_witness:
  "reader_Total (read_all [((4096, None), 1), ((0, Some ''EAGAIN''), 2)] NewMeasuredReader) = 4096"
  using stdout_total_exact [of "[((4096, None), 1), ((0, Some ''EAGAIN''), 2)]" "[((7, None), 3)]"]
  by (simp add: bytes_read_def)

section \<open>The writer and the rates\<close>

text \<open>
  \<open>MeasuredWriter\<close> and the rates, which proc_box does not use. \<open>fdiv\<close> is the division of the rate, \<open>ftou\<close> the
  conversion of a float to an unsigned integer.
\<close>

type_synonym measured_writer = rateCounter

definition NewMeasuredWriter :: measured_writer where
  "NewMeasuredWriter = newCounter"

definition writer_Total :: "measured_writer \<Rightarrow> int" where
  "writer_Total m = counter_Total m"

definition writer_Write ::
    "int \<times> err option \<Rightarrow> instant \<Rightarrow> measured_writer \<Rightarrow> (int \<times> err option) \<times> measured_writer" where
  "writer_Write res now m = (let (n, e) = res in ((n, e), counter_Add now n m))"

definition BytesPer ::
    "(int \<Rightarrow> int \<Rightarrow> 'f) \<Rightarrow> ('f \<Rightarrow> 64 word) \<Rightarrow> instant \<Rightarrow> duration \<Rightarrow> rateCounter \<Rightarrow> 64 word \<times> rateCounter" where
  "BytesPer fdiv ftou now perPeriod m = (let (r, m) = counter_Rate fdiv now perPeriod m in (ftou r, m))"

definition BytesPerSec ::
    "(int \<Rightarrow> int \<Rightarrow> 'f) \<Rightarrow> ('f \<Rightarrow> 64 word) \<Rightarrow> instant \<Rightarrow> rateCounter \<Rightarrow> 64 word \<times> rateCounter" where
  "BytesPerSec fdiv ftou now m = (let (r, m) = counter_Rate fdiv now second m in (ftou r, m))"

text \<open>
  Every byte is in exactly one rate: between two measurements the rate is that of the bytes read in
  between, over the time since the first.
\<close>

theorem rate_since_last_measurement:
  assumes "\<forall>r\<in>set rs. 0 \<le> fst (fst r)" and "bytes_read rs < 2 ^ 63"
    and "in_int64 (t2 - t1)" and "snd (counter_Rate fdiv t1 d m) = m1"
  shows "fst (counter_Rate fdiv t2 d (read_all rs m1)) = fdiv (wrap64 (bytes_read rs * d)) (t2 - t1)"
proof -
  have m1: "count m1 = lastCount m1" "lastCheck m1 = Some t1"
    using assms(4) by (auto simp: counter_Rate_def Let_def)
  have kept: "lastCheck (read_all rs m) = lastCheck m \<and> lastCount (read_all rs m) = lastCount m"
    if "lastCheck m \<noteq> None" for rs m
    using that by (induction rs m rule: read_all.induct) (auto simp: reader_Read_def counter_Add_def Let_def)
  have "wrap64 (count (read_all rs m1) - lastCount m1) = wrap64 (bytes_read rs)"
    using count_read_all [of rs m1] m1(1) wrap64_add_left [of "count (read_all rs m1)" "- lastCount m1"]
      wrap64_add_left [of "count m1 + bytes_read rs" "- lastCount m1"] by simp
  moreover have "wrap64 (bytes_read rs) = bytes_read rs"
    using bytes_read_nonneg [OF assms(1)] assms(2) by (simp add: in_int64_def)
  ultimately show ?thesis using kept [of m1 rs] m1 assms(3)
    by (simp add: counter_Rate_def Let_def time_sub_exact)
qed

end
