(* ===== verification/Job_Control.thy ===== *)
theory Job_Control
  imports Measured
begin

text \<open>
  The contained process, \<open>agents/job_control.go\<close>: starting it in a process group of its
  own, the four operations that signal the group, and the goroutines that copy its
  streams and wait for its end.

  The kernel is a parameter: \<open>kill_result\<close> gives the result of \<open>kill(2)\<close> as any function
  of the calls made so far, and \<open>kills\<close> records the calls, oldest first. Signal numbers
  are those of Linux.
\<close>

section \<open>The operating system\<close>

type_synonym sig = int

abbreviation (input) SIGHUP :: sig where "SIGHUP \<equiv> 1"
abbreviation (input) SIGINT :: sig where "SIGINT \<equiv> 2"
abbreviation (input) SIGQUIT :: sig where "SIGQUIT \<equiv> 3"
abbreviation (input) SIGKILL :: sig where "SIGKILL \<equiv> 9"
abbreviation (input) SIGTERM :: sig where "SIGTERM \<equiv> 15"
abbreviation (input) SIGCONT :: sig where "SIGCONT \<equiv> 18"
abbreviation (input) SIGSTOP :: sig where "SIGSTOP \<equiv> 19"

record os =
  kills :: "(int \<times> sig) list"
  kill_result :: "(int \<times> sig) list \<Rightarrow> int \<Rightarrow> sig \<Rightarrow> err option"

definition sys_kill :: "int \<Rightarrow> sig \<Rightarrow> os \<Rightarrow> err option \<times> os" where
  "sys_kill pid s w = (kill_result w (kills w) pid s, w\<lparr>kills := kills w @ [(pid, s)]\<rparr>)"

lemma sys_kill_frame [simp]:
  "kills (snd (sys_kill pid s w)) = kills w @ [(pid, s)]"
  "kill_result (snd (sys_kill pid s w)) = kill_result w"
  by (simp_all add: sys_kill_def)


section \<open>The job\<close>

record job =
  Cmd :: "string list"
  Proc :: int
  Pid :: int
  Pgid :: int
  stdoutByteCountLimit :: int
  stdoutReader :: measured_reader

definition Job_Stop :: "job \<Rightarrow> os \<Rightarrow> err option \<times> os" where
  "Job_Stop j w =
     (case sys_kill (wrap64 (- Pgid j)) SIGTERM w of
        (Some e, w) \<Rightarrow> (Some e, w)
      | (None, w) \<Rightarrow> (None, w))"

definition Job_Resume :: "job \<Rightarrow> os \<Rightarrow> err option \<times> os" where
  "Job_Resume j w =
     (case sys_kill (wrap64 (- Pgid j)) SIGCONT w of
        (Some e, w) \<Rightarrow> (Some e, w)
      | (None, w) \<Rightarrow> (None, w))"

definition Job_Suspend :: "job \<Rightarrow> os \<Rightarrow> err option \<times> os" where
  "Job_Suspend j w =
     (case sys_kill (wrap64 (- Pgid j)) SIGSTOP w of
        (Some e, w) \<Rightarrow> (Some e, w)
      | (None, w) \<Rightarrow> (None, w))"

definition Job_Kill :: "int \<Rightarrow> job \<Rightarrow> os \<Rightarrow> err option \<times> os" where
  "Job_Kill sig j w =
     (case (if sig = - 9
            then sys_kill (wrap64 (- Pgid j)) SIGKILL w
            else sys_kill (wrap64 (- Pgid j)) (wrap64 sig) w) of
        (Some e, w) \<Rightarrow> (Some e, w)
      | (None, w) \<Rightarrow> (None, w))"

definition Job_Process :: "job \<Rightarrow> int" where
  "Job_Process j = Proc j"

definition Job_StdoutByteCount :: "job \<Rightarrow> int" where
  "Job_StdoutByteCount j = wrap64 (reader_Total (stdoutReader j))"

text \<open>
  The interface \<open>JobControl\<close> as the monitor relies on it: every operation is one signal to
  one target and hands back the result of sending it.
\<close>

locale job_control =
  fixes stop suspend resume :: "'j \<Rightarrow> 'w \<Rightarrow> err option \<times> 'w"
    and kill :: "int \<Rightarrow> 'j \<Rightarrow> 'w \<Rightarrow> err option \<times> 'w"
    and sent :: "'w \<Rightarrow> (int \<times> sig) list"
    and target :: "'j \<Rightarrow> int"
    and kill_sig :: "int \<Rightarrow> sig"
  assumes stop_sends: "sent (snd (stop j w)) = sent w @ [(target j, SIGTERM)]"
    and suspend_sends: "sent (snd (suspend j w)) = sent w @ [(target j, SIGSTOP)]"
    and resume_sends: "sent (snd (resume j w)) = sent w @ [(target j, SIGCONT)]"
    and kill_sends: "sent (snd (kill s j w)) = sent w @ [(target j, kill_sig s)]"
begin

lemmas sends = stop_sends suspend_sends resume_sends kill_sends

lemma sends_only_to_target:
  assumes "fst ` set (sent w) \<subseteq> {target j}"
  shows "fst ` set (sent (snd (stop j w))) \<subseteq> {target j}"
    and "fst ` set (sent (snd (suspend j w))) \<subseteq> {target j}"
    and "fst ` set (sent (snd (resume j w))) \<subseteq> {target j}"
    and "fst ` set (sent (snd (kill s j w))) \<subseteq> {target j}"
  using assms by (auto simp: sends)

end

definition job_target :: "job \<Rightarrow> int" where
  "job_target j = wrap64 (- Pgid j)"

definition job_kill_sig :: "int \<Rightarrow> sig" where
  "job_kill_sig s = (if s = - 9 then SIGKILL else wrap64 s)"

lemmas job_ops_def = Job_Stop_def Job_Resume_def Job_Suspend_def Job_Kill_def

lemma job_ops_sys_kill:
  "Job_Stop j w = sys_kill (job_target j) SIGTERM w"
  "Job_Suspend j w = sys_kill (job_target j) SIGSTOP w"
  "Job_Resume j w = sys_kill (job_target j) SIGCONT w"
  "Job_Kill s j w = sys_kill (job_target j) (job_kill_sig s) w"
  by (auto simp: job_ops_def job_target_def job_kill_sig_def split: prod.splits option.splits)

interpretation job_ctl: job_control Job_Stop Job_Suspend Job_Resume Job_Kill kills job_target job_kill_sig
  by unfold_locales (simp_all add: job_ops_sys_kill)

lemma job_kill_result [simp]:
  "kill_result (snd (Job_Stop j w)) = kill_result w"
  "kill_result (snd (Job_Suspend j w)) = kill_result w"
  "kill_result (snd (Job_Resume j w)) = kill_result w"
  "kill_result (snd (Job_Kill s j w)) = kill_result w"
  by (simp_all add: job_ops_sys_kill)



section \<open>Starting the child\<close>

text \<open>
  The kernel's process table as far as process groups go: every process with its group, and
  the group of proc_box itself, which a child inherits. \<open>SysProcAttr\<close> is the one of
  \<open>syscall\<close>: with \<open>Setpgid\<close> the child calls \<open>setpgid(0, 0)\<close> before it executes the
  command and so leads a group of its own, numbered by its process id.
\<close>

record kernel =
  own_pgrp :: int
  pgrp_of :: "int \<rightharpoonup> int"

record sys_proc_attr =
  Setpgid :: bool

text \<open>
  The calls whose outcome the operating system decides. \<open>env_start\<close> gets the child's
  argument vector and gives its process id; \<open>env_meanwhile\<close> is what the child and other
  processes do to the table before proc_box asks for the group, \<open>env_getpgid\<close> an error of
  that question; \<open>env_new_process\<close> is gopsutil's \<open>process.NewProcess\<close>, whose handle is
  known here by its process id.
\<close>

record spawn_env =
  env_stdout_pipe :: "err option"
  env_stdin_pipe :: "err option"
  env_stderr_pipe :: "err option"
  env_start :: "string list \<Rightarrow> err + int"
  env_meanwhile :: "(int \<rightharpoonup> int) \<Rightarrow> (int \<rightharpoonup> int)"
  env_getpgid :: "int \<Rightarrow> err option"
  env_new_process :: "int \<Rightarrow> err + int"

definition Cmd_Start ::
    "spawn_env \<Rightarrow> sys_proc_attr \<Rightarrow> string list \<Rightarrow> kernel \<Rightarrow> (err + int) \<times> kernel" where
  "Cmd_Start env attr argv k =
     (case env_start env argv of
        Inl e \<Rightarrow> (Inl e, k)
      | Inr pid \<Rightarrow>
         (Inr pid, k\<lparr>pgrp_of :=
            env_meanwhile env ((pgrp_of k)(pid \<mapsto> (if Setpgid attr then pid else own_pgrp k)))\<rparr>))"

definition sys_getpgid :: "spawn_env \<Rightarrow> kernel \<Rightarrow> int \<Rightarrow> err + int" where
  "sys_getpgid env k pid =
     (case env_getpgid env pid of
        Some e \<Rightarrow> Inl e
      | None \<Rightarrow> (case pgrp_of k pid of None \<Rightarrow> Inl ''no such process'' | Some g \<Rightarrow> Inr g))"

text \<open>The processes a \<open>kill(2)\<close> of proc_box reaches.\<close>

definition kill_targets :: "kernel \<Rightarrow> int \<Rightarrow> int set" where
  "kill_targets k t =
     (if 0 < t then {t}
      else if t = 0 then {p. pgrp_of k p = Some (own_pgrp k)}
      else if t = - 1 then dom (pgrp_of k)
      else {p. pgrp_of k p = Some (- t)})"

abbreviation newline :: string where "newline \<equiv> [CHR 0x0A]"

text \<open>
  The second component is the process id of the child if it was started. A successful
  start also launches the goroutines of the next section.
\<close>

definition NewControlledProcess ::
    "string \<Rightarrow> string list \<Rightarrow> int \<Rightarrow> spawn_env \<Rightarrow> kernel \<Rightarrow> (err + job) \<times> int option \<times> kernel" where
  "NewControlledProcess cmd arguments stdoutLimit env k =
     (let args = (if 0 < length arguments then tl arguments else []);
          argv = cmd # args;
          attr = \<lparr>Setpgid = True\<rparr>
      in case env_stdout_pipe env of Some e \<Rightarrow> (Inl (''Failed to acquire stdout: '' @ e), None, k)
       | None \<Rightarrow>
        (case env_stdin_pipe env of Some e \<Rightarrow> (Inl (''Failed to acquire stdin: '' @ e), None, k)
         | None \<Rightarrow>
          (case env_stderr_pipe env of Some e \<Rightarrow> (Inl (''Failed to acquire stderr: '' @ e), None, k)
           | None \<Rightarrow>
            (case Cmd_Start env attr argv k of
               (Inl e, k) \<Rightarrow> (Inl (''Failed to execute sub-process: '' @ e @ newline), None, k)
             | (Inr pid, k) \<Rightarrow>
              (case sys_getpgid env k pid of
                 Inl e \<Rightarrow> (Inl (''Failed syscall.Getpgid: '' @ e @ newline), Some pid, k)
               | Inr pgid \<Rightarrow>
                (case env_new_process env (wrap32 pgid) of
                   Inl e \<Rightarrow> (Inl (''Unable to create process.NewProcess: '' @ e @ newline), Some pid, k)
                 | Inr proc \<Rightarrow>
                    (Inr \<lparr>Cmd = argv, Proc = proc, Pid = pid, Pgid = pgid,
                          stdoutByteCountLimit = stdoutLimit, stdoutReader = NewMeasuredReader\<rparr>,
                     Some pid, k)))))))"

lemma NewControlledProcess_Inr_iff:
  "NewControlledProcess cmd arguments lim env k = (Inr j, started, k') \<longleftrightarrow>
     (\<exists>pid pgid proc. env_stdout_pipe env = None \<and> env_stdin_pipe env = None \<and>
        env_stderr_pipe env = None \<and>
        Cmd_Start env \<lparr>Setpgid = True\<rparr> (cmd # tl arguments) k = (Inr pid, k') \<and>
        sys_getpgid env k' pid = Inr pgid \<and> env_new_process env (wrap32 pgid) = Inr proc \<and>
        started = Some pid \<and>
        j = \<lparr>Cmd = cmd # tl arguments, Proc = proc, Pid = pid, Pgid = pgid,
             stdoutByteCountLimit = lim, stdoutReader = NewMeasuredReader\<rparr>)"
  by (cases arguments)
    (auto simp: NewControlledProcess_def Let_def split: option.splits sum.splits prod.splits)

text \<open>Without a handle there is an error: no child, or one that runs on without a handle.\<close>

lemma NewControlledProcess_Inl:
  assumes "NewControlledProcess cmd arguments lim env k = (Inl e, started, k')"
  shows "started = None \<and> k' = k \<or>
     (\<exists>pid. started = Some pid \<and> env_start env (cmd # tl arguments) = Inr pid \<and>
        Cmd_Start env \<lparr>Setpgid = True\<rparr> (cmd # tl arguments) k = (Inr pid, k') \<and>
        ((\<exists>e. sys_getpgid env k' pid = Inl e) \<or>
         (\<exists>pgid e. sys_getpgid env k' pid = Inr pgid \<and> env_new_process env (wrap32 pgid) = Inl e)))"
  using assms
  by (cases arguments)
    (auto simp: NewControlledProcess_def Let_def Cmd_Start_def split: option.splits sum.splits)

text \<open>
  What the start needs of the kernel: a new process id is in use neither as a process nor
  as a group, is above 1 and fits 31 bits, and what goes on meanwhile adds processes but
  moves no process to another group.
\<close>

definition kernel_spawns :: "spawn_env \<Rightarrow> kernel \<Rightarrow> bool" where
  "kernel_spawns env k \<longleftrightarrow>
     own_pgrp k \<in> ran (pgrp_of k) \<and>
     (\<forall>argv pid. env_start env argv = Inr pid \<longrightarrow>
        1 < pid \<and> pid < 2 ^ 31 \<and> pid \<notin> dom (pgrp_of k) \<and> pid \<notin> ran (pgrp_of k)) \<and>
     (\<forall>m. m \<subseteq>\<^sub>m env_meanwhile env m)"

lemma Cmd_Start_own_group:
  assumes "kernel_spawns env k" and "Cmd_Start env \<lparr>Setpgid = True\<rparr> argv k = (Inr pid, k')"
  shows "1 < pid \<and> pid < 2 ^ 31 \<and> pgrp_of k' pid = Some pid \<and> own_pgrp k' = own_pgrp k \<and>
     own_pgrp k \<noteq> pid \<and> (\<forall>p g. pgrp_of k p = Some g \<longrightarrow> pgrp_of k' p = Some g \<and> g \<noteq> pid)"
proof -
  have start: "env_start env argv = Inr pid"
    and k': "k' = k\<lparr>pgrp_of := env_meanwhile env ((pgrp_of k)(pid \<mapsto> pid))\<rparr>"
    using assms(2) by (auto simp: Cmd_Start_def split: sum.splits)
  have le: "(pgrp_of k)(pid \<mapsto> pid) \<subseteq>\<^sub>m pgrp_of k'"
    using assms(1) by (simp add: kernel_spawns_def k')
  have fresh: "1 < pid" "pid < 2 ^ 31" "pid \<notin> dom (pgrp_of k)" "pid \<notin> ran (pgrp_of k)" "own_pgrp k \<in> ran (pgrp_of k)"
    using assms(1) start unfolding kernel_spawns_def by blast+
  have "pgrp_of k' pid = Some pid"
    using le by (auto simp: map_le_def)
  moreover have "pgrp_of k' p = Some g \<and> g \<noteq> pid" if "pgrp_of k p = Some g" for p g
  proof -
    from that fresh have "p \<noteq> pid" "g \<noteq> pid" by (auto simp: ran_def)
    moreover from this that le have "pgrp_of k' p = Some g"
      by (metis domI dom_fun_upd fun_upd_other insertCI map_le_def option.distinct(1))
    ultimately show ?thesis by simp
  qed
  moreover have "own_pgrp k \<noteq> pid" using fresh by auto
  ultimately show ?thesis using fresh by (simp add: k')
qed


section \<open>The goroutines of a job\<close>

text \<open>
  The state of the pipes and of the four goroutines \<open>NewControlledProcess\<close> starts: the
  copies of stdout, stderr and stdin, and the one that waits for the first two and for
  the child and sends the result on \<open>done\<close>. A copy ends when every write end of its pipe
  is closed, or early on an error of the copy itself. \<open>needs_eof\<close> says that the child ends
  only after it has read the end of its stdin (as \<open>cat\<close> does); \<open>p_source_eof\<close> that
  proc_box's own stdin is at its end.
\<close>

datatype waiter_pc = AtWgWait | AtCmdWait | SendingResult "err option" | WaiterDone

record plumbing =
  needs_eof :: bool
  p_running :: bool
  p_result :: "err option"
  p_stdout_open :: bool
  p_stderr_open :: bool
  p_copy_stdout :: bool
  p_copy_stderr :: bool
  p_copy_failed :: bool
  p_source_eof :: bool
  p_copy_stdin :: bool
  p_stdin_open :: bool
  p_wg :: nat
  p_waiter :: waiter_pc

definition plumb_init :: "bool \<Rightarrow> plumbing" where
  "plumb_init ne =
     \<lparr>needs_eof = ne, p_running = True, p_result = None, p_stdout_open = True, p_stderr_open = True,
      p_copy_stdout = True, p_copy_stderr = True, p_copy_failed = False, p_source_eof = False,
      p_copy_stdin = True, p_stdin_open = True, p_wg = 2, p_waiter = AtWgWait\<rparr>"

inductive plumb_step :: "plumbing \<Rightarrow> plumbing \<Rightarrow> bool" where
  source_eof: "plumb_step p (p\<lparr>p_source_eof := True\<rparr>)"
| child_exit: "p_running p \<Longrightarrow> needs_eof p \<longrightarrow> \<not> p_stdin_open p \<Longrightarrow>
     plumb_step p (p\<lparr>p_running := False, p_result := r\<rparr>)"
| close_stdout: "needs_eof p \<longrightarrow> \<not> p_running p \<Longrightarrow> plumb_step p (p\<lparr>p_stdout_open := False\<rparr>)"
| close_stderr: "needs_eof p \<longrightarrow> \<not> p_running p \<Longrightarrow> plumb_step p (p\<lparr>p_stderr_open := False\<rparr>)"
| stdout_copied: "p_copy_stdout p \<Longrightarrow> \<not> p_stdout_open p \<Longrightarrow>
     plumb_step p (p\<lparr>p_copy_stdout := False, p_wg := p_wg p - 1\<rparr>)"
| stdout_failed: "p_copy_stdout p \<Longrightarrow>
     plumb_step p (p\<lparr>p_copy_stdout := False, p_copy_failed := True, p_wg := p_wg p - 1\<rparr>)"
| stderr_copied: "p_copy_stderr p \<Longrightarrow> \<not> p_stderr_open p \<Longrightarrow>
     plumb_step p (p\<lparr>p_copy_stderr := False, p_wg := p_wg p - 1\<rparr>)"
| stderr_failed: "p_copy_stderr p \<Longrightarrow>
     plumb_step p (p\<lparr>p_copy_stderr := False, p_copy_failed := True, p_wg := p_wg p - 1\<rparr>)"
| stdin_copied: "p_copy_stdin p \<Longrightarrow> p_source_eof p \<Longrightarrow> plumb_step p (p\<lparr>p_copy_stdin := False\<rparr>)"
| wg_wait: "p_waiter p = AtWgWait \<Longrightarrow> p_wg p = 0 \<Longrightarrow> plumb_step p (p\<lparr>p_waiter := AtCmdWait\<rparr>)"
| cmd_wait: "p_waiter p = AtCmdWait \<Longrightarrow> \<not> p_running p \<Longrightarrow>
     plumb_step p (p\<lparr>p_waiter := SendingResult (p_result p), p_stdin_open := False\<rparr>)"
| result_sent: "p_waiter p = SendingResult r \<Longrightarrow> plumb_step p (p\<lparr>p_waiter := WaiterDone\<rparr>)"

inductive plumb_reach :: "bool \<Rightarrow> plumbing \<Rightarrow> bool" for ne where
  plumb_start: "plumb_reach ne (plumb_init ne)"
| plumb_next: "plumb_reach ne p \<Longrightarrow> plumb_step p q \<Longrightarrow> plumb_reach ne q"

definition plumb_inv :: "plumbing \<Rightarrow> bool" where
  "plumb_inv p \<longleftrightarrow>
     p_wg p = of_bool (p_copy_stdout p) + of_bool (p_copy_stderr p) \<and>
     (\<not> p_copy_stdout p \<longrightarrow> \<not> p_stdout_open p \<or> p_copy_failed p) \<and>
     (\<not> p_copy_stderr p \<longrightarrow> \<not> p_stderr_open p \<or> p_copy_failed p) \<and>
     (p_waiter p \<noteq> AtWgWait \<longrightarrow> p_wg p = 0) \<and>
     (\<forall>r. p_waiter p = SendingResult r \<longrightarrow> \<not> p_running p \<and> r = p_result p) \<and>
     (p_waiter p = WaiterDone \<longrightarrow> \<not> p_running p)"

lemma plumb_inv_init: "plumb_inv (plumb_init ne)"
  by (simp add: plumb_inv_def plumb_init_def)

lemma plumb_inv_step: "plumb_step p q \<Longrightarrow> plumb_inv p \<Longrightarrow> plumb_inv q"
  by (induction rule: plumb_step.induct) (auto simp: plumb_inv_def)

lemma plumb_inv_reach: "plumb_reach ne p \<Longrightarrow> plumb_inv p"
  by (induction rule: plumb_reach.induct) (auto intro: plumb_inv_init plumb_inv_step)

text \<open>A child that waits for the end of its stdin waits for ever.\<close>

definition stdin_held :: "plumbing \<Rightarrow> bool" where
  "stdin_held p \<longleftrightarrow>
     needs_eof p \<and> p_running p \<and> p_stdin_open p \<and> p_waiter p \<in> {AtWgWait, AtCmdWait}"

lemma stdin_held_step: "plumb_step p q \<Longrightarrow> stdin_held p \<Longrightarrow> stdin_held q"
  by (induction rule: plumb_step.induct) (auto simp: stdin_held_def)

lemma stdin_held_reach: "plumb_reach True p \<Longrightarrow> stdin_held p"
proof (induction rule: plumb_reach.induct)
  case plumb_start
  then show ?case by (simp add: stdin_held_def plumb_init_def)
next
  case (plumb_next p q)
  then show ?case by (blast intro: stdin_held_step)
qed


text \<open>A complete run of a child that writes nothing and exits with an error.\<close>

lemma finished_child:
  "\<exists>p. plumb_reach False p \<and> p_waiter p = SendingResult (Some ''exit status 1'') \<and> \<not> p_copy_failed p"
proof -
  define p where "p = plumb_init False\<lparr>p_running := False, p_result := Some ''exit status 1''\<rparr>"
  define p1 where "p1 = p\<lparr>p_stdout_open := False\<rparr>"
  define p2 where "p2 = p1\<lparr>p_stderr_open := False\<rparr>"
  define p3 where "p3 = p2\<lparr>p_copy_stdout := False, p_wg := 1\<rparr>"
  define p4 where "p4 = p3\<lparr>p_copy_stderr := False, p_wg := 0\<rparr>"
  define p5 where "p5 = p4\<lparr>p_waiter := AtCmdWait\<rparr>"
  define p6 where "p6 = p5\<lparr>p_waiter := SendingResult (Some ''exit status 1''), p_stdin_open := False\<rparr>"
  note defs = p_def p1_def p2_def p3_def p4_def p5_def p6_def plumb_init_def
  have "plumb_step (plumb_init False) p"
    unfolding p_def by (rule plumb_step.child_exit) (simp_all add: plumb_init_def)
  moreover have "plumb_step p p1" unfolding p1_def by (rule close_stdout) (simp add: defs)
  moreover have "plumb_step p1 p2" unfolding p2_def by (rule close_stderr) (simp add: defs)
  moreover have "plumb_step p2 p3" using stdout_copied [of p2] by (simp add: defs)
  moreover have "plumb_step p3 p4" using stderr_copied [of p3] by (simp add: defs)
  moreover have "plumb_step p4 p5" unfolding p5_def by (rule wg_wait) (simp_all add: defs)
  moreover have "plumb_step p5 p6" using cmd_wait [of p5] by (simp add: defs)
  ultimately have "plumb_reach False p6" by (meson plumb_start plumb_next)
  moreover have "p_waiter p6 = SendingResult (Some ''exit status 1'')" by (simp add: p6_def)
  moreover have "\<not> p_copy_failed p6" by (simp add: defs)
  ultimately show ?thesis by blast
qed


section \<open>Properties of the job\<close>

datatype job_op = OpStop | OpSuspend | OpResume | OpKill int

fun job_op_run :: "job \<Rightarrow> job_op \<Rightarrow> os \<Rightarrow> err option \<times> os" where
  "job_op_run j OpStop w = Job_Stop j w"
| "job_op_run j OpSuspend w = Job_Suspend j w"
| "job_op_run j OpResume w = Job_Resume j w"
| "job_op_run j (OpKill s) w = Job_Kill s j w"

fun job_op_sig :: "job_op \<Rightarrow> sig" where
  "job_op_sig OpStop = SIGTERM"
| "job_op_sig OpSuspend = SIGSTOP"
| "job_op_sig OpResume = SIGCONT"
| "job_op_sig (OpKill s) = (if s = - 9 then SIGKILL else s)"

fun job_ops_run :: "job \<Rightarrow> job_op list \<Rightarrow> os \<Rightarrow> err option list \<times> os" where
  "job_ops_run j [] w = ([], w)"
| "job_ops_run j (p # ps) w =
     (let (e, w) = job_op_run j p w; (es, w) = job_ops_run j ps w in (e # es, w))"

lemma job_op_run_sys_kill:
  "in_int64 s \<or> (\<forall>s. p \<noteq> OpKill s) \<Longrightarrow> (\<forall>s'. p = OpKill s' \<longrightarrow> s = s') \<Longrightarrow>
   job_op_run j p w = sys_kill (job_target j) (job_op_sig p) w"
  by (cases p) (auto simp: job_ops_sys_kill job_kill_sig_def)

lemma job_ops_run_target:
  "(t, s) \<in> set (drop (length (kills w)) (kills (snd (job_ops_run j ops w)))) \<Longrightarrow> t = job_target j"
proof -
  have step: "\<exists>s. kills (snd (job_op_run j p w)) = kills w @ [(job_target j, s)]" for p w
    by (cases p) (simp_all add: job_ops_sys_kill)
  have "\<exists>ks. kills (snd (job_ops_run j ops w)) = kills w @ ks \<and> fst ` set ks \<subseteq> {job_target j}"
  proof (induction ops arbitrary: w)
    case (Cons p ps)
    obtain s where "kills (snd (job_op_run j p w)) = kills w @ [(job_target j, s)]"
      using step by blast
    with Cons.IH [of "snd (job_op_run j p w)"] show ?case by (auto simp: Let_def split_beta)
  qed simp
  then show "(t, s) \<in> set (drop (length (kills w)) (kills (snd (job_ops_run j ops w)))) \<Longrightarrow> t = job_target j"
    by force
qed

text \<open>
  C20: over every sequence of stop, suspend, resume and kill requests, whatever the results
  of the system calls, proc_box makes exactly one \<open>kill(2)\<close> call per request, in order,
  to the negated process group of the job, with SIGTERM, SIGSTOP, SIGCONT, or for a kill
  the signal asked for, where -9 stands for SIGKILL; and each request returns the result
  of its own call.
\<close>

theorem job_requests_signal_group:
  assumes "Pgid j \<noteq> - (2 ^ 63)" and "in_int64 (Pgid j)"
    and "\<forall>s. OpKill s \<in> set ops \<longrightarrow> in_int64 s"
  shows "kills (snd (job_ops_run j ops w)) = kills w @ map (\<lambda>p. (- Pgid j, job_op_sig p)) ops \<and>
     fst (job_ops_run j ops w) =
       map (\<lambda>i. kill_result w (kills w @ map (\<lambda>p. (- Pgid j, job_op_sig p)) (take i ops))
                  (- Pgid j) (job_op_sig (ops ! i))) [0..<length ops]"
  using assms(3)
proof (induction ops arbitrary: w)
  case Nil
  then show ?case by simp
next
  case (Cons p ps)
  have target: "job_target j = - Pgid j"
    using assms(1,2) by (simp add: job_target_def in_int64_def)
  have p: "job_op_run j p w = sys_kill (- Pgid j) (job_op_sig p) w"
    using Cons.prems job_op_run_sys_kill [of _ p j w] target by (cases p) auto
  show ?case
    using Cons.IH [of "snd (sys_kill (- Pgid j) (job_op_sig p) w)"] Cons.prems
    by (simp add: p Let_def split_beta upt_conv_Cons map_Suc_upt [symmetric] comp_def del: upt_Suc)
      (simp add: sys_kill_def)
qed

theorem job_requests_signal_group_witness:
  "kills (snd (job_ops_run \<lparr>Cmd = [''sleep''], Proc = 7, Pid = 7, Pgid = 7, stdoutByteCountLimit = 0,
        stdoutReader = NewMeasuredReader\<rparr> [OpSuspend, OpResume, OpKill (- 9), OpKill 2]
      \<lparr>kills = [], kill_result = (\<lambda>_ _ _. None)\<rparr>)) =
     [(- 7, SIGSTOP), (- 7, SIGCONT), (- 7, SIGKILL), (- 7, SIGINT)]"
  using job_requests_signal_group [of "\<lparr>Cmd = [''sleep''], Proc = 7, Pid = 7, Pgid = 7,
      stdoutByteCountLimit = 0, stdoutReader = NewMeasuredReader\<rparr>"
      "[OpSuspend, OpResume, OpKill (- 9), OpKill 2]" "\<lparr>kills = [], kill_result = (\<lambda>_ _ _. None)\<rparr>"]
  by (auto simp: in_int64_def)


text \<open>The shell (group 500) starts proc_box, process 501, which starts process 502.\<close>

abbreviation good_env :: spawn_env where
  "good_env \<equiv> \<lparr>env_stdout_pipe = None, env_stdin_pipe = None, env_stderr_pipe = None,
     env_start = (\<lambda>_. Inr 502), env_meanwhile = (\<lambda>m. m), env_getpgid = (\<lambda>_. None),
     env_new_process = Inr\<rparr>"

abbreviation shell_kernel :: kernel where
  "shell_kernel \<equiv> \<lparr>own_pgrp = 500, pgrp_of = [500 \<mapsto> 500, 501 \<mapsto> 500]\<rparr>"

lemma shell_kernel_spawns: "kernel_spawns good_env shell_kernel"
  by (auto simp: kernel_spawns_def ran_def split: if_splits)


text \<open>
  C32: the end of the child is reported only when the child has ended and its output has
  been taken: the result sent is the one of \<open>Cmd.Wait\<close>, and each of stdout and stderr is
  at its end unless a copy failed.
\<close>

theorem result_after_output:
  assumes "plumb_reach ne p" and "p_waiter p = SendingResult r"
  shows "\<not> p_running p \<and> r = p_result p \<and> p_wg p = 0 \<and>
     (\<not> p_copy_failed p \<longrightarrow> \<not> p_stdout_open p \<and> \<not> p_stderr_open p)"
  using plumb_inv_reach [OF assms(1)] assms(2) by (auto simp: plumb_inv_def)

text \<open>
  \<open>NewControlledProcess\<close> never closes the child's stdin: a child that ends only after
  the end of its input keeps running, and its end is never reported, also after the input
  of proc_box has ended and been copied.
\<close>

theorem stdin_never_closed:
  assumes "plumb_reach True p"
  shows "p_running p \<and> p_stdin_open p \<and> (\<forall>r. p_waiter p \<noteq> SendingResult r)"
  using stdin_held_reach [OF assms] by (auto simp: stdin_held_def)

lemma plumb_reach_step: "plumb_step p q \<Longrightarrow> plumb_reach ne p \<Longrightarrow> plumb_reach ne q"
  by (rule plumb_reach.plumb_next)

theorem stdin_never_closed_witness:
  "p_running (plumb_init True\<lparr>p_source_eof := True, p_copy_stdin := False\<rparr>) \<and>
   p_stdin_open (plumb_init True\<lparr>p_source_eof := True, p_copy_stdin := False\<rparr>)"
proof -
  have "plumb_reach True (plumb_init True\<lparr>p_source_eof := True\<rparr>)"
    by (rule plumb_reach_step [OF plumb_step.source_eof plumb_start])
  moreover have "plumb_step (plumb_init True\<lparr>p_source_eof := True\<rparr>)
      (plumb_init True\<lparr>p_source_eof := True, p_copy_stdin := False\<rparr>)"
    using plumb_step.stdin_copied [of "plumb_init True\<lparr>p_source_eof := True\<rparr>"]
    by (simp add: plumb_init_def)
  ultimately have "plumb_reach True (plumb_init True\<lparr>p_source_eof := True, p_copy_stdin := False\<rparr>)"
    by (blast intro: plumb_next)
  from stdin_never_closed [OF this] show ?thesis by simp
qed

theorem result_after_output_witness:
  "\<exists>p. plumb_reach False p \<and> p_waiter p = SendingResult (Some ''exit status 1'') \<and>
     \<not> p_running p \<and> \<not> p_stdout_open p"
proof -
  obtain p where "plumb_reach False p" "p_waiter p = SendingResult (Some ''exit status 1'')"
    "\<not> p_copy_failed p"
    using finished_child by blast
  with result_after_output [of False p] show ?thesis by blast
qed

end
