(* ===== verification/Process_Stats.thy ===== *)
theory Process_Stats
  imports Job_Control
begin

text \<open>
  The statistics agent, \<open>agents/process_stats.go\<close>: one sample adds up what gopsutil
  reports for the contained process and for its children and publishes it; a ticker
  triggers samples.

  Parameters: the results of gopsutil's calls (a value, an error or a panic), the IEEE
  arithmetic on \<open>'f\<close>, the decoded user JSON \<open>'j\<close>, the JSON encoder and the broker's
  answers.
\<close>

section \<open>Reflective addition of two structs\<close>

text \<open>
  The fields of a struct as \<open>reflect\<close> shows them: unsigned integers with their width in
  bits, floats (32 bits wide or not), and everything else.
\<close>

datatype ('f, 'o) rvalue = RUint nat "64 word" | RFloat bool 'f | ROther 'o

record 'f fops =
  fzero :: 'f
  fadd :: "'f \<Rightarrow> 'f \<Rightarrow> 'f"
  fround32 :: "'f \<Rightarrow> 'f"

definition sum_field :: "'f fops \<Rightarrow> ('f, 'o) rvalue \<Rightarrow> ('f, 'o) rvalue \<Rightarrow> ('f, 'o) rvalue" where
  "sum_field F src dest =
     (case src of
        RUint _ x \<Rightarrow>
          (case dest of RUint b y \<Rightarrow> RUint b (take_bit b (0 + x + y)) | _ \<Rightarrow> dest)
      | RFloat _ x \<Rightarrow>
          (case dest of
             RFloat single y \<Rightarrow>
               (let total = fadd F (fadd F (fzero F) x) y
                in RFloat single (if single then fround32 F total else total))
           | _ \<Rightarrow> dest)
      | ROther _ \<Rightarrow> dest)"

definition reflect_sum ::
    "'f fops \<Rightarrow> ('f, 'o) rvalue list \<Rightarrow> ('f, 'o) rvalue list \<Rightarrow> ('f, 'o) rvalue list" where
  "reflect_sum F src dest = map2 (sum_field F) src dest"

type_synonym u64 = "64 word"

record memory_info =
  RSS :: u64
  VMS :: u64
  Swap :: u64

record io_counters =
  ReadCount :: u64
  WriteCount :: u64
  ReadBytes :: u64
  WriteBytes :: u64

record 'f cpu_times =
  CPU :: string
  User :: 'f
  System :: 'f
  Idle :: 'f
  Nice :: 'f
  Iowait :: 'f
  Irq :: 'f
  Softirq :: 'f
  Steal :: 'f
  Guest :: 'f
  GuestNice :: 'f
  Stolen :: 'f

text \<open>\<open>reflect.ValueOf(&x).Elem()\<close> for the three structs, and writing the fields back.\<close>

definition mem_fields :: "memory_info \<Rightarrow> ('f, string) rvalue list" where
  "mem_fields m = [RUint 64 (RSS m), RUint 64 (VMS m), RUint 64 (Swap m)]"

fun mem_of_fields :: "('f, string) rvalue list \<Rightarrow> memory_info \<Rightarrow> memory_info" where
  "mem_of_fields [RUint _ a, RUint _ b, RUint _ c] m = \<lparr>RSS = a, VMS = b, Swap = c\<rparr>"
| "mem_of_fields _ m = m"

definition io_fields :: "io_counters \<Rightarrow> ('f, string) rvalue list" where
  "io_fields c = [RUint 64 (ReadCount c), RUint 64 (WriteCount c), RUint 64 (ReadBytes c),
     RUint 64 (WriteBytes c)]"

fun io_of_fields :: "('f, string) rvalue list \<Rightarrow> io_counters \<Rightarrow> io_counters" where
  "io_of_fields [RUint _ a, RUint _ b, RUint _ c, RUint _ d] m =
     \<lparr>ReadCount = a, WriteCount = b, ReadBytes = c, WriteBytes = d\<rparr>"
| "io_of_fields _ m = m"

definition cpu_fields :: "'f cpu_times \<Rightarrow> ('f, string) rvalue list" where
  "cpu_fields c = [ROther (CPU c), RFloat False (User c), RFloat False (System c),
     RFloat False (Idle c), RFloat False (Nice c), RFloat False (Iowait c), RFloat False (Irq c),
     RFloat False (Softirq c), RFloat False (Steal c), RFloat False (Guest c),
     RFloat False (GuestNice c), RFloat False (Stolen c)]"

definition float_of :: "'f \<Rightarrow> ('f, string) rvalue \<Rightarrow> 'f" where
  "float_of d v = (case v of RFloat _ x \<Rightarrow> x | _ \<Rightarrow> d)"

definition cpu_of_fields :: "('f, string) rvalue list \<Rightarrow> 'f cpu_times \<Rightarrow> 'f cpu_times" where
  "cpu_of_fields fs m =
     \<lparr>CPU = (case fs ! 0 of ROther n \<Rightarrow> n | _ \<Rightarrow> CPU m),
      User = float_of (User m) (fs ! 1), System = float_of (System m) (fs ! 2),
      Idle = float_of (Idle m) (fs ! 3), Nice = float_of (Nice m) (fs ! 4),
      Iowait = float_of (Iowait m) (fs ! 5), Irq = float_of (Irq m) (fs ! 6),
      Softirq = float_of (Softirq m) (fs ! 7), Steal = float_of (Steal m) (fs ! 8),
      Guest = float_of (Guest m) (fs ! 9), GuestNice = float_of (GuestNice m) (fs ! 10),
      Stolen = float_of (Stolen m) (fs ! 11)\<rparr>"

lemma take_bit_64_word [simp]: "take_bit 64 (x :: 64 word) = x"
  by (simp add: take_bit_word_eq_self)

lemma mem_of_fields_sum [simp]:
  "mem_of_fields (reflect_sum F (mem_fields x) (mem_fields m)) m =
     \<lparr>RSS = RSS x + RSS m, VMS = VMS x + VMS m, Swap = Swap x + Swap m\<rparr>"
  by (simp add: reflect_sum_def mem_fields_def sum_field_def)

lemma io_of_fields_sum [simp]:
  "io_of_fields (reflect_sum F (io_fields x) (io_fields m)) m =
     \<lparr>ReadCount = ReadCount x + ReadCount m, WriteCount = WriteCount x + WriteCount m,
      ReadBytes = ReadBytes x + ReadBytes m, WriteBytes = WriteBytes x + WriteBytes m\<rparr>"
  by (simp add: reflect_sum_def io_fields_def sum_field_def)

abbreviation facc :: "'f fops \<Rightarrow> 'f \<Rightarrow> 'f \<Rightarrow> 'f" where
  "facc F x y \<equiv> fadd F (fadd F (fzero F) x) y"

lemma cpu_of_fields_sum [simp]:
  "cpu_of_fields (reflect_sum F (cpu_fields x) (cpu_fields m)) m =
     \<lparr>CPU = CPU m, User = facc F (User x) (User m), System = facc F (System x) (System m),
      Idle = facc F (Idle x) (Idle m), Nice = facc F (Nice x) (Nice m),
      Iowait = facc F (Iowait x) (Iowait m), Irq = facc F (Irq x) (Irq m),
      Softirq = facc F (Softirq x) (Softirq m), Steal = facc F (Steal x) (Steal m),
      Guest = facc F (Guest x) (Guest m), GuestNice = facc F (GuestNice x) (GuestNice m),
      Stolen = facc F (Stolen x) (Stolen m)\<rparr>"
  by (simp add: reflect_sum_def cpu_fields_def sum_field_def Let_def cpu_of_fields_def float_of_def)


section \<open>Samples\<close>

record host_info =
  Hostname :: string
  Uptime :: u64
  BootTime :: u64
  Procs :: u64
  OS :: string
  Platform :: string
  PlatformFamily :: string
  PlatformVersion :: string
  VirtualizationSystem :: string
  VirtualizationRole :: string

record open_file =
  Path :: string
  Fd :: u64

record ('f, 'j) stat_sample =
  Host :: host_info
  Memory :: memory_info
  CPUTimes :: "'f cpu_times"
  IOCounters :: io_counters
  OpenFiles :: "open_file list"
  NumThreads :: int
  stat_Pid :: int
  ChildPids :: "int list"
  CPUPercent :: 'f
  TimeUTC :: instant
  TimeUnix :: int
  StdoutBytes :: int
  UserData :: "'j option"

definition zero_host :: host_info where
  "zero_host = \<lparr>Hostname = '''', Uptime = 0, BootTime = 0, Procs = 0, OS = '''', Platform = '''',
     PlatformFamily = '''', PlatformVersion = '''', VirtualizationSystem = '''',
     VirtualizationRole = ''''\<rparr>"

definition zero_sample :: "'f fops \<Rightarrow> ('f, 'j) stat_sample" where
  "zero_sample F =
     (let z = fzero F in
      \<lparr>Host = zero_host, Memory = \<lparr>RSS = 0, VMS = 0, Swap = 0\<rparr>,
       CPUTimes = \<lparr>CPU = '''', User = z, System = z, Idle = z, Nice = z, Iowait = z, Irq = z,
         Softirq = z, Steal = z, Guest = z, GuestNice = z, Stolen = z\<rparr>,
       IOCounters = \<lparr>ReadCount = 0, WriteCount = 0, ReadBytes = 0, WriteBytes = 0\<rparr>,
       OpenFiles = [], NumThreads = 0, stat_Pid = 0, ChildPids = [], CPUPercent = z, TimeUTC = 0,
       TimeUnix = 0, StdoutBytes = 0, UserData = None\<rparr>)"

text \<open>The answer of one gopsutil call, and the answers for one process.\<close>

datatype 'a probe = POk 'a | PErr err | PPanic

record 'f proc_probes =
  pr_pid :: int
  pr_mem :: "memory_info probe"
  pr_cpu :: "'f cpu_times probe"
  pr_io :: "io_counters probe"
  pr_files :: "open_file list probe"
  pr_threads :: "int probe"
  pr_percent :: "'f probe"

text \<open>A panic is recovered in the collecting function: like an error it leaves the sample as it was.\<close>

definition collectMemInfo ::
    "'f fops \<Rightarrow> 'f proc_probes \<Rightarrow> ('f, 'j) stat_sample \<Rightarrow> ('f, 'j) stat_sample" where
  "collectMemInfo F pr p =
     (case pr_mem pr of
        POk m \<Rightarrow> p\<lparr>Memory := mem_of_fields (reflect_sum F (mem_fields m) (mem_fields (Memory p))) (Memory p)\<rparr>
      | PErr _ \<Rightarrow> p | PPanic \<Rightarrow> p)"

definition collectCPUTimes ::
    "'f fops \<Rightarrow> 'f proc_probes \<Rightarrow> ('f, 'j) stat_sample \<Rightarrow> ('f, 'j) stat_sample" where
  "collectCPUTimes F pr p =
     (case pr_cpu pr of
        POk c \<Rightarrow> p\<lparr>CPUTimes := cpu_of_fields (reflect_sum F (cpu_fields c) (cpu_fields (CPUTimes p))) (CPUTimes p)\<rparr>
      | PErr _ \<Rightarrow> p | PPanic \<Rightarrow> p)"

definition collectIOCounters ::
    "'f fops \<Rightarrow> 'f proc_probes \<Rightarrow> ('f, 'j) stat_sample \<Rightarrow> ('f, 'j) stat_sample" where
  "collectIOCounters F pr p =
     (case pr_io pr of
        POk c \<Rightarrow> p\<lparr>IOCounters := io_of_fields (reflect_sum F (io_fields c) (io_fields (IOCounters p))) (IOCounters p)\<rparr>
      | PErr _ \<Rightarrow> p | PPanic \<Rightarrow> p)"

definition collectOpenFiles :: "'f proc_probes \<Rightarrow> ('f, 'j) stat_sample \<Rightarrow> ('f, 'j) stat_sample" where
  "collectOpenFiles pr p =
     (case pr_files pr of POk fs \<Rightarrow> p\<lparr>OpenFiles := OpenFiles p @ fs\<rparr> | PErr _ \<Rightarrow> p | PPanic \<Rightarrow> p)"

definition collectNumThreads :: "'f proc_probes \<Rightarrow> ('f, 'j) stat_sample \<Rightarrow> ('f, 'j) stat_sample" where
  "collectNumThreads pr p =
     (case pr_threads pr of
        POk n \<Rightarrow> p\<lparr>NumThreads := wrap32 (NumThreads p + n)\<rparr> | PErr _ \<Rightarrow> p | PPanic \<Rightarrow> p)"

definition collectCPUPercent ::
    "'f fops \<Rightarrow> 'f proc_probes \<Rightarrow> ('f, 'j) stat_sample \<Rightarrow> ('f, 'j) stat_sample" where
  "collectCPUPercent F pr p =
     (case pr_percent pr of
        POk x \<Rightarrow> p\<lparr>CPUPercent := fadd F (CPUPercent p) x\<rparr> | PErr _ \<Rightarrow> p | PPanic \<Rightarrow> p)"

definition aggregateStatForProc ::
    "'f fops \<Rightarrow> 'f proc_probes \<Rightarrow> ('f, 'j) stat_sample \<Rightarrow> ('f, 'j) stat_sample" where
  "aggregateStatForProc F pr p =
     collectCPUPercent F pr (collectNumThreads pr (collectOpenFiles pr
       (collectIOCounters F pr (collectCPUTimes F pr (collectMemInfo F pr p)))))"

lemmas collect_defs =
  collectMemInfo_def collectCPUTimes_def collectIOCounters_def collectOpenFiles_def
  collectNumThreads_def collectCPUPercent_def

definition oks :: "'a probe list \<Rightarrow> 'a list" where
  "oks ps = List.map_filter (\<lambda>p. case p of POk x \<Rightarrow> Some x | _ \<Rightarrow> None) ps"

lemma oks_simps [simp]:
  "oks [] = []" "oks (POk x # ps) = x # oks ps" "oks (PErr e # ps) = oks ps" "oks (PPanic # ps) = oks ps"
  by (simp_all add: oks_def List.map_filter_simps)

text \<open>
  Each collecting function writes its own field of the sample only.
\<close>

lemma collectMemInfo_frame [simp]:
  "CPUTimes (collectMemInfo F pr p) = CPUTimes p"
  "IOCounters (collectMemInfo F pr p) = IOCounters p"
  "OpenFiles (collectMemInfo F pr p) = OpenFiles p"
  "NumThreads (collectMemInfo F pr p) = NumThreads p"
  "CPUPercent (collectMemInfo F pr p) = CPUPercent p"
  "Host (collectMemInfo F pr p) = Host p"
  "stat_Pid (collectMemInfo F pr p) = stat_Pid p"
  "ChildPids (collectMemInfo F pr p) = ChildPids p"
  "TimeUTC (collectMemInfo F pr p) = TimeUTC p"
  "TimeUnix (collectMemInfo F pr p) = TimeUnix p"
  "StdoutBytes (collectMemInfo F pr p) = StdoutBytes p"
  "UserData (collectMemInfo F pr p) = UserData p"
  by (simp_all add: collectMemInfo_def split: probe.split)

lemma collectCPUTimes_frame [simp]:
  "Memory (collectCPUTimes F pr p) = Memory p"
  "IOCounters (collectCPUTimes F pr p) = IOCounters p"
  "OpenFiles (collectCPUTimes F pr p) = OpenFiles p"
  "NumThreads (collectCPUTimes F pr p) = NumThreads p"
  "CPUPercent (collectCPUTimes F pr p) = CPUPercent p"
  "Host (collectCPUTimes F pr p) = Host p"
  "stat_Pid (collectCPUTimes F pr p) = stat_Pid p"
  "ChildPids (collectCPUTimes F pr p) = ChildPids p"
  "TimeUTC (collectCPUTimes F pr p) = TimeUTC p"
  "TimeUnix (collectCPUTimes F pr p) = TimeUnix p"
  "StdoutBytes (collectCPUTimes F pr p) = StdoutBytes p"
  "UserData (collectCPUTimes F pr p) = UserData p"
  by (simp_all add: collectCPUTimes_def split: probe.split)

lemma collectIOCounters_frame [simp]:
  "Memory (collectIOCounters F pr p) = Memory p"
  "CPUTimes (collectIOCounters F pr p) = CPUTimes p"
  "OpenFiles (collectIOCounters F pr p) = OpenFiles p"
  "NumThreads (collectIOCounters F pr p) = NumThreads p"
  "CPUPercent (collectIOCounters F pr p) = CPUPercent p"
  "Host (collectIOCounters F pr p) = Host p"
  "stat_Pid (collectIOCounters F pr p) = stat_Pid p"
  "ChildPids (collectIOCounters F pr p) = ChildPids p"
  "TimeUTC (collectIOCounters F pr p) = TimeUTC p"
  "TimeUnix (collectIOCounters F pr p) = TimeUnix p"
  "StdoutBytes (collectIOCounters F pr p) = StdoutBytes p"
  "UserData (collectIOCounters F pr p) = UserData p"
  by (simp_all add: collectIOCounters_def split: probe.split)

lemma collectOpenFiles_frame [simp]:
  "Memory (collectOpenFiles pr p) = Memory p"
  "CPUTimes (collectOpenFiles pr p) = CPUTimes p"
  "IOCounters (collectOpenFiles pr p) = IOCounters p"
  "NumThreads (collectOpenFiles pr p) = NumThreads p"
  "CPUPercent (collectOpenFiles pr p) = CPUPercent p"
  "Host (collectOpenFiles pr p) = Host p"
  "stat_Pid (collectOpenFiles pr p) = stat_Pid p"
  "ChildPids (collectOpenFiles pr p) = ChildPids p"
  "TimeUTC (collectOpenFiles pr p) = TimeUTC p"
  "TimeUnix (collectOpenFiles pr p) = TimeUnix p"
  "StdoutBytes (collectOpenFiles pr p) = StdoutBytes p"
  "UserData (collectOpenFiles pr p) = UserData p"
  by (simp_all add: collectOpenFiles_def split: probe.split)

lemma collectNumThreads_frame [simp]:
  "Memory (collectNumThreads pr p) = Memory p"
  "CPUTimes (collectNumThreads pr p) = CPUTimes p"
  "IOCounters (collectNumThreads pr p) = IOCounters p"
  "OpenFiles (collectNumThreads pr p) = OpenFiles p"
  "CPUPercent (collectNumThreads pr p) = CPUPercent p"
  "Host (collectNumThreads pr p) = Host p"
  "stat_Pid (collectNumThreads pr p) = stat_Pid p"
  "ChildPids (collectNumThreads pr p) = ChildPids p"
  "TimeUTC (collectNumThreads pr p) = TimeUTC p"
  "TimeUnix (collectNumThreads pr p) = TimeUnix p"
  "StdoutBytes (collectNumThreads pr p) = StdoutBytes p"
  "UserData (collectNumThreads pr p) = UserData p"
  by (simp_all add: collectNumThreads_def split: probe.split)

lemma collectCPUPercent_frame [simp]:
  "Memory (collectCPUPercent F pr p) = Memory p"
  "CPUTimes (collectCPUPercent F pr p) = CPUTimes p"
  "IOCounters (collectCPUPercent F pr p) = IOCounters p"
  "OpenFiles (collectCPUPercent F pr p) = OpenFiles p"
  "NumThreads (collectCPUPercent F pr p) = NumThreads p"
  "Host (collectCPUPercent F pr p) = Host p"
  "stat_Pid (collectCPUPercent F pr p) = stat_Pid p"
  "ChildPids (collectCPUPercent F pr p) = ChildPids p"
  "TimeUTC (collectCPUPercent F pr p) = TimeUTC p"
  "TimeUnix (collectCPUPercent F pr p) = TimeUnix p"
  "StdoutBytes (collectCPUPercent F pr p) = StdoutBytes p"
  "UserData (collectCPUPercent F pr p) = UserData p"
  by (simp_all add: collectCPUPercent_def split: probe.split)

lemma collect_fields [simp]:
  "Memory (collectMemInfo F pr p) =
     (case pr_mem pr of POk m \<Rightarrow> \<lparr>RSS = RSS m + RSS (Memory p), VMS = VMS m + VMS (Memory p),
        Swap = Swap m + Swap (Memory p)\<rparr> | _ \<Rightarrow> Memory p)"
  "IOCounters (collectIOCounters F pr p) =
     (case pr_io pr of POk c \<Rightarrow> \<lparr>ReadCount = ReadCount c + ReadCount (IOCounters p),
        WriteCount = WriteCount c + WriteCount (IOCounters p),
        ReadBytes = ReadBytes c + ReadBytes (IOCounters p),
        WriteBytes = WriteBytes c + WriteBytes (IOCounters p)\<rparr> | _ \<Rightarrow> IOCounters p)"
  "OpenFiles (collectOpenFiles pr p) =
     (case pr_files pr of POk fs \<Rightarrow> OpenFiles p @ fs | _ \<Rightarrow> OpenFiles p)"
  "NumThreads (collectNumThreads pr p) =
     (case pr_threads pr of POk n \<Rightarrow> wrap32 (NumThreads p + n) | _ \<Rightarrow> NumThreads p)"
  "CPUPercent (collectCPUPercent F pr p) =
     (case pr_percent pr of POk x \<Rightarrow> fadd F (CPUPercent p) x | _ \<Rightarrow> CPUPercent p)"
  "User (CPUTimes (collectCPUTimes F pr p)) =
     (case pr_cpu pr of POk c \<Rightarrow> facc F (User c) (User (CPUTimes p)) | _ \<Rightarrow> User (CPUTimes p))"
  "System (CPUTimes (collectCPUTimes F pr p)) =
     (case pr_cpu pr of POk c \<Rightarrow> facc F (System c) (System (CPUTimes p)) | _ \<Rightarrow> System (CPUTimes p))"
  by (simp_all add: collect_defs split: probe.split)

lemma aggregate_fields [simp]:
  "Memory (aggregateStatForProc F pr p) = Memory (collectMemInfo F pr p)"
  "IOCounters (aggregateStatForProc F pr p) = IOCounters (collectIOCounters F pr p)"
  "OpenFiles (aggregateStatForProc F pr p) = OpenFiles (collectOpenFiles pr p)"
  "NumThreads (aggregateStatForProc F pr p) = NumThreads (collectNumThreads pr p)"
  "CPUPercent (aggregateStatForProc F pr p) = CPUPercent (collectCPUPercent F pr p)"
  "User (CPUTimes (aggregateStatForProc F pr p)) = User (CPUTimes (collectCPUTimes F pr p))"
  "System (CPUTimes (aggregateStatForProc F pr p)) = System (CPUTimes (collectCPUTimes F pr p))"
  by (simp_all add: aggregateStatForProc_def cong: probe.case_cong)

lemma aggregate_frame [simp]:
  "Host (aggregateStatForProc F pr p) = Host p"
  "stat_Pid (aggregateStatForProc F pr p) = stat_Pid p"
  "ChildPids (aggregateStatForProc F pr p) = ChildPids p"
  "TimeUTC (aggregateStatForProc F pr p) = TimeUTC p"
  "TimeUnix (aggregateStatForProc F pr p) = TimeUnix p"
  "StdoutBytes (aggregateStatForProc F pr p) = StdoutBytes p"
  "UserData (aggregateStatForProc F pr p) = UserData p"
  by (simp_all add: aggregateStatForProc_def)


section \<open>Collecting and publishing a sample\<close>

record publishing =
  pub_exchange :: string
  pub_key :: string
  pub_mandatory :: bool
  pub_immediate :: bool
  pub_ContentType :: string
  pub_ContentEncoding :: string
  pub_DeliveryMode :: nat
  pub_Priority :: nat
  pub_Body :: "byte list"

text \<open>
  An AMQP channel is known by the connection it was opened on and its number there; \<open>None\<close> is
  a nil pointer.
\<close>

record 'j collector =
  connection :: "nat option"
  channel :: "(nat \<times> nat) option"
  routingKey :: string
  exchange :: string
  msgTimeout :: duration
  userJSON :: "'j option"

text \<open>
  What the environment answers during one collection: the clock, the host information, the
  probes of the contained process, those of its children, the JSON encoder and what
  \<open>Publish\<close> returns on a channel.
\<close>

record ('f, 'j) sample_env =
  se_now :: instant
  se_host :: "host_info probe"
  se_proc :: "'f proc_probes"
  se_children :: "'f proc_probes list probe"
  se_stdout :: int
  se_marshal :: "('f, 'j) stat_sample \<Rightarrow> byte list \<times> err option"
  se_publish :: "(nat \<times> nat) option \<Rightarrow> publishing \<Rightarrow> err option"

fun aggregate_children ::
    "'f fops \<Rightarrow> 'f proc_probes list \<Rightarrow> ('f, 'j) stat_sample \<Rightarrow> ('f, 'j) stat_sample" where
  "aggregate_children F [] p = p"
| "aggregate_children F (c # cs) p =
     aggregate_children F cs (aggregateStatForProc F c (p\<lparr>ChildPids := ChildPids p @ [pr_pid c]\<rparr>))"

definition sample_begin :: "'f fops \<Rightarrow> ('f, 'j) sample_env \<Rightarrow> ('f, 'j) stat_sample" where
  "sample_begin F env =
     (zero_sample F)\<lparr>stat_Pid := pr_pid (se_proc env), TimeUTC := se_now env,
        TimeUnix := se_now env div second\<rparr>"

text \<open>
  \<open>HostInfo\<close> and \<open>Children\<close> are called outside every \<open>recover\<close>: a panic there (\<open>None\<close>) ends
  proc_box.
\<close>

definition sample_host ::
    "('f, 'j) sample_env \<Rightarrow> ('f, 'j) stat_sample \<Rightarrow> (('f, 'j) stat_sample \<times> string) option" where
  "sample_host env stat =
     (case se_host env of
        PPanic \<Rightarrow> None
      | PErr _ \<Rightarrow> Some (stat, '''')
      | POk h \<Rightarrow> Some (stat\<lparr>Host := h\<rparr>, ''.'' @ Hostname h))"

definition sample_children ::
    "'f fops \<Rightarrow> ('f, 'j) sample_env \<Rightarrow> ('f, 'j) stat_sample \<Rightarrow> ('f, 'j) stat_sample option" where
  "sample_children F env stat =
     (case se_children env of
        PPanic \<Rightarrow> None
      | PErr _ \<Rightarrow> Some stat
      | POk cs \<Rightarrow> Some (aggregate_children F cs stat))"

definition collectSample_stat ::
    "'f fops \<Rightarrow> 'j collector \<Rightarrow> ('f, 'j) sample_env \<Rightarrow> (('f, 'j) stat_sample \<times> string) option" where
  "collectSample_stat F ps env =
     (case sample_host env (sample_begin F env) of
        None \<Rightarrow> None
      | Some (stat, hostnameRoutingKey) \<Rightarrow>
          (case sample_children F env (aggregateStatForProc F (se_proc env) stat) of
             None \<Rightarrow> None
           | Some stat \<Rightarrow>
               (let stat = stat\<lparr>StdoutBytes := se_stdout env\<rparr>;
                    stat = stat\<lparr>UserData := userJSON ps\<rparr>
                in Some (stat, hostnameRoutingKey))))"

text \<open>The error of the JSON encoder is overwritten by the result of \<open>Publish\<close>.\<close>

definition collectSample ::
    "'f fops \<Rightarrow> 'j collector \<Rightarrow> ('f, 'j) sample_env \<Rightarrow> (err option \<times> publishing) option" where
  "collectSample F ps env =
     (case collectSample_stat F ps env of
        None \<Rightarrow> None
      | Some (stat, hostnameRoutingKey) \<Rightarrow>
     (let (body, _) = se_marshal env stat;
          m = \<lparr>pub_exchange = exchange ps, pub_key = routingKey ps @ hostnameRoutingKey,
               pub_mandatory = False, pub_immediate = False,
               pub_ContentType = ''text/javascript'', pub_ContentEncoding = '''',
               pub_DeliveryMode = 1, pub_Priority = 0, pub_Body = body\<rparr>
      in Some (se_publish env (channel ps) m, m)))"

text \<open>The processes of a sample: the contained process, then its children if they are known.\<close>

definition sampled :: "('f, 'j) sample_env \<Rightarrow> 'f proc_probes list" where
  "sampled env = se_proc env # (case se_children env of POk cs \<Rightarrow> cs | _ \<Rightarrow> [])"

text \<open>The totals over a list of processes, probe by probe.\<close>

lemma aggregate_children_memory:
  "RSS (Memory (aggregate_children F cs p)) =
     sum_list (map RSS (oks (map pr_mem cs))) + RSS (Memory p)"
  "VMS (Memory (aggregate_children F cs p)) =
     sum_list (map VMS (oks (map pr_mem cs))) + VMS (Memory p)"
  "Swap (Memory (aggregate_children F cs p)) =
     sum_list (map Swap (oks (map pr_mem cs))) + Swap (Memory p)"
  by (induction F cs p rule: aggregate_children.induct) (simp_all add: ac_simps split: probe.split)

lemma aggregate_children_io:
  "ReadCount (IOCounters (aggregate_children F cs p)) =
     sum_list (map ReadCount (oks (map pr_io cs))) + ReadCount (IOCounters p)"
  "WriteCount (IOCounters (aggregate_children F cs p)) =
     sum_list (map WriteCount (oks (map pr_io cs))) + WriteCount (IOCounters p)"
  "ReadBytes (IOCounters (aggregate_children F cs p)) =
     sum_list (map ReadBytes (oks (map pr_io cs))) + ReadBytes (IOCounters p)"
  "WriteBytes (IOCounters (aggregate_children F cs p)) =
     sum_list (map WriteBytes (oks (map pr_io cs))) + WriteBytes (IOCounters p)"
  by (induction F cs p rule: aggregate_children.induct) (simp_all add: ac_simps split: probe.split)

lemma aggregate_children_others:
  "OpenFiles (aggregate_children F cs p) = OpenFiles p @ concat (oks (map pr_files cs))"
  "wrap32 (NumThreads (aggregate_children F cs p)) =
     wrap32 (NumThreads p + sum_list (oks (map pr_threads cs)))"
  "ChildPids (aggregate_children F cs p) = ChildPids p @ map pr_pid cs"
  by (induction F cs p rule: aggregate_children.induct) (simp_all add: ac_simps split: probe.split)

lemma aggregate_children_floats:
  "CPUPercent (aggregate_children F cs p) = foldl (fadd F) (CPUPercent p) (oks (map pr_percent cs))"
  "User (CPUTimes (aggregate_children F cs p)) =
     foldl (\<lambda>a x. facc F x a) (User (CPUTimes p)) (map User (oks (map pr_cpu cs)))"
  "System (CPUTimes (aggregate_children F cs p)) =
     foldl (\<lambda>a x. facc F x a) (System (CPUTimes p)) (map System (oks (map pr_cpu cs)))"
  by (induction F cs p rule: aggregate_children.induct) (simp_all split: probe.split)

lemma aggregate_children_frame [simp]:
  "Host (aggregate_children F cs p) = Host p"
  "stat_Pid (aggregate_children F cs p) = stat_Pid p"
  "TimeUTC (aggregate_children F cs p) = TimeUTC p"
  "TimeUnix (aggregate_children F cs p) = TimeUnix p"
  by (induction F cs p rule: aggregate_children.induct) simp_all

lemma in_int32_NumThreads:
  "in_int32 (NumThreads p) \<Longrightarrow> in_int32 (NumThreads (aggregate_children F cs p))"
  by (induction F cs p rule: aggregate_children.induct) (simp_all split: probe.split)

section \<open>Connecting the agent\<close>

text \<open>
  AMQP connections are known by numbers; \<open>None\<close> is a nil pointer. What the AMQP library
  answers is an argument: \<open>Connection.Channel\<close> returns a channel also with an error.
\<close>

record exchange_args =
  ex_name :: string
  ex_kind :: string
  ex_durable :: bool
  ex_autoDelete :: bool
  ex_internal :: bool
  ex_noWait :: bool

record stats_broker =
  sb_channel :: "nat \<Rightarrow> nat \<times> err option"
  sb_exchange_declare :: "nat \<times> nat \<Rightarrow> exchange_args \<Rightarrow> err option"

definition ReinitializeConnection ::
    "stats_broker \<Rightarrow> nat option \<Rightarrow> 'j collector \<Rightarrow> err option \<times> 'j collector" where
  "ReinitializeConnection B newConn ps =
     (case newConn of
        None \<Rightarrow> (Some ''nil amqp.Connection argument'', ps)
      | Some c \<Rightarrow>
          (let ps = ps\<lparr>connection := Some c\<rparr>;
               (ch, e) = sb_channel B c;
               ps = ps\<lparr>channel := Some (c, ch)\<rparr>
           in case e of
                Some e \<Rightarrow> (Some (''Unable to open a channel on AMQP connection: '' @ e @ newline), ps)
              | None \<Rightarrow>
                  (case sb_exchange_declare B (c, ch)
                          \<lparr>ex_name = exchange ps, ex_kind = ''topic'', ex_durable = True,
                           ex_autoDelete = False, ex_internal = False, ex_noWait = False\<rparr> of
                     Some e \<Rightarrow> (Some (''Unable to declare the exchange: '' @ e), ps)
                   | None \<Rightarrow> (None, ps))))"


section \<open>The ticker\<close>

text \<open>
  \<open>NewTicker\<close> replaces the ticker and starts one more goroutine; the earlier ones are not
  stopped and neither are the earlier tickers. A goroutine reads the field
  \<open>psc.ticker\<close> when it enters its \<open>select\<close> and then waits on that ticker, whatever the
  field holds later. \<open>time.NewTicker\<close> panics on a duration that is not positive
  (\<open>None\<close>).
\<close>

datatype ticker_goroutine = Entering | WaitingOn nat | Sampling

record tickers =
  tk_periods :: "duration list"  \<comment> \<open>the period of ticker \<open>k\<close>, in order of creation\<close>
  tk_current :: nat
  tk_goroutines :: "ticker_goroutine list"

definition no_tickers :: tickers where
  "no_tickers = \<lparr>tk_periods = [], tk_current = 0, tk_goroutines = []\<rparr>"

definition NewTicker :: "duration \<Rightarrow> tickers \<Rightarrow> tickers option" where
  "NewTicker d t =
     (if d \<le> 0 then None
      else Some (t\<lparr>tk_periods := tk_periods t @ [d], tk_current := length (tk_periods t),
                   tk_goroutines := tk_goroutines t @ [Entering]\<rparr>))"

datatype tick_event = Quiet | Fires nat | Changed duration

inductive tick_step :: "tickers \<Rightarrow> tick_event \<Rightarrow> tickers \<Rightarrow> bool" where
  enter: "i < length (tk_goroutines t) \<Longrightarrow> tk_goroutines t ! i = Entering \<Longrightarrow>
     tick_step t Quiet (t\<lparr>tk_goroutines := (tk_goroutines t)[i := WaitingOn (tk_current t)]\<rparr>)"
| fires: "i < length (tk_goroutines t) \<Longrightarrow> tk_goroutines t ! i = WaitingOn k \<Longrightarrow>
     tick_step t (Fires k) (t\<lparr>tk_goroutines := (tk_goroutines t)[i := Sampling]\<rparr>)"
| sampled: "i < length (tk_goroutines t) \<Longrightarrow> tk_goroutines t ! i = Sampling \<Longrightarrow>
     tick_step t Quiet (t\<lparr>tk_goroutines := (tk_goroutines t)[i := Entering]\<rparr>)"
| change: "NewTicker d t = Some t' \<Longrightarrow> tick_step t (Changed d) t'"

inductive_cases tick_stepE: "tick_step t e t'"

inductive tick_trace :: "tickers \<Rightarrow> tick_event list \<Rightarrow> tickers \<Rightarrow> bool" where
  tick_nil: "tick_trace t [] t"
| tick_cons: "tick_step t e u \<Longrightarrow> tick_trace u es t' \<Longrightarrow> tick_trace t (e # es) t'"

definition is_stale :: "nat \<Rightarrow> ticker_goroutine \<Rightarrow> bool" where
  "is_stale cur g = (case g of WaitingOn k \<Rightarrow> k \<noteq> cur | _ \<Rightarrow> False)"

definition stale_fire :: "nat \<Rightarrow> tick_event \<Rightarrow> bool" where
  "stale_fire cur e = (case e of Fires k \<Rightarrow> k \<noteq> cur | _ \<Rightarrow> False)"

definition stale :: "tickers \<Rightarrow> nat" where
  "stale t = length (filter (is_stale (tk_current t)) (tk_goroutines t))"

lemma is_stale_simps [simp]:
  "\<not> is_stale c Entering" "\<not> is_stale c Sampling" "is_stale c (WaitingOn k) \<longleftrightarrow> k \<noteq> c"
  by (simp_all add: is_stale_def)

lemma length_filter_update:
  "i < length xs \<Longrightarrow>
   length (filter P (xs[i := y])) + of_bool (P (xs ! i)) = length (filter P xs) + of_bool (P y)"
proof (induction xs arbitrary: i)
  case (Cons x xs)
  then show ?case by (cases i) (auto simp: less_Suc_eq_0_disj)
qed simp

lemma tick_step_frame:
  "tick_step t e u \<Longrightarrow> (\<And>d. e \<noteq> Changed d) \<Longrightarrow>
   tk_current u = tk_current t \<and> tk_periods u = tk_periods t \<and>
   length (tk_goroutines u) = length (tk_goroutines t)"
  by (auto elim!: tick_stepE)

lemma tick_step_stale:
  assumes "tick_step t e u" and "\<And>d. e \<noteq> Changed d"
  shows "stale u + of_bool (stale_fire (tk_current t) e) = stale t"
  using assms(1)
proof cases
  case (enter i)
  with length_filter_update [of i "tk_goroutines t" "is_stale (tk_current t)"]
  show ?thesis by (simp add: stale_def stale_fire_def)
next
  case (fires i k)
  with length_filter_update [of i "tk_goroutines t" "is_stale (tk_current t)" Sampling]
  show ?thesis by (simp add: stale_def stale_fire_def)
next
  case (sampled i)
  with length_filter_update [of i "tk_goroutines t" "is_stale (tk_current t)"]
  show ?thesis by (simp add: stale_def stale_fire_def)
qed (use assms(2) in blast)

lemma tick_trace_stale:
  assumes "tick_trace t es u" and "\<And>d. Changed d \<notin> set es"
  shows "stale u + length (filter (stale_fire (tk_current t)) es) = stale t
     \<and> tk_current u = tk_current t \<and> length (tk_goroutines u) = length (tk_goroutines t)"
  using assms
proof (induction rule: tick_trace.induct)
  case (tick_nil t)
  then show ?case by simp
next
  case (tick_cons t e u es t')
  have "\<And>d. e \<noteq> Changed d" using tick_cons.prems by (metis list.set_intros(1))
  with tick_step_stale [OF tick_cons.hyps(1)] tick_step_frame [OF tick_cons.hyps(1)]
    tick_cons.IH tick_cons.prems
  show ?case by auto
qed


section \<open>Commands to the agent\<close>

record stat_command =
  TimeUpdate :: bool
  NewTime :: duration

definition sample_command :: stat_command where
  "sample_command = \<lparr>TimeUpdate = False, NewTime = 0\<rparr>"


section \<open>A bounded sample\<close>

text \<open>
  \<open>Sample\<close> runs the collection in a goroutine that sends its result on a channel of
  capacity one, and waits for it or for the timer, which exists only for a positive
  \<open>msgTimeout\<close>. \<open>collected\<close> is the result if the goroutine has sent it.
\<close>

inductive Sample_returns :: "duration \<Rightarrow> err option option \<Rightarrow> bool \<Rightarrow> err option \<Rightarrow> bool" where
  Sample_done: "Sample_returns mt (Some e) fired e"
| Sample_timeout: "0 < mt \<Longrightarrow>
     Sample_returns mt collected True (Some ''Sample collection exceeded timeout'')"

inductive_simps Sample_returns_iff: "Sample_returns mt collected fired r"

definition Sample_report :: "err option \<Rightarrow> err option chan option" where
  "Sample_report e = chan_send e (make_chan 1)"


text \<open>What each field of a sample holds.\<close>

lemma collectSample_stat_None:
  "collectSample_stat F ps env = None \<longleftrightarrow> se_host env = PPanic \<or> se_children env = PPanic"
  by (auto simp: collectSample_stat_def sample_host_def sample_children_def Let_def split: probe.split)

lemma collectSample_stat_key:
  "collectSample_stat F ps env = Some (s, key) \<Longrightarrow>
   key = (case se_host env of POk h \<Rightarrow> ''.'' @ Hostname h | _ \<Rightarrow> '''')"
  by (auto simp: collectSample_stat_def sample_host_def Let_def split: probe.splits option.splits)

lemma sample_fields:
  fixes env :: "('f, 'j) sample_env" and F :: "'f fops" and ps :: "'j collector"
  assumes sampled: "collectSample_stat F ps env = Some (s, key)"
  defines "prs \<equiv> sampled env"
  shows "RSS (Memory s) = sum_list (map RSS (oks (map pr_mem prs)))"
    and "VMS (Memory s) = sum_list (map VMS (oks (map pr_mem prs)))"
    and "Swap (Memory s) = sum_list (map Swap (oks (map pr_mem prs)))"
    and "ReadCount (IOCounters s) = sum_list (map ReadCount (oks (map pr_io prs)))"
    and "WriteCount (IOCounters s) = sum_list (map WriteCount (oks (map pr_io prs)))"
    and "ReadBytes (IOCounters s) = sum_list (map ReadBytes (oks (map pr_io prs)))"
    and "WriteBytes (IOCounters s) = sum_list (map WriteBytes (oks (map pr_io prs)))"
    and "OpenFiles s = concat (oks (map pr_files prs))"
    and "NumThreads s = wrap32 (sum_list (oks (map pr_threads prs)))"
    and "CPUPercent s = foldl (fadd F) (fzero F) (oks (map pr_percent prs))"
    and "User (CPUTimes s) = foldl (\<lambda>a x. facc F x a) (fzero F) (map User (oks (map pr_cpu prs)))"
    and "System (CPUTimes s) = foldl (\<lambda>a x. facc F x a) (fzero F) (map System (oks (map pr_cpu prs)))"
    and "ChildPids s = map pr_pid (tl prs)"
    and "stat_Pid s = pr_pid (se_proc env)"
    and "StdoutBytes s = se_stdout env"
    and "UserData s = userJSON ps"
proof -
  define y where "y = (case se_host env of POk h \<Rightarrow> (sample_begin F env)\<lparr>Host := h\<rparr> | _ \<Rightarrow> sample_begin F env)"
  define x where "x = aggregateStatForProc F (se_proc env) y"
  have y: "Memory y = \<lparr>RSS = 0, VMS = 0, Swap = 0\<rparr>"
    "IOCounters y = \<lparr>ReadCount = 0, WriteCount = 0, ReadBytes = 0, WriteBytes = 0\<rparr>"
    "OpenFiles y = []" "NumThreads y = 0" "CPUPercent y = fzero F" "ChildPids y = []"
    "User (CPUTimes y) = fzero F" "System (CPUTimes y) = fzero F"
    "stat_Pid y = pr_pid (se_proc env)"
    by (simp_all add: y_def sample_begin_def zero_sample_def Let_def split: probe.split)
  obtain cs where cs: "prs = se_proc env # cs"
    and s: "s = (aggregate_children F cs x)\<lparr>StdoutBytes := se_stdout env, UserData := userJSON ps\<rparr>"
    using sampled
    by (cases "se_host env"; cases "se_children env")
      (auto simp: prs_def sampled_def collectSample_stat_def sample_host_def sample_children_def x_def y_def Let_def)
  note totals = aggregate_children_memory aggregate_children_io aggregate_children_others(1,3)
    aggregate_children_floats
  show "RSS (Memory s) = sum_list (map RSS (oks (map pr_mem prs)))"
    and "VMS (Memory s) = sum_list (map VMS (oks (map pr_mem prs)))"
    and "Swap (Memory s) = sum_list (map Swap (oks (map pr_mem prs)))"
    and "ReadCount (IOCounters s) = sum_list (map ReadCount (oks (map pr_io prs)))"
    and "WriteCount (IOCounters s) = sum_list (map WriteCount (oks (map pr_io prs)))"
    and "ReadBytes (IOCounters s) = sum_list (map ReadBytes (oks (map pr_io prs)))"
    and "WriteBytes (IOCounters s) = sum_list (map WriteBytes (oks (map pr_io prs)))"
    and "OpenFiles s = concat (oks (map pr_files prs))"
    and "CPUPercent s = foldl (fadd F) (fzero F) (oks (map pr_percent prs))"
    and "User (CPUTimes s) = foldl (\<lambda>a x. facc F x a) (fzero F) (map User (oks (map pr_cpu prs)))"
    and "System (CPUTimes s) = foldl (\<lambda>a x. facc F x a) (fzero F) (map System (oks (map pr_cpu prs)))"
    and "ChildPids s = map pr_pid (tl prs)"
    and "stat_Pid s = pr_pid (se_proc env)"
    and "StdoutBytes s = se_stdout env"
    and "UserData s = userJSON ps"
    by (simp_all add: s cs x_def y totals add.commute split: probe.split)
  have "in_int32 (NumThreads x)" by (simp add: x_def y in_int32_def wrap32_def split: probe.split)
  then have "wrap32 (NumThreads s) = NumThreads s"
    by (simp add: s in_int32_NumThreads)
  moreover have "wrap32 (NumThreads s) = wrap32 (sum_list (oks (map pr_threads prs)))"
    by (simp add: s cs x_def y aggregate_children_others(2) split: probe.split)
  ultimately show "NumThreads s = wrap32 (sum_list (oks (map pr_threads prs)))" by simp
qed


section \<open>Properties of the statistics agent\<close>

text \<open>
  C22: a sample holds, for memory and I/O, the sums over the contained process and its
  children of what gopsutil reported, modulo the width of the fields, the open files of
  all of them, the pids of the children, and the floating-point sums in that order; a call
  that fails or panics leaves out its own contribution and nothing else; without a list of
  children the sample is that of the process alone. There is a sample unless the host
  information or the list of children panics, which nothing recovers.
\<close>

theorem sample_totals:
  "case collectSample_stat F ps env of
     None \<Rightarrow> se_host env = PPanic \<or> se_children env = PPanic
   | Some (s, _) \<Rightarrow> (let prs = sampled env in
     se_host env \<noteq> PPanic \<and> se_children env \<noteq> PPanic \<and>
     RSS (Memory s) = sum_list (map RSS (oks (map pr_mem prs))) \<and>
     VMS (Memory s) = sum_list (map VMS (oks (map pr_mem prs))) \<and>
     Swap (Memory s) = sum_list (map Swap (oks (map pr_mem prs))) \<and>
     ReadCount (IOCounters s) = sum_list (map ReadCount (oks (map pr_io prs))) \<and>
     WriteCount (IOCounters s) = sum_list (map WriteCount (oks (map pr_io prs))) \<and>
     ReadBytes (IOCounters s) = sum_list (map ReadBytes (oks (map pr_io prs))) \<and>
     WriteBytes (IOCounters s) = sum_list (map WriteBytes (oks (map pr_io prs))) \<and>
     OpenFiles s = concat (oks (map pr_files prs)) \<and>
     NumThreads s = wrap32 (sum_list (oks (map pr_threads prs))) \<and>
     CPUPercent s = foldl (fadd F) (fzero F) (oks (map pr_percent prs)) \<and>
     User (CPUTimes s) = foldl (\<lambda>a x. facc F x a) (fzero F) (map User (oks (map pr_cpu prs))) \<and>
     System (CPUTimes s) = foldl (\<lambda>a x. facc F x a) (fzero F) (map System (oks (map pr_cpu prs))) \<and>
     ChildPids s = map pr_pid (tl prs) \<and>
     stat_Pid s = pr_pid (se_proc env) \<and>
     StdoutBytes s = se_stdout env \<and>
     UserData s = userJSON ps)"
proof (cases "collectSample_stat F ps env")
  case None
  with collectSample_stat_None [of F ps env] have "se_host env = PPanic \<or> se_children env = PPanic" by blast
  then show ?thesis by (simp add: None)
next
  case (Some r)
  obtain s key where r: "r = (s, key)" by fastforce
  from Some have "se_host env \<noteq> PPanic \<and> se_children env \<noteq> PPanic"
    using collectSample_stat_None [of F ps env] by simp
  then show ?thesis
    using sample_fields [OF Some [unfolded r]] by (simp add: Some r)
qed

text \<open>
  Every collection publishes exactly one transient message, to the agent's exchange
  under the routing key prefix with the host name appended when it is known, on the agent's
  current channel, and returns the answer to that; also when the JSON encoder failed, whose error is lost, so that the
  broker then gets whatever the encoder left (an empty body) and the collection counts as
  a success.
\<close>

theorem sample_published:
  "collectSample F ps env =
     (case collectSample_stat F ps env of None \<Rightarrow> None | Some (s, _) \<Rightarrow>
      let m = \<lparr>pub_exchange = exchange ps,
               pub_key = routingKey ps @ (case se_host env of POk h \<Rightarrow> ''.'' @ Hostname h | _ \<Rightarrow> ''''),
               pub_mandatory = False, pub_immediate = False,
               pub_ContentType = ''text/javascript'', pub_ContentEncoding = '''',
               pub_DeliveryMode = 1, pub_Priority = 0,
               pub_Body = fst (se_marshal env s)\<rparr>
      in Some (se_publish env (channel ps) m, m))"
proof (cases "collectSample_stat F ps env")
  case (Some r)
  obtain s key where r: "r = (s, key)" by fastforce
  from collectSample_stat_key [OF Some [unfolded r]] Some r show ?thesis
    by (simp add: collectSample_def Let_def split_beta split: probe.splits)
qed (simp add: collectSample_def)

text \<open>
  \<open>Sample\<close> does not wait for ever on a collection that hangs: with a positive message
  timeout it can return as soon as the timer has fired, with the timeout error and with
  nothing else unless the collection has finished; without one it returns exactly the
  result of the collection. The collecting goroutine can always hand over its result.
\<close>

theorem sample_timeout:
  "(0 < mt \<longrightarrow> (Sample_returns mt None fired r \<longleftrightarrow>
      fired \<and> r = Some ''Sample collection exceeded timeout'')) \<and>
   (mt \<le> 0 \<longrightarrow> (Sample_returns mt collected fired r \<longleftrightarrow> collected = Some r)) \<and>
   Sample_report e \<noteq> None"
  by (auto simp: Sample_returns_iff Sample_report_def chan_send_def make_chan_def)

theorem sample_timeout_witness:
  "Sample_returns (30 * second) None True (Some ''Sample collection exceeded timeout'')"
  using sample_timeout [of "30 * second" True "Some ''Sample collection exceeded timeout''"] by simp

text \<open>
  Changing the sample rate leaves the earlier tickers running and their goroutines
  waiting on them. Between two changes the tickers that were replaced trigger at most one
  more sample for each change made before, whatever the scheduling; from then on every
  sample comes from the new ticker. No goroutine ends: there is one per change.
\<close>

theorem stale_tickers_bounded:
  assumes "tick_trace t es u" and "\<And>d. Changed d \<notin> set es"
  shows "length (filter (stale_fire (tk_current t)) es) \<le> length (tk_goroutines t) \<and>
     length (tk_goroutines u) = length (tk_goroutines t) \<and> tk_current u = tk_current t"
proof -
  have "stale t \<le> length (tk_goroutines t)" by (simp add: stale_def)
  with tick_trace_stale [OF assms] show ?thesis by simp
qed

theorem stale_tickers_bounded_witness:
  "\<exists>t u. tick_trace t [Fires 0, Quiet, Quiet] u \<and> tk_current t = 1 \<and> length (tk_goroutines u) = 2 \<and>
     length (filter (stale_fire 1) [Fires 0, Quiet, Quiet]) \<le> 2"
proof -
  let ?t = "\<lambda>gs. \<lparr>tk_periods = [5, 7], tk_current = 1, tk_goroutines = gs\<rparr>"
  have "tick_step (?t [WaitingOn 0, Entering]) (Fires 0) (?t [Sampling, Entering])"
    and "tick_step (?t [Sampling, Entering]) Quiet (?t [Entering, Entering])"
    and "tick_step (?t [Entering, Entering]) Quiet (?t [WaitingOn 1, Entering])"
    using tick_step.fires [of 0 "?t [WaitingOn 0, Entering]" 0]
      tick_step.sampled [of 0 "?t [Sampling, Entering]"] tick_step.enter [of 0 "?t [Entering, Entering]"]
    by simp_all
  then have run: "tick_trace (?t [WaitingOn 0, Entering]) [Fires 0, Quiet, Quiet] (?t [WaitingOn 1, Entering])"
    by (meson tick_cons tick_nil)
  from stale_tickers_bounded [OF run] run show ?thesis
    by (intro exI [of _ "?t [WaitingOn 0, Entering]"] exI [of _ "?t [WaitingOn 1, Entering]"]) simp
qed

end
