(* ===== verification/Remote_Control.thy ===== *)
theory Remote_Control
  imports Prelude
begin

text \<open>
  Remote control over AMQP, \<open>agents/remote_control.go\<close>: declaring and binding the queue,
  and the goroutine \<open>handle\<close> that turns deliveries into commands for the monitor.

  Parameters: the broker's answers and \<open>json.Unmarshal\<close>, which gives the command decoded so
  far together with its error.
\<close>

record remote_command =
  Command :: string
  Arguments :: "string list"

text \<open>Connections and channels are known by numbers; \<open>None\<close> is a nil channel or pointer.\<close>

record remote_control =
  rc_conn :: nat
  rc_channel :: nat
  rc_tag :: string
  rc_done :: "nat option"
  rc_Commands :: nat

datatype rc_call =
    CallChannel
  | CallQueueDeclare string bool bool bool bool
  | CallQueueBind string string string bool
  | CallConsume string string bool bool bool bool

record rc_broker =
  rb_channel :: "err option"
  rb_channel_id :: nat
  rb_queue_declare :: "err + string"
  rb_queue_bind :: "string \<Rightarrow> string \<Rightarrow> string \<Rightarrow> err option"
  rb_consume :: "string \<Rightarrow> string \<Rightarrow> err option"

abbreviation rc_newline :: string where "rc_newline \<equiv> [CHR 0x0A]"

fun bind_all :: "rc_broker \<Rightarrow> string \<Rightarrow> string \<Rightarrow> string list \<Rightarrow> err option \<times> rc_call list" where
  "bind_all B name ex [] = (None, [])"
| "bind_all B name ex (rk # rks) =
     (case rb_queue_bind B name rk ex of
        Some e \<Rightarrow> (Some (''Failed to bind the queue: '' @ e @ rc_newline), [CallQueueBind name rk ex False])
      | None \<Rightarrow> (case bind_all B name ex rks of (r, cs) \<Rightarrow> (r, CallQueueBind name rk ex False # cs)))"

text \<open>
  The second component is the calls made to the broker, in order. \<open>fresh\<close> is the channel
  made for the commands; the field \<open>done\<close> is left nil. On success the goroutine \<open>handle\<close>
  starts.
\<close>

definition NewRemoteControl ::
    "nat option \<Rightarrow> string list \<Rightarrow> string \<Rightarrow> nat \<Rightarrow> rc_broker \<Rightarrow> (err + remote_control) \<times> rc_call list" where
  "NewRemoteControl conn routingKeys exchange fresh B =
     (case conn of
        None \<Rightarrow> (Inl ''Provided AMQP connection is nil'', [])
      | Some c \<Rightarrow>
        (let rc = \<lparr>rc_conn = c, rc_channel = rb_channel_id B, rc_tag = ''proc_box_remote_control'',
                   rc_done = None, rc_Commands = fresh\<rparr>
         in case rb_channel B of
           Some e \<Rightarrow> (Inl (''Unable to open a channel on AMQP connection: '' @ e @ rc_newline), [CallChannel])
         | None \<Rightarrow>
           (let calls = [CallChannel, CallQueueDeclare '''' False True False False]
            in case rb_queue_declare B of
              Inl e \<Rightarrow> (Inl (''Failed to acquire a remote control queue: '' @ e @ rc_newline), calls)
            | Inr name \<Rightarrow>
              (case bind_all B name exchange routingKeys of
                 (Some e, binds) \<Rightarrow> (Inl e, calls @ binds)
               | (None, binds) \<Rightarrow>
                 (let calls = calls @ binds @
                        [CallConsume name ''proc_box_remote_control'' False False False False]
                  in case rb_consume B name ''proc_box_remote_control'' of
                    Some e \<Rightarrow> (Inl (''Failed to consume queue: '' @ e @ rc_newline), calls)
                  | None \<Rightarrow> (Inr rc, calls))))))"

text \<open>\<open>bindQueue\<close> is not called by the program.\<close>

definition bindQueue :: "rc_broker \<Rightarrow> string \<Rightarrow> string \<Rightarrow> string \<Rightarrow> err option" where
  "bindQueue B name key ex =
     (case rb_queue_bind B name key ex of
        Some e \<Rightarrow> Some (''Failed to bind the queue: '' @ e @ rc_newline)
      | None \<Rightarrow> None)"


section \<open>The goroutine handle\<close>

text \<open>
  One delivery is decoded, sent to the monitor on the unbuffered channel \<open>Commands\<close> and
  then acknowledged. When the deliveries end, \<open>handle\<close> sends on \<open>done\<close>: a send on a nil
  channel blocks for ever.
\<close>

record 'b delivery =
  d_body :: 'b
  d_tag :: nat

datatype handle_pc = Receiving | SendingCommand remote_command nat | Acking nat | AtDone | Returned

datatype handle_event = Received nat | Forwarded remote_command | Acked nat | Ended | DoneSent

record 'b handler =
  h_unmarshal :: "'b \<Rightarrow> remote_command \<times> err option"
  h_deliveries :: "'b delivery list"
  h_done :: "nat option"
  h_pc :: handle_pc

definition handle_start ::
    "('b \<Rightarrow> remote_command \<times> err option) \<Rightarrow> 'b delivery list \<Rightarrow> nat option \<Rightarrow> 'b handler" where
  "handle_start um ds dn = \<lparr>h_unmarshal = um, h_deliveries = ds, h_done = dn, h_pc = Receiving\<rparr>"

inductive handle_step :: "'b handler \<Rightarrow> handle_event \<Rightarrow> 'b handler \<Rightarrow> bool" where
  h_receive: "h_pc h = Receiving \<Longrightarrow> h_deliveries h = d # ds \<Longrightarrow>
     handle_step h (Received (d_tag d))
       (h\<lparr>h_deliveries := ds, h_pc := SendingCommand (fst (h_unmarshal h (d_body d))) (d_tag d)\<rparr>)"
| h_send: "h_pc h = SendingCommand c t \<Longrightarrow> handle_step h (Forwarded c) (h\<lparr>h_pc := Acking t\<rparr>)"
| h_ack: "h_pc h = Acking t \<Longrightarrow> handle_step h (Acked t) (h\<lparr>h_pc := Receiving\<rparr>)"
| h_end: "h_pc h = Receiving \<Longrightarrow> h_deliveries h = [] \<Longrightarrow> handle_step h Ended (h\<lparr>h_pc := AtDone\<rparr>)"
| h_done: "h_pc h = AtDone \<Longrightarrow> h_done h = Some ch \<Longrightarrow> handle_step h DoneSent (h\<lparr>h_pc := Returned\<rparr>)"

inductive_cases handle_stepE: "handle_step h e h'"

inductive handle_trace :: "'b handler \<Rightarrow> handle_event list \<Rightarrow> 'b handler \<Rightarrow> bool" where
  handle_nil: "handle_trace h [] h"
| handle_snoc: "handle_trace h es h' \<Longrightarrow> handle_step h' e h'' \<Longrightarrow> handle_trace h (es @ [e]) h''"

definition forwarded :: "handle_event list \<Rightarrow> remote_command list" where
  "forwarded es = List.map_filter (\<lambda>e. case e of Forwarded c \<Rightarrow> Some c | _ \<Rightarrow> None) es"

definition acked :: "handle_event list \<Rightarrow> nat list" where
  "acked es = List.map_filter (\<lambda>e. case e of Acked t \<Rightarrow> Some t | _ \<Rightarrow> None) es"

lemma map_filter_snoc [simp]:
  "List.map_filter f (xs @ [x]) = List.map_filter f xs @ (case f x of None \<Rightarrow> [] | Some y \<Rightarrow> [y])"
  by (induction xs) (auto simp: List.map_filter_simps split: option.splits)

lemma map_filter_Nil [simp]: "List.map_filter f [] = []"
  by (simp add: List.map_filter_simps)

text \<open>
  The invariant of a run over the deliveries \<open>ds\<close>: what is forwarded and acknowledged is
  a prefix of them, and what is left is the rest.
\<close>

definition handle_inv :: "('b \<Rightarrow> remote_command \<times> err option) \<Rightarrow> 'b delivery list \<Rightarrow>
    handle_event list \<Rightarrow> 'b handler \<Rightarrow> bool" where
  "handle_inv um ds es h \<longleftrightarrow>
     h_unmarshal h = um \<and>
     (\<exists>k. let done = take k ds; cmds = map (\<lambda>d. fst (um (d_body d))) done; tags = map d_tag done in
        case h_pc h of
          SendingCommand c t \<Rightarrow>
            k < length ds \<and> c = fst (um (d_body (ds ! k))) \<and> t = d_tag (ds ! k) \<and>
            h_deliveries h = drop (Suc k) ds \<and> forwarded es = cmds \<and> acked es = tags
        | Acking t \<Rightarrow>
            k < length ds \<and> t = d_tag (ds ! k) \<and> h_deliveries h = drop (Suc k) ds \<and>
            forwarded es = cmds @ [fst (um (d_body (ds ! k)))] \<and> acked es = tags
        | Receiving \<Rightarrow> h_deliveries h = drop k ds \<and> forwarded es = cmds \<and> acked es = tags
        | _ \<Rightarrow> k = length ds \<and> h_deliveries h = [] \<and> forwarded es = cmds \<and> acked es = tags)"

lemma handle_inv_start: "handle_inv um ds [] (handle_start um ds dn)"
  by (auto simp: handle_inv_def handle_start_def Let_def forwarded_def acked_def intro: exI [of _ 0])

lemma handle_inv_step:
  assumes "handle_inv um ds es h" and "handle_step h e h'"
  shows "handle_inv um ds (es @ [e]) h'"
  using assms(2)
proof cases
  case (h_receive d rest)
  with assms(1) obtain k where k: "h_deliveries h = drop k ds" "h_unmarshal h = um"
      "forwarded es = map (\<lambda>d. fst (um (d_body d))) (take k ds)" "acked es = map d_tag (take k ds)"
    by (auto simp: handle_inv_def Let_def)
  from k(1) h_receive have "drop k ds = d # rest" by simp
  from drop_eq_ConsD [OF this] k h_receive show ?thesis
    by (auto simp: handle_inv_def Let_def forwarded_def acked_def intro!: exI [of _ k])
next
  case (h_send c t)
  with assms(1) show ?thesis
    by (auto simp: handle_inv_def Let_def forwarded_def acked_def)
next
  case (h_ack t)
  with assms(1) obtain k where "k < length ds" "t = d_tag (ds ! k)" "h_deliveries h = drop (Suc k) ds"
      "forwarded es = map (\<lambda>d. fst (um (d_body d))) (take k ds) @ [fst (um (d_body (ds ! k)))]"
      "acked es = map d_tag (take k ds)" "h_unmarshal h = um"
    by (auto simp: handle_inv_def Let_def)
  with h_ack show ?thesis
    by (auto simp: handle_inv_def Let_def forwarded_def acked_def take_Suc_conv_app_nth
        intro!: exI [of _ "Suc k"])
next
  case h_end
  with assms(1) obtain k where "drop k ds = []" "h_unmarshal h = um"
      "forwarded es = map (\<lambda>d. fst (um (d_body d))) (take k ds)" "acked es = map d_tag (take k ds)"
    by (auto simp: handle_inv_def Let_def)
  with h_end show ?thesis
    by (auto simp: handle_inv_def Let_def forwarded_def acked_def intro!: exI [of _ "length ds"])
next
  case (h_done ch)
  with assms(1) show ?thesis
    by (auto simp: handle_inv_def Let_def forwarded_def acked_def)
qed

lemma handle_inv_trace:
  "handle_trace h es h' \<Longrightarrow> h = handle_start um ds dn \<Longrightarrow> handle_inv um ds es h'"
  by (induction rule: handle_trace.induct) (auto intro: handle_inv_start handle_inv_step)

lemma handle_trace_done:
  "handle_trace h es h' \<Longrightarrow> h_done h' = h_done h \<and> (h_done h = None \<longrightarrow> h_pc h \<noteq> Returned \<longrightarrow> h_pc h' \<noteq> Returned)"
proof (induction rule: handle_trace.induct)
  case (handle_snoc h es h' e h'')
  from handle_snoc.hyps(2) handle_snoc.IH show ?case by (auto elim!: handle_stepE)
qed simp

section \<open>Shutdown\<close>

text \<open>
  \<open>Shutdown\<close> cancels the consumer and then receives from \<open>done\<close>: from a nil channel it
  receives nothing, ever. \<open>sent\<close> says whether \<open>handle\<close> has sent.
\<close>

datatype shutdown_result = ShutdownReturns "err option" | ShutdownWaits | ShutdownBlocksForever

definition Shutdown :: "err option \<Rightarrow> bool \<Rightarrow> remote_control \<Rightarrow> shutdown_result" where
  "Shutdown cancel sent rc =
     (case cancel of
        Some e \<Rightarrow> ShutdownReturns (Some (''RemoteControl cancel failed: '' @ e))
      | None \<Rightarrow>
          (case rc_done rc of
             None \<Rightarrow> ShutdownBlocksForever
           | Some _ \<Rightarrow> if sent then ShutdownReturns None else ShutdownWaits))"


section \<open>Properties of the remote control\<close>

lemma bind_all_ok_iff:
  "bind_all B name ex rks = (None, cs) \<longleftrightarrow>
     (\<forall>rk\<in>set rks. rb_queue_bind B name rk ex = None) \<and>
     cs = map (\<lambda>rk. CallQueueBind name rk ex False) rks"
proof (induction rks arbitrary: cs)
  case (Cons rk rks)
  obtain r cs' where eq: "bind_all B name ex rks = (r, cs')" by fastforce
  show ?case
    using Cons.IH [of cs'] Cons.IH [of "map (\<lambda>rk. CallQueueBind name rk ex False) rks"] eq
    by (cases "rb_queue_bind B name rk ex") auto
qed auto

lemma bind_all_SomeD:
  "bind_all B name ex rks = (Some e, cs) \<Longrightarrow> \<not> (\<forall>rk\<in>set rks. rb_queue_bind B name rk ex = None)"
  using bind_all_ok_iff [of B name ex rks "map (\<lambda>rk. CallQueueBind name rk ex False) rks"] by auto

lemma bind_all_calls:
  "bind_all B name ex rks = (r, cs) \<Longrightarrow> \<exists>n. cs = map (\<lambda>k. CallQueueBind name k ex False) (take n rks)"
proof (induction rks arbitrary: cs)
  case (Cons rk rks)
  show ?case
  proof (cases "rb_queue_bind B name rk ex")
    case (Some e')
    with Cons.prems show ?thesis by (intro exI [of _ 1]) auto
  next
    case None
    with Cons.prems obtain cs' where "bind_all B name ex rks = (r, cs')"
      and cs: "cs = CallQueueBind name rk ex False # cs'"
      by (auto split: prod.splits)
    from Cons.IH [OF this(1)] obtain n where
      "cs' = map (\<lambda>k. CallQueueBind name k ex False) (take n rks)" by blast
    with cs show ?thesis by (intro exI [of _ "Suc n"]) simp
  qed
qed auto

text \<open>The calls of a complete set-up on the queue \<open>name\<close>.\<close>

definition setup_calls :: "string list \<Rightarrow> string \<Rightarrow> string \<Rightarrow> rc_call list" where
  "setup_calls keys ex name =
     [CallChannel, CallQueueDeclare '''' False True False False] @
     map (\<lambda>k. CallQueueBind name k ex False) keys @
     [CallConsume name ''proc_box_remote_control'' False False False False]"

lemma setup_calls_take:
  "[CallChannel, CallQueueDeclare '''' False True False False] @
     map (\<lambda>k. CallQueueBind name k ex False) (take m keys)
   = take (2 + min m (length keys)) (setup_calls keys ex name)"
  by (simp add: setup_calls_def take_map min_def)

lemma NewRemoteControl_calls:
  "\<exists>n. snd (NewRemoteControl conn keys ex fresh B)
     = take n (setup_calls keys ex (projr (rb_queue_declare B)))"
proof (cases "conn = None \<or> rb_channel B \<noteq> None \<or> (\<exists>e. rb_queue_declare B = Inl e)")
  case True
  then show ?thesis
    by (auto simp: NewRemoteControl_def setup_calls_def split: option.splits
        intro: exI [of _ 0] exI [of _ 1] exI [of _ 2])
next
  case False
  then obtain c name where conn: "conn = Some c" "rb_channel B = None" "rb_queue_declare B = Inr name"
    by (cases "rb_queue_declare B") auto
  obtain r binds where r: "bind_all B name ex keys = (r, binds)" by fastforce
  show ?thesis
  proof (cases r)
    case (Some e)
    from bind_all_calls [OF r] obtain m where
      "binds = map (\<lambda>k. CallQueueBind name k ex False) (take m keys)" by blast
    with conn r Some setup_calls_take [of name ex m keys] show ?thesis
      by (auto simp: NewRemoteControl_def intro: exI [of _ "2 + min m (length keys)"])
  next
    case None
    with r have "binds = map (\<lambda>k. CallQueueBind name k ex False) keys"
      by (simp add: bind_all_ok_iff)
    with conn r None show ?thesis
      by (intro exI [of _ "length (setup_calls keys ex name)"])
        (simp add: NewRemoteControl_def setup_calls_def Let_def split: option.split)
  qed
qed

text \<open>
  A remote control is returned if and only if there is a connection and the broker
  accepts the channel, the queue, the binding of every routing key and the consumer, and
  then the broker was asked for exactly that, the keys in their order; in every case the
  calls made are an initial part of that sequence, so that after a refused binding no
  later key is bound and nothing is consumed.
\<close>

theorem remote_control_setup:
  "((\<exists>rc. NewRemoteControl conn keys ex fresh B = (Inr rc, calls)) \<longleftrightarrow>
     (\<exists>name. conn \<noteq> None \<and> rb_channel B = None \<and> rb_queue_declare B = Inr name \<and>
        (\<forall>k\<in>set keys. rb_queue_bind B name k ex = None) \<and>
        rb_consume B name ''proc_box_remote_control'' = None \<and> calls = setup_calls keys ex name)) \<and>
   (\<exists>n. snd (NewRemoteControl conn keys ex fresh B)
      = take n (setup_calls keys ex (projr (rb_queue_declare B))))"
proof (rule conjI [OF _ NewRemoteControl_calls])
  show "(\<exists>rc. NewRemoteControl conn keys ex fresh B = (Inr rc, calls)) \<longleftrightarrow>
     (\<exists>name. conn \<noteq> None \<and> rb_channel B = None \<and> rb_queue_declare B = Inr name \<and>
        (\<forall>k\<in>set keys. rb_queue_bind B name k ex = None) \<and>
        rb_consume B name ''proc_box_remote_control'' = None \<and> calls = setup_calls keys ex name)"
    by (auto simp: NewRemoteControl_def Let_def bind_all_ok_iff setup_calls_def
        split: option.splits sum.splits prod.splits dest: bind_all_SomeD)
qed

theorem remote_control_setup_witness:
  "\<exists>rc. NewRemoteControl (Some 1) [''box.all'', ''box.7''] ''amq.topic'' 5
       \<lparr>rb_channel = None, rb_channel_id = 2, rb_queue_declare = Inr ''q'', rb_queue_bind = (\<lambda>_ _ _. None),
        rb_consume = (\<lambda>_ _. None)\<rparr> = (Inr rc, setup_calls [''box.all'', ''box.7''] ''amq.topic'' ''q'')"
  using remote_control_setup [of "Some 1" "[''box.all'', ''box.7'']" "''amq.topic''" 5
      "\<lparr>rb_channel = None, rb_channel_id = 2, rb_queue_declare = Inr ''q'', rb_queue_bind = (\<lambda>_ _ _. None),
        rb_consume = (\<lambda>_ _. None)\<rparr>" "setup_calls [''box.all'', ''box.7''] ''amq.topic'' ''q''"] by simp

text \<open>What the next property states, for the proofs that build on it.\<close>

lemma handle_progress:
  assumes "handle_trace (handle_start um ds dn) es h"
  shows "\<exists>m n. m \<le> n \<and> n \<le> m + 1 \<and> n \<le> length ds \<and>
     forwarded es = map (\<lambda>d. fst (um (d_body d))) (take n ds) \<and> acked es = map d_tag (take m ds)"
proof -
  obtain k where k: "let done = take k ds; cmds = map (\<lambda>d. fst (um (d_body d))) done; tags = map d_tag done in
      case h_pc h of
        SendingCommand c t \<Rightarrow>
          k < length ds \<and> c = fst (um (d_body (ds ! k))) \<and> t = d_tag (ds ! k) \<and>
          h_deliveries h = drop (Suc k) ds \<and> forwarded es = cmds \<and> acked es = tags
      | Acking t \<Rightarrow>
          k < length ds \<and> t = d_tag (ds ! k) \<and> h_deliveries h = drop (Suc k) ds \<and>
          forwarded es = cmds @ [fst (um (d_body (ds ! k)))] \<and> acked es = tags
      | Receiving \<Rightarrow> h_deliveries h = drop k ds \<and> forwarded es = cmds \<and> acked es = tags
      | _ \<Rightarrow> k = length ds \<and> h_deliveries h = [] \<and> forwarded es = cmds \<and> acked es = tags"
    using handle_inv_trace [OF assms refl] by (auto simp: handle_inv_def)
  show ?thesis
  proof (cases "\<exists>t. h_pc h = Acking t")
    case True
    with k have "k < length ds \<and> forwarded es = map (\<lambda>d. fst (um (d_body d))) (take (Suc k) ds)
        \<and> acked es = map d_tag (take k ds)"
      by (auto simp: Let_def take_Suc_conv_app_nth)
    then show ?thesis by (intro exI [of _ k] exI [of _ "Suc k"]) simp
  next
    case False
    with k have eq: "forwarded es = map (\<lambda>d. fst (um (d_body d))) (take k ds) \<and> acked es = map d_tag (take k ds)"
      by (auto simp: Let_def split: handle_pc.splits)
    have "take (min k (length ds)) ds = take k ds" by (simp add: min_def)
    with eq show ?thesis
      by (intro exI [of _ "min k (length ds)"]) simp
  qed
qed

text \<open>
  Over every run of \<open>handle\<close>, the commands handed to the monitor are the decoded
  bodies of the first \<open>n\<close> deliveries, in order, and the acknowledged deliveries are the
  first \<open>m\<close>, with \<open>m \<le> n \<le> m + 1\<close>: no delivery is acknowledged before the monitor has
  its command, none is skipped or handed over twice. A body that does not decode is handed
  over too, as whatever the decoder left of it.
\<close>

theorem handle_hands_over_in_order:
  assumes "handle_trace (handle_start um ds dn) es h"
  shows "\<exists>m n. m \<le> n \<and> n \<le> m + 1 \<and> n \<le> length ds \<and>
     forwarded es = map (\<lambda>d. fst (um (d_body d))) (take n ds) \<and> acked es = map d_tag (take m ds)"
  by (rule handle_progress [OF assms])

theorem handle_hands_over_in_order_witness:
  "\<exists>es h. handle_trace (handle_start (\<lambda>b. (b, None)) [\<lparr>d_body = \<lparr>Command = ''stop'', Arguments = []\<rparr>, d_tag = 4\<rparr>] None) es h \<and>
     forwarded es = [\<lparr>Command = ''stop'', Arguments = []\<rparr>] \<and> length (acked es) \<le> 1"
proof -
  let ?c = "\<lparr>Command = ''stop'', Arguments = []\<rparr>"
  let ?h = "handle_start (\<lambda>b. (b, None)) [\<lparr>d_body = ?c, d_tag = 4\<rparr>] None"
  let ?h1 = "?h\<lparr>h_deliveries := [], h_pc := SendingCommand ?c 4\<rparr>"
  have "handle_step ?h (Received 4) ?h1"
    using h_receive [of ?h "\<lparr>d_body = ?c, d_tag = 4\<rparr>" "[]"] by (simp add: handle_start_def)
  moreover have "handle_step ?h1 (Forwarded ?c) (?h1\<lparr>h_pc := Acking 4\<rparr>)"
    by (rule h_send) simp
  ultimately have "handle_trace ?h [Received 4, Forwarded ?c] (?h1\<lparr>h_pc := Acking 4\<rparr>)"
    using handle_snoc [OF handle_snoc [OF handle_nil]] by fastforce
  from handle_hands_over_in_order [OF this] this show ?thesis
    by (intro exI [of _ "[Received 4, Forwarded ?c]"] exI [of _ "?h1\<lparr>h_pc := Acking 4\<rparr>"])
      (auto simp: forwarded_def acked_def List.map_filter_simps)
qed

text \<open>
  The channel \<open>done\<close> of a remote control is never made. \<open>Shutdown\<close> of a remote
  control that \<open>NewRemoteControl\<close> returned blocks for ever once the broker has accepted the
  cancellation, and its \<open>handle\<close> goroutine never returns, whatever happens.
\<close>

theorem shutdown_blocks_forever:
  assumes "NewRemoteControl conn keys ex fresh B = (Inr rc, calls)"
  shows "Shutdown None sent rc = ShutdownBlocksForever \<and>
     (\<forall>es h. handle_trace (handle_start um ds (rc_done rc)) es h \<longrightarrow> h_pc h \<noteq> Returned)"
proof -
  have "rc_done rc = None"
    using assms
    by (auto simp: NewRemoteControl_def Let_def split: option.splits sum.splits prod.splits)
  moreover have "h_pc h \<noteq> Returned" if "handle_trace (handle_start um ds None) es h" for es h
    using handle_trace_done [OF that] by (simp add: handle_start_def)
  ultimately show ?thesis by (auto simp: Shutdown_def)
qed

theorem shutdown_blocks_forever_witness:
  "\<exists>rc calls. NewRemoteControl (Some 1) [''k''] ''amq.topic'' 7
     \<lparr>rb_channel = None, rb_channel_id = 2, rb_queue_declare = Inr ''q'', rb_queue_bind = (\<lambda>_ _ _. None),
      rb_consume = (\<lambda>_ _. None)\<rparr> = (Inr rc, calls) \<and> Shutdown None True rc = ShutdownBlocksForever"
proof -
  let ?B = "\<lparr>rb_channel = None, rb_channel_id = 2, rb_queue_declare = Inr ''q'',
      rb_queue_bind = (\<lambda>_ _ _. None), rb_consume = (\<lambda>_ _. None)\<rparr>"
  obtain rc calls where new: "NewRemoteControl (Some 1) [''k''] ''amq.topic'' 7 ?B = (Inr rc, calls)"
    by (simp add: NewRemoteControl_def)
  from shutdown_blocks_forever [OF this, of True "\<lambda>b :: unit. undefined b" "[]"] new show ?thesis
    by blast
qed

end
