(* ===== verification/Monitor.thy ===== *)
theory Monitor
  imports Timer Process_Stats Remote_Control
begin

text \<open>
  The monitor, \<open>monitor\<close> in \<open>main.go\<close>: one goroutine that turns signals, remote commands,
  the timeout, the end of the job and the stdout limit into signals to the contained
  process, requests for samples and timer commands. One branch of its \<open>select\<close> is one
  function; a function ends in an \<open>outcome\<close>: the loop goes on, proc_box exits, the
  goroutine waits on the full command channel of the timer, or on \<open>done\<close>.
\<close>

section \<open>Parsing the argument of kill\<close>

text \<open>\<open>strconv.ParseInt(s, 10, 32)\<close>; \<open>None\<close> is an error (syntax or range).\<close>

definition digit_value :: "char \<Rightarrow> nat option" where
  "digit_value c =
     (let n = of_char c :: nat in if 48 \<le> n \<and> n \<le> 57 then Some (n - 48) else None)"

fun parse_digits :: "nat \<Rightarrow> string \<Rightarrow> nat option" where
  "parse_digits acc [] = Some acc"
| "parse_digits acc (c # cs) =
     (case digit_value c of None \<Rightarrow> None | Some d \<Rightarrow> parse_digits (10 * acc + d) cs)"

definition ParseUint10 :: "string \<Rightarrow> nat option" where
  "ParseUint10 s = (if s = [] then None else parse_digits 0 s)"

definition ParseInt10_32 :: "string \<Rightarrow> int option" where
  "ParseInt10_32 s =
     (case s of
        [] \<Rightarrow> None
      | c # cs \<Rightarrow>
          (let neg = (c = CHR ''-''); ds = (if c = CHR ''-'' \<or> c = CHR ''+'' then cs else s)
           in case ParseUint10 ds of
                None \<Rightarrow> None
              | Some n \<Rightarrow>
                  if \<not> neg \<and> 2 ^ 31 \<le> n \<or> neg \<and> 2 ^ 31 < n then None
                  else Some (if neg then - int n else int n)))"


section \<open>State and outcomes\<close>

text \<open>
  \<open>m_psReady\<close> says that the router of \<open>redial\<close> is waiting to receive from the unbuffered
  \<open>psChan\<close>, which is when a send with a \<open>default\<close> branch succeeds; \<open>m_psSent\<close> are the
  commands it has taken. \<open>m_limit\<close> is the flag \<open>stdoutlimit\<close>.
\<close>

record mon =
  m_job :: job
  m_os :: os
  m_timer :: wallclock_timer
  m_limit :: int
  m_rcChan :: "nat option"
  m_psReady :: bool
  m_psSent :: "stat_command list"

datatype outcome =
    Continue mon
  | ExitProcess int mon
  | TimerBlocks string mon
  | SendsDone "err option" mon

definition ps_try_send :: "stat_command \<Rightarrow> mon \<Rightarrow> mon" where
  "ps_try_send c m =
     (if m_psReady m then m\<lparr>m_psSent := m_psSent m @ [c], m_psReady := False\<rparr> else m)"

definition with_job :: "(job \<Rightarrow> os \<Rightarrow> err option \<times> os) \<Rightarrow> mon \<Rightarrow> err option \<times> mon" where
  "with_job op m = (case op (m_job m) (m_os m) of (e, w) \<Rightarrow> (e, m\<lparr>m_os := w\<rparr>))"

definition handle_signal :: "sig \<Rightarrow> mon \<Rightarrow> outcome" where
  "handle_signal s m =
     (if s = SIGINT then Continue (snd (with_job Job_Stop (ps_try_send sample_command m)))
      else if s = SIGTERM then Continue (snd (with_job (Job_Kill (- 9)) m))
      else if s = SIGHUP then Continue (ps_try_send sample_command m)
      else if s = SIGQUIT then Continue (snd (with_job Job_Stop (ps_try_send sample_command m)))
      else Continue m)"

definition kill_argument :: "string list \<Rightarrow> int" where
  "kill_argument as =
     (case as of [] \<Rightarrow> - 9 | a # _ \<Rightarrow> (case ParseInt10_32 a of None \<Rightarrow> - 9 | Some n \<Rightarrow> n))"

definition timer_op ::
    "string \<Rightarrow> (wallclock_timer \<Rightarrow> (err option \<times> wallclock_timer) option) \<Rightarrow> mon \<Rightarrow> outcome" where
  "timer_op name op m =
     (case op (m_timer m) of
        None \<Rightarrow> TimerBlocks name m
      | Some (None, t) \<Rightarrow> Continue (m\<lparr>m_timer := t\<rparr>)
      | Some (Some e, t) \<Rightarrow> ExitProcess 1 (m\<lparr>m_timer := t\<rparr>))"

text \<open>
  \<open>pd\<close> is \<open>time.ParseDuration\<close>. \<open>log.Fatalf\<close> exits with status 1.
\<close>

definition handle_command :: "(string \<Rightarrow> duration option) \<Rightarrow> remote_command \<Rightarrow> mon \<Rightarrow> outcome" where
  "handle_command pd c m =
     (if Command c = ''suspend'' then Continue (snd (with_job Job_Suspend m))
      else if Command c = ''resume'' then Continue (snd (with_job Job_Resume m))
      else if Command c = ''kill'' then
        Continue (snd (with_job (Job_Kill (kill_argument (Arguments c))) m))
      else if Command c = ''stop'' then
        (case with_job Job_Stop (ps_try_send sample_command m) of
           (None, m) \<Rightarrow> Continue m
         | (Some e, m) \<Rightarrow> ExitProcess 1 m)
      else if Command c = ''sample'' then Continue (ps_try_send sample_command m)
      else if Command c = ''change_sample_rate'' then
        (case Arguments c of
           [] \<Rightarrow> Continue m
         | a # _ \<Rightarrow>
             (case pd a of
                None \<Rightarrow> Continue m
              | Some d \<Rightarrow> Continue (ps_try_send \<lparr>TimeUpdate = True, NewTime = d\<rparr> m)))
      else if Command c = ''timer_reset'' then timer_op ''reset'' Timer_Reset m
      else if Command c = ''timer_start'' then timer_op ''start'' Timer_Start m
      else if Command c = ''timer_stop'' then timer_op ''stop'' Timer_Stop m
      else if Command c = ''timer_resume'' then timer_op ''resume'' Timer_Resume m
      else Continue m)"

text \<open>\<open>log.Fatalf\<close> comes before the call of \<open>job.Kill\<close>, which is never reached.\<close>

definition handle_timeout :: "mon \<Rightarrow> outcome" where
  "handle_timeout m =
     (case with_job Job_Stop m of
        (None, m) \<Rightarrow> Continue m
      | (Some e, m) \<Rightarrow> ExitProcess 1 m)"

text \<open>
  The count is looked at twice. \<open>reads\<close> are those of the child's output that the goroutine of the
  reader makes between the two.
\<close>

type_synonym reads = "((int \<times> err option) \<times> instant) list"

definition reader_moves :: "reads \<Rightarrow> mon \<Rightarrow> mon" where
  "reader_moves rs m = m\<lparr>m_job := (m_job m)\<lparr>stdoutReader := read_all rs (stdoutReader (m_job m))\<rparr>\<rparr>"

definition handle_log_sample :: "reads \<Rightarrow> mon \<Rightarrow> outcome" where
  "handle_log_sample rs m =
     (if Job_StdoutByteCount (m_job m) > wrap64 (2 * m_limit m)
      then Continue (snd (with_job (Job_Kill (- 9)) m))
      else
        let m = reader_moves rs m
        in if Job_StdoutByteCount (m_job m) > m_limit m
           then Continue (snd (with_job Job_Stop m))
           else Continue m)"

definition handle_job_done :: "err option \<Rightarrow> mon \<Rightarrow> outcome" where
  "handle_job_done jobDone m = SendsDone jobDone m"

datatype mon_event =
    NewRcChan nat
  | SignalReceived sig
  | CommandReceived remote_command
  | TimeoutReceived
  | JobDoneReceived "err option"
  | LogTick reads

text \<open>The ticker of the stdout limit exists only for a positive limit.\<close>

definition mon_event_enabled :: "mon \<Rightarrow> mon_event \<Rightarrow> bool" where
  "mon_event_enabled m e =
     (case e of LogTick _ \<Rightarrow> 0 < m_limit m | CommandReceived _ \<Rightarrow> m_rcChan m \<noteq> None | _ \<Rightarrow> True)"

fun monitor_step :: "(string \<Rightarrow> duration option) \<Rightarrow> mon_event \<Rightarrow> mon \<Rightarrow> outcome" where
  "monitor_step pd (NewRcChan c) m = Continue (m\<lparr>m_rcChan := Some c\<rparr>)"
| "monitor_step pd (SignalReceived s) m = handle_signal s m"
| "monitor_step pd (CommandReceived c) m = handle_command pd c m"
| "monitor_step pd TimeoutReceived m = handle_timeout m"
| "monitor_step pd (JobDoneReceived e) m = handle_job_done e m"
| "monitor_step pd (LogTick rs) m = handle_log_sample rs m"

text \<open>The deferred function: a panic kills the process group before proc_box goes down with it.\<close>

definition monitor_recover :: "mon \<Rightarrow> mon" where
  "monitor_recover m = snd (with_job (Job_Kill (- 9)) m)"

lemmas handler_defs =
  handle_signal_def handle_command_def handle_timeout_def handle_log_sample_def handle_job_done_def

section \<open>What the monitor keeps and what it sends\<close>

fun outcome_mon :: "outcome \<Rightarrow> mon" where
  "outcome_mon (Continue m) = m"
| "outcome_mon (ExitProcess n m) = m"
| "outcome_mon (TimerBlocks c m) = m"
| "outcome_mon (SendsDone e m) = m"

text \<open>The signals one event makes the monitor send, given the limit and the bytes counted so far.\<close>

fun command_signals :: "remote_command \<Rightarrow> sig list" where
  "command_signals c =
     (if Command c = ''suspend'' then [SIGSTOP]
      else if Command c = ''resume'' then [SIGCONT]
      else if Command c = ''kill'' then
        [if kill_argument (Arguments c) = - 9 then SIGKILL else kill_argument (Arguments c)]
      else if Command c = ''stop'' then [SIGTERM]
      else [])"

fun event_signals :: "int \<Rightarrow> int \<Rightarrow> mon_event \<Rightarrow> sig list" where
  "event_signals lim n (SignalReceived s) =
     (if s = SIGINT \<or> s = SIGQUIT then [SIGTERM] else if s = SIGTERM then [SIGKILL] else [])"
| "event_signals lim n (CommandReceived c) = command_signals c"
| "event_signals lim n TimeoutReceived = [SIGTERM]"
| "event_signals lim n (LogTick rs) =
     (if wrap64 (2 * lim) < n then [SIGKILL] else if lim < wrap64 (n + bytes_read rs) then [SIGTERM] else [])"
| "event_signals lim n (NewRcChan c) = []"
| "event_signals lim n (JobDoneReceived e) = []"

lemma with_job_frame [simp]:
  "m_job (snd (with_job op m)) = m_job m" "m_timer (snd (with_job op m)) = m_timer m"
  "m_limit (snd (with_job op m)) = m_limit m" "m_rcChan (snd (with_job op m)) = m_rcChan m"
  "m_psReady (snd (with_job op m)) = m_psReady m" "m_psSent (snd (with_job op m)) = m_psSent m"
  "m_os (snd (with_job op m)) = snd (op (m_job m) (m_os m))"
  by (simp_all add: with_job_def split: prod.splits)

lemma ps_try_send_frame [simp]:
  "m_job (ps_try_send c m) = m_job m" "m_timer (ps_try_send c m) = m_timer m"
  "m_limit (ps_try_send c m) = m_limit m" "m_rcChan (ps_try_send c m) = m_rcChan m"
  "m_os (ps_try_send c m) = m_os m"
  by (simp_all add: ps_try_send_def)

lemma reader_moves_frame [simp]:
  "m_timer (reader_moves rs m) = m_timer m" "m_limit (reader_moves rs m) = m_limit m"
  "m_rcChan (reader_moves rs m) = m_rcChan m" "m_os (reader_moves rs m) = m_os m"
  "Pgid (m_job (reader_moves rs m)) = Pgid (m_job m)"
  "Job_StdoutByteCount (m_job (reader_moves rs m)) = wrap64 (Job_StdoutByteCount (m_job m) + bytes_read rs)"
  "job_target (m_job (reader_moves rs m)) = job_target (m_job m)"
  using count_read_all [of rs "stdoutReader (m_job m)"]
  by (simp_all add: reader_moves_def Job_StdoutByteCount_def reader_Total_def counter_Total_def job_target_def)

lemma timer_op_frame [simp]:
  "m_job (outcome_mon (timer_op c op m)) = m_job m" "m_limit (outcome_mon (timer_op c op m)) = m_limit m"
  "m_os (outcome_mon (timer_op c op m)) = m_os m" "m_rcChan (outcome_mon (timer_op c op m)) = m_rcChan m"
  by (simp_all add: timer_op_def split: option.splits prod.splits)

text \<open>\<open>if err = job.Stop(); err != nil { log.Fatalf(...) }\<close>, in the command stop and on the timeout.\<close>

definition stop_or_exit :: "mon \<Rightarrow> outcome" where
  "stop_or_exit m =
     (case with_job Job_Stop m of (None, m) \<Rightarrow> Continue m | (Some e, m) \<Rightarrow> ExitProcess 1 m)"

lemma stop_or_exit_mon [simp]: "outcome_mon (stop_or_exit m) = snd (with_job Job_Stop m)"
  by (simp add: stop_or_exit_def split: prod.splits option.splits)

lemma handle_timeout_stop_or_exit: "handle_timeout m = stop_or_exit m"
  by (simp add: handle_timeout_def stop_or_exit_def)

text \<open>The commands, one rewrite rule each.\<close>

lemma handle_command_simps:
  "Command c = ''suspend'' \<Longrightarrow> handle_command pd c m = Continue (snd (with_job Job_Suspend m))"
  "Command c = ''resume'' \<Longrightarrow> handle_command pd c m = Continue (snd (with_job Job_Resume m))"
  "Command c = ''kill'' \<Longrightarrow>
     handle_command pd c m = Continue (snd (with_job (Job_Kill (kill_argument (Arguments c))) m))"
  "Command c = ''stop'' \<Longrightarrow> handle_command pd c m = stop_or_exit (ps_try_send sample_command m)"
  "Command c = ''sample'' \<Longrightarrow> handle_command pd c m = Continue (ps_try_send sample_command m)"
  "Command c = ''timer_reset'' \<Longrightarrow> handle_command pd c m = timer_op ''reset'' Timer_Reset m"
  "Command c = ''timer_start'' \<Longrightarrow> handle_command pd c m = timer_op ''start'' Timer_Start m"
  "Command c = ''timer_stop'' \<Longrightarrow> handle_command pd c m = timer_op ''stop'' Timer_Stop m"
  "Command c = ''timer_resume'' \<Longrightarrow> handle_command pd c m = timer_op ''resume'' Timer_Resume m"
  "Command c = ''change_sample_rate'' \<Longrightarrow> handle_command pd c m =
     (case Arguments c of
        [] \<Rightarrow> Continue m
      | a # _ \<Rightarrow> (case pd a of None \<Rightarrow> Continue m
                 | Some d \<Rightarrow> Continue (ps_try_send \<lparr>TimeUpdate = True, NewTime = d\<rparr> m)))"
  "Command c \<notin> {''suspend'', ''resume'', ''kill'', ''stop'', ''sample'', ''change_sample_rate'',
      ''timer_reset'', ''timer_start'', ''timer_stop'', ''timer_resume''} \<Longrightarrow>
     handle_command pd c m = Continue m"
  by (simp_all add: handle_command_def stop_or_exit_def)

lemma one_of_ten_cases:
  assumes "n = a1 \<Longrightarrow> P" "n = a2 \<Longrightarrow> P" "n = a3 \<Longrightarrow> P" "n = a4 \<Longrightarrow> P" "n = a5 \<Longrightarrow> P"
    and "n = a6 \<Longrightarrow> P" "n = a7 \<Longrightarrow> P" "n = a8 \<Longrightarrow> P" "n = a9 \<Longrightarrow> P" "n = a10 \<Longrightarrow> P"
    and "n \<notin> {a1, a2, a3, a4, a5, a6, a7, a8, a9, a10} \<Longrightarrow> P"
  shows P
proof (rule ccontr)
  assume "\<not> P"
  with assms(1-10) have "n \<noteq> a1" "n \<noteq> a2" "n \<noteq> a3" "n \<noteq> a4" "n \<noteq> a5" "n \<noteq> a6"
    "n \<noteq> a7" "n \<noteq> a8" "n \<noteq> a9" "n \<noteq> a10" by iprover+
  then have "n \<notin> {a1, a2, a3, a4, a5, a6, a7, a8, a9, a10}" by simp
  with assms(11) \<open>\<not> P\<close> show False by iprover
qed

lemmas command_name_cases = one_of_ten_cases
  [of _ "''suspend''" _ "''resume''" "''kill''" "''stop''" "''sample''" "''change_sample_rate''"
    "''timer_reset''" "''timer_start''" "''timer_stop''" "''timer_resume''"]

lemma kill_argument_int32: "in_int32 (kill_argument as)"
proof -
  have "in_int32 n" if "ParseInt10_32 a = Some n" for a n
    using that by (auto simp: ParseInt10_32_def in_int32_def Let_def split: list.splits option.splits if_splits)
  then show ?thesis
    by (auto simp: kill_argument_def in_int32_def split: list.splits option.splits)
qed

lemma job_kill_sig_int32: "in_int32 n \<Longrightarrow> job_kill_sig n = (if n = - 9 then SIGKILL else n)"
  by (simp add: job_kill_sig_def in_int32_def in_int64_def)

lemma handle_command_signals:
  "kills (m_os (outcome_mon (handle_command pd c m))) =
     kills (m_os m) @ map (Pair (job_target (m_job m))) (command_signals c)"
  by (cases "Command c" rule: command_name_cases)
    (simp_all add: handle_command_simps job_ctl.sends job_kill_sig_int32 kill_argument_int32
      split: list.splits option.splits)

lemma handle_command_frame:
  "m_job (outcome_mon (handle_command pd c m)) = m_job m \<and>
   m_limit (outcome_mon (handle_command pd c m)) = m_limit m \<and>
   m_rcChan (outcome_mon (handle_command pd c m)) = m_rcChan m \<and>
   kill_result (m_os (outcome_mon (handle_command pd c m))) = kill_result (m_os m)"
  by (cases "Command c" rule: command_name_cases)
    (simp_all add: handle_command_simps split: list.splits option.splits)

lemma monitor_step_signals:
  "kills (m_os (outcome_mon (monitor_step pd e m))) =
     kills (m_os m) @ map (Pair (job_target (m_job m)))
       (event_signals (m_limit m) (Job_StdoutByteCount (m_job m)) e)"
  by (cases e)
    (simp_all add: handle_command_signals handle_signal_def handle_timeout_stop_or_exit
      handle_job_done_def handle_log_sample_def Let_def job_ctl.sends job_kill_sig_def del: command_signals.simps)

lemma monitor_step_frame [simp]:
  "Pgid (m_job (outcome_mon (monitor_step pd e m))) = Pgid (m_job m)"
  "m_limit (outcome_mon (monitor_step pd e m)) = m_limit m"
  by (cases e; simp add: handle_command_frame handle_signal_def handle_timeout_stop_or_exit
      handle_job_done_def handle_log_sample_def Let_def)+

section \<open>Runs of the monitor\<close>

text \<open>
  Between two events the other goroutines move on: the timer, the router and the copy of
  stdout, whose byte count the monitor reads. A send to the timer that blocks leaves the
  monitor's own state as it is and is made later; the send on \<open>done\<close> as well.
\<close>

record between =
  b_timer :: wallclock_timer
  b_psReady :: bool
  b_reader :: measured_reader

definition refresh :: "between \<Rightarrow> mon \<Rightarrow> mon" where
  "refresh b m =
     m\<lparr>m_timer := b_timer b, m_psReady := b_psReady b, m_job := (m_job m)\<lparr>stdoutReader := b_reader b\<rparr>\<rparr>"

fun monitor_run :: "(string \<Rightarrow> duration option) \<Rightarrow> (between \<times> mon_event) list \<Rightarrow> mon \<Rightarrow> mon" where
  "monitor_run pd [] m = m"
| "monitor_run pd ((b, e) # es) m =
     (case monitor_step pd e (refresh b m) of
        ExitProcess _ m' \<Rightarrow> m'
      | oc \<Rightarrow> monitor_run pd es (outcome_mon oc))"

definition run_signals :: "int \<Rightarrow> between \<times> mon_event \<Rightarrow> sig list" where
  "run_signals lim be = event_signals lim (wrap64 (reader_Total (b_reader (fst be)))) (snd be)"

lemma refresh_frame [simp]:
  "m_os (refresh b m) = m_os m" "m_limit (refresh b m) = m_limit m"
  "Pgid (m_job (refresh b m)) = Pgid (m_job m)"
  "Job_StdoutByteCount (m_job (refresh b m)) = wrap64 (reader_Total (b_reader b))"
  by (simp_all add: refresh_def Job_StdoutByteCount_def)

lemma monitor_step_refresh_signals:
  "kills (m_os (outcome_mon (monitor_step pd e (refresh b m)))) =
     kills (m_os m) @ map (Pair (job_target (m_job m))) (run_signals (m_limit m) (b, e))"
  by (simp add: monitor_step_signals run_signals_def job_target_def)

text \<open>Only a stop that fails ends proc_box from within the monitor; the timer operations never fail.\<close>

fun stops :: "mon_event \<Rightarrow> bool" where
  "stops TimeoutReceived = True"
| "stops (CommandReceived c) = (Command c = ''stop'')"
| "stops _ = False"

lemma timer_op_no_exit:
  "op \<in> {Timer_Reset, Timer_Start, Timer_Stop, Timer_Resume} \<Longrightarrow> timer_op c op m \<noteq> ExitProcess n m'"
  using timer_client.op_cases [of op "m_timer m"] by (auto simp: timer_op_def)

lemma stop_or_exit_exits:
  "stop_or_exit m = ExitProcess n m' \<longleftrightarrow>
     n = 1 \<and> kill_result (m_os m) (kills (m_os m)) (job_target (m_job m)) SIGTERM \<noteq> None \<and>
     m' = snd (with_job Job_Stop m)"
  by (auto simp: stop_or_exit_def with_job_def job_ops_sys_kill sys_kill_def split: option.splits)

lemma handle_command_exits:
  "handle_command pd c m = ExitProcess n m' \<longleftrightarrow>
     Command c = ''stop'' \<and> stop_or_exit (ps_try_send sample_command m) = ExitProcess n m'"
  by (cases "Command c" rule: command_name_cases)
    (simp_all add: handle_command_simps timer_op_no_exit split: list.splits option.splits)

lemma monitor_step_exits:
  "monitor_step pd e m = ExitProcess n m' \<longleftrightarrow>
     stops e \<and> n = 1 \<and> kill_result (m_os m) (kills (m_os m)) (job_target (m_job m)) SIGTERM \<noteq> None \<and>
     m' = snd (with_job Job_Stop (if e = TimeoutReceived then m else ps_try_send sample_command m))"
  by (cases e) (auto simp: handle_command_exits stop_or_exit_exits handle_timeout_stop_or_exit
      handle_signal_def handle_log_sample_def Let_def handle_job_done_def)

lemma monitor_run_signals:
  "\<exists>k\<le>length es. (k = length es \<or> 0 < k \<and> stops (snd (es ! (k - 1)))) \<and>
     kills (m_os (monitor_run pd es m)) =
     kills (m_os m) @ map (Pair (job_target (m_job m))) (concat (map (run_signals (m_limit m)) (take k es)))"
proof (induction es arbitrary: m)
  case Nil
  then show ?case by simp
next
  case (Cons be es)
  obtain b e where be: "be = (b, e)" by fastforce
  define oc where "oc = monitor_step pd e (refresh b m)"
  have first: "kills (m_os (outcome_mon oc)) =
      kills (m_os m) @ map (Pair (job_target (m_job m))) (run_signals (m_limit m) (b, e))"
    unfolding oc_def by (rule monitor_step_refresh_signals)
  have same: "m_limit (outcome_mon oc) = m_limit m" "job_target (m_job (outcome_mon oc)) = job_target (m_job m)"
    by (simp_all add: oc_def job_target_def)
  show ?case
  proof (cases "\<exists>n m'. oc = ExitProcess n m'")
    case True
    then have "stops e" unfolding oc_def monitor_step_exits by blast
    with True first show ?thesis by (intro exI [of _ 1]) (auto simp: be oc_def [symmetric])
  next
    case False
    then have run: "monitor_run pd ((b, e) # es) m = monitor_run pd es (outcome_mon oc)"
      by (cases oc) (simp_all add: oc_def [symmetric])
    from Cons.IH [of "outcome_mon oc"] obtain k where k: "k \<le> length es"
      "k = length es \<or> 0 < k \<and> stops (snd (es ! (k - 1)))" and
      kills: "kills (m_os (monitor_run pd es (outcome_mon oc))) = kills (m_os (outcome_mon oc)) @
         map (Pair (job_target (m_job (outcome_mon oc))))
           (concat (map (run_signals (m_limit (outcome_mon oc))) (take k es)))"
      by blast
    have "Suc k = length (be # es) \<or> 0 < Suc k \<and> stops (snd ((be # es) ! (Suc k - 1)))"
      using k(2) by auto
    with k(1) kills show ?thesis
      by (intro exI [of _ "Suc k"]) (simp add: run first same be del: monitor_run.simps)
  qed
qed

section \<open>Decimal arguments\<close>

fun decimal_digits :: "nat \<Rightarrow> string" where
  "decimal_digits n =
     (if n < 10 then [char_of (48 + n)] else decimal_digits (n div 10) @ [char_of (48 + n mod 10)])"

declare decimal_digits.simps [simp del]

definition decimal :: "int \<Rightarrow> string" where
  "decimal n = (if n < 0 then CHR 0x2D # decimal_digits (nat (- n)) else decimal_digits (nat n))"

lemma digit_value_digit: "d < 10 \<Longrightarrow> digit_value (char_of (48 + d)) = Some d"
  by (simp add: digit_value_def of_char_of take_bit_eq_mod)

lemma parse_digits_append:
  "parse_digits acc (xs @ ys) =
     (case parse_digits acc xs of None \<Rightarrow> None | Some n \<Rightarrow> parse_digits n ys)"
  by (induction xs arbitrary: acc) (simp_all split: option.splits)

lemma parse_decimal_digits: "parse_digits 0 (decimal_digits n) = Some n"
proof (induction n rule: decimal_digits.induct)
  case (1 n)
  show ?case
  proof (cases "n < 10")
    case True
    then show ?thesis by (simp add: decimal_digits.simps [of n] digit_value_digit)
  next
    case False
    have "digit_value (char_of (48 + n mod 10)) = Some (n mod 10)"
      by (rule digit_value_digit) simp
    with False 1 show ?thesis by (simp add: decimal_digits.simps [of n] parse_digits_append)
  qed
qed

lemma decimal_digits_head: "\<exists>d::nat. d < 10 \<and> (\<exists>cs. decimal_digits n = char_of (48 + d) # cs)"
proof (induction n rule: decimal_digits.induct)
  case (1 n)
  then show ?case
    by (cases "n < 10") (force simp: decimal_digits.simps [of n])+
qed

lemma digit_no_sign: "d < 10 \<Longrightarrow> char_of (48 + d) \<noteq> CHR 0x2D \<and> char_of (48 + d :: nat) \<noteq> CHR 0x2B"
proof (rule ccontr)
  assume d: "d < 10" and "\<not> (char_of (48 + d) \<noteq> CHR 0x2D \<and> char_of (48 + d :: nat) \<noteq> CHR 0x2B)"
  then have "digit_value (CHR 0x2D) = Some d \<or> digit_value (CHR 0x2B) = Some d"
    using digit_value_digit [OF d] by auto
  then show False by (simp add: digit_value_def)
qed

lemma ParseInt10_32_decimal: "ParseInt10_32 (decimal n) = (if in_int32 n then Some n else None)"
proof -
  obtain d :: nat and cs where d: "d < 10" and digits: "decimal_digits (nat \<bar>n\<bar>) = char_of (48 + d) # cs"
    using decimal_digits_head by blast
  have parse: "ParseUint10 (decimal_digits (nat \<bar>n\<bar>)) = Some (nat \<bar>n\<bar>)"
    using digits parse_decimal_digits [of "nat \<bar>n\<bar>"] by (simp add: ParseUint10_def del: parse_digits.simps)
  show ?thesis
  proof (cases "n < 0")
    case True
    with parse show ?thesis by (auto simp: ParseInt10_32_def decimal_def in_int32_def)
  next
    case False
    with parse digits digit_no_sign [OF d] show ?thesis
      by (auto simp: ParseInt10_32_def decimal_def in_int32_def)
  qed
qed

lemma ParseInt10_32_SomeD:
  assumes "ParseInt10_32 s = Some n"
  shows "s \<noteq> []" and "\<forall>c\<in>set (tl s). digit_value c \<noteq> None"
proof -
  have digits: "\<forall>c\<in>set cs. digit_value c \<noteq> None" if "parse_digits a cs = Some k" for a cs k
    using that by (induction cs arbitrary: a) (auto split: option.splits)
  show "s \<noteq> []" using assms by (auto simp: ParseInt10_32_def)
  show "\<forall>c\<in>set (tl s). digit_value c \<noteq> None"
    using assms digits
    by (fastforce simp: ParseInt10_32_def ParseUint10_def Let_def split: list.splits option.splits if_splits)
qed


section \<open>Properties of the monitor\<close>

abbreviation demo_job :: "int \<Rightarrow> measured_reader \<Rightarrow> job" where
  "demo_job g r \<equiv> \<lparr>Cmd = [''sleep''], Proc = g, Pid = g, Pgid = g, stdoutByteCountLimit = 0, stdoutReader = r\<rparr>"

abbreviation demo_mon :: "(int \<Rightarrow> sig \<Rightarrow> err option) \<Rightarrow> int \<Rightarrow> measured_reader \<Rightarrow> mon" where
  "demo_mon res lim r \<equiv>
     \<lparr>m_job = demo_job 7 r, m_os = \<lparr>kills = [], kill_result = (\<lambda>_. res)\<rparr>, m_timer = NewTimer 0 second,
      m_limit = lim, m_rcChan = None, m_psReady = True, m_psSent = []\<rparr>"

text \<open>
  C3: over every sequence of events, whatever the other goroutines do in between, every
  signal the monitor sends goes to the process group of the contained process, and the
  signals are exactly those the events ask for, in order: SIGTERM for SIGINT, SIGQUIT, stop
  and the timeout, SIGKILL for SIGTERM, SIGSTOP and SIGCONT for suspend and resume, the
  parsed argument for kill, and by the byte count for the limit on stdout. All events are
  handled unless a stop or a timeout ended proc_box.
\<close>

theorem monitor_signals_group_only:
  assumes "in_int64 (Pgid (m_job m))" and "Pgid (m_job m) \<noteq> - (2 ^ 63)"
  shows "\<exists>k\<le>length es. (k = length es \<or> 0 < k \<and> stops (snd (es ! (k - 1)))) \<and>
     kills (m_os (monitor_run pd es m)) =
     kills (m_os m) @ map (Pair (- Pgid (m_job m))) (concat (map (run_signals (m_limit m)) (take k es)))"
proof -
  have "job_target (m_job m) = - Pgid (m_job m)"
    using assms by (simp add: job_target_def in_int64_def)
  with monitor_run_signals [of es pd m] show ?thesis by simp
qed

abbreviation demo_between :: between where
  "demo_between \<equiv> \<lparr>b_timer = NewTimer 0 second, b_psReady = False, b_reader = NewMeasuredReader\<rparr>"

lemma demo_kill_argument: "kill_argument [''10''] = 10"
  by (simp add: kill_argument_def ParseInt10_32_def ParseUint10_def digit_value_def)

theorem monitor_signals_group_only_witness:
  "kills (m_os (monitor_run (\<lambda>_. None)
       [(demo_between, SignalReceived SIGINT),
        (demo_between, CommandReceived \<lparr>Command = ''kill'', Arguments = [''10'']\<rparr>)]
       (demo_mon (\<lambda>_ _. None) 0 NewMeasuredReader))) = [(- 7, SIGTERM), (- 7, 10)]"
proof -
  let ?es = "[(demo_between, SignalReceived SIGINT),
    (demo_between, CommandReceived \<lparr>Command = ''kill'', Arguments = [''10'']\<rparr>)]"
  obtain k where "k \<le> length ?es" and k: "k = length ?es \<or> 0 < k \<and> stops (snd (?es ! (k - 1)))"
    and kills: "kills (m_os (monitor_run (\<lambda>_. None) ?es (demo_mon (\<lambda>_ _. None) 0 NewMeasuredReader))) =
      map (Pair (- 7)) (concat (map (run_signals 0) (take k ?es)))"
    using monitor_signals_group_only [of "demo_mon (\<lambda>_ _. None) 0 NewMeasuredReader" ?es "\<lambda>_. None"]
    by (auto simp: in_int64_def simp del: monitor_run.simps)
  then have "k = 2" by (cases k) (auto simp: nth_Cons split: nat.splits)
  with kills show ?thesis by (simp add: run_signals_def demo_kill_argument del: monitor_run.simps)
qed

text \<open>
  C21: the limit on stdout. After any reads of the child's output, \<open>rs\<close> before the tick and \<open>later\<close> between the
  monitor's two looks at the count, of less than \<open>2 ^ 63\<close> bytes in all, a tick of the sampling ticker
  sends SIGKILL when \<open>rs\<close> were above twice the limit, otherwise SIGTERM when all were above it, and else
  nothing, for limits below \<open>2 ^ 62\<close>; and the loop goes on.
\<close>

theorem stdout_limit_thresholds:
  assumes "0 < m_limit m" and "m_limit m < 2 ^ 62"
    and "\<forall>r\<in>set (rs @ later). 0 \<le> fst (fst r)" and "bytes_read (rs @ later) < 2 ^ 63"
    and "stdoutReader (m_job m) = read_all rs NewMeasuredReader"
  shows "\<exists>m'. monitor_step pd (LogTick later) m = Continue m' \<and>
     kills (m_os m') = kills (m_os m) @ map (Pair (job_target (m_job m)))
       (if 2 * m_limit m < bytes_read rs then [SIGKILL]
        else if m_limit m < bytes_read (rs @ later) then [SIGTERM] else [])"
proof -
  have "0 \<le> bytes_read rs" "0 \<le> bytes_read later" using assms(3) by (auto intro: bytes_read_nonneg)
  then have "in_int64 (bytes_read rs)" "in_int64 (bytes_read rs + bytes_read later)" "in_int64 (2 * m_limit m)"
    using assms(1,2,4) by (simp_all add: in_int64_def)
  then have "Job_StdoutByteCount (m_job m) = bytes_read rs" "wrap64 (2 * m_limit m) = 2 * m_limit m"
      "wrap64 (bytes_read rs + bytes_read later) = bytes_read (rs @ later)"
    using assms(5) by (simp_all add: Job_StdoutByteCount_def Total_read_all)
  then have "kills (m_os (outcome_mon (monitor_step pd (LogTick later) m))) = kills (m_os m) @
      map (Pair (job_target (m_job m))) (if 2 * m_limit m < bytes_read rs then [SIGKILL]
        else if m_limit m < bytes_read (rs @ later) then [SIGTERM] else [])"
    by (simp only: monitor_step_signals event_signals.simps)
  moreover have "\<exists>m'. monitor_step pd (LogTick later) m = Continue m'"
    by (simp add: handle_log_sample_def Let_def)
  ultimately show ?thesis by auto
qed

text \<open>150 bytes are counted against a limit of 100; 90 more come between the two looks and do not lead to SIGKILL.\<close>

theorem stdout_limit_thresholds_witness:
  "\<exists>m'. monitor_step (\<lambda>_. None) (LogTick [((90, None), 2)])
       (demo_mon (\<lambda>_ _. None) 100 (read_all [((150, None), 1)] NewMeasuredReader)) = Continue m' \<and>
     kills (m_os m') = [(- 7, SIGTERM)]"
  using stdout_limit_thresholds
    [of "demo_mon (\<lambda>_ _. None) 100 (read_all [((150, None), 1)] NewMeasuredReader)" "[((150, None), 1)]" "[((90, None), 2)]"]
  by (auto simp: bytes_read_def job_target_def in_int64_def)

text \<open>
  A limit of \<open>2 ^ 62\<close> bytes or more kills the child at the first tick, whatever it has
  written: twice the limit wraps around to a negative number.
\<close>

theorem stdout_limit_overflow:
  assumes "2 ^ 62 \<le> m_limit m" and "in_int64 (m_limit m)" and "0 \<le> Job_StdoutByteCount (m_job m)"
  shows "monitor_step pd (LogTick rs) m = Continue (snd (with_job (Job_Kill (- 9)) m))"
proof -
  have "0 \<le> 2 * m_limit m - 2 ^ 63" and "2 * m_limit m - 2 ^ 63 < (2 ^ 64 :: int)"
    using assms(1,2) by (simp_all add: in_int64_def)
  then have "(2 * m_limit m + 2 ^ 63) mod 2 ^ 64 = 2 * m_limit m - 2 ^ 63"
    using mod_pos_pos_trivial [of "2 * m_limit m - 2 ^ 63" "2 ^ 64"]
      mod_add_self2 [of "2 * m_limit m - 2 ^ 63" "2 ^ 64"] by (simp add: add.commute)
  then have "wrap64 (2 * m_limit m) < 0"
    using assms(2) by (simp add: wrap64_def in_int64_def)
  then show ?thesis using assms(3) by (simp add: handle_log_sample_def)
qed

theorem stdout_limit_overflow_witness:
  "kills (m_os (outcome_mon (monitor_step (\<lambda>_. None) (LogTick [])
       (demo_mon (\<lambda>_ _. None) (5 * 10 ^ 18) NewMeasuredReader)))) = [(- 7, SIGKILL)]"
  using stdout_limit_overflow [of "demo_mon (\<lambda>_ _. None) (5 * 10 ^ 18) NewMeasuredReader"]
  by (simp add: in_int64_def Job_StdoutByteCount_def reader_Total_def counter_Total_def
      NewMeasuredReader_def newCounter_def job_ctl.sends job_target_def job_kill_sig_def)

text \<open>
  Proc_box exits from within the monitor exactly when a stop, asked for by the command
  or by the timeout, cannot be signalled; it exits with status 1 and has sent that one
  SIGTERM and no SIGKILL: the \<open>job.Kill\<close> written after \<open>log.Fatalf\<close> is never reached.
\<close>

theorem failed_stop_exits_without_kill:
  "(\<exists>n m'. monitor_step pd e m = ExitProcess n m') =
     (stops e \<and> kill_result (m_os m) (kills (m_os m)) (job_target (m_job m)) SIGTERM \<noteq> None) \<and>
   (\<forall>n m'. monitor_step pd e m = ExitProcess n m' \<longrightarrow>
     n = 1 \<and> kills (m_os m') = kills (m_os m) @ [(job_target (m_job m), SIGTERM)])"
proof (intro conjI allI impI)
  show "(\<exists>n m'. monitor_step pd e m = ExitProcess n m') =
     (stops e \<and> kill_result (m_os m) (kills (m_os m)) (job_target (m_job m)) SIGTERM \<noteq> None)"
    unfolding monitor_step_exits by blast
  fix n m' assume "monitor_step pd e m = ExitProcess n m'"
  then show "n = 1" and "kills (m_os m') = kills (m_os m) @ [(job_target (m_job m), SIGTERM)]"
    unfolding monitor_step_exits by (auto simp: job_ctl.sends)
qed

theorem failed_stop_exits_without_kill_witness:
  "kills (m_os (outcome_mon (monitor_step (\<lambda>_. None) TimeoutReceived
       (demo_mon (\<lambda>_ _. Some ''EPERM'') 0 NewMeasuredReader)))) = [(- 7, SIGTERM)]"
proof -
  let ?m = "demo_mon (\<lambda>_ _. Some ''EPERM'') 0 NewMeasuredReader"
  note exits = failed_stop_exits_without_kill [of "\<lambda>_. None" TimeoutReceived ?m]
  from exits obtain n m' where "monitor_step (\<lambda>_. None) TimeoutReceived ?m = ExitProcess n m'" by auto
  with exits show ?thesis by (simp add: job_target_def in_int64_def del: monitor_step.simps)
qed

text \<open>
  The argument of the remote command kill. A decimal number of 32 bits is the signal
  sent, in decimal notation with or without leading minus sign; a number outside that range,
  text with anything but digits after its first character, the empty text and a missing
  argument all send SIGKILL.
\<close>

theorem kill_signal_parsed:
  "kills (m_os (outcome_mon (handle_command pd \<lparr>Command = ''kill'', Arguments = as\<rparr> m))) =
     kills (m_os m) @ [(job_target (m_job m), s)] \<Longrightarrow>
   (\<forall>n rest. as = decimal n # rest \<longrightarrow> s = (if in_int32 n \<and> n \<noteq> - 9 then n else SIGKILL)) \<and>
   (as = [] \<or> hd as = [] \<or> (\<exists>c\<in>set (tl (hd as)). digit_value c = None) \<longrightarrow> s = SIGKILL)"
proof -
  assume "kills (m_os (outcome_mon (handle_command pd \<lparr>Command = ''kill'', Arguments = as\<rparr> m))) =
     kills (m_os m) @ [(job_target (m_job m), s)]"
  then have s: "s = (if kill_argument as = - 9 then SIGKILL else kill_argument as)"
    by (auto simp: handle_command_signals split: if_splits)
  have "kill_argument as = - 9" if "as = [] \<or> hd as = [] \<or> (\<exists>c\<in>set (tl (hd as)). digit_value c = None)"
  proof (cases as)
    case (Cons a rest)
    with that ParseInt10_32_SomeD [of a] have "ParseInt10_32 a = None"
      by (cases "ParseInt10_32 a") auto
    with Cons show ?thesis by (simp add: kill_argument_def)
  qed (simp add: kill_argument_def)
  moreover have "kill_argument (decimal n # rest) = (if in_int32 n then n else - 9)" for n rest
    by (simp add: kill_argument_def ParseInt10_32_decimal)
  ultimately show ?thesis unfolding s by auto
qed

theorem kill_signal_parsed_witness:
  "kill_argument [decimal (- 42)] = - 42 \<and> kill_argument [''9x''] = - 9"
proof -
  let ?m = "demo_mon (\<lambda>_ _. None) 0 NewMeasuredReader"
  have "handle_command (\<lambda>_. None) \<lparr>Command = ''kill'', Arguments = as\<rparr> ?m =
      Continue (snd (with_job (Job_Kill (kill_argument as)) ?m))" for as
    by (simp add: handle_command_simps)
  then have sent: "kills (m_os (outcome_mon (handle_command (\<lambda>_. None) \<lparr>Command = ''kill'', Arguments = as\<rparr> ?m))) =
      kills (m_os ?m) @ [(job_target (m_job ?m), job_kill_sig (kill_argument as))]" for as
    by (simp add: job_ctl.sends)
  have x: "digit_value (CHR ''x'') = None" by (simp add: digit_value_def)
  have one: "job_kill_sig (kill_argument [decimal (- 42)]) = - 42"
    using kill_signal_parsed [OF sent [of "[decimal (- 42)]"]] by (simp add: in_int32_def)
  have two: "job_kill_sig (kill_argument [''9x'']) = SIGKILL"
    using kill_signal_parsed [OF sent [of "[''9x'']"]] x by simp
  have "kill_argument [''9x''] = - 9"
    using x by (simp add: kill_argument_def ParseInt10_32_def ParseUint10_def digit_value_def)
  moreover have "kill_argument [decimal (- 42)] = - 42"
    using one kill_argument_int32 [of "[decimal (- 42)]"]
    by (auto simp: job_kill_sig_int32 split: if_splits)
  ultimately show ?thesis by simp
qed

text \<open>The command an event puts into the timer's channel.\<close>

fun timer_request :: "mon_event \<Rightarrow> string option" where
  "timer_request (CommandReceived c) =
     (if Command c = ''timer_reset'' then Some ''reset''
      else if Command c = ''timer_start'' then Some ''start''
      else if Command c = ''timer_stop'' then Some ''stop''
      else if Command c = ''timer_resume'' then Some ''resume'' else None)"
| "timer_request _ = None"

lemma timer_op_send:
  "timer_op c (timer_send c) m =
     (case chan_send c (command (m_timer m)) of
        None \<Rightarrow> TimerBlocks c m
      | Some ch \<Rightarrow> Continue (m\<lparr>m_timer := (m_timer m)\<lparr>command := ch\<rparr>\<rparr>))"
  by (simp add: timer_op_def timer_send_def split: option.splits)

lemma Timer_ops_timer_send:
  "Timer_Reset = timer_send ''reset''" "Timer_Start = timer_send ''start''"
  "Timer_Stop = timer_send ''stop''" "Timer_Resume = timer_send ''resume''"
  by (rule ext, simp add: timer_ops_def)+

lemma stop_or_exit_cases: "(\<exists>m'. stop_or_exit m = Continue m') \<or> (\<exists>m'. stop_or_exit m = ExitProcess 1 m')"
  by (simp add: stop_or_exit_def split: prod.splits option.splits)

lemma handle_command_timer:
  "(case timer_request (CommandReceived c) of
      Some t \<Rightarrow> handle_command pd c m = timer_op t (timer_send t) m
    | None \<Rightarrow> m_timer (outcome_mon (handle_command pd c m)) = m_timer m \<and>
        (\<forall>n m'. handle_command pd c m \<noteq> TimerBlocks n m'))"
  using stop_or_exit_cases [of "ps_try_send sample_command m"]
  by (cases "Command c" rule: command_name_cases)
    (auto simp: handle_command_simps Timer_ops_timer_send split: list.splits option.splits)

lemma timer_request_step:
  "timer_request e = Some c \<Longrightarrow> monitor_step pd e m = timer_op c (timer_send c) m"
proof (cases e)
  case (CommandReceived x)
  assume "timer_request e = Some c"
  with handle_command_timer [where c = x and pd = pd and m = m] CommandReceived show ?thesis
    by (simp del: timer_request.simps)
qed simp_all

text \<open>
  Only the four timer commands reach the timer: such a command is put into the
  timer's channel unchanged, or the monitor blocks when a command is already waiting there;
  no other event, suspend and resume of the child included, touches the timer or makes the
  monitor wait for it.
\<close>

theorem monitor_timer_commands:
  "case timer_request e of
     Some c \<Rightarrow> monitor_step pd e m =
       (if length (chan_buf (command (m_timer m))) < chan_cap (command (m_timer m))
        then Continue (m\<lparr>m_timer := (m_timer m)\<lparr>command :=
          (command (m_timer m))\<lparr>chan_buf := chan_buf (command (m_timer m)) @ [c]\<rparr>\<rparr>\<rparr>)
        else TimerBlocks c m)
   | None \<Rightarrow> m_timer (outcome_mon (monitor_step pd e m)) = m_timer m \<and>
       (\<forall>c m'. monitor_step pd e m \<noteq> TimerBlocks c m')"
proof (cases e)
  case (CommandReceived c)
  with handle_command_timer [where c = c and pd = pd and m = m] show ?thesis
    by (cases "timer_request e") (auto simp: timer_op_send chan_send_def simp del: timer_request.simps)
next
  case TimeoutReceived
  with stop_or_exit_cases [of m] show ?thesis by (auto simp: handle_timeout_stop_or_exit)
qed (simp_all add: handle_signal_def handle_log_sample_def handle_job_done_def Let_def)

end
