(* ===== verification/Session.thy ===== *)
theory Session
  imports Monitor
begin

text \<open>
  The session with the broker: \<open>NewProcessStats\<close> of \<open>agents/process_stats.go\<close>, and from
  \<open>main.go\<close> the function \<open>redial\<close>, which connects, sets up the two agents and waits for
  the connection to close, the router it starts for the requests of the monitor, and the
  list of routing keys.

  The AMQP library and the JSON decoder are parameters: dialling succeeds with some
  connection number or fails, and the brokers of the two agents answer as any function.
\<close>

section \<open>Routing keys\<close>

fun deleteEmpty_loop :: "string list \<Rightarrow> string list \<Rightarrow> string list" where
  "deleteEmpty_loop r [] = r"
| "deleteEmpty_loop r (v # vs) = deleteEmpty_loop (if 0 < length v then r @ [v] else r) vs"

definition deleteEmpty :: "string list \<Rightarrow> string list" where
  "deleteEmpty s = deleteEmpty_loop [] s"

definition redial_keys :: "string \<Rightarrow> bool \<Rightarrow> string list" where
  "redial_keys rmtKey multiRmtKey =
     (if multiRmtKey then deleteEmpty (Split CHR 0x2C rmtKey) else [rmtKey])"

lemma deleteEmpty_filter: "deleteEmpty s = filter (\<lambda>v. v \<noteq> []) s"
proof -
  have "deleteEmpty_loop r s = r @ filter (\<lambda>v. v \<noteq> []) s" for r
    by (induction s arbitrary: r) auto
  then show ?thesis by (simp add: deleteEmpty_def)
qed

section \<open>Creating the statistics agent\<close>

text \<open>
  The agent is the collector with its tickers. \<open>unmarshal\<close> is \<open>json.Unmarshal\<close> into the
  map of user data: it returns what it has decoded also with an error, which is only
  logged. \<open>None\<close> is the panic of \<open>time.NewTicker\<close> for an interval that is not positive.
\<close>

type_synonym 'j agent = "'j collector \<times> tickers"

definition NewProcessStats ::
    "(string \<Rightarrow> 'j option \<times> err option) \<Rightarrow> stats_broker \<Rightarrow> nat option \<Rightarrow> string \<Rightarrow> string \<Rightarrow>
     duration \<Rightarrow> duration \<Rightarrow> string \<Rightarrow> (err + 'j agent) option" where
  "NewProcessStats unmarshal B amqp rkey ex interval timeout user =
     (let extraJSON = (if 0 < length user then fst (unmarshal user) else None);
          psc = \<lparr>connection = amqp, channel = None, routingKey = rkey, exchange = ex,
                 msgTimeout = timeout, userJSON = extraJSON\<rparr>
      in case ReinitializeConnection B amqp psc of
           (Some e, _) \<Rightarrow> Some (Inl (''Unable to open a channel on AMQP connection: '' @ e @ newline))
         | (None, psc) \<Rightarrow> map_option (\<lambda>t. Inr (psc, t)) (NewTicker interval no_tickers))"


section \<open>The router\<close>

datatype router_action = Dropped | TickerChanged duration | SampleRequested

text \<open>
  What the router does with one request; \<open>None\<close> is a panic, which no deferred function of
  this goroutine catches: proc_box goes down. The result of \<open>stats.Sample()\<close> is dropped.
\<close>

definition router_handle ::
    "'j agent option \<Rightarrow> stat_command \<Rightarrow> ('j agent option \<times> router_action) option" where
  "router_handle stats s =
     (case stats of
        None \<Rightarrow> Some (stats, Dropped)
      | Some (psc, t) \<Rightarrow>
          if TimeUpdate s
          then map_option (\<lambda>t. (Some (psc, t), TickerChanged (NewTime s))) (NewTicker (NewTime s) t)
          else Some (stats, SampleRequested))"


section \<open>The redial loop\<close>

text \<open>
  The flags \<open>redial\<close> uses. One pass of the loop is a sequence of steps: dialling;
  after a failure a sleep of five seconds; after a success the remote control, whose
  channel of commands is handed to the monitor, then the statistics agent, created the
  first time and reconnected later; then the wait for the close of the connection.
\<close>

record 'j session_config =
  cf_keys :: "string list"
  cf_exchange :: string
  cf_statsKey :: string
  cf_interval :: duration
  cf_msgTimeout :: duration
  cf_userJSON :: string
  cf_unmarshal :: "string \<Rightarrow> 'j option \<times> err option"

datatype redial_pc =
  Dialing | Sleeping | SendingCommands nat nat | StatsSetup nat | AwaitingClose nat | Panicked

record 'j redial =
  rd_pc :: redial_pc
  rd_stats :: "'j agent option"

datatype redial_event =
    DialFailed err
  | SleptFor duration
  | Connected nat "rc_call list" "err option"
  | CommandsHanded nat
  | StatsReady "err option"
  | ConnectionClosed
  | Routed stat_command router_action
  | Panic

definition redial_init :: "'j redial" where
  "redial_init = \<lparr>rd_pc = Dialing, rd_stats = None\<rparr>"

inductive redial_step :: "'j session_config \<Rightarrow> 'j redial \<Rightarrow> redial_event \<Rightarrow> 'j redial \<Rightarrow> bool" for cf where
  dial_failed: "rd_pc r = Dialing \<Longrightarrow> redial_step cf r (DialFailed e) (r\<lparr>rd_pc := Sleeping\<rparr>)"
| slept: "rd_pc r = Sleeping \<Longrightarrow> redial_step cf r (SleptFor (5 * second)) (r\<lparr>rd_pc := Dialing\<rparr>)"
| connected_rc: "rd_pc r = Dialing \<Longrightarrow>
     NewRemoteControl (Some c) (cf_keys cf) (cf_exchange cf) fresh B = (Inr rc, calls) \<Longrightarrow>
     redial_step cf r (Connected c calls None) (r\<lparr>rd_pc := SendingCommands (rc_Commands rc) c\<rparr>)"
| connected_no_rc: "rd_pc r = Dialing \<Longrightarrow>
     NewRemoteControl (Some c) (cf_keys cf) (cf_exchange cf) fresh B = (Inl e, calls) \<Longrightarrow>
     redial_step cf r (Connected c calls (Some e)) (r\<lparr>rd_pc := StatsSetup c\<rparr>)"
| commands_handed: "rd_pc r = SendingCommands ch c \<Longrightarrow>
     redial_step cf r (CommandsHanded ch) (r\<lparr>rd_pc := StatsSetup c\<rparr>)"
| stats_created: "rd_pc r = StatsSetup c \<Longrightarrow> rd_stats r = None \<Longrightarrow>
     NewProcessStats (cf_unmarshal cf) SB (Some c) (cf_statsKey cf) (cf_exchange cf) (cf_interval cf)
       (cf_msgTimeout cf) (cf_userJSON cf) = Some (Inr a) \<Longrightarrow>
     redial_step cf r (StatsReady None) \<lparr>rd_pc = AwaitingClose c, rd_stats = Some a\<rparr>"
| stats_failed: "rd_pc r = StatsSetup c \<Longrightarrow> rd_stats r = None \<Longrightarrow>
     NewProcessStats (cf_unmarshal cf) SB (Some c) (cf_statsKey cf) (cf_exchange cf) (cf_interval cf)
       (cf_msgTimeout cf) (cf_userJSON cf) = Some (Inl e) \<Longrightarrow>
     redial_step cf r (StatsReady (Some e)) (r\<lparr>rd_pc := AwaitingClose c\<rparr>)"
| stats_panics: "rd_pc r = StatsSetup c \<Longrightarrow> rd_stats r = None \<Longrightarrow>
     NewProcessStats (cf_unmarshal cf) SB (Some c) (cf_statsKey cf) (cf_exchange cf) (cf_interval cf)
       (cf_msgTimeout cf) (cf_userJSON cf) = None \<Longrightarrow>
     redial_step cf r Panic (r\<lparr>rd_pc := Panicked\<rparr>)"
| stats_reconnected: "rd_pc r = StatsSetup c \<Longrightarrow> rd_stats r = Some (psc, t) \<Longrightarrow>
     ReinitializeConnection SB (Some c) psc = (e, psc') \<Longrightarrow>
     redial_step cf r (StatsReady e) \<lparr>rd_pc = AwaitingClose c, rd_stats = Some (psc', t)\<rparr>"
| closed: "rd_pc r = AwaitingClose c \<Longrightarrow> redial_step cf r ConnectionClosed (r\<lparr>rd_pc := Dialing\<rparr>)"
| routed: "rd_pc r \<noteq> Panicked \<Longrightarrow> router_handle (rd_stats r) s = Some (stats, a) \<Longrightarrow>
     redial_step cf r (Routed s a) (r\<lparr>rd_stats := stats\<rparr>)"
| router_panics: "rd_pc r \<noteq> Panicked \<Longrightarrow> router_handle (rd_stats r) s = None \<Longrightarrow>
     redial_step cf r Panic (r\<lparr>rd_pc := Panicked\<rparr>)"

inductive_cases redial_stepE: "redial_step cf r e r'"

inductive redial_trace :: "'j session_config \<Rightarrow> redial_event list \<Rightarrow> 'j redial \<Rightarrow> bool" for cf where
  redial_start: "redial_trace cf [] redial_init"
| redial_next: "redial_trace cf es r \<Longrightarrow> redial_step cf r e r' \<Longrightarrow> redial_trace cf (es @ [e]) r'"

section \<open>The invariant of the session\<close>

definition dial_failures :: "redial_event list \<Rightarrow> nat" where
  "dial_failures es = length (filter (\<lambda>e. case e of DialFailed _ \<Rightarrow> True | _ \<Rightarrow> False) es)"

definition time_slept :: "redial_event list \<Rightarrow> duration" where
  "time_slept es = (\<Sum>e\<leftarrow>es. case e of SleptFor d \<Rightarrow> d | _ \<Rightarrow> 0)"

definition ticker_changes :: "redial_event list \<Rightarrow> duration list" where
  "ticker_changes es =
     List.map_filter (\<lambda>e. case e of Routed s (TickerChanged d) \<Rightarrow> Some d | _ \<Rightarrow> None) es"

lemmas redial_events_defs = dial_failures_def time_slept_def ticker_changes_def List.map_filter_def

text \<open>The agent holds the flags it was created with, and one ticker per interval it was given.\<close>

definition agent_wf :: "'j session_config \<Rightarrow> duration list \<Rightarrow> 'j agent \<Rightarrow> bool" where
  "agent_wf cf ds a \<longleftrightarrow>
     routingKey (fst a) = cf_statsKey cf \<and> exchange (fst a) = cf_exchange cf \<and>
     msgTimeout (fst a) = cf_msgTimeout cf \<and>
     userJSON (fst a) = (if cf_userJSON cf = [] then None else fst (cf_unmarshal cf (cf_userJSON cf))) \<and>
     (\<exists>c h. connection (fst a) = Some c \<and> channel (fst a) = Some (c, h)) \<and>
     tk_periods (snd a) = cf_interval cf # ds \<and> length (tk_goroutines (snd a)) = Suc (length ds) \<and>
     tk_current (snd a) = length ds \<and> (\<forall>d\<in>set (cf_interval cf # ds). 0 < d)"

lemma ReinitializeConnection_frame:
  assumes "ReinitializeConnection B (Some c) psc = (e, psc')"
  shows "connection psc' = Some c" "routingKey psc' = routingKey psc" "exchange psc' = exchange psc"
    "msgTimeout psc' = msgTimeout psc" "userJSON psc' = userJSON psc"
    "channel psc' = Some (c, fst (sb_channel B c))"
  using assms by (auto simp: ReinitializeConnection_def Let_def split: prod.splits option.splits)

lemma NewTicker_SomeD:
  assumes "NewTicker d t = Some t'"
  shows "0 < d" "tk_periods t' = tk_periods t @ [d]" "tk_current t' = length (tk_periods t)"
    "length (tk_goroutines t') = Suc (length (tk_goroutines t))"
  using assms by (auto simp: NewTicker_def split: if_splits)

lemma NewProcessStats_Inr:
  assumes "NewProcessStats (cf_unmarshal cf) SB (Some c) (cf_statsKey cf) (cf_exchange cf) (cf_interval cf)
       (cf_msgTimeout cf) (cf_userJSON cf) = Some (Inr a)"
  shows "agent_wf cf [] a \<and> connection (fst a) = Some c"
proof -
  obtain psc t where a: "a = (psc, t)" by fastforce
  with assms obtain psc0 where re: "ReinitializeConnection SB (Some c) psc0 = (None, psc)"
    and psc0: "psc0 = \<lparr>connection = Some c, channel = None, routingKey = cf_statsKey cf, exchange = cf_exchange cf,
        msgTimeout = cf_msgTimeout cf,
        userJSON = (if 0 < length (cf_userJSON cf) then fst (cf_unmarshal cf (cf_userJSON cf)) else None)\<rparr>"
    and t: "NewTicker (cf_interval cf) no_tickers = Some t"
    by (auto simp: NewProcessStats_def Let_def split: prod.splits option.splits)
  from ReinitializeConnection_frame [OF re] NewTicker_SomeD [OF t] show ?thesis
    by (auto simp: a agent_wf_def psc0 no_tickers_def)
qed

lemma agent_wf_reconnect:
  "agent_wf cf ds (psc, t) \<Longrightarrow> ReinitializeConnection SB (Some c) psc = (e, psc') \<Longrightarrow>
   agent_wf cf ds (psc', t) \<and> connection psc' = Some c"
  using ReinitializeConnection_frame [of SB c psc e psc'] by (auto simp: agent_wf_def)

lemma router_handle_agent:
  assumes "router_handle (Some a) s = Some (stats, act)" and "agent_wf cf ds a"
  shows "\<exists>a'. stats = Some a' \<and> fst a' = fst a \<and>
     (if TimeUpdate s then act = TickerChanged (NewTime s) \<and> agent_wf cf (ds @ [NewTime s]) a'
      else act = SampleRequested \<and> a' = a)"
proof (cases "TimeUpdate s")
  case False
  with assms(1) show ?thesis
    by (intro exI [of _ a]) (auto simp: router_handle_def split: prod.splits)
next
  case True
  with assms(1) obtain t where t: "NewTicker (NewTime s) (snd a) = Some t" "stats = Some (fst a, t)"
    "act = TickerChanged (NewTime s)"
    by (auto simp: router_handle_def split: prod.splits)
  with NewTicker_SomeD [OF t(1)] assms(2) True show ?thesis
    by (auto simp: agent_wf_def)
qed

definition redial_inv :: "'j session_config \<Rightarrow> redial_event list \<Rightarrow> 'j redial \<Rightarrow> bool" where
  "redial_inv cf es r \<longleftrightarrow>
     (rd_pc r \<noteq> Panicked \<longrightarrow>
       5 * second * int (dial_failures es) = time_slept es + (if rd_pc r = Sleeping then 5 * second else 0)) \<and>
     (case rd_stats r of
        None \<Rightarrow> ticker_changes es = []
      | Some a \<Rightarrow> agent_wf cf (ticker_changes es) a \<and>
          (\<forall>c. rd_pc r = AwaitingClose c \<longrightarrow> connection (fst a) = Some c))"

lemma redial_events_simps [simp]:
  "dial_failures (es @ [e]) = dial_failures es + (case e of DialFailed _ \<Rightarrow> 1 | _ \<Rightarrow> 0)"
  "time_slept (es @ [e]) = time_slept es + (case e of SleptFor d \<Rightarrow> d | _ \<Rightarrow> 0)"
  "ticker_changes (es @ [e]) =
     ticker_changes es @ (case e of Routed s (TickerChanged d) \<Rightarrow> [d] | _ \<Rightarrow> [])"
  by (auto simp: redial_events_defs split: redial_event.splits router_action.splits)

lemma redial_inv_step:
  assumes "redial_step cf r e r'" and inv: "redial_inv cf es r" and "rd_pc r \<noteq> Panicked"
  shows "redial_inv cf (es @ [e]) r'"
  using assms(1)
proof cases
  case (stats_created c SB a)
  with NewProcessStats_Inr [of cf SB c a] inv show ?thesis by (simp add: redial_inv_def)
next
  case (stats_reconnected c psc t SB e psc')
  with agent_wf_reconnect [of cf "ticker_changes es" psc t SB c e psc'] inv show ?thesis
    by (simp add: redial_inv_def)
next
  case (routed s stats a)
  show ?thesis
  proof (cases "rd_stats r")
    case None
    with routed inv show ?thesis by (simp add: redial_inv_def router_handle_def)
  next
    case (Some ag)
    with inv have wf: "agent_wf cf (ticker_changes es) ag" by (simp add: redial_inv_def)
    have "router_handle (Some ag) s = Some (stats, a)" using routed Some by simp
    from router_handle_agent [OF this wf] obtain a' where
      "stats = Some a'" "fst a' = fst ag"
      "if TimeUpdate s then a = TickerChanged (NewTime s) \<and> agent_wf cf (ticker_changes es @ [NewTime s]) a'
       else a = SampleRequested \<and> a' = ag" by blast
    with routed Some inv wf show ?thesis by (auto simp: redial_inv_def split: if_splits)
  qed
qed (use inv in \<open>auto simp: redial_inv_def split: option.splits\<close>)

lemma redial_Panicked_stuck: "redial_step cf r e r' \<Longrightarrow> rd_pc r \<noteq> Panicked"
  by (auto elim!: redial_stepE)

lemma redial_inv_trace: "redial_trace cf es r \<Longrightarrow> redial_inv cf es r"
proof (induction rule: redial_trace.induct)
  case redial_start
  then show ?case by (simp add: redial_inv_def redial_init_def redial_events_defs)
next
  case (redial_next es r e r')
  then show ?case using redial_inv_step redial_Panicked_stuck by blast
qed

section \<open>Properties of the session\<close>

abbreviation demo_config :: "unit session_config" where
  "demo_config \<equiv> \<lparr>cf_keys = [''k''], cf_exchange = ''amq.topic'', cf_statsKey = ''s'', cf_interval = second,
     cf_msgTimeout = 0, cf_userJSON = '''', cf_unmarshal = (\<lambda>_. (None, None))\<rparr>"

text \<open>
  C31: the statistics agent survives every loss of the connection. In every run, once it has been
  created it exists for ever, holds the routing key, the exchange, the time limit and the
  user data of the flags, and has one ticker for the configured interval and one for each
  change of rate since, the last of them current: reconnecting adds none; and whenever
  \<open>redial\<close> waits for a connection to close, the channel on which the agent publishes is one it
  opened on that connection.
\<close>

theorem session_agent_invariant:
  assumes "redial_trace cf es r" and "rd_stats r = Some (psc, t)"
  shows "routingKey psc = cf_statsKey cf \<and> exchange psc = cf_exchange cf \<and> msgTimeout psc = cf_msgTimeout cf \<and>
     userJSON psc = (if cf_userJSON cf = [] then None else fst (cf_unmarshal cf (cf_userJSON cf))) \<and>
     tk_periods t = cf_interval cf # ticker_changes es \<and>
     length (tk_goroutines t) = Suc (length (ticker_changes es)) \<and> tk_current t = length (ticker_changes es) \<and>
     (\<forall>c. rd_pc r = AwaitingClose c \<longrightarrow> connection psc = Some c \<and> (\<exists>h. channel psc = Some (c, h))) \<and>
     (\<forall>e r'. redial_step cf r e r' \<longrightarrow> rd_stats r' \<noteq> None)"
proof -
  have inv: "redial_inv cf es r" using assms(1) by (rule redial_inv_trace)
  have wf: "agent_wf cf (ticker_changes es) (psc, t)"
    using inv assms(2) by (simp add: redial_inv_def)
  have "rd_stats r' \<noteq> None" if "redial_step cf r e r'" for e r'
    using that
  proof cases
    case (routed s stats a)
    then have "router_handle (Some (psc, t)) s = Some (stats, a)" using assms(2) by simp
    from router_handle_agent [OF this wf] routed show ?thesis by auto
  qed (use assms(2) in auto)
  with wf inv assms(2) show ?thesis by (auto simp: agent_wf_def redial_inv_def)
qed

lemma demo_session:
  "\<exists>es r. redial_trace demo_config es r \<and> rd_pc r = AwaitingClose 4 \<and>
     (\<exists>psc t. rd_stats r = Some (psc, t)) \<and> ticker_changes es = []"
proof -
  define B where "B = \<lparr>rb_channel = Some ''closed'', rb_channel_id = 1, rb_queue_declare = Inl '''',
    rb_queue_bind = (\<lambda>_ _ _. None), rb_consume = (\<lambda>_ _. None)\<rparr>"
  define SB where "SB = \<lparr>sb_channel = (\<lambda>_. (2, None)), sb_exchange_declare = (\<lambda>_ _. None)\<rparr>"
  have "\<exists>e calls. \<forall>n. NewRemoteControl (Some n) [''k''] ''amq.topic'' 0 B = (Inl e, calls)"
    by (auto simp: NewRemoteControl_def B_def)
  then obtain e calls where rc: "\<And>n. NewRemoteControl (Some n) [''k''] ''amq.topic'' 0 B = (Inl e, calls)"
    by blast
  let ?r1 = "redial_init\<lparr>rd_pc := StatsSetup 3\<rparr> :: unit redial"
  have "redial_step demo_config redial_init (Connected 3 calls (Some e)) ?r1"
    by (intro connected_no_rc [where fresh = 0 and B = B]) (simp_all add: redial_init_def rc)
  then have run1: "redial_trace demo_config ([] @ [Connected 3 calls (Some e)]) ?r1"
    by (rule redial_next [OF redial_start])
  obtain psc :: "unit collector" and t where
    "NewProcessStats (\<lambda>_. (None, None)) SB (Some 3) ''s'' ''amq.topic'' second 0 '''' = Some (Inr (psc, t))"
    by (auto simp: NewProcessStats_def ReinitializeConnection_def NewTicker_def SB_def no_tickers_def)
  then have "redial_step demo_config ?r1 (StatsReady None) \<lparr>rd_pc = AwaitingClose 3, rd_stats = Some (psc, t)\<rparr>"
    by (intro stats_created [where SB = SB]) (simp_all add: redial_init_def)
  note run2 = redial_next [OF run1 this]
  let ?r3 = "\<lparr>rd_pc = StatsSetup 4, rd_stats = Some (psc, t)\<rparr>"
  have "redial_step demo_config \<lparr>rd_pc = AwaitingClose 3, rd_stats = Some (psc, t)\<rparr> ConnectionClosed
      \<lparr>rd_pc = Dialing, rd_stats = Some (psc, t)\<rparr>"
    using redial_step.closed [of "\<lparr>rd_pc = AwaitingClose 3, rd_stats = Some (psc, t)\<rparr>" 3] by simp
  note run3 = redial_next [OF run2 this]
  have "redial_step demo_config \<lparr>rd_pc = Dialing, rd_stats = Some (psc, t)\<rparr> (Connected 4 calls (Some e)) ?r3"
    using connected_no_rc [of "\<lparr>rd_pc = Dialing, rd_stats = Some (psc, t)\<rparr>" 4 demo_config 0 B e calls]
    by (simp add: rc)
  note run4 = redial_next [OF run3 this]
  obtain e' psc' where "ReinitializeConnection SB (Some 4) psc = (e', psc')" by fastforce
  then have "redial_step demo_config ?r3 (StatsReady e') \<lparr>rd_pc = AwaitingClose 4, rd_stats = Some (psc', t)\<rparr>"
    by (intro stats_reconnected [where SB = SB]) simp_all
  from redial_next [OF run4 this] show ?thesis
    by (intro exI conjI) (auto simp: redial_events_defs)
qed

text \<open>The first connection, 3, is lost, and the second is 4.\<close>

theorem session_agent_invariant_witness:
  "\<exists>es r. redial_trace demo_config es r \<and> rd_pc r = AwaitingClose 4 \<and>
     (\<exists>psc t h. rd_stats r = Some (psc, t) \<and> channel psc = Some (4, h) \<and> tk_periods t = [second])"
proof -
  obtain es r psc t where run: "redial_trace demo_config es r" "rd_stats r = Some (psc, t)"
    and at: "rd_pc r = AwaitingClose 4" "ticker_changes es = []"
    using demo_session by blast
  from session_agent_invariant [OF run] run at show ?thesis by fastforce
qed

text \<open>
  Reconnection is rate limited: whenever \<open>redial\<close> dials, it has slept five seconds for
  every dial that failed before.
\<close>

theorem redial_rate_limited:
  assumes "redial_trace cf es r" and "rd_pc r = Dialing"
  shows "time_slept es = 5 * second * int (dial_failures es)"
  using redial_inv_trace [OF assms(1)] assms(2) by (simp add: redial_inv_def)

theorem redial_rate_limited_witness:
  "time_slept [DialFailed ''refused'', SleptFor (5 * second)] = 5 * second"
proof -
  let ?r = "redial_init\<lparr>rd_pc := Sleeping\<rparr> :: unit redial"
  have "redial_step demo_config redial_init (DialFailed ''refused'') ?r"
    by (rule dial_failed) (simp add: redial_init_def)
  then have "redial_trace demo_config ([] @ [DialFailed ''refused'']) ?r"
    by (rule redial_next [OF redial_start])
  moreover have "redial_step demo_config ?r (SleptFor (5 * second)) (?r\<lparr>rd_pc := Dialing\<rparr>)"
    by (rule slept) simp
  ultimately have "redial_trace demo_config (([] @ [DialFailed ''refused'']) @ [SleptFor (5 * second)])
      (?r\<lparr>rd_pc := Dialing\<rparr>)"
    by (rule redial_next)
  from redial_rate_limited [OF this] show ?thesis by (simp add: redial_events_defs)
qed

text \<open>
  Requests to the router. Without an agent every request is dropped; with one, a
  request for a sample leaves the agent as it is; the router panics, and proc_box goes
  down with the child left running, exactly when the new interval is not positive. The
  remote command \<open>change_sample_rate\<close> passes every interval on, also such a one.
\<close>

theorem sample_rate_can_panic:
  "(router_handle stats s = None) = (stats \<noteq> None \<and> TimeUpdate s \<and> NewTime s \<le> 0) \<and>
   router_handle (None :: 'j agent option) s = Some (None, Dropped) \<and>
   (\<not> TimeUpdate s \<longrightarrow> router_handle (Some a) s = Some (Some a, SampleRequested)) \<and>
   (pd x = Some d \<and> m_psReady m \<longrightarrow>
      (\<exists>m'. handle_command pd \<lparr>Command = ''change_sample_rate'', Arguments = x # rest\<rparr> m = Continue m' \<and>
        m_psSent m' = m_psSent m @ [\<lparr>TimeUpdate = True, NewTime = d\<rparr>]))"
proof (intro conjI impI)
  show "(router_handle stats s = None) = (stats \<noteq> None \<and> TimeUpdate s \<and> NewTime s \<le> 0)"
    by (auto simp: router_handle_def NewTicker_def split: option.splits)
  show "router_handle (None :: 'j agent option) s = Some (None, Dropped)" by (simp add: router_handle_def)
  show "\<not> TimeUpdate s \<Longrightarrow> router_handle (Some a) s = Some (Some a, SampleRequested)"
    by (auto simp: router_handle_def split: prod.splits)
  show "pd x = Some d \<and> m_psReady m \<Longrightarrow>
      \<exists>m'. handle_command pd \<lparr>Command = ''change_sample_rate'', Arguments = x # rest\<rparr> m = Continue m' \<and>
        m_psSent m' = m_psSent m @ [\<lparr>TimeUpdate = True, NewTime = d\<rparr>]"
    by (simp add: handle_command_simps ps_try_send_def)
qed

abbreviation demo_agent :: "unit agent" where
  "demo_agent \<equiv> (\<lparr>connection = Some 1, channel = Some (1, 2), routingKey = ''s'', exchange = ''amq.topic'',
      msgTimeout = 0, userJSON = None\<rparr>,
    \<lparr>tk_periods = [second], tk_current = 0, tk_goroutines = [Entering]\<rparr>)"

text \<open>\<open>change_sample_rate 0s\<close>, with a waiting router and an agent.\<close>

theorem sample_rate_can_panic_witness:
  "\<exists>m'. handle_command (\<lambda>_. Some 0) \<lparr>Command = ''change_sample_rate'', Arguments = [''0s'']\<rparr>
       (demo_mon (\<lambda>_ _. None) 0 NewMeasuredReader) = Continue m' \<and>
     m_psSent m' = [\<lparr>TimeUpdate = True, NewTime = 0\<rparr>] \<and>
     router_handle (Some demo_agent) (hd (m_psSent m')) = None"
  using sample_rate_can_panic [of "Some demo_agent" "\<lparr>TimeUpdate = True, NewTime = 0\<rparr>" demo_agent
      "\<lambda>_. Some 0" "''0s''" 0 "demo_mon (\<lambda>_ _. None) 0 NewMeasuredReader" "[]"] by auto

text \<open>
  The routing keys of the remote control. Splitting a list of keys joined by commas
  gives the keys back, and for any text the keys are non-empty, free of commas, and made of its
  characters in order; without the flag the text is the one key.
\<close>

theorem routing_keys_split:
  "((\<forall>k\<in>set ks. k \<noteq> [] \<and> CHR 0x2C \<notin> set k) \<longrightarrow> redial_keys (Join CHR 0x2C ks) True = ks) \<and>
   (\<forall>k\<in>set (redial_keys s True). k \<noteq> [] \<and> CHR 0x2C \<notin> set k) \<and>
   concat (redial_keys s True) = filter (\<lambda>c. c \<noteq> CHR 0x2C) s \<and>
   redial_keys s False = [s]"
proof (intro conjI)
  show "(\<forall>k\<in>set ks. k \<noteq> [] \<and> CHR 0x2C \<notin> set k) \<longrightarrow> redial_keys (Join CHR 0x2C ks) True = ks"
    by (cases "ks = []") (simp_all add: redial_keys_def deleteEmpty_filter Split_Join)
  show "\<forall>k\<in>set (redial_keys s True). k \<noteq> [] \<and> CHR 0x2C \<notin> set k"
    using Split_no_separator [of _ "CHR 0x2C" s] by (auto simp: redial_keys_def deleteEmpty_filter)
  have "concat (filter (\<lambda>v. v \<noteq> []) vs) = concat vs" for vs :: "string list"
    by (induction vs) auto
  moreover have "concat (Split c s) = filter (\<lambda>x. x \<noteq> c) s" for c
    by (induction s) (auto split: list.splits)
  ultimately show "concat (redial_keys s True) = filter (\<lambda>c. c \<noteq> CHR 0x2C) s"
    by (simp add: redial_keys_def deleteEmpty_filter)
qed (simp add: redial_keys_def)

theorem routing_keys_split_witness:
  "redial_keys (''box.all'' @ CHR 0x2C # ''box.7'') True = [''box.all'', ''box.7'']"
  using routing_keys_split [of "[''box.all'', ''box.7'']" "[]"] by simp

end
