(* ===== verification/System.thy ===== *)
theory System
  imports Monitor
begin

text \<open>
  The goroutines of proc_box together: \<open>main\<close> (waiting for the result), the monitor, the
  timer, and the goroutines of the job, as one step relation. They meet on unbuffered
  channels: the timer's \<open>done\<close>, and the channel \<open>done\<close> made by \<open>main\<close>, which is also the
  one \<open>JobControl.Done\<close> returns, so that the result of the child reaches \<open>main\<close> either
  straight from the job's goroutine or through the monitor.
\<close>

section \<open>The step relation\<close>

datatype mon_pc = Selecting | PuttingTimer string | ForwardingDone "err option" | ProcExited int

record sys =
  s_mon :: mon
  s_pc :: mon_pc
  s_plumb :: plumbing
  s_main :: "err option option"

abbreviation s_timer :: "sys \<Rightarrow> wallclock_timer" where
  "s_timer s \<equiv> m_timer (s_mon s)"

abbreviation s_sent :: "sys \<Rightarrow> (int \<times> sig) list" where
  "s_sent s \<equiv> kills (m_os (s_mon s))"

fun outcome_pc :: "outcome \<Rightarrow> mon_pc" where
  "outcome_pc (Continue m) = Selecting"
| "outcome_pc (ExitProcess n m) = ProcExited n"
| "outcome_pc (TimerBlocks c m) = PuttingTimer c"
| "outcome_pc (SendsDone e m) = ForwardingDone e"

definition after_event :: "(string \<Rightarrow> duration option) \<Rightarrow> mon_event \<Rightarrow> sys \<Rightarrow> sys" where
  "after_event pd e s =
     (let oc = monitor_step pd e (s_mon s) in s\<lparr>s_mon := outcome_mon oc, s_pc := outcome_pc oc\<rparr>)"

definition with_timer :: "wallclock_timer \<Rightarrow> sys \<Rightarrow> sys" where
  "with_timer t s = s\<lparr>s_mon := (s_mon s)\<lparr>m_timer := t\<rparr>\<rparr>"

fun external :: "mon_event \<Rightarrow> bool" where
  "external TimeoutReceived = False"
| "external (JobDoneReceived e) = False"
| "external e = True"

definition running :: "sys \<Rightarrow> bool" where
  "running s \<longleftrightarrow> (\<forall>n. s_pc s \<noteq> ProcExited n)"

text \<open>
  \<open>external\<close> events come from outside: the operating system, the broker, the sampling
  ticker. The steps of the job's goroutines are those of \<open>plumb_step\<close> up to the sending of
  the result, which needs a receiver.
\<close>

inductive sys_step :: "(string \<Rightarrow> duration option) \<Rightarrow> sys \<Rightarrow> sys \<Rightarrow> bool" for pd where
  timer_wakes: "running s \<Longrightarrow> pc (s_timer s) = Ticking \<Longrightarrow>
     sys_step pd s (with_timer (timerTicker_iteration n1 n2 n3 (s_timer s)) s)"
| monitor_event: "s_pc s = Selecting \<Longrightarrow> external e \<Longrightarrow> mon_event_enabled (s_mon s) e \<Longrightarrow>
     sys_step pd s (after_event pd e s)"
| monitor_timeout: "s_pc s = Selecting \<Longrightarrow> pc (s_timer s) = SendingDone \<Longrightarrow>
     sys_step pd s (after_event pd TimeoutReceived (with_timer (timer_done_received (s_timer s)) s))"
| monitor_puts: "s_pc s = PuttingTimer c \<Longrightarrow> timer_send c (s_timer s) = Some (None, t) \<Longrightarrow>
     sys_step pd s ((with_timer t s)\<lparr>s_pc := Selecting\<rparr>)"
| job_moves: "running s \<Longrightarrow> plumb_step (s_plumb s) p \<Longrightarrow>
     p_waiter p = WaiterDone \<longrightarrow> p_waiter (s_plumb s) = WaiterDone \<Longrightarrow>
     sys_step pd s (s\<lparr>s_plumb := p\<rparr>)"
| stdout_read: "running s \<Longrightarrow>
     sys_step pd s (s\<lparr>s_mon := (s_mon s)\<lparr>m_job := (m_job (s_mon s))\<lparr>stdoutReader :=
       snd (reader_Read res now (stdoutReader (m_job (s_mon s))))\<rparr>\<rparr>\<rparr>)"
| router_waits: "running s \<Longrightarrow> sys_step pd s (s\<lparr>s_mon := (s_mon s)\<lparr>m_psReady := True\<rparr>\<rparr>)"
| result_to_monitor: "s_pc s = Selecting \<Longrightarrow> p_waiter (s_plumb s) = SendingResult r \<Longrightarrow>
     sys_step pd s (after_event pd (JobDoneReceived r)
       (s\<lparr>s_plumb := (s_plumb s)\<lparr>p_waiter := WaiterDone\<rparr>\<rparr>))"
| result_to_main: "running s \<Longrightarrow> s_main s = None \<Longrightarrow> p_waiter (s_plumb s) = SendingResult r \<Longrightarrow>
     sys_step pd s (s\<lparr>s_main := Some r, s_plumb := (s_plumb s)\<lparr>p_waiter := WaiterDone\<rparr>\<rparr>)"
| forward_to_main: "s_pc s = ForwardingDone r \<Longrightarrow> s_main s = None \<Longrightarrow>
     sys_step pd s (s\<lparr>s_main := Some r, s_pc := Selecting\<rparr>)"

inductive sys_steps :: "(string \<Rightarrow> duration option) \<Rightarrow> sys \<Rightarrow> sys \<Rightarrow> bool" for pd where
  sys_refl: "sys_steps pd s s"
| sys_trans: "sys_steps pd s t \<Longrightarrow> sys_step pd t u \<Longrightarrow> sys_steps pd s u"

text \<open>
  Where \<open>main\<close> starts to wait: the child runs, the timer has its first command, \<open>start\<close>.
\<close>

definition sys_init :: "job \<Rightarrow> os \<Rightarrow> int \<Rightarrow> instant \<Rightarrow> duration \<Rightarrow> bool \<Rightarrow> sys" where
  "sys_init j w lim now timeout ne =
     \<lparr>s_mon = \<lparr>m_job = j, m_os = w,
        m_timer = (case Timer_Start (NewTimer now timeout) of
                     None \<Rightarrow> NewTimer now timeout | Some (_, t) \<Rightarrow> t),
        m_limit = lim, m_rcChan = None, m_psReady = False, m_psSent = []\<rparr>,
      s_pc = Selecting, s_plumb = plumb_init ne, s_main = None\<rparr>"


section \<open>The invariant of the composition\<close>

lemma with_timer_frame [simp]:
  "s_plumb (with_timer t s) = s_plumb s" "s_pc (with_timer t s) = s_pc s"
  "s_main (with_timer t s) = s_main s" "s_timer (with_timer t s) = t"
  "m_os (s_mon (with_timer t s)) = m_os (s_mon s)" "m_job (s_mon (with_timer t s)) = m_job (s_mon s)"
  by (simp_all add: with_timer_def)

lemma after_event_frame [simp]:
  "s_plumb (after_event pd e s) = s_plumb s" "s_main (after_event pd e s) = s_main s"
  by (simp_all add: after_event_def Let_def)

lemma monitor_step_SendsDone:
  "outcome_pc (monitor_step pd e m) = ForwardingDone r \<longleftrightarrow> e = JobDoneReceived r"
proof -
  have timer: "outcome_pc (timer_op c op m) \<noteq> ForwardingDone r" for c op m
    by (simp add: timer_op_def split: option.splits prod.splits)
  have stop: "outcome_pc (stop_or_exit m) \<noteq> ForwardingDone r" for m
    by (simp add: stop_or_exit_def split: option.splits prod.splits)
  have "outcome_pc (handle_command pd c m) \<noteq> ForwardingDone r" for c
    by (cases "Command c" rule: command_name_cases)
      (auto simp: handle_command_simps timer stop split: list.splits option.splits)
  with stop show ?thesis
    by (cases e) (auto simp: handle_signal_def handle_timeout_stop_or_exit handle_log_sample_def Let_def
        handle_job_done_def)
qed

lemma after_event_forwarding [simp]:
  "s_pc (after_event pd e s) = ForwardingDone r \<longleftrightarrow> e = JobDoneReceived r"
  by (simp add: after_event_def Let_def monitor_step_SendsDone)

text \<open>
  The result is in exactly one place: with the job's goroutine, with the monitor, or with
  \<open>main\<close>; wherever it is, the child has ended and it is the result of \<open>Cmd.Wait\<close>.
\<close>

definition result_inv :: "sys \<Rightarrow> bool" where
  "result_inv s \<longleftrightarrow>
     plumb_inv (s_plumb s) \<and>
     (p_waiter (s_plumb s) = WaiterDone \<longleftrightarrow> s_main s \<noteq> None \<or> (\<exists>r. s_pc s = ForwardingDone r)) \<and>
     (\<forall>r. s_pc s = ForwardingDone r \<longrightarrow> r = p_result (s_plumb s) \<and> s_main s = None) \<and>
     (\<forall>r. s_main s = Some r \<longrightarrow> r = p_result (s_plumb s))"

lemma plumb_step_keeps_result:
  "plumb_step p q \<Longrightarrow> plumb_inv p \<Longrightarrow> p_waiter p = WaiterDone \<Longrightarrow> p_result q = p_result p \<and> p_waiter q = WaiterDone"
  by (induction rule: plumb_step.induct) (auto simp: plumb_inv_def)

lemma result_inv_init: "result_inv (sys_init j w lim now timeout ne)"
  using plumb_inv_init [of ne] by (simp add: result_inv_def sys_init_def plumb_init_def)

lemma plumb_inv_result: "plumb_inv p \<Longrightarrow> p_waiter p = SendingResult r \<Longrightarrow> r = p_result p"
  by (simp add: plumb_inv_def)

lemma plumb_inv_sent: "plumb_inv p \<Longrightarrow> p_waiter p = SendingResult r \<Longrightarrow> plumb_inv (p\<lparr>p_waiter := WaiterDone\<rparr>)"
  by (auto simp: plumb_inv_def)

lemma result_inv_step: "sys_step pd s t \<Longrightarrow> result_inv s \<Longrightarrow> result_inv t"
proof (induction rule: sys_step.induct)
  case (job_moves s p)
  have "plumb_inv p" using job_moves plumb_inv_step by (auto simp: result_inv_def)
  moreover have "p_waiter p = WaiterDone \<longleftrightarrow> p_waiter (s_plumb s) = WaiterDone"
    using job_moves plumb_step_keeps_result by (auto simp: result_inv_def)
  moreover have "p_waiter (s_plumb s) = WaiterDone \<Longrightarrow> p_result p = p_result (s_plumb s)"
    using job_moves plumb_step_keeps_result by (auto simp: result_inv_def)
  ultimately show ?case using job_moves by (auto simp: result_inv_def)
next
  case (monitor_event s e)
  then have "\<forall>r. e \<noteq> JobDoneReceived r" by auto
  with monitor_event show ?case by (auto simp: result_inv_def)
next
  case (result_to_monitor s r)
  then show ?case using plumb_inv_result [of "s_plumb s" r] plumb_inv_sent [of "s_plumb s" r]
    by (auto simp: result_inv_def)
next
  case (result_to_main s r)
  then show ?case using plumb_inv_result [of "s_plumb s" r] plumb_inv_sent [of "s_plumb s" r]
    by (auto simp: result_inv_def)
qed (auto simp: result_inv_def)

lemma result_inv_steps: "sys_steps pd s t \<Longrightarrow> result_inv s \<Longrightarrow> result_inv t"
  by (induction rule: sys_steps.induct) (auto intro: result_inv_step)


section \<open>The deadlock of the monitor and the timer\<close>

text \<open>
  The monitor waits for room in the timer's channel while the timer waits for the monitor
  to take the timeout.
\<close>

definition deadlocked :: "string \<Rightarrow> sys \<Rightarrow> bool" where
  "deadlocked c s \<longleftrightarrow>
     s_pc s = PuttingTimer c \<and> pc (s_timer s) = SendingDone \<and>
     chan_cap (command (s_timer s)) \<le> length (chan_buf (command (s_timer s)))"

lemma deadlocked_step:
  "sys_step pd s t \<Longrightarrow> deadlocked c s \<Longrightarrow> deadlocked c t \<and> s_sent t = s_sent s"
  by (induction rule: sys_step.induct)
    (auto simp: deadlocked_def timer_send_def go_chan.send_full)

lemma deadlocked_steps:
  "sys_steps pd s t \<Longrightarrow> deadlocked c s \<Longrightarrow> deadlocked c t \<and> s_sent t = s_sent s"
proof (induction rule: sys_steps.induct)
  case (sys_refl s)
  then show ?case by simp
next
  case (sys_trans s t u)
  then show ?case using deadlocked_step [of pd t u c] by simp
qed

lemma sys_steps_append: "sys_steps pd t u \<Longrightarrow> sys_steps pd s t \<Longrightarrow> sys_steps pd s u"
  by (induction rule: sys_steps.induct) (auto intro: sys_trans)

lemma sys_step_steps: "sys_step pd s t \<Longrightarrow> sys_steps pd s t"
  by (rule sys_trans [OF sys_refl])

text \<open>A timer command sent while the queue has room leaves the monitor selecting; one sent
  into the full queue makes it wait.\<close>

lemma after_timer_command:
  assumes "timer_request e = Some c"
  shows "length (chan_buf (command (s_timer s))) < chan_cap (command (s_timer s)) \<Longrightarrow>
      after_event pd e s = s\<lparr>s_mon := (s_mon s)\<lparr>m_timer := (s_timer s)\<lparr>command :=
          (command (s_timer s))\<lparr>chan_buf := chan_buf (command (s_timer s)) @ [c]\<rparr>\<rparr>\<rparr>, s_pc := Selecting\<rparr>"
    and "chan_cap (command (s_timer s)) \<le> length (chan_buf (command (s_timer s))) \<Longrightarrow>
      after_event pd e s = s\<lparr>s_pc := PuttingTimer c\<rparr>"
  using timer_request_step [OF assms, of pd "s_mon s"]
  by (auto simp: after_event_def timer_op_send chan_send_def)

text \<open>The run that ends in the deadlock: the timer expires, then two timer commands arrive.\<close>

lemma expired_state:
  assumes "0 \<le> timeout" and "timeout < 2 ^ 62"
  shows "\<exists>s. sys_steps pd (sys_init j w lim now timeout ne) s \<and> s_pc s = Selecting \<and>
     pc (s_timer s) = SendingDone \<and> command (s_timer s) = make_chan 1 \<and> s_sent s = kills w"
proof -
  define s0 where "s0 = sys_init j w lim now timeout ne"
  define s1 where "s1 = with_timer (timerTicker_iteration now now now (s_timer s0)) s0"
  define n where "n = now + timeout + 1"
  define s2 where "s2 = with_timer (timerTicker_iteration n n n (s_timer s1)) s1"
  have t0: "s_timer s0 = (NewTimer now timeout)\<lparr>command := \<lparr>chan_cap = 1, chan_buf = [''start'']\<rparr>\<rparr>"
    by (simp add: s0_def sys_init_def Timer_Start_def timer_send_def chan_send_def NewTimer_def make_chan_def)
  have t1: "s_timer s1 = \<lparr>elapsedTime = 0, previousTime = now, timeoutTime = timeout,
      command = make_chan 1, tick = True, pc = Ticking\<rparr>"
    using assms(1) unfolding s1_def t0
    by (simp add: timer_iteration_defs NewTimer_def chan_recv_def make_chan_def)
  have "time_sub n now = timeout + 1" and "in_int64 (timeout + 1)"
    using assms by (simp_all add: n_def time_sub_def in_int64_def)
  then have t2: "s_timer s2 = \<lparr>elapsedTime = timeout + 1, previousTime = n, timeoutTime = timeout,
      command = make_chan 1, tick = True, pc = SendingDone\<rparr>"
    unfolding s2_def t1
    by (simp add: t1 timer_iteration_defs chan_recv_def make_chan_def)
  have run: "running s0" "running s1" by (simp_all add: s0_def s1_def sys_init_def running_def)
  have "sys_step pd s0 s1" unfolding s1_def
    using run(1) by (rule timer_wakes) (simp add: t0 NewTimer_def)
  moreover have "sys_step pd s1 s2" unfolding s2_def
    using run(2) by (rule timer_wakes) (simp add: t1)
  ultimately have "sys_steps pd s0 s2" by (meson sys_step_steps sys_trans)
  moreover have "s_pc s2 = Selecting" "s_sent s2 = kills w"
    by (simp_all add: s2_def s1_def s0_def sys_init_def)
  ultimately show ?thesis using t2 unfolding s0_def by auto
qed


text \<open>A run of the job's goroutines is a run of the whole in which the others stand still.\<close>

lemma plumb_reach_lift:
  "plumb_reach ne p \<Longrightarrow> p_waiter p \<noteq> WaiterDone \<Longrightarrow>
   sys_steps pd (sys_init j w lim now timeout ne) ((sys_init j w lim now timeout ne)\<lparr>s_plumb := p\<rparr>)"
proof (induction rule: plumb_reach.induct)
  case plumb_start
  have "(sys_init j w lim now timeout ne)\<lparr>s_plumb := plumb_init ne\<rparr> = sys_init j w lim now timeout ne"
    by (simp add: sys_init_def)
  then show ?case by (simp add: sys_refl)
next
  case (plumb_next p q)
  let ?s = "(sys_init j w lim now timeout ne)\<lparr>s_plumb := p\<rparr>"
  have p: "p_waiter p \<noteq> WaiterDone"
    using plumb_step_keeps_result [of p q] plumb_inv_reach plumb_next by blast
  have "sys_step pd ?s (?s\<lparr>s_plumb := q\<rparr>)"
    by (rule job_moves) (use plumb_next in \<open>simp_all add: running_def sys_init_def\<close>)
  with plumb_next.IH [OF p] show ?case by (auto intro: sys_trans)
qed


section \<open>Properties of the composition\<close>

abbreviation timer_stop_command :: remote_command where
  "timer_stop_command \<equiv> \<lparr>Command = ''timer_stop'', Arguments = []\<rparr>"

text \<open>
  C12: the monitor and the timer can deadlock. Whatever the job, the limit and the timeout
  (below 146 years), proc_box can reach a state in which the timeout has expired but is not yet received,
  and two timer commands have arrived: from there on, in every continuation, the monitor
  handles nothing and sends no signal, neither for the timeout nor for SIGTERM or a kill.
\<close>

theorem timer_monitor_deadlock:
  assumes "0 \<le> timeout" and "timeout < 2 ^ 62"
  shows "\<exists>s. sys_steps pd (sys_init j w lim now timeout ne) s \<and> pc (s_timer s) = SendingDone \<and>
     (\<forall>t. sys_steps pd s t \<longrightarrow> s_pc t = PuttingTimer ''stop'' \<and> s_sent t = kills w)"
proof -
  obtain s where s: "sys_steps pd (sys_init j w lim now timeout ne) s" "s_pc s = Selecting"
     "pc (s_timer s) = SendingDone" "command (s_timer s) = make_chan 1" "s_sent s = kills w"
    using expired_state [OF assms] by blast
  define e where "e = CommandReceived timer_stop_command"
  have e: "timer_request e = Some ''stop''" "external e" by (simp_all add: e_def)
  define s1 where "s1 = after_event pd (NewRcChan 0) s"
  define s2 where "s2 = after_event pd e s1"
  define s3 where "s3 = after_event pd e s2"
  have s1: "s_pc s1 = Selecting" "s_timer s1 = s_timer s" "s_sent s1 = kills w" "m_rcChan (s_mon s1) = Some 0"
    using s(5) by (simp_all add: s1_def after_event_def)
  then have s2: "s_pc s2 = Selecting" "pc (s_timer s2) = SendingDone" "s_sent s2 = kills w"
      "command (s_timer s2) = \<lparr>chan_cap = 1, chan_buf = [''stop'']\<rparr>" "m_rcChan (s_mon s2) = Some 0"
    using s(3,4) after_timer_command(1) [OF e(1), of s1 pd] by (simp_all add: s2_def make_chan_def)
  then have s3: "s3 = s2\<lparr>s_pc := PuttingTimer ''stop''\<rparr>"
    using after_timer_command(2) [OF e(1), of s2 pd] by (simp add: s3_def)
  have "sys_step pd s s1" unfolding s1_def
    using s(2) by (rule monitor_event) (simp_all add: mon_event_enabled_def)
  moreover have "sys_step pd s1 s2" unfolding s2_def
    using s1(1) e(2) by (rule monitor_event) (simp add: mon_event_enabled_def e_def s1)
  moreover have "sys_step pd s2 s3" unfolding s3_def
    using s2(1) e(2) by (rule monitor_event) (simp add: mon_event_enabled_def e_def s2)
  ultimately have "sys_steps pd (sys_init j w lim now timeout ne) s3"
    using s(1) by (meson sys_trans)
  moreover have "deadlocked ''stop'' s3" and "s_sent s3 = kills w"
    using s2 by (simp_all add: s3 deadlocked_def)
  ultimately show ?thesis
    using deadlocked_steps [of pd s3 _ "''stop''"] by (auto simp: deadlocked_def intro!: exI [of _ s3])
qed

theorem timer_monitor_deadlock_witness:
  "\<exists>s. sys_steps (\<lambda>_. None)
     (sys_init (demo_job 7 NewMeasuredReader) \<lparr>kills = [], kill_result = (\<lambda>_ _ _. None)\<rparr> 0 0 second True) s \<and>
     pc (s_timer s) = SendingDone \<and> s_sent s = []"
proof -
  obtain s where "sys_steps (\<lambda>_. None)
     (sys_init (demo_job 7 NewMeasuredReader) \<lparr>kills = [], kill_result = (\<lambda>_ _ _. None)\<rparr> 0 0 second True) s"
    "pc (s_timer s) = SendingDone" "\<forall>t. sys_steps (\<lambda>_. None) s t \<longrightarrow> s_sent t = []"
    using timer_monitor_deadlock [of second "\<lambda>_. None" "demo_job 7 NewMeasuredReader"
        "\<lparr>kills = [], kill_result = (\<lambda>_ _ _. None)\<rparr>" 0 0 True] by auto
  then show ?thesis using sys_steps.sys_refl by blast
qed

text \<open>
  C1: the result of the child reaches \<open>main\<close> exactly as \<open>Cmd.Wait\<close> gave it, only after the
  child has ended, and once: whether the job's goroutine hands it to \<open>main\<close> or to the
  monitor, no second result is on its way and the first is never replaced.
\<close>

theorem result_reaches_main_once:
  assumes "sys_steps pd (sys_init j w lim now timeout ne) s" and "s_main s = Some r"
    and "sys_steps pd s t"
  shows "s_main t = Some r \<and> r = p_result (s_plumb t) \<and> \<not> p_running (s_plumb t) \<and>
     p_waiter (s_plumb t) = WaiterDone \<and> (\<forall>r'. s_pc t \<noteq> ForwardingDone r')"
proof -
  have inv: "result_inv s"
    using assms(1) result_inv_init by (rule result_inv_steps)
  have once: "s_main u = Some r"
    if "sys_step pd s u" and "s_main s = Some r" and "result_inv s" for s u
    using that by (induction rule: sys_step.induct) (auto simp: result_inv_def)
  have "s_main t = Some r \<and> result_inv t"
    using assms(3,2) inv
  proof (induction rule: sys_steps.induct)
    case (sys_trans s t u)
    then show ?case using once [of t u] result_inv_step [of pd t u] by blast
  qed simp
  then show ?thesis by (auto simp: result_inv_def plumb_inv_def)
qed

theorem result_reaches_main_once_witness:
  "\<exists>s. sys_steps (\<lambda>_. None)
     (sys_init (demo_job 7 NewMeasuredReader) \<lparr>kills = [], kill_result = (\<lambda>_ _ _. None)\<rparr> 0 0 second False) s \<and>
     s_main s = Some (Some ''exit status 1'') \<and> \<not> p_running (s_plumb s)"
proof -
  let ?init = "sys_init (demo_job 7 NewMeasuredReader) \<lparr>kills = [], kill_result = (\<lambda>_ _ _. None)\<rparr> 0 0 second False"
  obtain p where p: "plumb_reach False p" "p_waiter p = SendingResult (Some ''exit status 1'')"
    using finished_child by blast
  define s where "s = ?init\<lparr>s_main := Some (Some ''exit status 1''), s_plumb := p\<lparr>p_waiter := WaiterDone\<rparr>\<rparr>"
  have "sys_step (\<lambda>_. None) (?init\<lparr>s_plumb := p\<rparr>) s"
    using result_to_main [of "?init\<lparr>s_plumb := p\<rparr>" "Some ''exit status 1''" "\<lambda>_. None"] p
    by (simp add: s_def running_def sys_init_def)
  moreover have "sys_steps (\<lambda>_. None) ?init (?init\<lparr>s_plumb := p\<rparr>)"
    by (rule plumb_reach_lift [OF p(1)]) (simp add: p)
  ultimately have "sys_steps (\<lambda>_. None) ?init s"
    by (meson sys_trans)
  moreover have "s_main s = Some (Some ''exit status 1'')" by (simp add: s_def)
  ultimately show ?thesis
    using result_reaches_main_once [of "\<lambda>_. None" _ _ _ _ _ _ s "Some ''exit status 1''" s] sys_refl
    by blast
qed

end
