(* ===== verification/Mock_Clock.thy ===== *)
theory Mock_Clock
  imports Prelude "HOL-Library.Multiset"
begin

text \<open>
  The mock clock of the vendored package \<open>clock\<close> (\<open>clock/clock.go\<close>), which moves only when \<open>Add\<close> or
  \<open>Set\<close> is called and then runs the timers that come due. The real clock of the package hands every call
  to the package \<open>time\<close>. A timer is a pointer: \<open>timer_id\<close>. Its channel outlives its place in the list of
  timers, so the channels are kept apart, by pointer. \<open>run\<close> is the functions given to \<open>AfterFunc\<close>, which
  may use the clock and change the caller's \<open>world\<close>. \<open>srt\<close> is \<open>sort.Sort\<close>, which is not stable: of it only
  \<open>sorts\<close> is relied on. The clock is used by one goroutine at a time, as its comments ask.
\<close>

datatype timer_shape =
    Sends           \<comment> \<open>a \<open>Timer\<close>: the time is sent to its channel\<close>
  | Calls nat       \<comment> \<open>a \<open>Timer\<close> with a function\<close>
  | Ticks duration  \<comment> \<open>a \<open>Ticker\<close>, with the time between two ticks\<close>

record clock_timer =
  timer_id :: nat
  next_tick :: instant
  shape :: timer_shape

record 'w mock =
  mock_now :: instant
  mock_timers :: "clock_timer list"
  mock_chans :: "nat \<Rightarrow> instant chan"
  fresh_id :: nat  \<comment> \<open>the next pointer\<close>
  world :: 'w

type_synonym sort_fn = "clock_timer list \<Rightarrow> clock_timer list"
type_synonym 'w run_fn = "nat \<Rightarrow> 'w mock \<Rightarrow> 'w mock"

definition sorts :: "sort_fn \<Rightarrow> bool" where
  "sorts srt \<longleftrightarrow> (\<forall>xs. mset (srt xs) = mset xs \<and> sorted (map next_tick (srt xs)))"

definition NewMock :: "'w \<Rightarrow> 'w mock" where
  "NewMock w = \<lparr>mock_now = 0, mock_timers = [], mock_chans = (\<lambda>_. make_chan 0), fresh_id = 0, world = w\<rparr>"


section \<open>Timers and tickers\<close>

definition new_timer :: "timer_shape \<Rightarrow> duration \<Rightarrow> 'w mock \<Rightarrow> nat \<times> 'w mock" where
  "new_timer sh d m =
     (let i = fresh_id m
      in (i, m\<lparr>mock_timers := mock_timers m @ [\<lparr>timer_id = i, next_tick = mock_now m + d, shape = sh\<rparr>],
               mock_chans := (mock_chans m)(i := make_chan 1), fresh_id := Suc i\<rparr>))"

definition mock_Timer :: "duration \<Rightarrow> 'w mock \<Rightarrow> nat \<times> 'w mock" where
  "mock_Timer d m = new_timer Sends d m"

definition mock_Ticker :: "duration \<Rightarrow> 'w mock \<Rightarrow> nat \<times> 'w mock" where
  "mock_Ticker d m = new_timer (Ticks d) d m"

definition mock_After :: "duration \<Rightarrow> 'w mock \<Rightarrow> nat \<times> 'w mock" where
  "mock_After d m = mock_Timer d m"

definition mock_Tick :: "duration \<Rightarrow> 'w mock \<Rightarrow> nat \<times> 'w mock" where
  "mock_Tick d m = mock_Ticker d m"

definition mock_AfterFunc :: "duration \<Rightarrow> nat \<Rightarrow> 'w mock \<Rightarrow> nat \<times> 'w mock" where
  "mock_AfterFunc d f m =
     (let (i, m) = mock_Timer d m
      in (i, m\<lparr>mock_timers := map (\<lambda>t. if timer_id t = i then t\<lparr>shape := Calls f\<rparr> else t) (mock_timers m)\<rparr>))"

definition mock_Now :: "'w mock \<Rightarrow> instant" where
  "mock_Now m = mock_now m"

text \<open>The receive of a client from a timer's channel: it blocks (\<open>None\<close>) until the timer has sent.\<close>

definition mock_receive :: "nat \<Rightarrow> 'w mock \<Rightarrow> (instant \<times> 'w mock) option" where
  "mock_receive i m =
     map_option (\<lambda>(x, c). (x, m\<lparr>mock_chans := (mock_chans m)(i := c)\<rparr>)) (chan_recv (mock_chans m i))"

fun remove_first :: "nat \<Rightarrow> clock_timer list \<Rightarrow> clock_timer list" where
  "remove_first i [] = []"
| "remove_first i (t # ts) = (if timer_id t = i then ts else t # remove_first i ts)"

definition removeClockTimer :: "sort_fn \<Rightarrow> nat \<Rightarrow> 'w mock \<Rightarrow> 'w mock" where
  "removeClockTimer srt i m = m\<lparr>mock_timers := srt (remove_first i (mock_timers m))\<rparr>"

definition timer_Stop :: "sort_fn \<Rightarrow> nat \<Rightarrow> 'w mock \<Rightarrow> 'w mock" where
  "timer_Stop srt i m = removeClockTimer srt i m"

definition ticker_Stop :: "sort_fn \<Rightarrow> nat \<Rightarrow> 'w mock \<Rightarrow> 'w mock" where
  "ticker_Stop srt i m = removeClockTimer srt i m"


section \<open>Moving the clock\<close>

definition timer_Tick ::
    "'w run_fn \<Rightarrow> sort_fn \<Rightarrow> clock_timer \<Rightarrow> instant \<Rightarrow> 'w mock \<Rightarrow> 'w mock option" where
  "timer_Tick run srt t now m =
     map_option (removeClockTimer srt (timer_id t))
       (case shape t of
          Calls f \<Rightarrow> Some (run f m)
        | _ \<Rightarrow> map_option (\<lambda>c. m\<lparr>mock_chans := (mock_chans m)(timer_id t := c)\<rparr>)
                (chan_send now (mock_chans m (timer_id t))))"

definition ticker_Tick :: "duration \<Rightarrow> clock_timer \<Rightarrow> instant \<Rightarrow> 'w mock \<Rightarrow> 'w mock" where
  "ticker_Tick d t now m =
     (let i = timer_id t;
          m = (case chan_send now (mock_chans m i) of
                 None \<Rightarrow> m
               | Some c \<Rightarrow> m\<lparr>mock_chans := (mock_chans m)(i := c)\<rparr>)
      in m\<lparr>mock_timers := map (\<lambda>u. if timer_id u = i then u\<lparr>next_tick := now + d\<rparr> else u) (mock_timers m)\<rparr>)"

text \<open>\<open>None\<close>: the timer's send blocks.\<close>

definition runNextTimer ::
    "'w run_fn \<Rightarrow> sort_fn \<Rightarrow> instant \<Rightarrow> 'w mock \<Rightarrow> (bool \<times> 'w mock) option" where
  "runNextTimer run srt max_time m =
     (let m = m\<lparr>mock_timers := srt (mock_timers m)\<rparr>
      in case mock_timers m of
           [] \<Rightarrow> Some (False, m)
         | t # _ \<Rightarrow>
             if max_time < next_tick t then Some (False, m)
             else (let m = m\<lparr>mock_now := next_tick t\<rparr>
                   in map_option (Pair True)
                        (case shape t of
                           Ticks d \<Rightarrow> Some (ticker_Tick d t (mock_now m) m)
                         | _ \<Rightarrow> timer_Tick run srt t (mock_now m) m)))"

text \<open>The loop of \<open>Add\<close> and \<open>Set\<close>. \<open>None\<close>: it does not end.\<close>

partial_function (option) run_timers ::
    "'w run_fn \<Rightarrow> sort_fn \<Rightarrow> instant \<Rightarrow> 'w mock \<Rightarrow> 'w mock option" where
  "run_timers run srt max_time m =
     Option.bind (runNextTimer run srt max_time m)
       (\<lambda>(ran, m). if ran then run_timers run srt max_time m else Some m)"

definition mock_Set :: "'w run_fn \<Rightarrow> sort_fn \<Rightarrow> instant \<Rightarrow> 'w mock \<Rightarrow> 'w mock option" where
  "mock_Set run srt t m = map_option (\<lambda>m. m\<lparr>mock_now := t\<rparr>) (run_timers run srt t m)"

definition mock_Add :: "'w run_fn \<Rightarrow> sort_fn \<Rightarrow> duration \<Rightarrow> 'w mock \<Rightarrow> 'w mock option" where
  "mock_Add run srt d m =
     (let t = mock_now m + d in map_option (\<lambda>m. m\<lparr>mock_now := t\<rparr>) (run_timers run srt t m))"

section \<open>What a move of the clock does\<close>

text \<open>
  A timer that is due by \<open>max_time\<close> is gone after the move; a ticker that is due goes to the first multiple
  of its interval past \<open>max_time\<close>. A channel with no time in it gets the first due time; the functions of
  the due timers run on the \<open>world\<close> as \<open>h\<close> does.
\<close>

definition forward :: "instant \<Rightarrow> clock_timer \<Rightarrow> clock_timer multiset" where
  "forward max_time t =
     (if max_time < next_tick t then {#t#}
      else case shape t of
             Ticks d \<Rightarrow> {#t\<lparr>next_tick := next_tick t + d * ((max_time - next_tick t) div d + 1)\<rparr>#}
           | _ \<Rightarrow> {#})"

definition delivered :: "instant \<Rightarrow> clock_timer \<Rightarrow> instant list \<Rightarrow> instant list" where
  "delivered max_time t buf =
     (if next_tick t \<le> max_time \<and> buf = [] \<and> (\<forall>f. shape t \<noteq> Calls f) then [next_tick t] else buf)"

definition due_calls :: "instant \<Rightarrow> clock_timer \<Rightarrow> (nat \<times> instant) multiset" where
  "due_calls max_time t =
     (case shape t of Calls f \<Rightarrow> if next_tick t \<le> max_time then {#(f, next_tick t)#} else {#} | _ \<Rightarrow> {#})"

definition mock_ok :: "'w mock \<Rightarrow> bool" where
  "mock_ok m \<longleftrightarrow> distinct (map timer_id (mock_timers m)) \<and>
     (\<forall>t\<in>set (mock_timers m). timer_id t < fresh_id m \<and> chan_cap (mock_chans m (timer_id t)) = 1 \<and>
        (shape t = Sends \<longrightarrow> chan_buf (mock_chans m (timer_id t)) = []))"

definition ticking :: "'w mock \<Rightarrow> bool" where
  "ticking m \<longleftrightarrow> (\<forall>t\<in>set (mock_timers m). case shape t of Ticks d \<Rightarrow> 0 < d | _ \<Rightarrow> True)"

definition world_only :: "'w run_fn \<Rightarrow> (nat \<Rightarrow> instant \<Rightarrow> 'w \<Rightarrow> 'w) \<Rightarrow> bool" where
  "world_only run h \<longleftrightarrow> (\<forall>f m. run f m = m\<lparr>world := h f (mock_now m) (world m)\<rparr>)"

lemma sortsD:
  assumes "sorts srt"
  shows "mset (srt xs) = mset xs" and "set (srt xs) = set xs" and "sorted (map next_tick (srt xs))"
  using assms mset_eq_setD unfolding sorts_def by blast+

lemma sorts_sort_key: "sorts (sort_key next_tick)"
  by (simp add: sorts_def)

lemma mset_remove_first:
  "distinct (map timer_id ts) \<Longrightarrow> t \<in> set ts \<Longrightarrow> mset (remove_first (timer_id t) ts) = mset ts - {#t#}"
  by (induction ts) (auto simp: image_iff add_mset_remove_trivial_If)

lemma mset_map_at:
  assumes "distinct (map timer_id ts)" and "t \<in> set ts"
  shows "mset (map (\<lambda>u. if timer_id u = timer_id t then g u else u) ts) = add_mset (g t) (mset ts - {#t#})"
  using assms
proof (induction ts)
  case (Cons u ts)
  show ?case
  proof (cases "u = t")
    case True
    then have "map (\<lambda>u. if timer_id u = timer_id t then g u else u) ts = ts"
      using Cons.prems by (intro map_idI) (auto simp: image_iff)
    then show ?thesis using True by simp
  next
    case False
    then have "t \<in> set ts" and "timer_id u \<noteq> timer_id t" using Cons.prems by auto
    then show ?thesis using Cons False by simp
  qed
qed simp

text \<open>One turn of the loop: nothing is due, or the earliest timer runs.\<close>

definition renewed :: "clock_timer \<Rightarrow> clock_timer multiset" where
  "renewed t = (case shape t of Ticks d \<Rightarrow> {#t\<lparr>next_tick := next_tick t + d\<rparr>#} | _ \<Rightarrow> {#})"

definition turn :: "(nat \<Rightarrow> instant \<Rightarrow> 'w \<Rightarrow> 'w) \<Rightarrow> clock_timer \<Rightarrow> 'w mock \<Rightarrow> 'w mock \<Rightarrow> bool" where
  "turn h t m m1 \<longleftrightarrow>
     mset (mock_timers m1) = mset (mock_timers m) - {#t#} + renewed t \<and>
     chan_buf (mock_chans m1 (timer_id t)) = delivered (next_tick t) t (chan_buf (mock_chans m (timer_id t))) \<and>
     chan_cap (mock_chans m1 (timer_id t)) = chan_cap (mock_chans m (timer_id t)) \<and>
     (\<forall>i. i \<noteq> timer_id t \<longrightarrow> mock_chans m1 i = mock_chans m i) \<and>
     fresh_id m1 = fresh_id m \<and>
     world m1 = (case shape t of Calls f \<Rightarrow> h f (next_tick t) (world m) | _ \<Rightarrow> world m)"

lemma chan_send_cases:
  "chan_cap c = 1 \<Longrightarrow> chan_send x c = (if chan_buf c = [] then Some (c\<lparr>chan_buf := [x]\<rparr>) else None)"
  by (cases "chan_buf c") (auto simp: chan_send_def)

lemma first_timer_runs:
  assumes srt: "sorts srt" and run: "world_only run h" and ok: "mock_ok m"
    and first: "srt (mock_timers m) = t # ts" and due: "next_tick t \<le> max_time"
  shows "\<exists>m1. runNextTimer run srt max_time m = Some (True, m1) \<and> turn h t m m1"
proof -
  note sorted = sortsD [OF srt, of "mock_timers m"]
  have t: "t \<in> set (mock_timers m)" using sorted(2) first by (metis list.set_intros(1))
  have dist: "distinct (map timer_id (srt (mock_timers m)))"
    using ok mset_eq_imp_distinct_iff [of "map timer_id (srt (mock_timers m))" "map timer_id (mock_timers m)"]
    by (simp add: mock_ok_def sorted(1))
  let ?m = "m\<lparr>mock_timers := srt (mock_timers m), mock_now := next_tick t\<rparr>"
  have cap: "chan_cap (mock_chans m (timer_id t)) = 1" using ok t by (simp add: mock_ok_def)
  have t': "t \<in> set (srt (mock_timers m))" using first by simp
  have gone: "mset (srt (remove_first (timer_id t) (srt (mock_timers m)))) = mset (mock_timers m) - {#t#}"
    using mset_remove_first [OF dist t'] sorted(1) sortsD(1) [OF srt] by metis
  show ?thesis
  proof (cases "shape t")
    case Sends
    then have "chan_buf (mock_chans m (timer_id t)) = []" using ok t by (simp add: mock_ok_def)
    with Sends show ?thesis using first due cap gone
      by (simp add: runNextTimer_def timer_Tick_def chan_send_cases removeClockTimer_def turn_def
        renewed_def delivered_def)
  next
    case (Calls f)
    then show ?thesis using first due gone run
      by (simp add: runNextTimer_def timer_Tick_def removeClockTimer_def turn_def renewed_def
        delivered_def world_only_def)
  next
    case (Ticks d)
    have "runNextTimer run srt max_time m = Some (True, ticker_Tick d t (next_tick t) ?m)"
      using Ticks first due by (simp add: runNextTimer_def Let_def)
    moreover have "mset (map (\<lambda>u. if timer_id u = timer_id t then u\<lparr>next_tick := next_tick t + d\<rparr> else u)
        (srt (mock_timers m))) = add_mset (t\<lparr>next_tick := next_tick t + d\<rparr>) (mset (mock_timers m) - {#t#})"
      using mset_map_at [OF dist t'] sorted(1) by simp
    then have "turn h t m (ticker_Tick d t (next_tick t) ?m)"
      using Ticks cap by (simp add: ticker_Tick_def chan_send_cases turn_def renewed_def
        delivered_def Let_def del: mset_map)
    ultimately show ?thesis by blast
  qed
qed

lemma turn_cases:
  assumes srt: "sorts srt" and run: "world_only run h" and ok: "mock_ok m"
  obtains (idle) "\<forall>t\<in>set (mock_timers m). max_time < next_tick t"
      "runNextTimer run srt max_time m = Some (False, m\<lparr>mock_timers := srt (mock_timers m)\<rparr>)"
    | (ran) t m1 where "t \<in> set (mock_timers m)" "next_tick t \<le> max_time"
      "\<forall>u\<in>set (mock_timers m). next_tick t \<le> next_tick u"
      "runNextTimer run srt max_time m = Some (True, m1)" "turn h t m m1"
proof (cases "srt (mock_timers m)")
  case Nil
  then have "mock_timers m = []" using sortsD(2) [OF srt, of "mock_timers m"] by simp
  with Nil show ?thesis by (intro idle) (simp_all add: runNextTimer_def)
next
  case (Cons t ts)
  note sorted = sortsD [OF srt, of "mock_timers m"]
  have t: "t \<in> set (mock_timers m)" using sorted(2) Cons by (metis list.set_intros(1))
  have least: "\<forall>u\<in>set (mock_timers m). next_tick t \<le> next_tick u"
    using sorted(2,3) Cons by auto
  show ?thesis
  proof (cases "max_time < next_tick t")
    case True
    with Cons least show ?thesis by (intro idle) (auto simp: runNextTimer_def Let_def)
  next
    case False
    then show ?thesis using first_timer_runs [OF assms Cons, of max_time] t least ran by force
  qed
qed

lemma others_left:
  assumes "distinct (map timer_id ts)" and "t \<in> set ts" and "u \<in># mset ts - {#t#}"
  shows "u \<in> set ts \<and> timer_id u \<noteq> timer_id t"
proof -
  have "u \<in> set (remove1 t ts)" using assms(3) by (metis mset_remove1 set_mset_mset)
  then have "u \<in> set ts" and "u \<noteq> t" using assms(1) by (auto simp: distinct_map set_remove1_eq)
  then show ?thesis using assms(1,2) by (auto simp: distinct_map inj_on_def)
qed

lemma turn_timers:
  assumes "turn h t m m1" and "t \<in> set (mock_timers m)" and "mock_ok m" and "u \<in> set (mock_timers m1)"
  shows "(u \<in> set (mock_timers m) \<and> timer_id u \<noteq> timer_id t \<and>
           mock_chans m1 (timer_id u) = mock_chans m (timer_id u)) \<or>
         (\<exists>d. shape t = Ticks d \<and> u = t\<lparr>next_tick := next_tick t + d\<rparr>)"
proof -
  have "u \<in># mset (mock_timers m) - {#t#} + renewed t"
    using assms(1,4) by (simp add: turn_def flip: set_mset_mset)
  then consider "u \<in># mset (mock_timers m) - {#t#}" | "u \<in># renewed t" by auto
  then show ?thesis
  proof cases
    case 1
    then show ?thesis using others_left [of "mock_timers m" t u] assms(1-3)
      by (auto simp: mock_ok_def turn_def)
  next
    case 2
    then show ?thesis by (auto simp: renewed_def split: timer_shape.splits)
  qed
qed

lemma turn_keeps:
  assumes "turn h t m m1" and "u \<in> set (mock_timers m)" and "u \<noteq> t"
  shows "u \<in> set (mock_timers m1)"
proof -
  have "u \<in># mset (mock_timers m) - {#t#}"
    using assms(2,3) in_set_remove1 [of u t "mock_timers m"] by (metis mset_remove1 set_mset_mset)
  then show ?thesis using assms(1) unfolding turn_def by (metis set_mset_mset union_iff)
qed

lemma turn_ok:
  assumes "turn h t m m1" and "t \<in> set (mock_timers m)" and "mock_ok m"
  shows "mock_ok m1"
proof -
  let ?ids = "\<lambda>m. map timer_id (mock_timers m)"
  have ms: "mset (?ids m1) = mset (?ids m) - {#timer_id t#} + image_mset timer_id (renewed t)"
    using assms(1,2) by (simp add: turn_def image_mset_Diff)
  have dist: "distinct (?ids m)" using assms(3) by (simp add: mock_ok_def)
  have "mset (?ids m1) = mset (?ids m) \<or> mset (?ids m1) = mset (remove1 (timer_id t) (?ids m))"
    using ms assms(2) by (cases "shape t") (auto simp: renewed_def)
  then have "distinct (?ids m1)"
    using dist mset_eq_imp_distinct_iff [of "?ids m1"] distinct_remove1 [OF dist] by metis
  moreover have "timer_id u < fresh_id m1 \<and> chan_cap (mock_chans m1 (timer_id u)) = 1 \<and>
      (shape u = Sends \<longrightarrow> chan_buf (mock_chans m1 (timer_id u)) = [])" if "u \<in> set (mock_timers m1)" for u
    using turn_timers [OF assms that] assms by (auto simp: mock_ok_def turn_def)
  ultimately show ?thesis by (simp add: mock_ok_def)
qed

text \<open>Rounds still to run before \<open>max_time\<close>: the measure of the loop.\<close>

definition rounds :: "instant \<Rightarrow> clock_timer \<Rightarrow> nat" where
  "rounds max_time t =
     (if max_time < next_tick t then 0
      else case shape t of Ticks d \<Rightarrow> nat ((max_time - next_tick t) div d) + 1 | _ \<Rightarrow> 1)"

definition over :: "(clock_timer \<Rightarrow> 'a multiset) \<Rightarrow> 'w mock \<Rightarrow> 'a multiset" where
  "over f m = \<Sum>\<^sub># (image_mset f (mset (mock_timers m)))"

definition work :: "instant \<Rightarrow> 'w mock \<Rightarrow> nat" where
  "work max_time m = \<Sum>\<^sub># (image_mset (rounds max_time) (mset (mock_timers m)))"

lemma div_step: "0 < d \<Longrightarrow> (a - d) div d = a div d - (1::int)"
  by (metis add.commute diff_add_cancel div_add_self2 add_diff_cancel_right' less_numeral_extra(3))

lemma renewed_forward:
  assumes "next_tick t \<le> max_time" and "\<forall>d. shape t = Ticks d \<longrightarrow> 0 < d"
  shows "\<Sum>\<^sub># (image_mset (forward max_time) (renewed t)) = forward max_time t"
    and "\<Sum>\<^sub># (image_mset (rounds max_time) (renewed t)) < rounds max_time t"
proof -
  have *: "(max_time - (next_tick t + d)) div d = (max_time - next_tick t) div d - 1"
    "0 \<le> (max_time - next_tick t) div d"
    "max_time < next_tick t + d \<Longrightarrow> (max_time - next_tick t) div d = 0"
    "next_tick t + d \<le> max_time \<Longrightarrow> 1 \<le> (max_time - next_tick t) div d" if "shape t = Ticks d" for d
    using assms that div_step [of d "max_time - next_tick t"]
      pos_imp_zdiv_nonneg_iff [of d "max_time - next_tick t"]
      pos_imp_zdiv_nonneg_iff [of d "max_time - next_tick t - d"]
    by (auto simp: algebra_simps)
  show "\<Sum>\<^sub># (image_mset (forward max_time) (renewed t)) = forward max_time t"
    using assms(1) *  by (auto simp: renewed_def forward_def algebra_simps split: timer_shape.split)
  show "\<Sum>\<^sub># (image_mset (rounds max_time) (renewed t)) < rounds max_time t"
    using assms(1) * by (auto simp: renewed_def rounds_def algebra_simps split: timer_shape.split)
qed

lemma turn_ticking: "turn h t m m1 \<Longrightarrow> t \<in> set (mock_timers m) \<Longrightarrow> mock_ok m \<Longrightarrow> ticking m \<Longrightarrow> ticking m1"
  using turn_timers [of h t m m1] by (fastforce simp: ticking_def)

lemma sum_turn:
  fixes f :: "clock_timer \<Rightarrow> 'b::cancel_comm_monoid_add"
  assumes "turn h t m m1" and "t \<in> set (mock_timers m)"
  shows "\<Sum>\<^sub># (image_mset f (mset (mock_timers m))) + \<Sum>\<^sub># (image_mset f (renewed t)) =
     \<Sum>\<^sub># (image_mset f (mset (mock_timers m1))) + f t"
proof -
  have "mset (mock_timers m) = add_mset t (mset (mock_timers m) - {#t#})" using assms(2) by simp
  then have "\<Sum>\<^sub># (image_mset f (mset (mock_timers m))) =
      f t + \<Sum>\<^sub># (image_mset f (mset (mock_timers m) - {#t#}))"
    by (metis image_mset_add_mset sum_mset.add_mset)
  then show ?thesis using assms(1) by (simp add: turn_def ac_simps)
qed

lemma turn_forward:
  assumes "turn h t m m1" and "t \<in> set (mock_timers m)" and "next_tick t \<le> max_time" and "ticking m"
  shows "over (forward max_time) m1 = over (forward max_time) m" and "work max_time m1 < work max_time m"
proof -
  have pos: "\<forall>d. shape t = Ticks d \<longrightarrow> 0 < d" using assms(2,4) by (auto simp: ticking_def)
  show "over (forward max_time) m1 = over (forward max_time) m"
    using sum_turn [OF assms(1,2), of "forward max_time"] renewed_forward(1) [OF assms(3) pos]
    by (simp add: over_def)
  show "work max_time m1 < work max_time m"
    using sum_turn [OF assms(1,2), of "rounds max_time"] renewed_forward(2) [OF assms(3) pos]
    by (simp add: work_def)
qed

lemma turn_calls:
  assumes "turn h t m m1" and "t \<in> set (mock_timers m)"
  shows "over (due_calls max_time) m = over (due_calls max_time) m1 + due_calls max_time t"
proof -
  have "\<Sum>\<^sub># (image_mset (due_calls max_time) (renewed t)) = {#}"
    by (auto simp: renewed_def due_calls_def split: timer_shape.split)
  then show ?thesis
    unfolding over_def using sum_turn [OF assms, of "due_calls max_time"] by (metis add.right_neutral)
qed

lemma calls_late:
  assumes "(f, x) \<in># over (due_calls max_time) m"
  shows "\<exists>u\<in>set (mock_timers m). x = next_tick u"
proof -
  obtain u where "u \<in> set (mock_timers m)" and "(f, x) \<in># due_calls max_time u"
    using assms by (auto simp: over_def)
  then show ?thesis by (cases "shape u") (auto simp: due_calls_def split: if_splits)
qed

definition ran_calls ::
    "(nat \<Rightarrow> instant \<Rightarrow> 'w \<Rightarrow> 'w) \<Rightarrow> instant \<Rightarrow> 'w mock \<Rightarrow> 'w mock \<Rightarrow> bool" where
  "ran_calls h max_time m m' \<longleftrightarrow> (\<exists>ks. mset ks = over (due_calls max_time) m \<and> sorted (map snd ks) \<and>
     world m' = fold (\<lambda>(f, t). h f t) ks (world m))"

definition moved :: "(nat \<Rightarrow> instant \<Rightarrow> 'w \<Rightarrow> 'w) \<Rightarrow> instant \<Rightarrow> 'w mock \<Rightarrow> 'w mock \<Rightarrow> bool" where
  "moved h max_time m m' \<longleftrightarrow>
     mset (mock_timers m') = over (forward max_time) m \<and>
     (\<forall>t\<in>set (mock_timers m). chan_buf (mock_chans m' (timer_id t)) =
        delivered max_time t (chan_buf (mock_chans m (timer_id t)))) \<and>
     (\<forall>i. i \<notin> timer_id ` set (mock_timers m) \<longrightarrow> mock_chans m' i = mock_chans m i) \<and>
     ran_calls h max_time m m'"

lemma ran_calls_turn:
  assumes "turn h t m m1" and "t \<in> set (mock_timers m)" and "mock_ok m" and "ticking m"
    and least: "\<forall>u\<in>set (mock_timers m). next_tick t \<le> next_tick u" and "next_tick t \<le> max_time"
    and "ran_calls h max_time m1 m'"
  shows "ran_calls h max_time m m'"
proof -
  obtain ks where ks: "mset ks = over (due_calls max_time) m1" "sorted (map snd ks)"
      "world m' = fold (\<lambda>(f, t). h f t) ks (world m1)"
    using assms(7) unfolding ran_calls_def by blast
  have late: "next_tick t \<le> x" if "(f, x) \<in> set ks" for f x
  proof -
    have "\<exists>u\<in>set (mock_timers m1). x = next_tick u"
      using that calls_late [of f x max_time m1] by (simp flip: ks(1))
    then obtain u where u: "u \<in> set (mock_timers m1)" "x = next_tick u" by blast
    then show ?thesis using turn_timers [OF assms(1-3) u(1)] least assms(2,4)
      by (auto simp: ticking_def)
  qed
  let ?ks = "(case shape t of Calls f \<Rightarrow> (f, next_tick t) # ks | _ \<Rightarrow> ks)"
  have "mset ?ks = over (due_calls max_time) m"
    using turn_calls [OF assms(1,2), of max_time] ks(1) assms(6) by (auto simp: due_calls_def split: timer_shape.split)
  moreover have "sorted (map snd ?ks)" using ks(2) late by (auto split: timer_shape.split)
  moreover have "world m' = fold (\<lambda>(f, t). h f t) ?ks (world m)"
    using ks(3) assms(1) by (auto simp: turn_def split: timer_shape.split)
  ultimately show ?thesis unfolding ran_calls_def by blast
qed

lemma delivered_turn:
  assumes "turn h t m m1" and "t \<in> set (mock_timers m)" and "mock_ok m" and "next_tick t \<le> max_time"
    and moved: "moved h max_time m1 m'"
  shows "\<forall>u\<in>set (mock_timers m). chan_buf (mock_chans m' (timer_id u)) =
        delivered max_time u (chan_buf (mock_chans m (timer_id u)))"
    and "\<forall>i. i \<notin> timer_id ` set (mock_timers m) \<longrightarrow> mock_chans m' i = mock_chans m i"
proof -
  note keep = turn_keeps [OF assms(1)]
  have here: "chan_buf (mock_chans m' (timer_id t)) = delivered max_time t (chan_buf (mock_chans m (timer_id t)))"
  proof (cases "timer_id t \<in> timer_id ` set (mock_timers m1)")
    case True
    then obtain u where u: "u \<in> set (mock_timers m1)" "timer_id u = timer_id t" by auto
    then obtain d where "shape t = Ticks d" "u = t\<lparr>next_tick := next_tick t + d\<rparr>"
      using turn_timers [OF assms(1-3) u(1)] by auto
    then show ?thesis using moved u assms(1,4) by (fastforce simp: moved_def turn_def delivered_def)
  next
    case False
    then show ?thesis using moved assms(1,4) by (auto simp: moved_def turn_def delivered_def)
  qed
  show "\<forall>u\<in>set (mock_timers m). chan_buf (mock_chans m' (timer_id u)) =
        delivered max_time u (chan_buf (mock_chans m (timer_id u)))"
  proof
    fix u assume u: "u \<in> set (mock_timers m)"
    show "chan_buf (mock_chans m' (timer_id u)) = delivered max_time u (chan_buf (mock_chans m (timer_id u)))"
    proof (cases "u = t")
      case False
      then have "timer_id u \<noteq> timer_id t" using u assms(2,3) by (auto simp: mock_ok_def distinct_map inj_on_def)
      then show ?thesis using keep [OF u False] moved assms(1) by (auto simp: moved_def turn_def)
    qed (simp add: here)
  qed
  show "\<forall>i. i \<notin> timer_id ` set (mock_timers m) \<longrightarrow> mock_chans m' i = mock_chans m i"
  proof (intro allI impI)
    fix i assume i: "i \<notin> timer_id ` set (mock_timers m)"
    have "i \<notin> timer_id ` set (mock_timers m1)"
      using i assms(2) turn_timers [OF assms(1-3)] by fastforce
    then show "mock_chans m' i = mock_chans m i" using i assms(1,2) moved by (auto simp: moved_def turn_def)
  qed
qed

lemma run_timers_moves:
  assumes "sorts srt" and "world_only run h" and "mock_ok m" and "ticking m"
  shows "\<exists>m'. run_timers run srt max_time m = Some m' \<and> moved h max_time m m'"
  using assms(3,4)
proof (induction "work max_time m" arbitrary: m rule: less_induct)
  case less
  show ?case
  proof (rule turn_cases [OF assms(1,2) less.prems(1), where max_time = max_time], goal_cases idle ran)
    case idle
    have "image_mset (forward max_time) (mset (mock_timers m)) = image_mset (\<lambda>t. {#t#}) (mset (mock_timers m))"
      using idle(1) by (intro image_mset_cong) (simp add: forward_def)
    then have "over (forward max_time) m = mset (mock_timers m)" unfolding over_def by simp
    moreover have "over (due_calls max_time) m = {#}"
      using idle(1) by (auto simp: over_def due_calls_def split: timer_shape.split)
    ultimately have "moved h max_time m (m\<lparr>mock_timers := srt (mock_timers m)\<rparr>)"
      using idle(1) sortsD(1) [OF assms(1)] by (auto simp: moved_def ran_calls_def delivered_def)
    then show ?thesis using idle(2) by (simp add: run_timers.simps)
  next
    case ran: (ran t m1)
    have "mock_ok m1" "ticking m1"
      using turn_ok turn_ticking ran(1,5) less.prems by blast+
    then obtain m' where m': "run_timers run srt max_time m1 = Some m'" "moved h max_time m1 m'"
      using less.hyps turn_forward(2) [OF ran(5,1,2) less.prems(2)] by blast
    have "moved h max_time m m'"
      using delivered_turn [OF ran(5,1) less.prems(1) ran(2) m'(2)] turn_forward(1) [OF ran(5,1,2) less.prems(2)]
        ran_calls_turn [OF ran(5,1) less.prems ran(3,2)] m'(2) by (simp add: moved_def)
    then show ?thesis using m'(1) ran(4) by (subst run_timers.simps) simp
  qed
qed

section \<open>The clock of a client\<close>

lemma mock_ok_same:
  assumes "mock_ok m" and "mset (mock_timers m') = mset (mock_timers m)"
    and "mock_chans m' = mock_chans m" and "fresh_id m' = fresh_id m"
  shows "mock_ok m'"
  using assms mset_eq_imp_distinct_iff [of "map timer_id (mock_timers m')" "map timer_id (mock_timers m)"]
    mset_eq_setD [OF assms(2)] by (simp add: mock_ok_def)

text \<open>What every turn of the loop keeps holds when the loop has ended, and then nothing is due.\<close>

lemma run_timers_ended:
  assumes ended: "run_timers run srt max_time m = Some m'"
    and srt: "sorts srt" and run: "world_only run h" and "mock_ok m" and "I (mset (mock_timers m))"
    and step: "\<And>t m m1. mock_ok m \<Longrightarrow> I (mset (mock_timers m)) \<Longrightarrow> t \<in> set (mock_timers m) \<Longrightarrow>
      next_tick t \<le> max_time \<Longrightarrow> turn h t m m1 \<Longrightarrow> I (mset (mock_timers m1))"
  shows "mock_ok m' \<and> I (mset (mock_timers m')) \<and> (\<forall>t\<in>set (mock_timers m'). max_time < next_tick t)"
proof -
  let ?P = "\<lambda>r s x m m'. r = run \<longrightarrow> s = srt \<longrightarrow> x = max_time \<longrightarrow> mock_ok m \<longrightarrow> I (mset (mock_timers m)) \<longrightarrow>
    mock_ok m' \<and> I (mset (mock_timers m')) \<and> (\<forall>t\<in>set (mock_timers m'). max_time < next_tick t)"
  have "?P run srt max_time m m'"
  proof (rule run_timers.raw_induct [where P = ?P, OF _ ended], intro impI)
    fix f r s x and m :: "'a mock" and m' :: "'a mock"
    assume IH: "\<And>r s x m m'. f r s x m = Some m' \<Longrightarrow> ?P r s x m m'"
      and eq: "Option.bind (runNextTimer r s x m) (\<lambda>(ran, m). if ran then f r s x m else Some m) = Some m'"
      and [simp]: "r = run" "s = srt" "x = max_time" and m: "mock_ok m" "I (mset (mock_timers m))"
    show "mock_ok m' \<and> I (mset (mock_timers m')) \<and> (\<forall>t\<in>set (mock_timers m'). max_time < next_tick t)"
    proof (rule turn_cases [OF srt run m(1), where max_time = max_time], goal_cases idle ran)
      case idle
      then have "m' = m\<lparr>mock_timers := srt (mock_timers m)\<rparr>" using eq by simp
      then show ?case using idle(1) m sortsD [OF srt, of "mock_timers m"] by (auto intro: mock_ok_same)
    next
      case ran: (ran t m1)
      then have "f run srt max_time m1 = Some m'" using eq by simp
      then show ?case using IH step [OF m ran(1,2,5)] turn_ok [OF ran(5,1) m(1)] by simp
    qed
  qed
  then show ?thesis using assms(4,5) by simp
qed

text \<open>The clocks a client gets from \<open>NewMock\<close> with the operations of the package, and the functions of its timers.\<close>

inductive mock_reach :: "'w run_fn \<Rightarrow> sort_fn \<Rightarrow> 'w mock \<Rightarrow> bool"
  for run :: "'w run_fn" and srt :: sort_fn where
  r_new: "mock_reach run srt (NewMock w)"
| r_timer: "mock_reach run srt m \<Longrightarrow> mock_reach run srt (snd (mock_Timer d m))"
| r_ticker: "mock_reach run srt m \<Longrightarrow> mock_reach run srt (snd (mock_Ticker d m))"
| r_after_func: "mock_reach run srt m \<Longrightarrow> mock_reach run srt (snd (mock_AfterFunc d f m))"
| r_stop: "mock_reach run srt m \<Longrightarrow> mock_reach run srt (timer_Stop srt i m)"
| r_receive: "mock_reach run srt m \<Longrightarrow> mock_receive i m = Some (x, m') \<Longrightarrow> mock_reach run srt m'"
| r_add: "mock_reach run srt m \<Longrightarrow> mock_Add run srt d m = Some m' \<Longrightarrow> mock_reach run srt m'"
| r_set: "mock_reach run srt m \<Longrightarrow> mock_Set run srt t m = Some m' \<Longrightarrow> mock_reach run srt m'"

lemma mock_ok_now [simp]: "mock_ok (m\<lparr>mock_now := t\<rparr>) = mock_ok m"
  by (simp add: mock_ok_def)

lemma new_timer_ok [inv_intros]: "mock_ok m \<Longrightarrow> mock_ok (snd (new_timer sh d m))"
  by (fastforce simp: mock_ok_def new_timer_def Let_def image_iff)

lemma remove_first_subset: "set (remove_first i ts) \<subseteq> set ts"
  by (induction ts) auto

lemma distinct_remove_first: "distinct (map timer_id ts) \<Longrightarrow> distinct (map timer_id (remove_first i ts))"
proof (induction ts)
  case (Cons t ts)
  then show ?case using remove_first_subset [of i ts] by auto
qed simp

lemma stop_ok [inv_intros]:
  assumes "mock_ok m" and srt: "sorts srt"
  shows "mock_ok (timer_Stop srt i m)"
proof -
  have "mock_ok (m\<lparr>mock_timers := remove_first i (mock_timers m)\<rparr>)"
    using assms(1) distinct_remove_first remove_first_subset unfolding mock_ok_def by fastforce
  then show ?thesis
    by (rule mock_ok_same) (simp_all add: timer_Stop_def removeClockTimer_def sortsD(1) [OF srt])
qed

lemma after_func_ok [inv_intros]:
  assumes "mock_ok m"
  shows "mock_ok (snd (mock_AfterFunc d f m))"
proof -
  let ?m = "snd (mock_Timer d m)"
  have ok: "mock_ok ?m" using assms by (simp add: mock_Timer_def new_timer_ok)
  have ids: "timer_id \<circ> (\<lambda>t. if timer_id t = i then t\<lparr>shape := Calls f\<rparr> else t) = timer_id" for i
    by auto
  show ?thesis using ok unfolding mock_ok_def by (auto simp: mock_AfterFunc_def ids split: prod.split)
qed

lemma receive_ok [inv_intros]:
  assumes "mock_ok m" and "mock_receive i m = Some (x, m')"
  shows "mock_ok m'"
  using assms by (auto simp: mock_ok_def mock_receive_def chan_recv_def split: list.splits)

lemma reach_ok:
  assumes srt: "sorts srt" and run: "world_only run h" and "mock_reach run srt m"
  shows "mock_ok m"
  using assms(3)
proof induction
  case (r_new w)
  then show ?case by (simp add: mock_ok_def NewMock_def)
next
  case (r_add m d m')
  then show ?case
    using run_timers_ended [OF _ srt run, where I = "\<lambda>_. True"]
    by (auto simp: mock_Add_def Let_def intro: mock_ok_same)
next
  case (r_set m t m')
  then show ?case
    using run_timers_ended [OF _ srt run, where I = "\<lambda>_. True"] by (auto simp: mock_Set_def intro: mock_ok_same)
qed (auto simp: mock_Timer_def mock_Ticker_def intro: inv_intros srt)

text \<open>
  C40: \<open>Add\<close> of a mock clock returns, whatever timers and tickers a client made with the package's operations,
  as long as its tickers have positive intervals, whatever order \<open>sort.Sort\<close> gives to timers due at the same
  time, and no send to a channel blocks. The clock then shows the new time; the timers that were due are
  gone, and each ticker that was due is at the first multiple of its interval past the new time; a timer's channel holds the time
  it was due, and a ticker's the first tick nobody received; the functions of \<open>AfterFunc\<close> have run, each once,
  in the order of their times. The functions change the caller's \<open>world\<close> and make no timers.
\<close>

theorem mock_moves:
  assumes "sorts srt" and "world_only run h" and "mock_reach run srt m" and "ticking m"
  shows "\<exists>m'. mock_Add run srt d m = Some m' \<and> mock_now m' = mock_now m + d \<and> moved h (mock_now m + d) m m'"
  using run_timers_moves [OF assms(1,2) reach_ok [OF assms(1-3)] assms(4), of "mock_now m + d"]
  by (force simp: mock_Add_def moved_def ran_calls_def)

theorem mock_moves_witness:
  "\<exists>m'. mock_Add (\<lambda>f m. m\<lparr>world := world m @ [(f, mock_now m)]\<rparr>) (sort_key next_tick) 25
       (snd (mock_AfterFunc 12 7 (snd (mock_Ticker 10 (NewMock []))))) = Some m' \<and>
     mock_now m' = 25 \<and> mset (mock_timers m') = {#\<lparr>timer_id = 0, next_tick = 30, shape = Ticks 10\<rparr>#} \<and>
     chan_buf (mock_chans m' 0) = [10] \<and> world m' = [(7, 12)]"
proof -
  let ?run = "\<lambda>f m. m\<lparr>world := world m @ [(f, mock_now m)]\<rparr>"
  let ?h = "\<lambda>f t w. w @ [(f, t)]"
  let ?m = "snd (mock_AfterFunc 12 7 (snd (mock_Ticker 10 (NewMock ([] :: (nat \<times> instant) list)))))"
  have m: "?m = \<lparr>mock_now = 0, mock_timers = [\<lparr>timer_id = 0, next_tick = 10, shape = Ticks 10\<rparr>,
        \<lparr>timer_id = 1, next_tick = 12, shape = Calls 7\<rparr>],
      mock_chans = (\<lambda>_. make_chan 0)(0 := make_chan 1, 1 := make_chan 1), fresh_id = 2, world = []\<rparr>"
    by (simp add: mock_AfterFunc_def mock_Timer_def mock_Ticker_def new_timer_def NewMock_def Let_def)
  have "mock_reach ?run (sort_key next_tick) ?m" by (intro r_after_func r_ticker r_new)
  from mock_moves [OF sorts_sort_key _ this, of ?h 25]
  obtain m' where m': "mock_Add ?run (sort_key next_tick) 25 ?m = Some m'" "mock_now m' = 25" "moved ?h 25 ?m m'"
    by (auto simp: world_only_def ticking_def m)
  then show ?thesis
    by (intro exI [of _ m']) (auto simp: moved_def over_def forward_def delivered_def ran_calls_def due_calls_def m
      split_def)
qed

text \<open>
  A ticker whose interval is not positive, once it is due, makes \<open>Add\<close> run it for ever (the real
  \<open>time.NewTicker\<close> refuses it with a panic).
\<close>

theorem slow_ticker_hangs:
  assumes srt: "sorts srt" and run: "world_only run h" and "mock_reach run srt m"
    and t: "t \<in> set (mock_timers m)" "shape t = Ticks p" "p \<le> 0" "next_tick t \<le> mock_now m + d"
  shows "mock_Add run srt d m = None"
proof (rule ccontr)
  let ?max = "mock_now m + d"
  let ?I = "\<lambda>ts. \<exists>u\<in>#ts. next_tick u \<le> ?max \<and> (\<exists>p\<le>0. shape u = Ticks p)"
  assume "mock_Add run srt d m \<noteq> None"
  then obtain m' where ended: "run_timers run srt ?max m = Some m'" by (auto simp: mock_Add_def Let_def)
  have "?I (mset (mock_timers m'))"
  proof (rule run_timers_ended [OF ended srt run reach_ok [OF assms(1-3)], THEN conjunct2, THEN conjunct1])
    show "?I (mset (mock_timers m))" using t by auto
    fix v m m1
    assume "?I (mset (mock_timers m))" and v: "turn h v m m1"
    then obtain u p where u: "u \<in> set (mock_timers m)" "next_tick u \<le> ?max" "p \<le> 0" "shape u = Ticks p"
      by auto
    show "?I (mset (mock_timers m1))"
    proof (cases "u = v")
      case True
      then have "u\<lparr>next_tick := next_tick u + p\<rparr> \<in># mset (mock_timers m1)"
        using v u(4) by (simp add: turn_def renewed_def del: set_mset_mset)
      then show ?thesis using u by (intro bexI [of _ "u\<lparr>next_tick := next_tick u + p\<rparr>"]) auto
    next
      case False
      then show ?thesis using turn_keeps [OF v u(1)] u by auto
    qed
  qed
  then show False
    using run_timers_ended [OF ended srt run reach_ok [OF assms(1-3)], where I = "\<lambda>_. True"] by force
qed

end
