(* ===== verification/Amqp_Wire.thy ===== *)
theory Amqp_Wire
  imports Prelude
begin

text \<open>
  The AMQP 0-9-1 data types on the wire, from the vendored client library
  (\<open>read.go\<close>, \<open>write.go\<close>, \<open>types.go\<close> under \<open>Godeps/.../streadway/amqp\<close>): readers over a
  byte stream with Go's end-of-input errors, writers into a buffer, short and long
  strings, field values, tables and arrays, with their round trips.
\<close>

unbundle bit_operations_syntax

section \<open>Big-endian integers\<close>

text \<open>\<open>binary.BigEndian\<close>: \<open>n\<close> bytes, the most significant first.\<close>

fun be :: "nat \<Rightarrow> nat \<Rightarrow> bytes" where
  "be 0 k = []"
| "be (Suc n) k = be n (k div 256) @ [of_nat k]"

definition unbe :: "bytes \<Rightarrow> nat" where
  "unbe bs = foldl (\<lambda>a b. a * 256 + unat b) 0 bs"

lemma length_be [simp]: "length (be n k) = n"
  by (induction n arbitrary: k) simp_all

lemma unbe_snoc [simp]: "unbe (bs @ [b]) = unbe bs * 256 + unat b"
  by (simp add: unbe_def)

lemma unbe_Nil [simp]: "unbe [] = 0"
  by (simp add: unbe_def)

lemma unbe_be: "unbe (be n k) = k mod 256 ^ n"
proof (induction n arbitrary: k)
  case (Suc n)
  have "unat (of_nat k :: byte) = k mod 256"
    by (simp add: unat_of_nat)
  with Suc show ?case by (simp add: mod_mult2_eq)
qed simp

lemma unbe_be_word:
  "LENGTH('a) = 8 * n \<Longrightarrow> unbe (be n (unat (w :: 'a::len word))) = unat w"
proof -
  assume len: "LENGTH('a) = 8 * n"
  have "unat w < 2 ^ LENGTH('a)" by (rule unsigned_less)
  then have "unat w < 256 ^ n" by (simp add: len power_mult)
  then show ?thesis by (simp add: unbe_be)
qed


section \<open>Readers\<close>

text \<open>
  A reader takes the bytes left in the stream and returns a value or an error, with the
  bytes left after it. \<open>io.ReadFull\<close> returns \<open>EOF\<close> when nothing was left and
  \<open>ErrUnexpectedEOF\<close> when too little was. \<open>RPanic\<close> is a panic; \<open>OutOfFuel\<close> belongs to the
  model only and does not occur with the fuel given below.
\<close>

datatype rerr =
  EOF | UnexpectedEOF | ErrSyntax | ErrFrame | ErrBadMethod | RPanic err | OutOfFuel

type_synonym 'a rd = "bytes \<Rightarrow> (rerr + 'a) \<times> bytes"

definition rreturn :: "'a \<Rightarrow> 'a rd" where
  "rreturn x s = (Inr x, s)"

definition rfail :: "rerr \<Rightarrow> 'a rd" where
  "rfail e s = (Inl e, s)"

definition rbind :: "'a rd \<Rightarrow> ('a \<Rightarrow> 'b rd) \<Rightarrow> 'b rd" where
  "rbind p f s = (case p s of (Inl e, s') \<Rightarrow> (Inl e, s') | (Inr x, s') \<Rightarrow> f x s')"

definition ReadFull :: "nat \<Rightarrow> bytes rd" where
  "ReadFull n s =
     (if n \<le> length s then (Inr (take n s), drop n s)
      else (Inl (if s = [] then EOF else UnexpectedEOF), []))"

definition read_word :: "nat \<Rightarrow> 'a::len word rd" where
  "read_word n = rbind (ReadFull n) (\<lambda>bs. rreturn (of_nat (unbe bs)))"

definition read_u8 :: "8 word rd" where "read_u8 = read_word 1"
definition read_u16 :: "16 word rd" where "read_u16 = read_word 2"
definition read_u32 :: "32 word rd" where "read_u32 = read_word 4"
definition read_u64 :: "64 word rd" where "read_u64 = read_word 8"

text \<open>\<open>n\<close> values one after the other.\<close>

fun read_n :: "'a rd \<Rightarrow> nat \<Rightarrow> 'a list rd" where
  "read_n p 0 = rreturn []"
| "read_n p (Suc n) = rbind p (\<lambda>x. rbind (read_n p n) (\<lambda>xs. rreturn (x # xs)))"

definition readShortstr :: "bytes rd" where
  "readShortstr = rbind read_u8 (\<lambda>length. ReadFull (unat length))"

definition readLongstr :: "bytes rd" where
  "readLongstr = rbind read_u32 (\<lambda>length. ReadFull (unat length))"


section \<open>Writers\<close>

text \<open>
  A writer into a buffer yields the bytes written or an error. All writers here write into
  a buffer of their own frame, which is dropped on an error, so the bytes written before
  the error are not part of the model.
\<close>

datatype werr = ErrFieldType | ErrMissingMethod

type_synonym wr = "werr + bytes"

definition wthen :: "wr \<Rightarrow> wr \<Rightarrow> wr" where
  "wthen a b = (case a of Inl e \<Rightarrow> Inl e | Inr x \<Rightarrow> (case b of Inl e \<Rightarrow> Inl e | Inr y \<Rightarrow> Inr (x @ y)))"

fun wseq :: "wr list \<Rightarrow> wr" where
  "wseq [] = Inr []"
| "wseq (w # ws) = wthen w (wseq ws)"

definition write_word :: "nat \<Rightarrow> 'a::len word \<Rightarrow> wr" where
  "write_word n w = Inr (be n (unat w))"

definition write_u8 :: "8 word \<Rightarrow> wr" where "write_u8 = write_word 1"
definition write_u16 :: "16 word \<Rightarrow> wr" where "write_u16 = write_word 2"
definition write_u32 :: "32 word \<Rightarrow> wr" where "write_u32 = write_word 4"
definition write_u64 :: "64 word \<Rightarrow> wr" where "write_u64 = write_word 8"

text \<open>The length is converted to its width, and that many bytes follow: a longer string is
  cut off silently.\<close>

definition writeShortstr :: "bytes \<Rightarrow> wr" where
  "writeShortstr b =
     (let length = (of_nat (length b) :: 8 word)
      in wthen (write_u8 length) (Inr (take (unat length) b)))"

definition writeLongstr :: "bytes \<Rightarrow> wr" where
  "writeLongstr b =
     (let length = (of_nat (length b) :: 32 word)
      in wthen (write_u32 length) (Inr (take (unat length) b)))"


section \<open>The contract of a codec\<close>

text \<open>
  \<open>roundtrips w p x\<close>: the writer succeeds, and the reader gives \<open>x\<close> from its output and
  leaves alone whatever follows.
\<close>

definition roundtrips :: "wr \<Rightarrow> 'a rd \<Rightarrow> 'a \<Rightarrow> bool" where
  "roundtrips w p x \<longleftrightarrow> (\<exists>bs. w = Inr bs \<and> (\<forall>rest. p (bs @ rest) = (Inr x, rest)))"

lemma roundtripsI: "w = Inr bs \<Longrightarrow> (\<And>rest. p (bs @ rest) = (Inr x, rest)) \<Longrightarrow> roundtrips w p x"
  by (simp add: roundtrips_def)

lemma roundtripsE:
  assumes "roundtrips w p x"
  obtains bs where "w = Inr bs" and "\<And>rest. p (bs @ rest) = (Inr x, rest)"
  using assms by (auto simp: roundtrips_def)

text \<open>\<open>view\<close> is what the receiver sees of a value: the value itself, or less.\<close>

locale codec =
  fixes enc :: "'a \<Rightarrow> wr"
    and dec :: "'a rd"
    and ok :: "'a \<Rightarrow> bool"
    and view :: "'a \<Rightarrow> 'a"
  assumes law: "ok x \<Longrightarrow> roundtrips (enc x) dec (view x)"
begin

lemma total: "ok x \<Longrightarrow> \<exists>bs. enc x = Inr bs"
  using law by (blast elim: roundtripsE)

lemma decode_encode: "ok x \<Longrightarrow> enc x = Inr bs \<Longrightarrow> dec (bs @ rest) = (Inr (view x), rest)"
  using law [of x] by (auto simp: roundtrips_def)

lemma encode_inject: "ok x \<Longrightarrow> ok y \<Longrightarrow> enc x = enc y \<Longrightarrow> view x = view y"
  using law [of x] law [of y] by (fastforce simp: roundtrips_def)

lemma prefix_free:
  assumes "ok x" "ok y" "enc x = Inr bs" "enc y = Inr (bs @ cs)"
  shows "view x = view y \<and> cs = []"
  using decode_encode [OF assms(1,3), of cs] decode_encode [OF assms(2,4), of "[]"] by simp

text \<open>A stream of encoded values is decoded to the same values.\<close>

lemma decode_stream:
  "\<forall>x\<in>set xs. ok x \<Longrightarrow>
   \<exists>bs. wseq (map enc xs) = Inr bs \<and> (\<forall>rest. read_n dec (length xs) (bs @ rest) = (Inr (map view xs), rest))"
proof (induction xs)
  case (Cons x xs)
  then obtain bs where bs: "wseq (map enc xs) = Inr bs"
    "\<And>rest. read_n dec (length xs) (bs @ rest) = (Inr (map view xs), rest)" by auto
  from Cons.prems obtain cs where cs: "enc x = Inr cs" using total by auto
  then have "dec (cs @ rest) = (Inr (view x), rest)" for rest
    using Cons.prems decode_encode by simp
  with bs cs show ?case by (simp add: wthen_def rbind_def rreturn_def)
qed (simp add: rreturn_def)

end

lemma rbind_Inr [simp]: "p s = (Inr x, s') \<Longrightarrow> rbind p f s = f x s'"
  by (simp add: rbind_def)

lemma rbind_Inl: "p s = (Inl e, s') \<Longrightarrow> rbind p f s = (Inl e, s')"
  by (simp add: rbind_def)

named_theorems rt \<open>round trips of the parts of a message\<close>

lemma rt_Nil [rt]: "x = y \<Longrightarrow> roundtrips (wseq []) (rreturn x) y"
  by (simp add: roundtrips_def rreturn_def)

lemma rt_Cons [rt]:
  assumes "roundtrips w p x" and "roundtrips (wseq ws) (f x) y"
  shows "roundtrips (wseq (w # ws)) (rbind p f) y"
proof -
  from assms obtain bs cs where "w = Inr bs" "\<And>rest. p (bs @ rest) = (Inr x, rest)"
    "wseq ws = Inr cs" "\<And>rest. f x (cs @ rest) = (Inr y, rest)"
    by (auto elim!: roundtripsE)
  then show ?thesis by (intro roundtripsI [of _ "bs @ cs"]) (simp_all add: wthen_def)
qed

lemma ReadFull_append: "n = length bs \<Longrightarrow> ReadFull n (bs @ rest) = (Inr bs, rest)"
  by (simp add: ReadFull_def)

lemma rt_word: "LENGTH('a) = 8 * n \<Longrightarrow> roundtrips (write_word n (w :: 'a::len word)) (read_word n) w"
  by (rule roundtripsI [OF write_word_def])
    (simp add: read_word_def ReadFull_append unbe_be_word rreturn_def)

lemma rt_words [rt]:
  "roundtrips (write_u8 a) read_u8 a" "roundtrips (write_u16 b) read_u16 b"
  "roundtrips (write_u32 c) read_u32 c" "roundtrips (write_u64 d) read_u64 d"
  by (simp_all add: rt_word write_u8_def read_u8_def write_u16_def read_u16_def write_u32_def
      read_u32_def write_u64_def read_u64_def del: One_nat_def)

lemma read_u8_Cons: "read_u8 (b # s) = (Inr b, s)"
  by (simp add: read_u8_def read_word_def rbind_def ReadFull_def rreturn_def unbe_def)

lemma writeShortstr_ok: "length s < 256 \<Longrightarrow> writeShortstr s = Inr (of_nat (length s) # s)"
  by (simp add: writeShortstr_def wthen_def write_u8_def write_word_def unat_of_nat)

lemma rt_shortstr [rt]: "length s < 256 \<Longrightarrow> roundtrips (writeShortstr s) readShortstr s"
  by (rule roundtripsI [OF writeShortstr_ok])
    (simp_all add: readShortstr_def read_u8_Cons rbind_def ReadFull_append unat_of_nat)

lemma writeLongstr_ok: "length s < 2 ^ 32 \<Longrightarrow> writeLongstr s = Inr (be 4 (length s) @ s)"
  by (simp add: writeLongstr_def wthen_def write_u32_def write_word_def unat_of_nat del: be.simps)

lemma read_be_u32: "n < 2 ^ 32 \<Longrightarrow> read_u32 (be 4 n @ rest) = (Inr (of_nat n), rest)"
  by (simp add: read_u32_def read_word_def rbind_def ReadFull_append rreturn_def unbe_be)

lemma rt_longstr [rt]: "length s < 2 ^ 32 \<Longrightarrow> roundtrips (writeLongstr s) readLongstr s"
  by (rule roundtripsI [OF writeLongstr_ok])
    (simp_all add: readLongstr_def read_be_u32 rbind_def ReadFull_append unat_of_nat del: be.simps)

end
