(* ===== verification/Amqp_Field.thy ===== *)
theory Amqp_Field
  imports Amqp_Wire
begin

text \<open>
  Field values, arrays and tables (\<open>writeField\<close>, \<open>writeTable\<close>, \<open>readField\<close>, \<open>readTable\<close>,
  \<open>readArray\<close> of the vendored AMQP library).

  A Go map is the list of its entries in the order an iteration visits them. Floats are their bit
  patterns. A \<open>time.Time\<close> is its Unix time in nanoseconds, of which the wire keeps the
  seconds. \<open>FdUnsupported\<close> is a value of any other Go type.
\<close>

datatype field =
    FdBool bool
  | FdByte byte
  | FdInt16 "16 word"
  | FdInt32 "32 word"
  | FdInt64 "64 word"
  | FdFloat32 "32 word"
  | FdFloat64 "64 word"
  | FdDecimal byte "32 word"
  | FdString bytes
  | FdArray "field list"
  | FdTime int
  | FdTable "(bytes \<times> field) list"
  | FdBytes bytes
  | FdNil
  | FdUnsupported

type_synonym table = "(bytes \<times> field) list"


section \<open>Writing\<close>

definition put_len :: "nat \<Rightarrow> wr" where
  "put_len n = write_u32 (of_nat n)"

definition unix_seconds :: "int \<Rightarrow> 64 word" where
  "unix_seconds t = of_int (t div second)"

fun writeField :: "field \<Rightarrow> wr" and writeFields :: "field list \<Rightarrow> wr" and writeEntries :: "table \<Rightarrow> wr" where
  "writeField (FdBool b) = Inr [0x74, if b then 1 else 0]"
| "writeField (FdByte b) = Inr [0x62, b]"
| "writeField (FdInt16 w) = wseq [Inr [0x73], write_u16 w]"
| "writeField (FdInt32 w) = wseq [Inr [0x49], write_u32 w]"
| "writeField (FdInt64 w) = wseq [Inr [0x6C], write_u64 w]"
| "writeField (FdFloat32 w) = wseq [Inr [0x66], write_u32 w]"
| "writeField (FdFloat64 w) = wseq [Inr [0x64], write_u64 w]"
| "writeField (FdDecimal sc v) = wseq [Inr [0x44, sc], write_u32 v]"
| "writeField (FdString s) = wseq [Inr [0x53], put_len (length s), Inr s]"
| "writeField (FdArray fs) =
     (case writeFields fs of Inl e \<Rightarrow> Inl e | Inr sec \<Rightarrow> wseq [Inr [0x41], put_len (length sec), Inr sec])"
| "writeField (FdTime t) = wseq [Inr [0x54], write_u64 (unix_seconds t)]"
| "writeField (FdTable t) =
     (case writeEntries t of Inl e \<Rightarrow> Inl e | Inr buf \<Rightarrow> wseq [Inr [0x46], writeLongstr buf])"
| "writeField (FdBytes b) = wseq [Inr [0x78], put_len (length b), Inr b]"
| "writeField FdNil = Inr [0x56]"
| "writeField FdUnsupported = Inl ErrFieldType"
| "writeFields [] = Inr []"
| "writeFields (f # fs) = wthen (writeField f) (writeFields fs)"
| "writeEntries [] = Inr []"
| "writeEntries ((k, v) # es) = wthen (wthen (writeShortstr k) (writeField v)) (writeEntries es)"

definition writeTable :: "table \<Rightarrow> wr" where
  "writeTable t = (case writeEntries t of Inl e \<Rightarrow> Inl e | Inr buf \<Rightarrow> writeLongstr buf)"


section \<open>Reading\<close>

text \<open>
  \<open>io.LimitedReader\<close>: the reader sees the first \<open>n\<close> bytes, and what it leaves of them stays
  in the stream.
\<close>

definition limited :: "nat \<Rightarrow> 'a rd \<Rightarrow> 'a rd" where
  "limited n p s = (case p (take n s) of (r, l) \<Rightarrow> (r, l @ drop n s))"

text \<open>
  \<open>readBytes\<close> is the case \<open>x\<close>, whose length is a signed integer: \<open>make\<close> panics on a negative one.
\<close>

definition readBytes :: "bytes rd" where
  "readBytes =
     rbind read_u32 (\<lambda>w. if sint w < 0 then rfail (RPanic ''makeslice: len out of range'')
                         else ReadFull (unat w))"

definition readDecimal :: "field rd" where
  "readDecimal = rbind read_u8 (\<lambda>sc. rbind read_u32 (\<lambda>v. rreturn (FdDecimal sc v)))"

definition readTimestamp :: "int rd" where
  "readTimestamp = rbind read_u64 (\<lambda>w. rreturn (sint w * second))"

text \<open>
  \<open>rdField\<close>, \<open>rdArrayLoop\<close> and \<open>rdTableLoop\<close> are \<open>readField\<close>, the loop of \<open>readArray\<close> and that of
  \<open>readTable\<close>, with fuel. The loop over an array ends on \<open>EOF\<close>, whichever
  element it comes from and wherever in it.
\<close>

fun rdField :: "nat \<Rightarrow> field rd"
  and rdArrayLoop :: "nat \<Rightarrow> field list rd"
  and rdTableLoop :: "nat \<Rightarrow> table \<Rightarrow> table rd" where
  "rdField 0 = rfail OutOfFuel"
| "rdField (Suc n) =
     rbind read_u8 (\<lambda>typ.
       if typ = 0x74 then rbind read_u8 (\<lambda>v. rreturn (FdBool (v \<noteq> 0)))
       else if typ = 0x62 then rbind read_u8 (\<lambda>v. rreturn (FdByte v))
       else if typ = 0x73 then rbind read_u16 (\<lambda>v. rreturn (FdInt16 v))
       else if typ = 0x49 then rbind read_u32 (\<lambda>v. rreturn (FdInt32 v))
       else if typ = 0x6C then rbind read_u64 (\<lambda>v. rreturn (FdInt64 v))
       else if typ = 0x66 then rbind read_u32 (\<lambda>v. rreturn (FdFloat32 v))
       else if typ = 0x64 then rbind read_u64 (\<lambda>v. rreturn (FdFloat64 v))
       else if typ = 0x44 then readDecimal
       else if typ = 0x53 then rbind readLongstr (\<lambda>v. rreturn (FdString v))
       else if typ = 0x41 then
         rbind read_u32 (\<lambda>size. rbind (limited (unat size) (rdArrayLoop n)) (\<lambda>v. rreturn (FdArray v)))
       else if typ = 0x54 then rbind readTimestamp (\<lambda>v. rreturn (FdTime v))
       else if typ = 0x46 then
         rbind readLongstr (\<lambda>str. case rdTableLoop n [] str of
           (Inl e, _) \<Rightarrow> rfail e | (Inr t, _) \<Rightarrow> rreturn (FdTable t))
       else if typ = 0x78 then rbind readBytes (\<lambda>v. rreturn (FdBytes v))
       else if typ = 0x56 then rreturn FdNil
       else rfail ErrSyntax)"
| "rdArrayLoop 0 = rfail OutOfFuel"
| "rdArrayLoop (Suc n) =
     (\<lambda>s. case rdField n s of
        (Inl EOF, s') \<Rightarrow> (Inr [], s')
      | (Inl e, s') \<Rightarrow> (Inl e, s')
      | (Inr f, s') \<Rightarrow> rbind (rdArrayLoop n) (\<lambda>fs. rreturn (f # fs)) s')"
| "rdTableLoop 0 t = rfail OutOfFuel"
| "rdTableLoop (Suc n) t =
     (\<lambda>s. if s = [] then (Inr t, [])
          else rbind readShortstr (\<lambda>k. rbind (rdField n) (\<lambda>v. rdTableLoop n (AList.update k v t))) s)"

text \<open>The fuel: twice the bytes left and one.\<close>

definition readField :: "field rd" where
  "readField s = rdField (2 * length s + 1) s"

definition readArray :: "field list rd" where
  "readArray = rbind read_u32 (\<lambda>size. limited (unat size) (\<lambda>s. rdArrayLoop (2 * length s + 2) s))"

definition readTable :: "table rd" where
  "readTable =
     rbind readLongstr (\<lambda>str. case rdTableLoop (2 * length str + 2) [] str of
       (Inl e, _) \<Rightarrow> rfail e | (Inr t, _) \<Rightarrow> rreturn t)"


section \<open>The fuel is enough\<close>

text \<open>
  \<open>shrinks\<close>: the reader adds nothing to the stream; \<open>strict\<close>: a value costs at least one byte;
  \<open>fuelled k\<close>: on at most \<open>k\<close> bytes it does not run out of fuel.
\<close>

definition shrinks :: "'a rd \<Rightarrow> bool" where
  "shrinks p \<longleftrightarrow> (\<forall>s. length (snd (p s)) \<le> length s)"

definition strict :: "'a rd \<Rightarrow> bool" where
  "strict p \<longleftrightarrow> (\<forall>s x s'. p s = (Inr x, s') \<longrightarrow> length s' < length s)"

definition fuelled :: "nat \<Rightarrow> 'a rd \<Rightarrow> bool" where
  "fuelled k p \<longleftrightarrow> (\<forall>s. length s \<le> k \<longrightarrow> fst (p s) \<noteq> Inl OutOfFuel)"

named_theorems reader_intros \<open>readers that shrink and have fuel\<close>

lemma reader_prims [reader_intros]:
  "shrinks (rreturn x)" "shrinks (rfail e)" "shrinks (ReadFull n)"
  "fuelled k (rreturn x)" "e \<noteq> OutOfFuel \<Longrightarrow> fuelled k (rfail e)" "fuelled k (ReadFull n)"
  by (simp_all add: shrinks_def fuelled_def rreturn_def rfail_def ReadFull_def)

lemma shrinks_rbind [reader_intros]: "shrinks p \<Longrightarrow> (\<And>x. shrinks (f x)) \<Longrightarrow> shrinks (rbind p f)"
proof -
  assume p: "shrinks p" and f: "\<And>x. shrinks (f x)"
  have "length (snd (rbind p f s)) \<le> length s" for s
  proof -
    obtain r s' where ps: "p s = (r, s')" by fastforce
    then have "length s' \<le> length s" using p by (metis shrinks_def snd_conv)
    moreover have "length (snd (f x s')) \<le> length s'" for x using f by (simp add: shrinks_def)
    ultimately show ?thesis using ps order_trans by (cases r) (fastforce simp: rbind_def)+
  qed
  then show ?thesis by (simp add: shrinks_def)
qed

lemma fuelled_rbind [reader_intros]:
  "shrinks p \<Longrightarrow> fuelled k p \<Longrightarrow> (\<And>x. fuelled k (f x)) \<Longrightarrow> fuelled k (rbind p f)"
proof -
  assume p: "shrinks p" "fuelled k p" and f: "\<And>x. fuelled k (f x)"
  have "fst (rbind p f s) \<noteq> Inl OutOfFuel" if s: "length s \<le> k" for s
  proof -
    obtain r s' where ps: "p s = (r, s')" by fastforce
    then have "length s' \<le> k" using p(1) s by (metis shrinks_def snd_conv order_trans)
    moreover have "r \<noteq> Inl OutOfFuel" using p(2) ps s by (auto simp: fuelled_def)
    ultimately show ?thesis using ps f by (cases r) (simp_all add: rbind_def fuelled_def)
  qed
  then show ?thesis by (simp add: fuelled_def)
qed

lemma fuelled_rbind_strict:
  "strict p \<Longrightarrow> fuelled k p \<Longrightarrow> (\<And>x j. k = Suc j \<Longrightarrow> fuelled j (f x)) \<Longrightarrow> fuelled k (rbind p f)"
proof -
  assume p: "strict p" "fuelled k p" and f: "\<And>x j. k = Suc j \<Longrightarrow> fuelled j (f x)"
  have "fst (rbind p f s) \<noteq> Inl OutOfFuel" if s: "length s \<le> k" for s
  proof -
    obtain r s' where ps: "p s = (r, s')" by fastforce
    have r: "r \<noteq> Inl OutOfFuel" using p(2) ps s by (auto simp: fuelled_def)
    show ?thesis
    proof (cases r)
      case (Inr x)
      with ps p(1) have "length s' < length s" by (simp add: strict_def)
      with s obtain j where "k = Suc j" "length s' \<le> j" by (cases k) auto
      with f [of j x] ps Inr show ?thesis by (simp add: rbind_def fuelled_def)
    qed (use ps r in \<open>simp add: rbind_def\<close>)
  qed
  then show ?thesis by (simp add: fuelled_def)
qed

lemma reader_if [reader_intros]:
  "(b \<Longrightarrow> shrinks p) \<Longrightarrow> (\<not> b \<Longrightarrow> shrinks q) \<Longrightarrow> shrinks (if b then p else q)"
  "(b \<Longrightarrow> fuelled k p) \<Longrightarrow> (\<not> b \<Longrightarrow> fuelled k q) \<Longrightarrow> fuelled k (if b then p else q)"
  by simp_all

lemma reader_words [reader_intros]:
  "shrinks read_u8" "shrinks read_u16" "shrinks read_u32" "shrinks read_u64"
  "fuelled k read_u8" "fuelled k read_u16" "fuelled k read_u32" "fuelled k read_u64"
  unfolding read_u8_def read_u16_def read_u32_def read_u64_def read_word_def
  by (intro reader_intros)+

lemma reader_parts [reader_intros]:
  "shrinks readShortstr" "shrinks readLongstr" "shrinks readBytes" "shrinks readDecimal" "shrinks readTimestamp"
  "fuelled k readShortstr" "fuelled k readLongstr" "fuelled k readBytes" "fuelled k readDecimal"
  "fuelled k readTimestamp"
  unfolding readShortstr_def readLongstr_def readBytes_def readDecimal_def readTimestamp_def
  by ((intro reader_intros; simp)+)

lemma reader_limited [reader_intros]:
  "shrinks p \<Longrightarrow> shrinks (limited n p)" "fuelled k p \<Longrightarrow> fuelled k (limited n p)"
proof -
  assume p: "shrinks p"
  have "length (snd (limited n p s)) \<le> length s" for s
  proof -
    have "length (snd (p (take n s))) \<le> length (take n s)" using p by (simp only: shrinks_def)
    then have "length (snd (p (take n s))) + length (drop n s) \<le> length (take n s) + length (drop n s)"
      by (rule add_right_mono)
    also have "\<dots> = length s" by (metis append_take_drop_id length_append)
    finally have "length (snd (p (take n s))) + length (drop n s) \<le> length s" .
    then show ?thesis by (cases "p (take n s)") (simp add: limited_def)
  qed
  then show "shrinks (limited n p)" by (simp add: shrinks_def)
next
  assume p: "fuelled k p"
  have "fst (limited n p s) \<noteq> Inl OutOfFuel" if "length s \<le> k" for s
  proof -
    have "length (take n s) \<le> k" using that by simp
    then have "fst (p (take n s)) \<noteq> Inl OutOfFuel" using p unfolding fuelled_def by blast
    then show ?thesis by (cases "p (take n s)") (simp add: limited_def)
  qed
  then show "fuelled k (limited n p)" by (simp add: fuelled_def)
qed

lemma limited_append: "length xs = n \<Longrightarrow> p xs = (r, []) \<Longrightarrow> limited n p (xs @ rest) = (r, rest)"
  by (simp add: limited_def)

lemma strict_read_u8: "strict read_u8"
  by (auto simp: strict_def read_u8_def read_word_def rbind_def ReadFull_def rreturn_def split: if_splits)

lemma strict_rbind:
  assumes "strict p" and "\<And>x. shrinks (f x)"
  shows "strict (rbind p f)"
  unfolding strict_def
proof (intro allI impI)
  fix s y s'' assume "rbind p f s = (Inr y, s'')"
  then obtain x s' where "p s = (Inr x, s')" "f x s' = (Inr y, s'')"
    by (auto simp: rbind_def split: prod.splits sum.splits)
  with assms show "length s'' < length s" by (metis le_less_trans snd_conv strict_def shrinks_def)
qed

lemma strict_readShortstr: "strict readShortstr"
  unfolding readShortstr_def by (intro strict_rbind strict_read_u8 reader_intros)

lemma shrinks_loops:
  "shrinks (rdField n) \<and> shrinks (rdArrayLoop n) \<and> (\<forall>t. shrinks (rdTableLoop n t))"
proof (induction n)
  case 0
  then show ?case by (simp add: reader_intros)
next
  case (Suc n)
  have nested: "shrinks (case rdTableLoop n [] str of (Inl e, _) \<Rightarrow> rfail e | (Inr t, _) \<Rightarrow> rreturn (FdTable t))" for str
    by (simp add: reader_intros split: prod.split sum.split)
  have field: "shrinks (rdField (Suc n))"
    unfolding rdField.simps using Suc by (intro reader_intros nested) simp_all
  have "length (snd (rdArrayLoop (Suc n) s)) \<le> length s" for s
  proof -
    obtain r s' where f: "rdField n s = (r, s')" by fastforce
    then have s': "length s' \<le> length s" using Suc by (metis shrinks_def snd_conv)
    have "shrinks (rbind (rdArrayLoop n) (\<lambda>fs. rreturn (x # fs)))" for x
      using Suc by (intro reader_intros) simp_all
    then have "length (snd (rbind (rdArrayLoop n) (\<lambda>fs. rreturn (x # fs)) s')) \<le> length s" for x
      using s' order_trans unfolding shrinks_def by blast
    with f s' show ?thesis by (cases r) (simp_all split: rerr.split)
  qed
  moreover have "shrinks (rbind readShortstr (\<lambda>k. rbind (rdField n) (\<lambda>v. rdTableLoop n (AList.update k v t))))" for t
    using Suc by (intro reader_intros) simp_all
  ultimately show ?case using field by (auto simp: shrinks_def)
qed

lemma strict_rdField: "strict (rdField n)"
proof (cases n)
  case (Suc m)
  have nested: "shrinks (case rdTableLoop m [] str of (Inl e, _) \<Rightarrow> rfail e | (Inr t, _) \<Rightarrow> rreturn (FdTable t))" for str
    by (simp add: reader_intros split: prod.split sum.split)
  show ?thesis unfolding Suc rdField.simps
    using shrinks_loops [of m] by (intro strict_rbind strict_read_u8 reader_intros nested) simp_all
qed (simp add: strict_def rfail_def)

lemma fuelled_nested_table:
  assumes loop: "fuelled j (rdTableLoop n [])"
  shows "fuelled j (rbind readLongstr (\<lambda>str. case rdTableLoop n [] str of
    (Inl e, _) \<Rightarrow> rfail e | (Inr t, _) \<Rightarrow> rreturn (FdTable t)))"
  unfolding fuelled_def
proof (intro allI impI)
  fix s assume s: "length (s :: bytes) \<le> j"
  obtain r s' where read: "readLongstr s = (r, s')" by fastforce
  show "fst (rbind readLongstr (\<lambda>str. case rdTableLoop n [] str of
    (Inl e, _) \<Rightarrow> rfail e | (Inr t, _) \<Rightarrow> rreturn (FdTable t)) s) \<noteq> Inl OutOfFuel"
  proof (cases r)
    case (Inl e)
    then have "e \<noteq> OutOfFuel" using read reader_parts(7) [of "length s"] by (auto simp: fuelled_def)
    with read Inl show ?thesis by (simp add: rbind_def)
  next
    case (Inr str)
    have "length str \<le> j"
      using read Inr s by (auto simp: readLongstr_def read_u32_def read_word_def rbind_def ReadFull_def
          rreturn_def split: if_splits)
    then have "fst (rdTableLoop n [] str) \<noteq> Inl OutOfFuel" using loop by (simp add: fuelled_def)
    with read Inr show ?thesis
      by (auto simp: rbind_def rfail_def rreturn_def split: prod.split sum.split)
  qed
qed

lemma fuelled_array_step:
  assumes "fuelled k (rdField n)" and loop: "\<And>j. k = Suc j \<Longrightarrow> fuelled j (rdArrayLoop n)"
  shows "fuelled k (rdArrayLoop (Suc n))"
  unfolding fuelled_def
proof (intro allI impI)
  fix s assume s: "length (s :: bytes) \<le> k"
  obtain r s' where f: "rdField n s = (r, s')" by fastforce
  then have r: "r \<noteq> Inl OutOfFuel" using assms(1) s by (auto simp: fuelled_def)
  show "fst (rdArrayLoop (Suc n) s) \<noteq> Inl OutOfFuel"
  proof (cases r)
    case (Inl e)
    with f r show ?thesis by (cases e) simp_all
  next
    case (Inr x)
    then have "length s' < length s" using f strict_rdField by (simp add: strict_def)
    with s obtain j where j: "k = Suc j" "length s' \<le> j" by (cases k) auto
    have "fuelled j (rbind (rdArrayLoop n) (\<lambda>fs. rreturn (x # fs)))"
      using loop [OF j(1)] shrinks_loops [of n] by (intro reader_intros) simp_all
    with j f Inr show ?thesis by (simp add: fuelled_def)
  qed
qed

lemma fuelled_table_step:
  assumes "\<And>j. k = Suc j \<Longrightarrow> fuelled j (rdField n) \<and> (\<forall>t. fuelled j (rdTableLoop n t))"
  shows "fuelled k (rdTableLoop (Suc n) t)"
proof -
  have "fuelled j (rbind (rdField n) (\<lambda>v. rdTableLoop n (AList.update key v t)))" if "k = Suc j" for j key
    using assms [OF that] shrinks_loops [of n] by (intro reader_intros) simp_all
  then have "fuelled k (rbind readShortstr (\<lambda>key. rbind (rdField n) (\<lambda>v. rdTableLoop n (AList.update key v t))))"
    by (rule fuelled_rbind_strict [OF strict_readShortstr reader_parts(6)])
  then show ?thesis by (simp add: fuelled_def)
qed

lemma fuelled_loops:
  "(2 * k + 1 \<le> n \<longrightarrow> fuelled k (rdField n)) \<and> (2 * k + 2 \<le> n \<longrightarrow> fuelled k (rdArrayLoop n)) \<and>
   (2 * k + 2 \<le> n \<longrightarrow> (\<forall>t. fuelled k (rdTableLoop n t)))"
proof (induction n arbitrary: k)
  case 0
  then show ?case by simp
next
  case (Suc n)
  have "fuelled k (rdField (Suc n))" if n: "2 * k + 1 \<le> Suc n"
  proof -
    have loop: "fuelled j (rdArrayLoop n)" "fuelled j (rdTableLoop n t)" if "k = Suc j" for j t
      using Suc [of j] that n by simp_all
    show ?thesis unfolding rdField.simps
      by (rule fuelled_rbind_strict [OF strict_read_u8])
        (intro reader_intros fuelled_nested_table loop shrinks_loops [THEN conjunct2, THEN conjunct1]; simp)+
  qed
  moreover have "fuelled k (rdArrayLoop (Suc n))" "fuelled k (rdTableLoop (Suc n) t)" if n: "2 * k + 2 \<le> Suc n" for t
    using Suc n by (intro fuelled_array_step fuelled_table_step; simp)+
  ultimately show ?case by blast
qed

lemma readField_fuel: "fst (readField s) \<noteq> Inl OutOfFuel"
  using fuelled_loops [of "length s" "2 * length s + 1"] by (simp add: readField_def fuelled_def del: rdField.simps)

lemma readTable_fuel: "fst (readTable s) \<noteq> Inl OutOfFuel"
proof (cases "readLongstr s")
  case (Pair r s')
  show ?thesis
  proof (cases r)
    case (Inl e)
    then show ?thesis using Pair reader_parts(7) [of "length s"] by (auto simp: fuelled_def readTable_def rbind_def)
  next
    case (Inr str)
    have "fst (rdTableLoop (2 * length str + 2) [] str) \<noteq> Inl OutOfFuel"
      using fuelled_loops [of "length str" "2 * length str + 2"] by (simp add: fuelled_def del: rdTableLoop.simps)
    with Pair Inr show ?thesis
      by (auto simp: readTable_def rbind_def rfail_def rreturn_def simp del: rdTableLoop.simps split: prod.split sum.split)
  qed
qed

section \<open>Round trips\<close>

text \<open>
  What the wire can hold: strings below \<open>2 ^ 32\<close> bytes, keys of tables below 256 bytes and
  distinct, byte arrays below \<open>2 ^ 31\<close>, whole seconds, encoded arrays and tables below
  \<open>2 ^ 32\<close> bytes.
\<close>

definition fits_in :: "wr \<Rightarrow> nat \<Rightarrow> bool" where
  "fits_in w n = (case w of Inl _ \<Rightarrow> False | Inr bs \<Rightarrow> length bs < n)"

fun field_ok :: "field \<Rightarrow> bool" and fields_ok :: "field list \<Rightarrow> bool" and entries_ok :: "table \<Rightarrow> bool" where
  "field_ok (FdString s) = (length s < 2 ^ 32)"
| "field_ok (FdArray fs) = (fields_ok fs \<and> fits_in (writeFields fs) (2 ^ 32))"
| "field_ok (FdTime t) = (t mod second = 0 \<and> in_int64 (t div second))"
| "field_ok (FdTable t) = (entries_ok t \<and> fits_in (writeEntries t) (2 ^ 32))"
| "field_ok (FdBytes b) = (length b < 2 ^ 31)"
| "field_ok FdUnsupported = False"
| "field_ok _ = True"
| "fields_ok [] = True"
| "fields_ok (f # fs) = (field_ok f \<and> fields_ok fs)"
| "entries_ok [] = True"
| "entries_ok ((k, v) # es) = (length k < 256 \<and> k \<notin> fst ` set es \<and> field_ok v \<and> entries_ok es)"

definition table_ok :: "table \<Rightarrow> bool" where
  "table_ok t \<longleftrightarrow> entries_ok t \<and> fits_in (writeEntries t) (2 ^ 32)"

lemma roundtrips_apply: "roundtrips w p x \<Longrightarrow> w = Inr bs \<Longrightarrow> p (bs @ rest) = (Inr x, rest)"
  by (auto simp: roundtrips_def)

lemma word_bytes [simp]:
  "write_u16 a = Inr (be 2 (unat a))" "write_u32 b = Inr (be 4 (unat b))" "write_u64 c = Inr (be 8 (unat c))"
  by (simp_all add: write_u16_def write_u32_def write_u64_def write_word_def)

lemma read_be_words [simp]:
  "read_u16 (be 2 (unat a) @ rest) = (Inr a, rest)" "read_u32 (be 4 (unat b) @ rest) = (Inr b, rest)"
  "read_u64 (be 8 (unat c) @ rest) = (Inr c, rest)"
  using rt_words by (auto simp: roundtrips_def)

lemma put_len_ok: "n < 2 ^ 32 \<Longrightarrow> put_len n = Inr (be 4 n)"
  by (simp add: put_len_def unat_of_nat)

lemma sint_unix_seconds: "in_int64 (t div second) \<Longrightarrow> sint (unix_seconds t) = t div second"
  by (simp add: unix_seconds_def in_int64_def signed_of_int signed_take_bit_int_eq_self)

lemma sint_of_nat_small: "n < 2 ^ 31 \<Longrightarrow> sint (of_nat n :: 32 word) = int n"
  by (simp add: signed_of_nat signed_take_bit_int_eq_self)

lemma update_new: "k \<notin> fst ` set t \<Longrightarrow> AList.update k v t = t @ [(k, v)]"
  by (induction t) auto

lemma rdField_tags:
  "rdField (Suc n) (0x74 # s) = rbind read_u8 (\<lambda>v. rreturn (FdBool (v \<noteq> 0))) s"
  "rdField (Suc n) (0x62 # s) = rbind read_u8 (\<lambda>v. rreturn (FdByte v)) s"
  "rdField (Suc n) (0x73 # s) = rbind read_u16 (\<lambda>v. rreturn (FdInt16 v)) s"
  "rdField (Suc n) (0x49 # s) = rbind read_u32 (\<lambda>v. rreturn (FdInt32 v)) s"
  "rdField (Suc n) (0x6C # s) = rbind read_u64 (\<lambda>v. rreturn (FdInt64 v)) s"
  "rdField (Suc n) (0x66 # s) = rbind read_u32 (\<lambda>v. rreturn (FdFloat32 v)) s"
  "rdField (Suc n) (0x64 # s) = rbind read_u64 (\<lambda>v. rreturn (FdFloat64 v)) s"
  "rdField (Suc n) (0x44 # s) = readDecimal s"
  "rdField (Suc n) (0x53 # s) = rbind readLongstr (\<lambda>v. rreturn (FdString v)) s"
  "rdField (Suc n) (0x41 # s) =
     rbind read_u32 (\<lambda>size. rbind (limited (unat size) (rdArrayLoop n)) (\<lambda>v. rreturn (FdArray v))) s"
  "rdField (Suc n) (0x54 # s) = rbind readTimestamp (\<lambda>v. rreturn (FdTime v)) s"
  "rdField (Suc n) (0x46 # s) =
     rbind readLongstr (\<lambda>str. case rdTableLoop n [] str of
       (Inl e, _) \<Rightarrow> rfail e | (Inr t, _) \<Rightarrow> rreturn (FdTable t)) s"
  "rdField (Suc n) (0x78 # s) = rbind readBytes (\<lambda>v. rreturn (FdBytes v)) s"
  "rdField (Suc n) (0x56 # s) = (Inr FdNil, s)"
  by (simp_all add: read_u8_Cons rreturn_def)

lemmas wire_eval =
  rbind_def rreturn_def rfail_def wthen_def put_len_ok ReadFull_append readLongstr_def read_be_u32 unat_of_nat
  rdField_tags read_u8_Cons readDecimal_def readTimestamp_def readBytes_def writeLongstr_ok writeShortstr_ok

declare be.simps [simp del] rdField.simps [simp del]

lemma field_leafI:
  assumes "writeField f = Inr bs" and "bs \<noteq> []" and "\<And>m rest. rdField (Suc m) (bs @ rest) = (Inr f, rest)"
  shows "\<exists>bs. writeField f = Inr bs \<and> bs \<noteq> [] \<and>
     (\<forall>n rest. 2 * length bs + 1 \<le> n \<longrightarrow> rdField n (bs @ rest) = (Inr f, rest))"
proof -
  have "rdField n (bs @ rest) = (Inr f, rest)" if "2 * length bs + 1 \<le> n" for n rest
    using that assms(3) by (cases n) simp_all
  with assms(1,2) show ?thesis by blast
qed

text \<open>Bytes that end an array: reading a field from them gives \<open>EOF\<close> and uses them up.\<close>

definition eof_tail :: "bytes \<Rightarrow> bool" where
  "eof_tail s \<longleftrightarrow> (\<forall>m. rdField (Suc m) s = (Inl EOF, []))"

lemma eof_tail_Nil: "eof_tail []"
  by (simp add: eof_tail_def rdField.simps read_u8_def read_word_def rbind_def ReadFull_def)

lemma array_reads:
  assumes "length sec < 2 ^ 32" and "\<And>n. 2 * length sec + 2 \<le> n \<Longrightarrow> rdArrayLoop n sec = (Inr fs, [])"
    and n: "2 * length (0x41 # be 4 (length sec) @ sec) + 1 \<le> n"
  shows "rdField n ((0x41 # be 4 (length sec) @ sec) @ rest) = (Inr (FdArray fs), rest)"
proof -
  obtain m where m: "n = Suc m" "2 * length sec + 2 \<le> m" using n by (cases n) auto
  with assms(1) assms(2) [OF m(2)] show ?thesis by (simp add: wire_eval limited_def)
qed

lemma table_reads:
  assumes "length buf < 2 ^ 32" and "\<And>n. 2 * length buf + 2 \<le> n \<Longrightarrow> rdTableLoop n [] buf = (Inr t, [])"
    and n: "2 * length (0x46 # be 4 (length buf) @ buf) + 1 \<le> n"
  shows "rdField n ((0x46 # be 4 (length buf) @ buf) @ rest) = (Inr (FdTable t), rest)"
proof -
  obtain m where m: "n = Suc m" "2 * length buf + 2 \<le> m" using n by (cases n) auto
  with assms(1) assms(2) [OF m(2)] show ?thesis by (simp add: wire_eval)
qed

lemma array_ends: "2 \<le> n \<Longrightarrow> eof_tail tail \<Longrightarrow> rdArrayLoop n tail = (Inr [], [])"
  by (cases n; cases "n - 1") (auto simp: eof_tail_def)

lemma array_step_reads:
  assumes "bs \<noteq> []" and "\<And>n rest. 2 * length bs + 1 \<le> n \<Longrightarrow> rdField n (bs @ rest) = (Inr f, rest)"
    and "\<And>n tail. 2 * length (cs @ tail) + 2 \<le> n \<Longrightarrow> eof_tail tail \<Longrightarrow> rdArrayLoop n (cs @ tail) = (Inr fs, [])"
    and n: "2 * length ((bs @ cs) @ tail) + 2 \<le> n" and tail: "eof_tail tail"
  shows "rdArrayLoop n ((bs @ cs) @ tail) = (Inr (f # fs), [])"
proof -
  obtain m where m: "n = Suc m" using n by (cases n) auto
  obtain b bs' where "bs = b # bs'" using assms(1) by (cases bs) auto
  then have "2 * length bs + 1 \<le> m" "2 * length (cs @ tail) + 2 \<le> m" using n m by auto
  from assms(2) [OF this(1), of "cs @ tail"] assms(3) [OF this(2) tail] show ?thesis by (simp add: m wire_eval)
qed

lemma table_step_reads:
  assumes "\<And>n rest. 2 * length bs + 1 \<le> n \<Longrightarrow> rdField n (bs @ rest) = (Inr v, rest)"
    and "\<And>n t. 2 * length cs + 2 \<le> n \<Longrightarrow> fst ` set t \<inter> fst ` set es = {} \<Longrightarrow> rdTableLoop n t cs = (Inr (t @ es), [])"
    and k: "length k < 256" "k \<notin> fst ` set es"
    and n: "2 * length ((of_nat (length k) # k) @ bs @ cs) + 2 \<le> n" and t: "fst ` set t \<inter> fst ` set ((k, v) # es) = {}"
  shows "rdTableLoop n t ((of_nat (length k) # k) @ bs @ cs) = (Inr (t @ (k, v) # es), [])"
proof -
  obtain m where m: "n = Suc m" using n by (cases n) auto
  have "2 * length bs + 1 \<le> m" "2 * length cs + 2 \<le> m" using n m by auto
  moreover have "k \<notin> fst ` set t" "fst ` set (t @ [(k, v)]) \<inter> fst ` set es = {}" using t k(2) by auto
  moreover have "readShortstr ((of_nat (length k) # k) @ bs @ cs) = (Inr k, bs @ cs)"
    using roundtrips_apply [OF rt_shortstr [OF k(1)] writeShortstr_ok [OF k(1)]] by simp
  ultimately show ?thesis
    using assms(1) [of m cs] assms(2) [of m "t @ [(k, v)]"] by (simp add: m wire_eval update_new)
qed

lemma field_roundtrip:
  "field_ok f \<Longrightarrow> \<exists>bs. writeField f = Inr bs \<and> bs \<noteq> [] \<and>
     (\<forall>n rest. 2 * length bs + 1 \<le> n \<longrightarrow> rdField n (bs @ rest) = (Inr f, rest))"
  "fields_ok fs \<Longrightarrow> \<exists>bs. writeFields fs = Inr bs \<and>
     (\<forall>n tail. 2 * length (bs @ tail) + 2 \<le> n \<longrightarrow> eof_tail tail \<longrightarrow> rdArrayLoop n (bs @ tail) = (Inr fs, []))"
  "entries_ok es \<Longrightarrow> \<exists>bs. writeEntries es = Inr bs \<and>
     (\<forall>n t. 2 * length bs + 2 \<le> n \<longrightarrow> fst ` set t \<inter> fst ` set es = {} \<longrightarrow>
        rdTableLoop n t bs = (Inr (t @ es), []))"
proof (induction f and fs and es rule: writeField_writeFields_writeEntries.induct)
  case (9 s)
  then have s: "length s < 4294967296" by simp
  show ?case by (rule field_leafI, simp add: s wire_eval, simp, simp add: s wire_eval)
next
  case (10 fs)
  then obtain sec where sec: "writeFields fs = Inr sec" and loop: "\<forall>n tail. 2 * length (sec @ tail) + 2 \<le> n \<longrightarrow>
      eof_tail tail \<longrightarrow> rdArrayLoop n (sec @ tail) = (Inr fs, [])"
    by (simp only: field_ok.simps) blast
  have "rdArrayLoop n sec = (Inr fs, [])" if "2 * length sec + 2 \<le> n" for n
    using loop [rule_format, of "[]" n] that eof_tail_Nil by (simp only: append_Nil2)
  moreover have len: "length sec < 2 ^ 32" using 10 sec by (simp add: fits_in_def)
  ultimately show ?case using sec array_reads [OF len, of fs]
    by (intro exI [of _ "0x41 # be 4 (length sec) @ sec"]) (simp add: wire_eval)
next
  case (11 t)
  then have t: "t mod second = 0" "sint (unix_seconds t) = t div second"
    by (simp_all add: sint_unix_seconds)
  then have "t div second * second = t" using div_mult_mod_eq [of t second] by simp
  with t show ?case by (intro field_leafI [of _ "0x54 # be 8 (unat (unix_seconds t))"]) (simp_all add: wire_eval)
next
  case (12 t)
  then obtain buf where buf: "writeEntries t = Inr buf"
    "\<And>n. 2 * length buf + 2 \<le> n \<Longrightarrow> rdTableLoop n [] buf = (Inr t, [])" by auto
  with 12 have len: "length buf < 2 ^ 32" by (simp add: fits_in_def)
  with buf table_reads [OF len buf(2)] show ?case
    by (intro exI [of _ "0x46 # be 4 (length buf) @ buf"]) (simp add: wire_eval)
next
  case (13 b)
  then have b: "length b < 4294967296" "sint (of_nat (length b) :: 32 word) = int (length b)"
    by (simp_all add: sint_of_nat_small)
  show ?case by (rule field_leafI, simp add: b wire_eval, simp, simp add: b wire_eval)
next
  case 15
  then show ?case by simp
next
  case 16
  then show ?case using array_ends by simp
next
  case (17 f fs)
  then show ?case using array_step_reads [of _ f _ fs] by (fastforce simp: wthen_def)
next
  case 18
  have "rdTableLoop n t [] = (Inr t, [])" if "2 \<le> n" for n t
    using that by (cases n) simp_all
  then show ?case by simp
next
  case (19 k v es)
  then obtain bs cs where v: "writeField v = Inr bs"
      "\<And>n rest. 2 * length bs + 1 \<le> n \<Longrightarrow> rdField n (bs @ rest) = (Inr v, rest)"
    and es: "writeEntries es = Inr cs"
      "\<And>n t. 2 * length cs + 2 \<le> n \<Longrightarrow> fst ` set t \<inter> fst ` set es = {} \<Longrightarrow> rdTableLoop n t cs = (Inr (t @ es), [])"
    by auto
  from 19 have k: "length k < 256" "k \<notin> fst ` set es" by auto
  with v es table_step_reads [OF v(2) es(2) k] show ?case by (simp add: wthen_def writeShortstr_ok)
qed (rule field_leafI, simp add: wire_eval, simp, simp add: wire_eval)+

text \<open>Tables and fields as codecs.\<close>

lemma writeTable_ok:
  "table_ok t \<Longrightarrow> \<exists>bs. writeEntries t = Inr bs \<and> length bs < 4294967296 \<and> writeTable t = Inr (be 4 (length bs) @ bs)"
  by (auto simp: table_ok_def fits_in_def writeTable_def writeLongstr_ok split: sum.splits)

lemma rt_table [rt]: "table_ok t \<Longrightarrow> roundtrips (writeTable t) readTable t"
proof -
  assume t: "table_ok t"
  then obtain bs where bs: "writeEntries t = Inr bs" "length bs < 4294967296" "writeTable t = Inr (be 4 (length bs) @ bs)"
    using writeTable_ok by blast
  have "entries_ok t" using t by (simp add: table_ok_def)
  from field_roundtrip(3) [OF this] bs(1) obtain
    loop: "\<forall>n u. 2 * length bs + 2 \<le> n \<longrightarrow> fst ` set u \<inter> fst ` set t = {} \<longrightarrow> rdTableLoop n u bs = (Inr (u @ t), [])"
    by (metis Inr_inject)
  have "rdTableLoop (2 * length bs + 2) [] bs = (Inr t, [])"
    using loop [rule_format, of "2 * length bs + 2" "[]"] by (simp del: rdTableLoop.simps)
  then show ?thesis using bs by (intro roundtripsI [OF bs(3)]) (simp add: readTable_def wire_eval)
qed

lemma rt_field: "field_ok f \<Longrightarrow> roundtrips (writeField f) readField f"
proof -
  assume "field_ok f"
  from field_roundtrip(1) [OF this] obtain bs where bs: "writeField f = Inr bs"
    "\<And>n rest. 2 * length bs + 1 \<le> n \<Longrightarrow> rdField n (bs @ rest) = (Inr f, rest)" by blast
  have "readField (bs @ rest) = (Inr f, rest)" for rest
    unfolding readField_def by (rule bs(2)) simp
  with bs(1) show ?thesis by (rule roundtripsI)
qed

interpretation table_codec: codec writeTable readTable table_ok "\<lambda>t. t"
  by unfold_locales (rule rt_table)

interpretation field_codec: codec writeField readField field_ok "\<lambda>f. f"
  by unfold_locales (rule rt_field)

interpretation shortstr_codec: codec writeShortstr readShortstr "\<lambda>s. length s < 256" "\<lambda>s. s"
  by unfold_locales (rule rt_shortstr)

interpretation longstr_codec: codec writeLongstr readLongstr "\<lambda>s. length s < 2 ^ 32" "\<lambda>s. s"
  by unfold_locales (rule rt_longstr)


section \<open>Properties of the wire types\<close>

text \<open>
  Tables survive the wire. A table the wire can hold is written without error, read
  back with the same entries in the same order, nested arrays and tables included, and whatever
  follows it in the stream is left there; two such tables with the same encoding are equal.
\<close>

theorem table_roundtrip:
  assumes "table_ok t"
  shows "\<exists>bs. writeTable t = Inr bs \<and> (\<forall>rest. readTable (bs @ rest) = (Inr t, rest)) \<and>
     (\<forall>u. table_ok u \<and> writeTable u = Inr bs \<longrightarrow> u = t)"
  using table_codec.total [OF assms] table_codec.decode_encode [OF assms]
    table_codec.encode_inject [OF _ assms] by auto

theorem table_roundtrip_witness:
  "\<exists>bs. writeTable [([0x61], FdArray [FdBool True, FdInt32 7]), ([0x62], FdTable [([], FdNil)])] = Inr bs \<and>
     readTable (bs @ [1, 2]) =
       (Inr [([0x61], FdArray [FdBool True, FdInt32 7]), ([0x62], FdTable [([], FdNil)])], [1, 2])"
proof -
  have "table_ok [([0x61], FdArray [FdBool True, FdInt32 7]), ([0x62], FdTable [([], FdNil)])]"
    by (simp add: table_ok_def fits_in_def wire_eval)
  from table_roundtrip [OF this] show ?thesis by blast
qed

text \<open>
  An array that ends in the middle of an element is accepted. With the type of one more element
  and nothing after it inside the declared size, the array is read as if that element were
  not there: the \<open>EOF\<close> of the element is taken for the end of the array.
\<close>

theorem truncated_array_accepted:
  assumes "fields_ok fs" and "writeFields fs = Inr bs" and "length bs + 1 < 2 ^ 32"
  shows "readArray (be 4 (length bs + 1) @ bs @ [0x74] @ rest) = (Inr fs, rest)"
proof -
  have "eof_tail [0x74]"
    by (simp add: eof_tail_def wire_eval) (simp add: read_u8_def read_word_def rbind_def ReadFull_def)
  moreover obtain "\<forall>n tail. 2 * length (bs @ tail) + 2 \<le> n \<longrightarrow> eof_tail tail \<longrightarrow>
      rdArrayLoop n (bs @ tail) = (Inr fs, [])"
    using field_roundtrip(2) [OF assms(1)] assms(2) by (metis Inr_inject)
  ultimately have "rdArrayLoop (2 * length (bs @ [0x74]) + 2) (bs @ [0x74]) = (Inr fs, [])" by blast
  then have lim: "limited (length bs + 1) (\<lambda>s. rdArrayLoop (2 * length s + 2) s) ((bs @ [0x74]) @ rest) = (Inr fs, rest)"
    by (intro limited_append) simp_all
  have "read_u32 (be 4 (length bs + 1) @ s) = (Inr (of_nat (length bs + 1)), s)" for s
    using assms(3) by (rule read_be_u32)
  moreover have "unat (of_nat (length bs + 1) :: 32 word) = length bs + 1"
    using assms(3) by (simp add: unat_of_nat del: of_nat_Suc of_nat_add)
  ultimately show ?thesis using lim by (simp add: readArray_def rbind_def del: rdArrayLoop.simps of_nat_Suc of_nat_add)
qed

theorem truncated_array_accepted_witness:
  "readArray [0, 0, 0, 2, 0x56, 0x74, 9] = (Inr [FdNil], [9])"
proof -
  have be: "be 4 (length [0x56 :: byte] + 1) = [0, 0, 0, 2]" by code_simp
  have "writeFields [FdNil] = Inr [0x56]" by (simp add: wthen_def)
  then have "readArray (be 4 (length [0x56 :: byte] + 1) @ [0x56] @ [0x74] @ [9]) = (Inr [FdNil], [9])"
    by (intro truncated_array_accepted) simp_all
  then show ?thesis unfolding be by simp
qed

end
