(* ===== verification/Amqp_Header.thy ===== *)
theory Amqp_Header
  imports Amqp_Field
begin

text \<open>
  The properties of a message and the content header frame's payload (\<open>headerFrame.write\<close> in
  \<open>write.go\<close>, \<open>parseHeaderFrame\<close> in \<open>read.go\<close>, \<open>properties\<close> in \<open>types.go\<close>): a mask says
  which of the properties follow.
\<close>

section \<open>Properties\<close>

record properties =
  ContentType :: bytes
  ContentEncoding :: bytes
  Headers :: table
  DeliveryMode :: byte
  Priority :: byte
  CorrelationId :: bytes
  ReplyTo :: bytes
  Expiration :: bytes
  MessageId :: bytes
  Timestamp :: int
  Type :: bytes
  UserId :: bytes
  AppId :: bytes
  reserved1 :: bytes

text \<open>The zero \<open>time.Time\<close> is the first of January of the year 1.\<close>

definition zeroTime :: int where
  "zeroTime = - 62135596800 * second"

definition no_properties :: properties where
  "no_properties =
     \<lparr>ContentType = [], ContentEncoding = [], Headers = [], DeliveryMode = 0, Priority = 0,
      CorrelationId = [], ReplyTo = [], Expiration = [], MessageId = [], Timestamp = zeroTime,
      Type = [], UserId = [], AppId = [], reserved1 = []\<rparr>"

definition flagContentType :: "16 word" where "flagContentType = 0x8000"
definition flagContentEncoding :: "16 word" where "flagContentEncoding = 0x4000"
definition flagHeaders :: "16 word" where "flagHeaders = 0x2000"
definition flagDeliveryMode :: "16 word" where "flagDeliveryMode = 0x1000"
definition flagPriority :: "16 word" where "flagPriority = 0x0800"
definition flagCorrelationId :: "16 word" where "flagCorrelationId = 0x0400"
definition flagReplyTo :: "16 word" where "flagReplyTo = 0x0200"
definition flagExpiration :: "16 word" where "flagExpiration = 0x0100"
definition flagMessageId :: "16 word" where "flagMessageId = 0x0080"
definition flagTimestamp :: "16 word" where "flagTimestamp = 0x0040"
definition flagType :: "16 word" where "flagType = 0x0020"
definition flagUserId :: "16 word" where "flagUserId = 0x0010"
definition flagAppId :: "16 word" where "flagAppId = 0x0008"
definition flagReserved1 :: "16 word" where "flagReserved1 = 0x0004"

definition hasProperty :: "16 word \<Rightarrow> 16 word \<Rightarrow> bool" where
  "hasProperty m prop \<longleftrightarrow> 0 < m AND prop"


section \<open>Writing\<close>

fun or_flags :: "(bool \<times> 16 word) list \<Rightarrow> 16 word \<Rightarrow> 16 word" where
  "or_flags [] m = m"
| "or_flags ((c, f) # cfs) m = or_flags cfs (if c then m OR f else m)"

text \<open>The property \<open>reserved1\<close> is never written.\<close>

definition property_mask :: "properties \<Rightarrow> 16 word" where
  "property_mask p =
     or_flags
       [(0 < length (ContentType p), flagContentType),
        (0 < length (ContentEncoding p), flagContentEncoding),
        (0 < length (Headers p), flagHeaders),
        (0 < DeliveryMode p, flagDeliveryMode),
        (0 < Priority p, flagPriority),
        (0 < length (CorrelationId p), flagCorrelationId),
        (0 < length (ReplyTo p), flagReplyTo),
        (0 < length (Expiration p), flagExpiration),
        (0 < length (MessageId p), flagMessageId),
        (Timestamp p \<noteq> zeroTime, flagTimestamp),
        (0 < length (Type p), flagType),
        (0 < length (UserId p), flagUserId),
        (0 < length (AppId p), flagAppId)] 0"

definition write_if :: "bool \<Rightarrow> wr \<Rightarrow> wr" where
  "write_if c w = (if c then w else Inr [])"

definition write_properties :: "16 word \<Rightarrow> properties \<Rightarrow> wr" where
  "write_properties m p =
     wseq
       [write_if (hasProperty m flagContentType) (writeShortstr (ContentType p)),
        write_if (hasProperty m flagContentEncoding) (writeShortstr (ContentEncoding p)),
        write_if (hasProperty m flagHeaders) (writeTable (Headers p)),
        write_if (hasProperty m flagDeliveryMode) (write_u8 (DeliveryMode p)),
        write_if (hasProperty m flagPriority) (write_u8 (Priority p)),
        write_if (hasProperty m flagCorrelationId) (writeShortstr (CorrelationId p)),
        write_if (hasProperty m flagReplyTo) (writeShortstr (ReplyTo p)),
        write_if (hasProperty m flagExpiration) (writeShortstr (Expiration p)),
        write_if (hasProperty m flagMessageId) (writeShortstr (MessageId p)),
        write_if (hasProperty m flagTimestamp) (write_u64 (unix_seconds (Timestamp p))),
        write_if (hasProperty m flagType) (writeShortstr (Type p)),
        write_if (hasProperty m flagUserId) (writeShortstr (UserId p)),
        write_if (hasProperty m flagAppId) (writeShortstr (AppId p))]"

definition write_header :: "16 word \<Rightarrow> 16 word \<Rightarrow> 64 word \<Rightarrow> properties \<Rightarrow> wr" where
  "write_header classId weight sz p =
     wseq [write_u16 classId, write_u16 weight, write_u64 sz, write_u16 (property_mask p),
           write_properties (property_mask p) p]"


section \<open>Reading\<close>

definition read_if :: "bool \<Rightarrow> 'a rd \<Rightarrow> 'a \<Rightarrow> 'a rd" where
  "read_if c p d = (if c then p else rreturn d)"

definition read_properties :: "16 word \<Rightarrow> properties rd" where
  "read_properties flags =
     rbind (read_if (hasProperty flags flagContentType) readShortstr []) (\<lambda>contentType.
     rbind (read_if (hasProperty flags flagContentEncoding) readShortstr []) (\<lambda>contentEncoding.
     rbind (read_if (hasProperty flags flagHeaders) readTable []) (\<lambda>headers.
     rbind (read_if (hasProperty flags flagDeliveryMode) read_u8 0) (\<lambda>deliveryMode.
     rbind (read_if (hasProperty flags flagPriority) read_u8 0) (\<lambda>priority.
     rbind (read_if (hasProperty flags flagCorrelationId) readShortstr []) (\<lambda>correlationId.
     rbind (read_if (hasProperty flags flagReplyTo) readShortstr []) (\<lambda>replyTo.
     rbind (read_if (hasProperty flags flagExpiration) readShortstr []) (\<lambda>expiration.
     rbind (read_if (hasProperty flags flagMessageId) readShortstr []) (\<lambda>messageId.
     rbind (read_if (hasProperty flags flagTimestamp) readTimestamp zeroTime) (\<lambda>timestamp.
     rbind (read_if (hasProperty flags flagType) readShortstr []) (\<lambda>typ.
     rbind (read_if (hasProperty flags flagUserId) readShortstr []) (\<lambda>userId.
     rbind (read_if (hasProperty flags flagAppId) readShortstr []) (\<lambda>appId.
     rbind (read_if (hasProperty flags flagReserved1) readShortstr []) (\<lambda>res1.
     rreturn
       \<lparr>ContentType = contentType, ContentEncoding = contentEncoding, Headers = headers,
        DeliveryMode = deliveryMode, Priority = priority, CorrelationId = correlationId,
        ReplyTo = replyTo, Expiration = expiration, MessageId = messageId, Timestamp = timestamp,
        Type = typ, UserId = userId, AppId = appId, reserved1 = res1\<rparr>))))))))))))))"

definition read_header :: "(16 word \<times> 16 word \<times> 64 word \<times> properties) rd" where
  "read_header =
     rbind read_u16 (\<lambda>classId.
     rbind read_u16 (\<lambda>weight.
     rbind read_u64 (\<lambda>sz.
     rbind read_u16 (\<lambda>flags.
     rbind (read_properties flags) (\<lambda>p. rreturn (classId, weight, sz, p))))))"


section \<open>The mask\<close>

definition bit16 :: "nat \<Rightarrow> 16 word" where
  "bit16 k = 2 ^ k"

lemma hasProperty_bit: "hasProperty m (bit16 k) \<longleftrightarrow> bit m k"
  by (simp add: hasProperty_def bit16_def word_gt_0 and_exp_eq_0_iff_not_bit)

lemma bit_or_flags:
  "bit (or_flags cfs m) k \<longleftrightarrow> bit m k \<or> (\<exists>(c, f)\<in>set cfs. c \<and> bit f k)"
  by (induction cfs m rule: or_flags.induct) (auto simp: bit_or_iff)

lemma flags_eq:
  "flagContentType = bit16 15" "flagContentEncoding = bit16 14" "flagHeaders = bit16 13"
  "flagDeliveryMode = bit16 12" "flagPriority = bit16 11" "flagCorrelationId = bit16 10"
  "flagReplyTo = bit16 9" "flagExpiration = bit16 8" "flagMessageId = bit16 7" "flagTimestamp = bit16 6"
  "flagType = bit16 5" "flagUserId = bit16 4" "flagAppId = bit16 3" "flagReserved1 = bit16 2"
  by (simp_all add: flagContentType_def flagContentEncoding_def flagHeaders_def flagDeliveryMode_def
      flagPriority_def flagCorrelationId_def flagReplyTo_def flagExpiration_def flagMessageId_def
      flagTimestamp_def flagType_def flagUserId_def flagAppId_def flagReserved1_def bit16_def)

lemma bit_bit16: "bit (bit16 j) k \<longleftrightarrow> j = k \<and> k < 16"
  by (auto simp: bit16_def bit_exp_iff possible_bit_def)

lemma hasProperty_mask:
  "hasProperty (property_mask p) flagContentType \<longleftrightarrow> ContentType p \<noteq> []"
  "hasProperty (property_mask p) flagContentEncoding \<longleftrightarrow> ContentEncoding p \<noteq> []"
  "hasProperty (property_mask p) flagHeaders \<longleftrightarrow> Headers p \<noteq> []"
  "hasProperty (property_mask p) flagDeliveryMode \<longleftrightarrow> DeliveryMode p \<noteq> 0"
  "hasProperty (property_mask p) flagPriority \<longleftrightarrow> Priority p \<noteq> 0"
  "hasProperty (property_mask p) flagCorrelationId \<longleftrightarrow> CorrelationId p \<noteq> []"
  "hasProperty (property_mask p) flagReplyTo \<longleftrightarrow> ReplyTo p \<noteq> []"
  "hasProperty (property_mask p) flagExpiration \<longleftrightarrow> Expiration p \<noteq> []"
  "hasProperty (property_mask p) flagMessageId \<longleftrightarrow> MessageId p \<noteq> []"
  "hasProperty (property_mask p) flagTimestamp \<longleftrightarrow> Timestamp p \<noteq> zeroTime"
  "hasProperty (property_mask p) flagType \<longleftrightarrow> Type p \<noteq> []"
  "hasProperty (property_mask p) flagUserId \<longleftrightarrow> UserId p \<noteq> []"
  "hasProperty (property_mask p) flagAppId \<longleftrightarrow> AppId p \<noteq> []"
  "hasProperty (property_mask p) flagReserved1 \<longleftrightarrow> False"
  unfolding flags_eq property_mask_def
  by (simp_all add: hasProperty_bit bit_or_flags bit_bit16 word_gt_0 del: or_flags.simps)

lemma rt_if:
  assumes "c \<Longrightarrow> roundtrips w p x" and "\<not> c \<Longrightarrow> x = d"
  shows "roundtrips (write_if c w) (read_if c p d) x"
  using assms by (cases c) (auto simp: write_if_def read_if_def roundtrips_def rreturn_def)

lemma rt_timestamp:
  assumes "t mod second = 0" and "in_int64 (t div second)"
  shows "roundtrips (write_u64 (unix_seconds t)) readTimestamp t"
proof -
  have "t div second * second = t" using div_mult_mod_eq [of t second] assms(1) by simp
  then show ?thesis using assms(2)
    by (intro roundtripsI [of _ "be 8 (unat (unix_seconds t))"])
      (simp_all add: readTimestamp_def rbind_def rreturn_def sint_unix_seconds)
qed

definition properties_ok :: "properties \<Rightarrow> bool" where
  "properties_ok p \<longleftrightarrow>
     length (ContentType p) < 256 \<and> length (ContentEncoding p) < 256 \<and> table_ok (Headers p) \<and>
     length (CorrelationId p) < 256 \<and> length (ReplyTo p) < 256 \<and> length (Expiration p) < 256 \<and>
     length (MessageId p) < 256 \<and> Timestamp p mod second = 0 \<and> in_int64 (Timestamp p div second) \<and>
     length (Type p) < 256 \<and> length (UserId p) < 256 \<and> length (AppId p) < 256 \<and> reserved1 p = []"

lemma rt_properties:
  assumes "properties_ok p"
  shows "roundtrips (write_properties (property_mask p) p) (read_properties (property_mask p)) p"
proof -
  have tail: "rbind (read_if (hasProperty (property_mask p) flagReserved1) readShortstr []) f = f []" for f :: "bytes \<Rightarrow> properties rd"
    by (simp add: hasProperty_mask read_if_def rbind_def rreturn_def fun_eq_iff)
  show ?thesis
    using assms unfolding write_properties_def read_properties_def tail properties_ok_def
    by (elim conjE) ((rule rt_Cons rt_if rt_shortstr rt_table rt_words rt_timestamp rt_Nil
      | simp add: hasProperty_mask)+)
qed

lemma rt_header:
  "properties_ok p \<Longrightarrow> roundtrips (write_header c w n p) read_header (c, w, n, p)"
  unfolding write_header_def read_header_def
  by ((rule rt_Cons rt_properties rt_words rt_Nil | simp)+)

end
