(* ===== verification/Amqp_Methods_A.thy ===== *)
theory Amqp_Methods_A
  imports Amqp_Header
begin

text \<open>
  The methods of AMQP 0-9-1, classes connection, channel and exchange, from \<open>spec091.go\<close> of
  the vendored library: one constructor per struct, its fields in the order of the struct, a
  writer and a reader per method, and the dispatch of \<open>parseMethodFrame\<close> on the method
  number. Consecutive booleans share one byte.
\<close>

section \<open>Bits\<close>

text \<open>\<open>if b { bits |= 1 << k }\<close> and \<open>bits & (1 << k) > 0\<close>.\<close>

definition set_bit :: "nat \<Rightarrow> bool \<Rightarrow> byte \<Rightarrow> byte" where
  "set_bit k b w = (if b then w OR push_bit k 1 else w)"

definition get_bit :: "byte \<Rightarrow> nat \<Rightarrow> bool" where
  "get_bit w k \<longleftrightarrow> 0 < w AND push_bit k 1"

lemma get_bit_iff: "get_bit w k \<longleftrightarrow> bit w k"
  by (simp add: get_bit_def push_bit_eq_mult word_gt_0 and_exp_eq_0_iff_not_bit)

lemma get_set_bit [simp]:
  "k < 8 \<Longrightarrow> get_bit (set_bit k b w) k \<longleftrightarrow> b \<or> get_bit w k"
  "j \<noteq> k \<Longrightarrow> get_bit (set_bit j b w) k \<longleftrightarrow> get_bit w k"
  "\<not> get_bit 0 k"
  by (auto simp: get_bit_iff set_bit_def bit_or_iff bit_push_bit_iff bit_1_iff bit_exp_iff possible_bit_def)

lemmas rt_parts = rt_Cons rt_shortstr rt_longstr rt_table rt_words rt_Nil

section \<open>Class 10, connection\<close>

datatype connection_method =
    ConnectionStart byte byte table bytes bytes
  | ConnectionStartOk table bytes bytes bytes
  | ConnectionSecure bytes
  | ConnectionSecureOk bytes
  | ConnectionTune "16 word" "32 word" "16 word"
  | ConnectionTuneOk "16 word" "32 word" "16 word"
  | ConnectionOpen bytes bytes bool
  | ConnectionOpenOk bytes
  | ConnectionClose "16 word" bytes "16 word" "16 word"
  | ConnectionCloseOk
  | ConnectionBlocked bytes
  | ConnectionUnblocked

fun connection_id :: "connection_method \<Rightarrow> 16 word \<times> 16 word" where
  "connection_id (ConnectionStart _ _ _ _ _) = (10, 10)"
| "connection_id (ConnectionStartOk _ _ _ _) = (10, 11)"
| "connection_id (ConnectionSecure _) = (10, 20)"
| "connection_id (ConnectionSecureOk _) = (10, 21)"
| "connection_id (ConnectionTune _ _ _) = (10, 30)"
| "connection_id (ConnectionTuneOk _ _ _) = (10, 31)"
| "connection_id (ConnectionOpen _ _ _) = (10, 40)"
| "connection_id (ConnectionOpenOk _) = (10, 41)"
| "connection_id (ConnectionClose _ _ _ _) = (10, 50)"
| "connection_id ConnectionCloseOk = (10, 51)"
| "connection_id (ConnectionBlocked _) = (10, 60)"
| "connection_id ConnectionUnblocked = (10, 61)"

fun connection_wait :: "connection_method \<Rightarrow> bool" where
  "connection_wait (ConnectionStart _ _ _ _ _) = True"
| "connection_wait (ConnectionStartOk _ _ _ _) = True"
| "connection_wait (ConnectionSecure _) = True"
| "connection_wait (ConnectionSecureOk _) = True"
| "connection_wait (ConnectionTune _ _ _) = True"
| "connection_wait (ConnectionTuneOk _ _ _) = True"
| "connection_wait (ConnectionOpen _ _ _) = True"
| "connection_wait (ConnectionOpenOk _) = True"
| "connection_wait (ConnectionClose _ _ _ _) = True"
| "connection_wait ConnectionCloseOk = True"
| "connection_wait (ConnectionBlocked _) = False"
| "connection_wait ConnectionUnblocked = False"

definition write_connectionStart :: "byte \<Rightarrow> byte \<Rightarrow> table \<Rightarrow> bytes \<Rightarrow> bytes \<Rightarrow> wr" where
  "write_connectionStart versionMajor versionMinor serverProperties mechanisms locales =
     wseq [write_u8 versionMajor, write_u8 versionMinor, writeTable serverProperties, writeLongstr mechanisms, writeLongstr locales]"

definition read_connectionStart :: "connection_method rd" where
  "read_connectionStart =
     rbind read_u8 (\<lambda>versionMajor.
     rbind read_u8 (\<lambda>versionMinor.
     rbind readTable (\<lambda>serverProperties.
     rbind readLongstr (\<lambda>mechanisms.
     rbind readLongstr (\<lambda>locales.
     rreturn (ConnectionStart versionMajor versionMinor serverProperties mechanisms locales))))))"

definition write_connectionStartOk :: "table \<Rightarrow> bytes \<Rightarrow> bytes \<Rightarrow> bytes \<Rightarrow> wr" where
  "write_connectionStartOk clientProperties mechanism response locale =
     wseq [writeTable clientProperties, writeShortstr mechanism, writeLongstr response, writeShortstr locale]"

definition read_connectionStartOk :: "connection_method rd" where
  "read_connectionStartOk =
     rbind readTable (\<lambda>clientProperties.
     rbind readShortstr (\<lambda>mechanism.
     rbind readLongstr (\<lambda>response.
     rbind readShortstr (\<lambda>locale.
     rreturn (ConnectionStartOk clientProperties mechanism response locale)))))"

definition write_connectionSecure :: "bytes \<Rightarrow> wr" where
  "write_connectionSecure challenge =
     wseq [writeLongstr challenge]"

definition read_connectionSecure :: "connection_method rd" where
  "read_connectionSecure =
     rbind readLongstr (\<lambda>challenge.
     rreturn (ConnectionSecure challenge))"

definition write_connectionSecureOk :: "bytes \<Rightarrow> wr" where
  "write_connectionSecureOk response =
     wseq [writeLongstr response]"

definition read_connectionSecureOk :: "connection_method rd" where
  "read_connectionSecureOk =
     rbind readLongstr (\<lambda>response.
     rreturn (ConnectionSecureOk response))"

definition write_connectionTune :: "16 word \<Rightarrow> 32 word \<Rightarrow> 16 word \<Rightarrow> wr" where
  "write_connectionTune channelMax frameMax heartbeat =
     wseq [write_u16 channelMax, write_u32 frameMax, write_u16 heartbeat]"

definition read_connectionTune :: "connection_method rd" where
  "read_connectionTune =
     rbind read_u16 (\<lambda>channelMax.
     rbind read_u32 (\<lambda>frameMax.
     rbind read_u16 (\<lambda>heartbeat.
     rreturn (ConnectionTune channelMax frameMax heartbeat))))"

definition write_connectionTuneOk :: "16 word \<Rightarrow> 32 word \<Rightarrow> 16 word \<Rightarrow> wr" where
  "write_connectionTuneOk channelMax frameMax heartbeat =
     wseq [write_u16 channelMax, write_u32 frameMax, write_u16 heartbeat]"

definition read_connectionTuneOk :: "connection_method rd" where
  "read_connectionTuneOk =
     rbind read_u16 (\<lambda>channelMax.
     rbind read_u32 (\<lambda>frameMax.
     rbind read_u16 (\<lambda>heartbeat.
     rreturn (ConnectionTuneOk channelMax frameMax heartbeat))))"

definition write_connectionOpen :: "bytes \<Rightarrow> bytes \<Rightarrow> bool \<Rightarrow> wr" where
  "write_connectionOpen virtualHost res1 res2 =
     wseq [writeShortstr virtualHost, writeShortstr res1, write_u8 (set_bit 0 res2 0)]"

definition read_connectionOpen :: "connection_method rd" where
  "read_connectionOpen =
     rbind readShortstr (\<lambda>virtualHost.
     rbind readShortstr (\<lambda>res1.
     rbind read_u8 (\<lambda>bits.
     rreturn (ConnectionOpen virtualHost res1 (get_bit bits 0)))))"

definition write_connectionOpenOk :: "bytes \<Rightarrow> wr" where
  "write_connectionOpenOk res1 =
     wseq [writeShortstr res1]"

definition read_connectionOpenOk :: "connection_method rd" where
  "read_connectionOpenOk =
     rbind readShortstr (\<lambda>res1.
     rreturn (ConnectionOpenOk res1))"

definition write_connectionClose :: "16 word \<Rightarrow> bytes \<Rightarrow> 16 word \<Rightarrow> 16 word \<Rightarrow> wr" where
  "write_connectionClose replyCode replyText classId methodId =
     wseq [write_u16 replyCode, writeShortstr replyText, write_u16 classId, write_u16 methodId]"

definition read_connectionClose :: "connection_method rd" where
  "read_connectionClose =
     rbind read_u16 (\<lambda>replyCode.
     rbind readShortstr (\<lambda>replyText.
     rbind read_u16 (\<lambda>classId.
     rbind read_u16 (\<lambda>methodId.
     rreturn (ConnectionClose replyCode replyText classId methodId)))))"

definition write_connectionCloseOk :: "wr" where
  "write_connectionCloseOk =
     wseq []"

definition read_connectionCloseOk :: "connection_method rd" where
  "read_connectionCloseOk =
     rreturn ConnectionCloseOk"

definition write_connectionBlocked :: "bytes \<Rightarrow> wr" where
  "write_connectionBlocked reason =
     wseq [writeShortstr reason]"

definition read_connectionBlocked :: "connection_method rd" where
  "read_connectionBlocked =
     rbind readShortstr (\<lambda>reason.
     rreturn (ConnectionBlocked reason))"

definition write_connectionUnblocked :: "wr" where
  "write_connectionUnblocked =
     wseq []"

definition read_connectionUnblocked :: "connection_method rd" where
  "read_connectionUnblocked =
     rreturn ConnectionUnblocked"

fun write_connection :: "connection_method \<Rightarrow> wr" where
  "write_connection (ConnectionStart versionMajor versionMinor serverProperties mechanisms locales) = write_connectionStart versionMajor versionMinor serverProperties mechanisms locales"
| "write_connection (ConnectionStartOk clientProperties mechanism response locale) = write_connectionStartOk clientProperties mechanism response locale"
| "write_connection (ConnectionSecure challenge) = write_connectionSecure challenge"
| "write_connection (ConnectionSecureOk response) = write_connectionSecureOk response"
| "write_connection (ConnectionTune channelMax frameMax heartbeat) = write_connectionTune channelMax frameMax heartbeat"
| "write_connection (ConnectionTuneOk channelMax frameMax heartbeat) = write_connectionTuneOk channelMax frameMax heartbeat"
| "write_connection (ConnectionOpen virtualHost res1 res2) = write_connectionOpen virtualHost res1 res2"
| "write_connection (ConnectionOpenOk res1) = write_connectionOpenOk res1"
| "write_connection (ConnectionClose replyCode replyText classId methodId) = write_connectionClose replyCode replyText classId methodId"
| "write_connection ConnectionCloseOk = write_connectionCloseOk"
| "write_connection (ConnectionBlocked reason) = write_connectionBlocked reason"
| "write_connection ConnectionUnblocked = write_connectionUnblocked"

definition parse_connection :: "16 word \<Rightarrow> connection_method rd" where
  "parse_connection methodId =
     (if methodId = 10 then read_connectionStart
      else if methodId = 11 then read_connectionStartOk
      else if methodId = 20 then read_connectionSecure
      else if methodId = 21 then read_connectionSecureOk
      else if methodId = 30 then read_connectionTune
      else if methodId = 31 then read_connectionTuneOk
      else if methodId = 40 then read_connectionOpen
      else if methodId = 41 then read_connectionOpenOk
      else if methodId = 50 then read_connectionClose
      else if methodId = 51 then read_connectionCloseOk
      else if methodId = 60 then read_connectionBlocked
      else if methodId = 61 then read_connectionUnblocked
      else rfail ErrBadMethod)"

text \<open>The strings and tables of a method fit their length fields.\<close>

fun connection_ok :: "connection_method \<Rightarrow> bool" where
  "connection_ok (ConnectionStart _ _ serverProperties mechanisms locales) = (table_ok serverProperties \<and> length mechanisms < 2 ^ 32 \<and> length locales < 2 ^ 32)"
| "connection_ok (ConnectionStartOk clientProperties mechanism response locale) = (table_ok clientProperties \<and> length mechanism < 256 \<and> length response < 2 ^ 32 \<and> length locale < 256)"
| "connection_ok (ConnectionSecure challenge) = (length challenge < 2 ^ 32)"
| "connection_ok (ConnectionSecureOk response) = (length response < 2 ^ 32)"
| "connection_ok (ConnectionOpen virtualHost res1 _) = (length virtualHost < 256 \<and> length res1 < 256)"
| "connection_ok (ConnectionOpenOk res1) = (length res1 < 256)"
| "connection_ok (ConnectionClose _ replyText _ _) = (length replyText < 256)"
| "connection_ok (ConnectionBlocked reason) = (length reason < 256)"
| "connection_ok _ = True"

lemma rt_connectionStart:
  "table_ok serverProperties \<Longrightarrow> length mechanisms < 2 ^ 32 \<Longrightarrow> length locales < 2 ^ 32 \<Longrightarrow>
   roundtrips (write_connectionStart versionMajor versionMinor serverProperties mechanisms locales) read_connectionStart
     (ConnectionStart versionMajor versionMinor serverProperties mechanisms locales)"
  unfolding write_connectionStart_def read_connectionStart_def by ((rule rt_parts | simp)+)

lemma rt_connectionStartOk:
  "table_ok clientProperties \<Longrightarrow> length mechanism < 256 \<Longrightarrow> length response < 2 ^ 32 \<Longrightarrow> length locale < 256 \<Longrightarrow>
   roundtrips (write_connectionStartOk clientProperties mechanism response locale) read_connectionStartOk
     (ConnectionStartOk clientProperties mechanism response locale)"
  unfolding write_connectionStartOk_def read_connectionStartOk_def by ((rule rt_parts | simp)+)

lemma rt_connectionSecure:
  "length challenge < 2 ^ 32 \<Longrightarrow>
   roundtrips (write_connectionSecure challenge) read_connectionSecure
     (ConnectionSecure challenge)"
  unfolding write_connectionSecure_def read_connectionSecure_def by ((rule rt_parts | simp)+)

lemma rt_connectionSecureOk:
  "length response < 2 ^ 32 \<Longrightarrow>
   roundtrips (write_connectionSecureOk response) read_connectionSecureOk
     (ConnectionSecureOk response)"
  unfolding write_connectionSecureOk_def read_connectionSecureOk_def by ((rule rt_parts | simp)+)

lemma rt_connectionTune:
  "roundtrips (write_connectionTune channelMax frameMax heartbeat) read_connectionTune
     (ConnectionTune channelMax frameMax heartbeat)"
  unfolding write_connectionTune_def read_connectionTune_def by ((rule rt_parts | simp)+)

lemma rt_connectionTuneOk:
  "roundtrips (write_connectionTuneOk channelMax frameMax heartbeat) read_connectionTuneOk
     (ConnectionTuneOk channelMax frameMax heartbeat)"
  unfolding write_connectionTuneOk_def read_connectionTuneOk_def by ((rule rt_parts | simp)+)

lemma rt_connectionOpen:
  "length virtualHost < 256 \<Longrightarrow> length res1 < 256 \<Longrightarrow>
   roundtrips (write_connectionOpen virtualHost res1 res2) read_connectionOpen
     (ConnectionOpen virtualHost res1 res2)"
  unfolding write_connectionOpen_def read_connectionOpen_def by ((rule rt_parts | simp)+)

lemma rt_connectionOpenOk:
  "length res1 < 256 \<Longrightarrow>
   roundtrips (write_connectionOpenOk res1) read_connectionOpenOk
     (ConnectionOpenOk res1)"
  unfolding write_connectionOpenOk_def read_connectionOpenOk_def by ((rule rt_parts | simp)+)

lemma rt_connectionClose:
  "length replyText < 256 \<Longrightarrow>
   roundtrips (write_connectionClose replyCode replyText classId methodId) read_connectionClose
     (ConnectionClose replyCode replyText classId methodId)"
  unfolding write_connectionClose_def read_connectionClose_def by ((rule rt_parts | simp)+)

lemma rt_connectionCloseOk:
  "roundtrips write_connectionCloseOk read_connectionCloseOk
     ConnectionCloseOk"
  unfolding write_connectionCloseOk_def read_connectionCloseOk_def by ((rule rt_parts | simp)+)

lemma rt_connectionBlocked:
  "length reason < 256 \<Longrightarrow>
   roundtrips (write_connectionBlocked reason) read_connectionBlocked
     (ConnectionBlocked reason)"
  unfolding write_connectionBlocked_def read_connectionBlocked_def by ((rule rt_parts | simp)+)

lemma rt_connectionUnblocked:
  "roundtrips write_connectionUnblocked read_connectionUnblocked
     ConnectionUnblocked"
  unfolding write_connectionUnblocked_def read_connectionUnblocked_def by ((rule rt_parts | simp)+)

lemmas rt_connection_methods =
  rt_connectionStart rt_connectionStartOk rt_connectionSecure rt_connectionSecureOk rt_connectionTune rt_connectionTuneOk rt_connectionOpen rt_connectionOpenOk rt_connectionClose rt_connectionCloseOk rt_connectionBlocked rt_connectionUnblocked

lemma rt_connection:
  "connection_ok m \<Longrightarrow> roundtrips (write_connection m) (parse_connection (snd (connection_id m))) m"
  by (cases m) (simp_all add: parse_connection_def rt_connection_methods)


section \<open>Class 20, channel\<close>

datatype channel_method =
    ChannelOpen bytes
  | ChannelOpenOk bytes
  | ChannelFlow bool
  | ChannelFlowOk bool
  | ChannelClose "16 word" bytes "16 word" "16 word"
  | ChannelCloseOk

fun channel_id :: "channel_method \<Rightarrow> 16 word \<times> 16 word" where
  "channel_id (ChannelOpen _) = (20, 10)"
| "channel_id (ChannelOpenOk _) = (20, 11)"
| "channel_id (ChannelFlow _) = (20, 20)"
| "channel_id (ChannelFlowOk _) = (20, 21)"
| "channel_id (ChannelClose _ _ _ _) = (20, 40)"
| "channel_id ChannelCloseOk = (20, 41)"

fun channel_wait :: "channel_method \<Rightarrow> bool" where
  "channel_wait (ChannelOpen _) = True"
| "channel_wait (ChannelOpenOk _) = True"
| "channel_wait (ChannelFlow _) = True"
| "channel_wait (ChannelFlowOk _) = False"
| "channel_wait (ChannelClose _ _ _ _) = True"
| "channel_wait ChannelCloseOk = True"

definition write_channelOpen :: "bytes \<Rightarrow> wr" where
  "write_channelOpen res1 =
     wseq [writeShortstr res1]"

definition read_channelOpen :: "channel_method rd" where
  "read_channelOpen =
     rbind readShortstr (\<lambda>res1.
     rreturn (ChannelOpen res1))"

definition write_channelOpenOk :: "bytes \<Rightarrow> wr" where
  "write_channelOpenOk res1 =
     wseq [writeLongstr res1]"

definition read_channelOpenOk :: "channel_method rd" where
  "read_channelOpenOk =
     rbind readLongstr (\<lambda>res1.
     rreturn (ChannelOpenOk res1))"

definition write_channelFlow :: "bool \<Rightarrow> wr" where
  "write_channelFlow active =
     wseq [write_u8 (set_bit 0 active 0)]"

definition read_channelFlow :: "channel_method rd" where
  "read_channelFlow =
     rbind read_u8 (\<lambda>bits.
     rreturn (ChannelFlow (get_bit bits 0)))"

definition write_channelFlowOk :: "bool \<Rightarrow> wr" where
  "write_channelFlowOk active =
     wseq [write_u8 (set_bit 0 active 0)]"

definition read_channelFlowOk :: "channel_method rd" where
  "read_channelFlowOk =
     rbind read_u8 (\<lambda>bits.
     rreturn (ChannelFlowOk (get_bit bits 0)))"

definition write_channelClose :: "16 word \<Rightarrow> bytes \<Rightarrow> 16 word \<Rightarrow> 16 word \<Rightarrow> wr" where
  "write_channelClose replyCode replyText classId methodId =
     wseq [write_u16 replyCode, writeShortstr replyText, write_u16 classId, write_u16 methodId]"

definition read_channelClose :: "channel_method rd" where
  "read_channelClose =
     rbind read_u16 (\<lambda>replyCode.
     rbind readShortstr (\<lambda>replyText.
     rbind read_u16 (\<lambda>classId.
     rbind read_u16 (\<lambda>methodId.
     rreturn (ChannelClose replyCode replyText classId methodId)))))"

definition write_channelCloseOk :: "wr" where
  "write_channelCloseOk =
     wseq []"

definition read_channelCloseOk :: "channel_method rd" where
  "read_channelCloseOk =
     rreturn ChannelCloseOk"

fun write_channel :: "channel_method \<Rightarrow> wr" where
  "write_channel (ChannelOpen res1) = write_channelOpen res1"
| "write_channel (ChannelOpenOk res1) = write_channelOpenOk res1"
| "write_channel (ChannelFlow active) = write_channelFlow active"
| "write_channel (ChannelFlowOk active) = write_channelFlowOk active"
| "write_channel (ChannelClose replyCode replyText classId methodId) = write_channelClose replyCode replyText classId methodId"
| "write_channel ChannelCloseOk = write_channelCloseOk"

definition parse_channel :: "16 word \<Rightarrow> channel_method rd" where
  "parse_channel methodId =
     (if methodId = 10 then read_channelOpen
      else if methodId = 11 then read_channelOpenOk
      else if methodId = 20 then read_channelFlow
      else if methodId = 21 then read_channelFlowOk
      else if methodId = 40 then read_channelClose
      else if methodId = 41 then read_channelCloseOk
      else rfail ErrBadMethod)"

text \<open>The strings and tables of a method fit their length fields.\<close>

fun channel_ok :: "channel_method \<Rightarrow> bool" where
  "channel_ok (ChannelOpen res1) = (length res1 < 256)"
| "channel_ok (ChannelOpenOk res1) = (length res1 < 2 ^ 32)"
| "channel_ok (ChannelClose _ replyText _ _) = (length replyText < 256)"
| "channel_ok _ = True"

lemma rt_channelOpen:
  "length res1 < 256 \<Longrightarrow>
   roundtrips (write_channelOpen res1) read_channelOpen
     (ChannelOpen res1)"
  unfolding write_channelOpen_def read_channelOpen_def by ((rule rt_parts | simp)+)

lemma rt_channelOpenOk:
  "length res1 < 2 ^ 32 \<Longrightarrow>
   roundtrips (write_channelOpenOk res1) read_channelOpenOk
     (ChannelOpenOk res1)"
  unfolding write_channelOpenOk_def read_channelOpenOk_def by ((rule rt_parts | simp)+)

lemma rt_channelFlow:
  "roundtrips (write_channelFlow active) read_channelFlow
     (ChannelFlow active)"
  unfolding write_channelFlow_def read_channelFlow_def by ((rule rt_parts | simp)+)

lemma rt_channelFlowOk:
  "roundtrips (write_channelFlowOk active) read_channelFlowOk
     (ChannelFlowOk active)"
  unfolding write_channelFlowOk_def read_channelFlowOk_def by ((rule rt_parts | simp)+)

lemma rt_channelClose:
  "length replyText < 256 \<Longrightarrow>
   roundtrips (write_channelClose replyCode replyText classId methodId) read_channelClose
     (ChannelClose replyCode replyText classId methodId)"
  unfolding write_channelClose_def read_channelClose_def by ((rule rt_parts | simp)+)

lemma rt_channelCloseOk:
  "roundtrips write_channelCloseOk read_channelCloseOk
     ChannelCloseOk"
  unfolding write_channelCloseOk_def read_channelCloseOk_def by ((rule rt_parts | simp)+)

lemmas rt_channel_methods =
  rt_channelOpen rt_channelOpenOk rt_channelFlow rt_channelFlowOk rt_channelClose rt_channelCloseOk

lemma rt_channel:
  "channel_ok m \<Longrightarrow> roundtrips (write_channel m) (parse_channel (snd (channel_id m))) m"
  by (cases m) (simp_all add: parse_channel_def rt_channel_methods)


section \<open>Class 40, exchange\<close>

datatype exchange_method =
    ExchangeDeclare "16 word" bytes bytes bool bool bool bool bool table
  | ExchangeDeclareOk
  | ExchangeDelete "16 word" bytes bool bool
  | ExchangeDeleteOk
  | ExchangeBind "16 word" bytes bytes bytes bool table
  | ExchangeBindOk
  | ExchangeUnbind "16 word" bytes bytes bytes bool table
  | ExchangeUnbindOk

fun exchange_id :: "exchange_method \<Rightarrow> 16 word \<times> 16 word" where
  "exchange_id (ExchangeDeclare _ _ _ _ _ _ _ _ _) = (40, 10)"
| "exchange_id ExchangeDeclareOk = (40, 11)"
| "exchange_id (ExchangeDelete _ _ _ _) = (40, 20)"
| "exchange_id ExchangeDeleteOk = (40, 21)"
| "exchange_id (ExchangeBind _ _ _ _ _ _) = (40, 30)"
| "exchange_id ExchangeBindOk = (40, 31)"
| "exchange_id (ExchangeUnbind _ _ _ _ _ _) = (40, 40)"
| "exchange_id ExchangeUnbindOk = (40, 51)"

fun exchange_wait :: "exchange_method \<Rightarrow> bool" where
  "exchange_wait (ExchangeDeclare _ _ _ _ _ _ _ noWait _) = (\<not> noWait)"
| "exchange_wait ExchangeDeclareOk = True"
| "exchange_wait (ExchangeDelete _ _ _ noWait) = (\<not> noWait)"
| "exchange_wait ExchangeDeleteOk = True"
| "exchange_wait (ExchangeBind _ _ _ _ noWait _) = (\<not> noWait)"
| "exchange_wait ExchangeBindOk = True"
| "exchange_wait (ExchangeUnbind _ _ _ _ noWait _) = (\<not> noWait)"
| "exchange_wait ExchangeUnbindOk = True"

definition write_exchangeDeclare :: "16 word \<Rightarrow> bytes \<Rightarrow> bytes \<Rightarrow> bool \<Rightarrow> bool \<Rightarrow> bool \<Rightarrow> bool \<Rightarrow> bool \<Rightarrow> table \<Rightarrow> wr" where
  "write_exchangeDeclare res1 exchange typ passive durable autoDelete internal noWait arguments =
     wseq [write_u16 res1, writeShortstr exchange, writeShortstr typ, write_u8 (set_bit 4 noWait (set_bit 3 internal (set_bit 2 autoDelete (set_bit 1 durable (set_bit 0 passive 0))))), writeTable arguments]"

definition read_exchangeDeclare :: "exchange_method rd" where
  "read_exchangeDeclare =
     rbind read_u16 (\<lambda>res1.
     rbind readShortstr (\<lambda>exchange.
     rbind readShortstr (\<lambda>typ.
     rbind read_u8 (\<lambda>bits.
     rbind readTable (\<lambda>arguments.
     rreturn (ExchangeDeclare res1 exchange typ (get_bit bits 0) (get_bit bits 1) (get_bit bits 2) (get_bit bits 3) (get_bit bits 4) arguments))))))"

definition write_exchangeDeclareOk :: "wr" where
  "write_exchangeDeclareOk =
     wseq []"

definition read_exchangeDeclareOk :: "exchange_method rd" where
  "read_exchangeDeclareOk =
     rreturn ExchangeDeclareOk"

definition write_exchangeDelete :: "16 word \<Rightarrow> bytes \<Rightarrow> bool \<Rightarrow> bool \<Rightarrow> wr" where
  "write_exchangeDelete res1 exchange ifUnused noWait =
     wseq [write_u16 res1, writeShortstr exchange, write_u8 (set_bit 1 noWait (set_bit 0 ifUnused 0))]"

definition read_exchangeDelete :: "exchange_method rd" where
  "read_exchangeDelete =
     rbind read_u16 (\<lambda>res1.
     rbind readShortstr (\<lambda>exchange.
     rbind read_u8 (\<lambda>bits.
     rreturn (ExchangeDelete res1 exchange (get_bit bits 0) (get_bit bits 1)))))"

definition write_exchangeDeleteOk :: "wr" where
  "write_exchangeDeleteOk =
     wseq []"

definition read_exchangeDeleteOk :: "exchange_method rd" where
  "read_exchangeDeleteOk =
     rreturn ExchangeDeleteOk"

definition write_exchangeBind :: "16 word \<Rightarrow> bytes \<Rightarrow> bytes \<Rightarrow> bytes \<Rightarrow> bool \<Rightarrow> table \<Rightarrow> wr" where
  "write_exchangeBind res1 destination source routingKey noWait arguments =
     wseq [write_u16 res1, writeShortstr destination, writeShortstr source, writeShortstr routingKey, write_u8 (set_bit 0 noWait 0), writeTable arguments]"

definition read_exchangeBind :: "exchange_method rd" where
  "read_exchangeBind =
     rbind read_u16 (\<lambda>res1.
     rbind readShortstr (\<lambda>destination.
     rbind readShortstr (\<lambda>source.
     rbind readShortstr (\<lambda>routingKey.
     rbind read_u8 (\<lambda>bits.
     rbind readTable (\<lambda>arguments.
     rreturn (ExchangeBind res1 destination source routingKey (get_bit bits 0) arguments)))))))"

definition write_exchangeBindOk :: "wr" where
  "write_exchangeBindOk =
     wseq []"

definition read_exchangeBindOk :: "exchange_method rd" where
  "read_exchangeBindOk =
     rreturn ExchangeBindOk"

definition write_exchangeUnbind :: "16 word \<Rightarrow> bytes \<Rightarrow> bytes \<Rightarrow> bytes \<Rightarrow> bool \<Rightarrow> table \<Rightarrow> wr" where
  "write_exchangeUnbind res1 destination source routingKey noWait arguments =
     wseq [write_u16 res1, writeShortstr destination, writeShortstr source, writeShortstr routingKey, write_u8 (set_bit 0 noWait 0), writeTable arguments]"

definition read_exchangeUnbind :: "exchange_method rd" where
  "read_exchangeUnbind =
     rbind read_u16 (\<lambda>res1.
     rbind readShortstr (\<lambda>destination.
     rbind readShortstr (\<lambda>source.
     rbind readShortstr (\<lambda>routingKey.
     rbind read_u8 (\<lambda>bits.
     rbind readTable (\<lambda>arguments.
     rreturn (ExchangeUnbind res1 destination source routingKey (get_bit bits 0) arguments)))))))"

definition write_exchangeUnbindOk :: "wr" where
  "write_exchangeUnbindOk =
     wseq []"

definition read_exchangeUnbindOk :: "exchange_method rd" where
  "read_exchangeUnbindOk =
     rreturn ExchangeUnbindOk"

fun write_exchange :: "exchange_method \<Rightarrow> wr" where
  "write_exchange (ExchangeDeclare res1 exchange typ passive durable autoDelete internal noWait arguments) = write_exchangeDeclare res1 exchange typ passive durable autoDelete internal noWait arguments"
| "write_exchange ExchangeDeclareOk = write_exchangeDeclareOk"
| "write_exchange (ExchangeDelete res1 exchange ifUnused noWait) = write_exchangeDelete res1 exchange ifUnused noWait"
| "write_exchange ExchangeDeleteOk = write_exchangeDeleteOk"
| "write_exchange (ExchangeBind res1 destination source routingKey noWait arguments) = write_exchangeBind res1 destination source routingKey noWait arguments"
| "write_exchange ExchangeBindOk = write_exchangeBindOk"
| "write_exchange (ExchangeUnbind res1 destination source routingKey noWait arguments) = write_exchangeUnbind res1 destination source routingKey noWait arguments"
| "write_exchange ExchangeUnbindOk = write_exchangeUnbindOk"

definition parse_exchange :: "16 word \<Rightarrow> exchange_method rd" where
  "parse_exchange methodId =
     (if methodId = 10 then read_exchangeDeclare
      else if methodId = 11 then read_exchangeDeclareOk
      else if methodId = 20 then read_exchangeDelete
      else if methodId = 21 then read_exchangeDeleteOk
      else if methodId = 30 then read_exchangeBind
      else if methodId = 31 then read_exchangeBindOk
      else if methodId = 40 then read_exchangeUnbind
      else if methodId = 51 then read_exchangeUnbindOk
      else rfail ErrBadMethod)"

text \<open>The strings and tables of a method fit their length fields.\<close>

fun exchange_ok :: "exchange_method \<Rightarrow> bool" where
  "exchange_ok (ExchangeDeclare _ exchange typ _ _ _ _ _ arguments) = (length exchange < 256 \<and> length typ < 256 \<and> table_ok arguments)"
| "exchange_ok (ExchangeDelete _ exchange _ _) = (length exchange < 256)"
| "exchange_ok (ExchangeBind _ destination source routingKey _ arguments) = (length destination < 256 \<and> length source < 256 \<and> length routingKey < 256 \<and> table_ok arguments)"
| "exchange_ok (ExchangeUnbind _ destination source routingKey _ arguments) = (length destination < 256 \<and> length source < 256 \<and> length routingKey < 256 \<and> table_ok arguments)"
| "exchange_ok _ = True"

lemma rt_exchangeDeclare:
  "length exchange < 256 \<Longrightarrow> length typ < 256 \<Longrightarrow> table_ok arguments \<Longrightarrow>
   roundtrips (write_exchangeDeclare res1 exchange typ passive durable autoDelete internal noWait arguments) read_exchangeDeclare
     (ExchangeDeclare res1 exchange typ passive durable autoDelete internal noWait arguments)"
  unfolding write_exchangeDeclare_def read_exchangeDeclare_def by ((rule rt_parts | simp)+)

lemma rt_exchangeDeclareOk:
  "roundtrips write_exchangeDeclareOk read_exchangeDeclareOk
     ExchangeDeclareOk"
  unfolding write_exchangeDeclareOk_def read_exchangeDeclareOk_def by ((rule rt_parts | simp)+)

lemma rt_exchangeDelete:
  "length exchange < 256 \<Longrightarrow>
   roundtrips (write_exchangeDelete res1 exchange ifUnused noWait) read_exchangeDelete
     (ExchangeDelete res1 exchange ifUnused noWait)"
  unfolding write_exchangeDelete_def read_exchangeDelete_def by ((rule rt_parts | simp)+)

lemma rt_exchangeDeleteOk:
  "roundtrips write_exchangeDeleteOk read_exchangeDeleteOk
     ExchangeDeleteOk"
  unfolding write_exchangeDeleteOk_def read_exchangeDeleteOk_def by ((rule rt_parts | simp)+)

lemma rt_exchangeBind:
  "length destination < 256 \<Longrightarrow> length source < 256 \<Longrightarrow> length routingKey < 256 \<Longrightarrow> table_ok arguments \<Longrightarrow>
   roundtrips (write_exchangeBind res1 destination source routingKey noWait arguments) read_exchangeBind
     (ExchangeBind res1 destination source routingKey noWait arguments)"
  unfolding write_exchangeBind_def read_exchangeBind_def by ((rule rt_parts | simp)+)

lemma rt_exchangeBindOk:
  "roundtrips write_exchangeBindOk read_exchangeBindOk
     ExchangeBindOk"
  unfolding write_exchangeBindOk_def read_exchangeBindOk_def by ((rule rt_parts | simp)+)

lemma rt_exchangeUnbind:
  "length destination < 256 \<Longrightarrow> length source < 256 \<Longrightarrow> length routingKey < 256 \<Longrightarrow> table_ok arguments \<Longrightarrow>
   roundtrips (write_exchangeUnbind res1 destination source routingKey noWait arguments) read_exchangeUnbind
     (ExchangeUnbind res1 destination source routingKey noWait arguments)"
  unfolding write_exchangeUnbind_def read_exchangeUnbind_def by ((rule rt_parts | simp)+)

lemma rt_exchangeUnbindOk:
  "roundtrips write_exchangeUnbindOk read_exchangeUnbindOk
     ExchangeUnbindOk"
  unfolding write_exchangeUnbindOk_def read_exchangeUnbindOk_def by ((rule rt_parts | simp)+)

lemmas rt_exchange_methods =
  rt_exchangeDeclare rt_exchangeDeclareOk rt_exchangeDelete rt_exchangeDeleteOk rt_exchangeBind rt_exchangeBindOk rt_exchangeUnbind rt_exchangeUnbindOk

lemma rt_exchange:
  "exchange_ok m \<Longrightarrow> roundtrips (write_exchange m) (parse_exchange (snd (exchange_id m))) m"
  by (cases m) (simp_all add: parse_exchange_def rt_exchange_methods)

end
