(* ===== verification/Amqp_Methods_B.thy ===== *)
theory Amqp_Methods_B
  imports Amqp_Methods_A
begin

text \<open>
  The methods of AMQP 0-9-1, classes queue, basic, tx and confirm, from \<open>spec091.go\<close>
  of the vendored library.
\<close>

section \<open>Class 50, queue\<close>

datatype queue_method =
    QueueDeclare "16 word" bytes bool bool bool bool bool table
  | QueueDeclareOk bytes "32 word" "32 word"
  | QueueBind "16 word" bytes bytes bytes bool table
  | QueueBindOk
  | QueueUnbind "16 word" bytes bytes bytes table
  | QueueUnbindOk
  | QueuePurge "16 word" bytes bool
  | QueuePurgeOk "32 word"
  | QueueDelete "16 word" bytes bool bool bool
  | QueueDeleteOk "32 word"

fun queue_id :: "queue_method \<Rightarrow> 16 word \<times> 16 word" where
  "queue_id (QueueDeclare _ _ _ _ _ _ _ _) = (50, 10)"
| "queue_id (QueueDeclareOk _ _ _) = (50, 11)"
| "queue_id (QueueBind _ _ _ _ _ _) = (50, 20)"
| "queue_id QueueBindOk = (50, 21)"
| "queue_id (QueueUnbind _ _ _ _ _) = (50, 50)"
| "queue_id QueueUnbindOk = (50, 51)"
| "queue_id (QueuePurge _ _ _) = (50, 30)"
| "queue_id (QueuePurgeOk _) = (50, 31)"
| "queue_id (QueueDelete _ _ _ _ _) = (50, 40)"
| "queue_id (QueueDeleteOk _) = (50, 41)"

fun queue_wait :: "queue_method \<Rightarrow> bool" where
  "queue_wait (QueueDeclare _ _ _ _ _ _ noWait _) = (\<not> noWait)"
| "queue_wait (QueueDeclareOk _ _ _) = True"
| "queue_wait (QueueBind _ _ _ _ noWait _) = (\<not> noWait)"
| "queue_wait QueueBindOk = True"
| "queue_wait (QueueUnbind _ _ _ _ _) = True"
| "queue_wait QueueUnbindOk = True"
| "queue_wait (QueuePurge _ _ noWait) = (\<not> noWait)"
| "queue_wait (QueuePurgeOk _) = True"
| "queue_wait (QueueDelete _ _ _ _ noWait) = (\<not> noWait)"
| "queue_wait (QueueDeleteOk _) = True"

definition write_queueDeclare :: "16 word \<Rightarrow> bytes \<Rightarrow> bool \<Rightarrow> bool \<Rightarrow> bool \<Rightarrow> bool \<Rightarrow> bool \<Rightarrow> table \<Rightarrow> wr" where
  "write_queueDeclare res1 queue passive durable exclusive autoDelete noWait arguments =
     wseq [write_u16 res1, writeShortstr queue, write_u8 (set_bit 4 noWait (set_bit 3 autoDelete (set_bit 2 exclusive (set_bit 1 durable (set_bit 0 passive 0))))), writeTable arguments]"

definition read_queueDeclare :: "queue_method rd" where
  "read_queueDeclare =
     rbind read_u16 (\<lambda>res1.
     rbind readShortstr (\<lambda>queue.
     rbind read_u8 (\<lambda>bits.
     rbind readTable (\<lambda>arguments.
     rreturn (QueueDeclare res1 queue (get_bit bits 0) (get_bit bits 1) (get_bit bits 2) (get_bit bits 3) (get_bit bits 4) arguments)))))"

definition write_queueDeclareOk :: "bytes \<Rightarrow> 32 word \<Rightarrow> 32 word \<Rightarrow> wr" where
  "write_queueDeclareOk queue messageCount consumerCount =
     wseq [writeShortstr queue, write_u32 messageCount, write_u32 consumerCount]"

definition read_queueDeclareOk :: "queue_method rd" where
  "read_queueDeclareOk =
     rbind readShortstr (\<lambda>queue.
     rbind read_u32 (\<lambda>messageCount.
     rbind read_u32 (\<lambda>consumerCount.
     rreturn (QueueDeclareOk queue messageCount consumerCount))))"

definition write_queueBind :: "16 word \<Rightarrow> bytes \<Rightarrow> bytes \<Rightarrow> bytes \<Rightarrow> bool \<Rightarrow> table \<Rightarrow> wr" where
  "write_queueBind res1 queue exchange routingKey noWait arguments =
     wseq [write_u16 res1, writeShortstr queue, writeShortstr exchange, writeShortstr routingKey, write_u8 (set_bit 0 noWait 0), writeTable arguments]"

definition read_queueBind :: "queue_method rd" where
  "read_queueBind =
     rbind read_u16 (\<lambda>res1.
     rbind readShortstr (\<lambda>queue.
     rbind readShortstr (\<lambda>exchange.
     rbind readShortstr (\<lambda>routingKey.
     rbind read_u8 (\<lambda>bits.
     rbind readTable (\<lambda>arguments.
     rreturn (QueueBind res1 queue exchange routingKey (get_bit bits 0) arguments)))))))"

definition write_queueBindOk :: "wr" where
  "write_queueBindOk =
     wseq []"

definition read_queueBindOk :: "queue_method rd" where
  "read_queueBindOk =
     rreturn QueueBindOk"

definition write_queueUnbind :: "16 word \<Rightarrow> bytes \<Rightarrow> bytes \<Rightarrow> bytes \<Rightarrow> table \<Rightarrow> wr" where
  "write_queueUnbind res1 queue exchange routingKey arguments =
     wseq [write_u16 res1, writeShortstr queue, writeShortstr exchange, writeShortstr routingKey, writeTable arguments]"

definition read_queueUnbind :: "queue_method rd" where
  "read_queueUnbind =
     rbind read_u16 (\<lambda>res1.
     rbind readShortstr (\<lambda>queue.
     rbind readShortstr (\<lambda>exchange.
     rbind readShortstr (\<lambda>routingKey.
     rbind readTable (\<lambda>arguments.
     rreturn (QueueUnbind res1 queue exchange routingKey arguments))))))"

definition write_queueUnbindOk :: "wr" where
  "write_queueUnbindOk =
     wseq []"

definition read_queueUnbindOk :: "queue_method rd" where
  "read_queueUnbindOk =
     rreturn QueueUnbindOk"

definition write_queuePurge :: "16 word \<Rightarrow> bytes \<Rightarrow> bool \<Rightarrow> wr" where
  "write_queuePurge res1 queue noWait =
     wseq [write_u16 res1, writeShortstr queue, write_u8 (set_bit 0 noWait 0)]"

definition read_queuePurge :: "queue_method rd" where
  "read_queuePurge =
     rbind read_u16 (\<lambda>res1.
     rbind readShortstr (\<lambda>queue.
     rbind read_u8 (\<lambda>bits.
     rreturn (QueuePurge res1 queue (get_bit bits 0)))))"

definition write_queuePurgeOk :: "32 word \<Rightarrow> wr" where
  "write_queuePurgeOk messageCount =
     wseq [write_u32 messageCount]"

definition read_queuePurgeOk :: "queue_method rd" where
  "read_queuePurgeOk =
     rbind read_u32 (\<lambda>messageCount.
     rreturn (QueuePurgeOk messageCount))"

definition write_queueDelete :: "16 word \<Rightarrow> bytes \<Rightarrow> bool \<Rightarrow> bool \<Rightarrow> bool \<Rightarrow> wr" where
  "write_queueDelete res1 queue ifUnused ifEmpty noWait =
     wseq [write_u16 res1, writeShortstr queue, write_u8 (set_bit 2 noWait (set_bit 1 ifEmpty (set_bit 0 ifUnused 0)))]"

definition read_queueDelete :: "queue_method rd" where
  "read_queueDelete =
     rbind read_u16 (\<lambda>res1.
     rbind readShortstr (\<lambda>queue.
     rbind read_u8 (\<lambda>bits.
     rreturn (QueueDelete res1 queue (get_bit bits 0) (get_bit bits 1) (get_bit bits 2)))))"

definition write_queueDeleteOk :: "32 word \<Rightarrow> wr" where
  "write_queueDeleteOk messageCount =
     wseq [write_u32 messageCount]"

definition read_queueDeleteOk :: "queue_method rd" where
  "read_queueDeleteOk =
     rbind read_u32 (\<lambda>messageCount.
     rreturn (QueueDeleteOk messageCount))"

fun write_queue :: "queue_method \<Rightarrow> wr" where
  "write_queue (QueueDeclare res1 queue passive durable exclusive autoDelete noWait arguments) = write_queueDeclare res1 queue passive durable exclusive autoDelete noWait arguments"
| "write_queue (QueueDeclareOk queue messageCount consumerCount) = write_queueDeclareOk queue messageCount consumerCount"
| "write_queue (QueueBind res1 queue exchange routingKey noWait arguments) = write_queueBind res1 queue exchange routingKey noWait arguments"
| "write_queue QueueBindOk = write_queueBindOk"
| "write_queue (QueueUnbind res1 queue exchange routingKey arguments) = write_queueUnbind res1 queue exchange routingKey arguments"
| "write_queue QueueUnbindOk = write_queueUnbindOk"
| "write_queue (QueuePurge res1 queue noWait) = write_queuePurge res1 queue noWait"
| "write_queue (QueuePurgeOk messageCount) = write_queuePurgeOk messageCount"
| "write_queue (QueueDelete res1 queue ifUnused ifEmpty noWait) = write_queueDelete res1 queue ifUnused ifEmpty noWait"
| "write_queue (QueueDeleteOk messageCount) = write_queueDeleteOk messageCount"

definition parse_queue :: "16 word \<Rightarrow> queue_method rd" where
  "parse_queue methodId =
     (if methodId = 10 then read_queueDeclare
      else if methodId = 11 then read_queueDeclareOk
      else if methodId = 20 then read_queueBind
      else if methodId = 21 then read_queueBindOk
      else if methodId = 50 then read_queueUnbind
      else if methodId = 51 then read_queueUnbindOk
      else if methodId = 30 then read_queuePurge
      else if methodId = 31 then read_queuePurgeOk
      else if methodId = 40 then read_queueDelete
      else if methodId = 41 then read_queueDeleteOk
      else rfail ErrBadMethod)"

text \<open>The strings and tables of a method fit their length fields.\<close>

fun queue_ok :: "queue_method \<Rightarrow> bool" where
  "queue_ok (QueueDeclare _ queue _ _ _ _ _ arguments) = (length queue < 256 \<and> table_ok arguments)"
| "queue_ok (QueueDeclareOk queue _ _) = (length queue < 256)"
| "queue_ok (QueueBind _ queue exchange routingKey _ arguments) = (length queue < 256 \<and> length exchange < 256 \<and> length routingKey < 256 \<and> table_ok arguments)"
| "queue_ok (QueueUnbind _ queue exchange routingKey arguments) = (length queue < 256 \<and> length exchange < 256 \<and> length routingKey < 256 \<and> table_ok arguments)"
| "queue_ok (QueuePurge _ queue _) = (length queue < 256)"
| "queue_ok (QueueDelete _ queue _ _ _) = (length queue < 256)"
| "queue_ok _ = True"

lemma rt_queueDeclare:
  "length queue < 256 \<Longrightarrow> table_ok arguments \<Longrightarrow>
   roundtrips (write_queueDeclare res1 queue passive durable exclusive autoDelete noWait arguments) read_queueDeclare
     (QueueDeclare res1 queue passive durable exclusive autoDelete noWait arguments)"
  unfolding write_queueDeclare_def read_queueDeclare_def by ((rule rt_parts | simp)+)

lemma rt_queueDeclareOk:
  "length queue < 256 \<Longrightarrow>
   roundtrips (write_queueDeclareOk queue messageCount consumerCount) read_queueDeclareOk
     (QueueDeclareOk queue messageCount consumerCount)"
  unfolding write_queueDeclareOk_def read_queueDeclareOk_def by ((rule rt_parts | simp)+)

lemma rt_queueBind:
  "length queue < 256 \<Longrightarrow> length exchange < 256 \<Longrightarrow> length routingKey < 256 \<Longrightarrow> table_ok arguments \<Longrightarrow>
   roundtrips (write_queueBind res1 queue exchange routingKey noWait arguments) read_queueBind
     (QueueBind res1 queue exchange routingKey noWait arguments)"
  unfolding write_queueBind_def read_queueBind_def by ((rule rt_parts | simp)+)

lemma rt_queueBindOk:
  "roundtrips write_queueBindOk read_queueBindOk
     QueueBindOk"
  unfolding write_queueBindOk_def read_queueBindOk_def by ((rule rt_parts | simp)+)

lemma rt_queueUnbind:
  "length queue < 256 \<Longrightarrow> length exchange < 256 \<Longrightarrow> length routingKey < 256 \<Longrightarrow> table_ok arguments \<Longrightarrow>
   roundtrips (write_queueUnbind res1 queue exchange routingKey arguments) read_queueUnbind
     (QueueUnbind res1 queue exchange routingKey arguments)"
  unfolding write_queueUnbind_def read_queueUnbind_def by ((rule rt_parts | simp)+)

lemma rt_queueUnbindOk:
  "roundtrips write_queueUnbindOk read_queueUnbindOk
     QueueUnbindOk"
  unfolding write_queueUnbindOk_def read_queueUnbindOk_def by ((rule rt_parts | simp)+)

lemma rt_queuePurge:
  "length queue < 256 \<Longrightarrow>
   roundtrips (write_queuePurge res1 queue noWait) read_queuePurge
     (QueuePurge res1 queue noWait)"
  unfolding write_queuePurge_def read_queuePurge_def by ((rule rt_parts | simp)+)

lemma rt_queuePurgeOk:
  "roundtrips (write_queuePurgeOk messageCount) read_queuePurgeOk
     (QueuePurgeOk messageCount)"
  unfolding write_queuePurgeOk_def read_queuePurgeOk_def by ((rule rt_parts | simp)+)

lemma rt_queueDelete:
  "length queue < 256 \<Longrightarrow>
   roundtrips (write_queueDelete res1 queue ifUnused ifEmpty noWait) read_queueDelete
     (QueueDelete res1 queue ifUnused ifEmpty noWait)"
  unfolding write_queueDelete_def read_queueDelete_def by ((rule rt_parts | simp)+)

lemma rt_queueDeleteOk:
  "roundtrips (write_queueDeleteOk messageCount) read_queueDeleteOk
     (QueueDeleteOk messageCount)"
  unfolding write_queueDeleteOk_def read_queueDeleteOk_def by ((rule rt_parts | simp)+)

lemmas rt_queue_methods =
  rt_queueDeclare rt_queueDeclareOk rt_queueBind rt_queueBindOk rt_queueUnbind rt_queueUnbindOk rt_queuePurge rt_queuePurgeOk rt_queueDelete rt_queueDeleteOk

lemma rt_queue:
  "queue_ok m \<Longrightarrow> roundtrips (write_queue m) (parse_queue (snd (queue_id m))) m"
  by (cases m) (simp_all add: parse_queue_def rt_queue_methods)


section \<open>Class 60, basic\<close>

datatype basic_method =
    BasicQos "32 word" "16 word" bool
  | BasicQosOk
  | BasicConsume "16 word" bytes bytes bool bool bool bool table
  | BasicConsumeOk bytes
  | BasicCancel bytes bool
  | BasicCancelOk bytes
  | BasicPublish "16 word" bytes bytes bool bool properties bytes
  | BasicReturn "16 word" bytes bytes bytes properties bytes
  | BasicDeliver bytes "64 word" bool bytes bytes properties bytes
  | BasicGet "16 word" bytes bool
  | BasicGetOk "64 word" bool bytes bytes "32 word" properties bytes
  | BasicGetEmpty bytes
  | BasicAck "64 word" bool
  | BasicReject "64 word" bool
  | BasicRecoverAsync bool
  | BasicRecover bool
  | BasicRecoverOk
  | BasicNack "64 word" bool bool

fun basic_id :: "basic_method \<Rightarrow> 16 word \<times> 16 word" where
  "basic_id (BasicQos _ _ _) = (60, 10)"
| "basic_id BasicQosOk = (60, 11)"
| "basic_id (BasicConsume _ _ _ _ _ _ _ _) = (60, 20)"
| "basic_id (BasicConsumeOk _) = (60, 21)"
| "basic_id (BasicCancel _ _) = (60, 30)"
| "basic_id (BasicCancelOk _) = (60, 31)"
| "basic_id (BasicPublish _ _ _ _ _ _ _) = (60, 40)"
| "basic_id (BasicReturn _ _ _ _ _ _) = (60, 50)"
| "basic_id (BasicDeliver _ _ _ _ _ _ _) = (60, 60)"
| "basic_id (BasicGet _ _ _) = (60, 70)"
| "basic_id (BasicGetOk _ _ _ _ _ _ _) = (60, 71)"
| "basic_id (BasicGetEmpty _) = (60, 72)"
| "basic_id (BasicAck _ _) = (60, 80)"
| "basic_id (BasicReject _ _) = (60, 90)"
| "basic_id (BasicRecoverAsync _) = (60, 100)"
| "basic_id (BasicRecover _) = (60, 110)"
| "basic_id BasicRecoverOk = (60, 111)"
| "basic_id (BasicNack _ _ _) = (60, 120)"

fun basic_wait :: "basic_method \<Rightarrow> bool" where
  "basic_wait (BasicQos _ _ _) = True"
| "basic_wait BasicQosOk = True"
| "basic_wait (BasicConsume _ _ _ _ _ _ noWait _) = (\<not> noWait)"
| "basic_wait (BasicConsumeOk _) = True"
| "basic_wait (BasicCancel _ noWait) = (\<not> noWait)"
| "basic_wait (BasicCancelOk _) = True"
| "basic_wait (BasicPublish _ _ _ _ _ _ _) = False"
| "basic_wait (BasicReturn _ _ _ _ _ _) = False"
| "basic_wait (BasicDeliver _ _ _ _ _ _ _) = False"
| "basic_wait (BasicGet _ _ _) = True"
| "basic_wait (BasicGetOk _ _ _ _ _ _ _) = True"
| "basic_wait (BasicGetEmpty _) = True"
| "basic_wait (BasicAck _ _) = False"
| "basic_wait (BasicReject _ _) = False"
| "basic_wait (BasicRecoverAsync _) = False"
| "basic_wait (BasicRecover _) = True"
| "basic_wait BasicRecoverOk = True"
| "basic_wait (BasicNack _ _ _) = False"

definition write_basicQos :: "32 word \<Rightarrow> 16 word \<Rightarrow> bool \<Rightarrow> wr" where
  "write_basicQos prefetchSize prefetchCount global =
     wseq [write_u32 prefetchSize, write_u16 prefetchCount, write_u8 (set_bit 0 global 0)]"

definition read_basicQos :: "basic_method rd" where
  "read_basicQos =
     rbind read_u32 (\<lambda>prefetchSize.
     rbind read_u16 (\<lambda>prefetchCount.
     rbind read_u8 (\<lambda>bits.
     rreturn (BasicQos prefetchSize prefetchCount (get_bit bits 0)))))"

definition write_basicQosOk :: "wr" where
  "write_basicQosOk =
     wseq []"

definition read_basicQosOk :: "basic_method rd" where
  "read_basicQosOk =
     rreturn BasicQosOk"

definition write_basicConsume :: "16 word \<Rightarrow> bytes \<Rightarrow> bytes \<Rightarrow> bool \<Rightarrow> bool \<Rightarrow> bool \<Rightarrow> bool \<Rightarrow> table \<Rightarrow> wr" where
  "write_basicConsume res1 queue consumerTag noLocal noAck exclusive noWait arguments =
     wseq [write_u16 res1, writeShortstr queue, writeShortstr consumerTag, write_u8 (set_bit 3 noWait (set_bit 2 exclusive (set_bit 1 noAck (set_bit 0 noLocal 0)))), writeTable arguments]"

definition read_basicConsume :: "basic_method rd" where
  "read_basicConsume =
     rbind read_u16 (\<lambda>res1.
     rbind readShortstr (\<lambda>queue.
     rbind readShortstr (\<lambda>consumerTag.
     rbind read_u8 (\<lambda>bits.
     rbind readTable (\<lambda>arguments.
     rreturn (BasicConsume res1 queue consumerTag (get_bit bits 0) (get_bit bits 1) (get_bit bits 2) (get_bit bits 3) arguments))))))"

definition write_basicConsumeOk :: "bytes \<Rightarrow> wr" where
  "write_basicConsumeOk consumerTag =
     wseq [writeShortstr consumerTag]"

definition read_basicConsumeOk :: "basic_method rd" where
  "read_basicConsumeOk =
     rbind readShortstr (\<lambda>consumerTag.
     rreturn (BasicConsumeOk consumerTag))"

definition write_basicCancel :: "bytes \<Rightarrow> bool \<Rightarrow> wr" where
  "write_basicCancel consumerTag noWait =
     wseq [writeShortstr consumerTag, write_u8 (set_bit 0 noWait 0)]"

definition read_basicCancel :: "basic_method rd" where
  "read_basicCancel =
     rbind readShortstr (\<lambda>consumerTag.
     rbind read_u8 (\<lambda>bits.
     rreturn (BasicCancel consumerTag (get_bit bits 0))))"

definition write_basicCancelOk :: "bytes \<Rightarrow> wr" where
  "write_basicCancelOk consumerTag =
     wseq [writeShortstr consumerTag]"

definition read_basicCancelOk :: "basic_method rd" where
  "read_basicCancelOk =
     rbind readShortstr (\<lambda>consumerTag.
     rreturn (BasicCancelOk consumerTag))"

definition write_basicPublish :: "16 word \<Rightarrow> bytes \<Rightarrow> bytes \<Rightarrow> bool \<Rightarrow> bool \<Rightarrow> wr" where
  "write_basicPublish res1 exchange routingKey mandatory immediate =
     wseq [write_u16 res1, writeShortstr exchange, writeShortstr routingKey, write_u8 (set_bit 1 immediate (set_bit 0 mandatory 0))]"

definition read_basicPublish :: "basic_method rd" where
  "read_basicPublish =
     rbind read_u16 (\<lambda>res1.
     rbind readShortstr (\<lambda>exchange.
     rbind readShortstr (\<lambda>routingKey.
     rbind read_u8 (\<lambda>bits.
     rreturn (BasicPublish res1 exchange routingKey (get_bit bits 0) (get_bit bits 1) no_properties [])))))"

definition write_basicReturn :: "16 word \<Rightarrow> bytes \<Rightarrow> bytes \<Rightarrow> bytes \<Rightarrow> wr" where
  "write_basicReturn replyCode replyText exchange routingKey =
     wseq [write_u16 replyCode, writeShortstr replyText, writeShortstr exchange, writeShortstr routingKey]"

definition read_basicReturn :: "basic_method rd" where
  "read_basicReturn =
     rbind read_u16 (\<lambda>replyCode.
     rbind readShortstr (\<lambda>replyText.
     rbind readShortstr (\<lambda>exchange.
     rbind readShortstr (\<lambda>routingKey.
     rreturn (BasicReturn replyCode replyText exchange routingKey no_properties [])))))"

definition write_basicDeliver :: "bytes \<Rightarrow> 64 word \<Rightarrow> bool \<Rightarrow> bytes \<Rightarrow> bytes \<Rightarrow> wr" where
  "write_basicDeliver consumerTag deliveryTag redelivered exchange routingKey =
     wseq [writeShortstr consumerTag, write_u64 deliveryTag, write_u8 (set_bit 0 redelivered 0), writeShortstr exchange, writeShortstr routingKey]"

definition read_basicDeliver :: "basic_method rd" where
  "read_basicDeliver =
     rbind readShortstr (\<lambda>consumerTag.
     rbind read_u64 (\<lambda>deliveryTag.
     rbind read_u8 (\<lambda>bits.
     rbind readShortstr (\<lambda>exchange.
     rbind readShortstr (\<lambda>routingKey.
     rreturn (BasicDeliver consumerTag deliveryTag (get_bit bits 0) exchange routingKey no_properties []))))))"

definition write_basicGet :: "16 word \<Rightarrow> bytes \<Rightarrow> bool \<Rightarrow> wr" where
  "write_basicGet res1 queue noAck =
     wseq [write_u16 res1, writeShortstr queue, write_u8 (set_bit 0 noAck 0)]"

definition read_basicGet :: "basic_method rd" where
  "read_basicGet =
     rbind read_u16 (\<lambda>res1.
     rbind readShortstr (\<lambda>queue.
     rbind read_u8 (\<lambda>bits.
     rreturn (BasicGet res1 queue (get_bit bits 0)))))"

definition write_basicGetOk :: "64 word \<Rightarrow> bool \<Rightarrow> bytes \<Rightarrow> bytes \<Rightarrow> 32 word \<Rightarrow> wr" where
  "write_basicGetOk deliveryTag redelivered exchange routingKey messageCount =
     wseq [write_u64 deliveryTag, write_u8 (set_bit 0 redelivered 0), writeShortstr exchange, writeShortstr routingKey, write_u32 messageCount]"

definition read_basicGetOk :: "basic_method rd" where
  "read_basicGetOk =
     rbind read_u64 (\<lambda>deliveryTag.
     rbind read_u8 (\<lambda>bits.
     rbind readShortstr (\<lambda>exchange.
     rbind readShortstr (\<lambda>routingKey.
     rbind read_u32 (\<lambda>messageCount.
     rreturn (BasicGetOk deliveryTag (get_bit bits 0) exchange routingKey messageCount no_properties []))))))"

definition write_basicGetEmpty :: "bytes \<Rightarrow> wr" where
  "write_basicGetEmpty res1 =
     wseq [writeShortstr res1]"

definition read_basicGetEmpty :: "basic_method rd" where
  "read_basicGetEmpty =
     rbind readShortstr (\<lambda>res1.
     rreturn (BasicGetEmpty res1))"

definition write_basicAck :: "64 word \<Rightarrow> bool \<Rightarrow> wr" where
  "write_basicAck deliveryTag multiple =
     wseq [write_u64 deliveryTag, write_u8 (set_bit 0 multiple 0)]"

definition read_basicAck :: "basic_method rd" where
  "read_basicAck =
     rbind read_u64 (\<lambda>deliveryTag.
     rbind read_u8 (\<lambda>bits.
     rreturn (BasicAck deliveryTag (get_bit bits 0))))"

definition write_basicReject :: "64 word \<Rightarrow> bool \<Rightarrow> wr" where
  "write_basicReject deliveryTag requeue =
     wseq [write_u64 deliveryTag, write_u8 (set_bit 0 requeue 0)]"

definition read_basicReject :: "basic_method rd" where
  "read_basicReject =
     rbind read_u64 (\<lambda>deliveryTag.
     rbind read_u8 (\<lambda>bits.
     rreturn (BasicReject deliveryTag (get_bit bits 0))))"

definition write_basicRecoverAsync :: "bool \<Rightarrow> wr" where
  "write_basicRecoverAsync requeue =
     wseq [write_u8 (set_bit 0 requeue 0)]"

definition read_basicRecoverAsync :: "basic_method rd" where
  "read_basicRecoverAsync =
     rbind read_u8 (\<lambda>bits.
     rreturn (BasicRecoverAsync (get_bit bits 0)))"

definition write_basicRecover :: "bool \<Rightarrow> wr" where
  "write_basicRecover requeue =
     wseq [write_u8 (set_bit 0 requeue 0)]"

definition read_basicRecover :: "basic_method rd" where
  "read_basicRecover =
     rbind read_u8 (\<lambda>bits.
     rreturn (BasicRecover (get_bit bits 0)))"

definition write_basicRecoverOk :: "wr" where
  "write_basicRecoverOk =
     wseq []"

definition read_basicRecoverOk :: "basic_method rd" where
  "read_basicRecoverOk =
     rreturn BasicRecoverOk"

definition write_basicNack :: "64 word \<Rightarrow> bool \<Rightarrow> bool \<Rightarrow> wr" where
  "write_basicNack deliveryTag multiple requeue =
     wseq [write_u64 deliveryTag, write_u8 (set_bit 1 requeue (set_bit 0 multiple 0))]"

definition read_basicNack :: "basic_method rd" where
  "read_basicNack =
     rbind read_u64 (\<lambda>deliveryTag.
     rbind read_u8 (\<lambda>bits.
     rreturn (BasicNack deliveryTag (get_bit bits 0) (get_bit bits 1))))"

fun write_basic :: "basic_method \<Rightarrow> wr" where
  "write_basic (BasicQos prefetchSize prefetchCount global) = write_basicQos prefetchSize prefetchCount global"
| "write_basic BasicQosOk = write_basicQosOk"
| "write_basic (BasicConsume res1 queue consumerTag noLocal noAck exclusive noWait arguments) = write_basicConsume res1 queue consumerTag noLocal noAck exclusive noWait arguments"
| "write_basic (BasicConsumeOk consumerTag) = write_basicConsumeOk consumerTag"
| "write_basic (BasicCancel consumerTag noWait) = write_basicCancel consumerTag noWait"
| "write_basic (BasicCancelOk consumerTag) = write_basicCancelOk consumerTag"
| "write_basic (BasicPublish res1 exchange routingKey mandatory immediate _ _) = write_basicPublish res1 exchange routingKey mandatory immediate"
| "write_basic (BasicReturn replyCode replyText exchange routingKey _ _) = write_basicReturn replyCode replyText exchange routingKey"
| "write_basic (BasicDeliver consumerTag deliveryTag redelivered exchange routingKey _ _) = write_basicDeliver consumerTag deliveryTag redelivered exchange routingKey"
| "write_basic (BasicGet res1 queue noAck) = write_basicGet res1 queue noAck"
| "write_basic (BasicGetOk deliveryTag redelivered exchange routingKey messageCount _ _) = write_basicGetOk deliveryTag redelivered exchange routingKey messageCount"
| "write_basic (BasicGetEmpty res1) = write_basicGetEmpty res1"
| "write_basic (BasicAck deliveryTag multiple) = write_basicAck deliveryTag multiple"
| "write_basic (BasicReject deliveryTag requeue) = write_basicReject deliveryTag requeue"
| "write_basic (BasicRecoverAsync requeue) = write_basicRecoverAsync requeue"
| "write_basic (BasicRecover requeue) = write_basicRecover requeue"
| "write_basic BasicRecoverOk = write_basicRecoverOk"
| "write_basic (BasicNack deliveryTag multiple requeue) = write_basicNack deliveryTag multiple requeue"

definition parse_basic :: "16 word \<Rightarrow> basic_method rd" where
  "parse_basic methodId =
     (if methodId = 10 then read_basicQos
      else if methodId = 11 then read_basicQosOk
      else if methodId = 20 then read_basicConsume
      else if methodId = 21 then read_basicConsumeOk
      else if methodId = 30 then read_basicCancel
      else if methodId = 31 then read_basicCancelOk
      else if methodId = 40 then read_basicPublish
      else if methodId = 50 then read_basicReturn
      else if methodId = 60 then read_basicDeliver
      else if methodId = 70 then read_basicGet
      else if methodId = 71 then read_basicGetOk
      else if methodId = 72 then read_basicGetEmpty
      else if methodId = 80 then read_basicAck
      else if methodId = 90 then read_basicReject
      else if methodId = 100 then read_basicRecoverAsync
      else if methodId = 110 then read_basicRecover
      else if methodId = 111 then read_basicRecoverOk
      else if methodId = 120 then read_basicNack
      else rfail ErrBadMethod)"

text \<open>The strings and tables of a method fit their length fields.\<close>

fun basic_ok :: "basic_method \<Rightarrow> bool" where
  "basic_ok (BasicConsume _ queue consumerTag _ _ _ _ arguments) = (length queue < 256 \<and> length consumerTag < 256 \<and> table_ok arguments)"
| "basic_ok (BasicConsumeOk consumerTag) = (length consumerTag < 256)"
| "basic_ok (BasicCancel consumerTag _) = (length consumerTag < 256)"
| "basic_ok (BasicCancelOk consumerTag) = (length consumerTag < 256)"
| "basic_ok (BasicPublish _ exchange routingKey _ _ _ _) = (length exchange < 256 \<and> length routingKey < 256)"
| "basic_ok (BasicReturn _ replyText exchange routingKey _ _) = (length replyText < 256 \<and> length exchange < 256 \<and> length routingKey < 256)"
| "basic_ok (BasicDeliver consumerTag _ _ exchange routingKey _ _) = (length consumerTag < 256 \<and> length exchange < 256 \<and> length routingKey < 256)"
| "basic_ok (BasicGet _ queue _) = (length queue < 256)"
| "basic_ok (BasicGetOk _ _ exchange routingKey _ _ _) = (length exchange < 256 \<and> length routingKey < 256)"
| "basic_ok (BasicGetEmpty res1) = (length res1 < 256)"
| "basic_ok _ = True"

text \<open>A method with content travels without it: the content follows in frames of its own.\<close>

fun clear_content :: "basic_method \<Rightarrow> basic_method" where
  "clear_content (BasicPublish res1 exchange routingKey mandatory immediate _ _) = BasicPublish res1 exchange routingKey mandatory immediate no_properties []"
| "clear_content (BasicReturn replyCode replyText exchange routingKey _ _) = BasicReturn replyCode replyText exchange routingKey no_properties []"
| "clear_content (BasicDeliver consumerTag deliveryTag redelivered exchange routingKey _ _) = BasicDeliver consumerTag deliveryTag redelivered exchange routingKey no_properties []"
| "clear_content (BasicGetOk deliveryTag redelivered exchange routingKey messageCount _ _) = BasicGetOk deliveryTag redelivered exchange routingKey messageCount no_properties []"
| "clear_content m = m"

lemma rt_basicQos:
  "roundtrips (write_basicQos prefetchSize prefetchCount global) read_basicQos
     (BasicQos prefetchSize prefetchCount global)"
  unfolding write_basicQos_def read_basicQos_def by ((rule rt_parts | simp)+)

lemma rt_basicQosOk:
  "roundtrips write_basicQosOk read_basicQosOk
     BasicQosOk"
  unfolding write_basicQosOk_def read_basicQosOk_def by ((rule rt_parts | simp)+)

lemma rt_basicConsume:
  "length queue < 256 \<Longrightarrow> length consumerTag < 256 \<Longrightarrow> table_ok arguments \<Longrightarrow>
   roundtrips (write_basicConsume res1 queue consumerTag noLocal noAck exclusive noWait arguments) read_basicConsume
     (BasicConsume res1 queue consumerTag noLocal noAck exclusive noWait arguments)"
  unfolding write_basicConsume_def read_basicConsume_def by ((rule rt_parts | simp)+)

lemma rt_basicConsumeOk:
  "length consumerTag < 256 \<Longrightarrow>
   roundtrips (write_basicConsumeOk consumerTag) read_basicConsumeOk
     (BasicConsumeOk consumerTag)"
  unfolding write_basicConsumeOk_def read_basicConsumeOk_def by ((rule rt_parts | simp)+)

lemma rt_basicCancel:
  "length consumerTag < 256 \<Longrightarrow>
   roundtrips (write_basicCancel consumerTag noWait) read_basicCancel
     (BasicCancel consumerTag noWait)"
  unfolding write_basicCancel_def read_basicCancel_def by ((rule rt_parts | simp)+)

lemma rt_basicCancelOk:
  "length consumerTag < 256 \<Longrightarrow>
   roundtrips (write_basicCancelOk consumerTag) read_basicCancelOk
     (BasicCancelOk consumerTag)"
  unfolding write_basicCancelOk_def read_basicCancelOk_def by ((rule rt_parts | simp)+)

lemma rt_basicPublish:
  "length exchange < 256 \<Longrightarrow> length routingKey < 256 \<Longrightarrow>
   roundtrips (write_basicPublish res1 exchange routingKey mandatory immediate) read_basicPublish
     (BasicPublish res1 exchange routingKey mandatory immediate no_properties [])"
  unfolding write_basicPublish_def read_basicPublish_def by ((rule rt_parts | simp)+)

lemma rt_basicReturn:
  "length replyText < 256 \<Longrightarrow> length exchange < 256 \<Longrightarrow> length routingKey < 256 \<Longrightarrow>
   roundtrips (write_basicReturn replyCode replyText exchange routingKey) read_basicReturn
     (BasicReturn replyCode replyText exchange routingKey no_properties [])"
  unfolding write_basicReturn_def read_basicReturn_def by ((rule rt_parts | simp)+)

lemma rt_basicDeliver:
  "length consumerTag < 256 \<Longrightarrow> length exchange < 256 \<Longrightarrow> length routingKey < 256 \<Longrightarrow>
   roundtrips (write_basicDeliver consumerTag deliveryTag redelivered exchange routingKey) read_basicDeliver
     (BasicDeliver consumerTag deliveryTag redelivered exchange routingKey no_properties [])"
  unfolding write_basicDeliver_def read_basicDeliver_def by ((rule rt_parts | simp)+)

lemma rt_basicGet:
  "length queue < 256 \<Longrightarrow>
   roundtrips (write_basicGet res1 queue noAck) read_basicGet
     (BasicGet res1 queue noAck)"
  unfolding write_basicGet_def read_basicGet_def by ((rule rt_parts | simp)+)

lemma rt_basicGetOk:
  "length exchange < 256 \<Longrightarrow> length routingKey < 256 \<Longrightarrow>
   roundtrips (write_basicGetOk deliveryTag redelivered exchange routingKey messageCount) read_basicGetOk
     (BasicGetOk deliveryTag redelivered exchange routingKey messageCount no_properties [])"
  unfolding write_basicGetOk_def read_basicGetOk_def by ((rule rt_parts | simp)+)

lemma rt_basicGetEmpty:
  "length res1 < 256 \<Longrightarrow>
   roundtrips (write_basicGetEmpty res1) read_basicGetEmpty
     (BasicGetEmpty res1)"
  unfolding write_basicGetEmpty_def read_basicGetEmpty_def by ((rule rt_parts | simp)+)

lemma rt_basicAck:
  "roundtrips (write_basicAck deliveryTag multiple) read_basicAck
     (BasicAck deliveryTag multiple)"
  unfolding write_basicAck_def read_basicAck_def by ((rule rt_parts | simp)+)

lemma rt_basicReject:
  "roundtrips (write_basicReject deliveryTag requeue) read_basicReject
     (BasicReject deliveryTag requeue)"
  unfolding write_basicReject_def read_basicReject_def by ((rule rt_parts | simp)+)

lemma rt_basicRecoverAsync:
  "roundtrips (write_basicRecoverAsync requeue) read_basicRecoverAsync
     (BasicRecoverAsync requeue)"
  unfolding write_basicRecoverAsync_def read_basicRecoverAsync_def by ((rule rt_parts | simp)+)

lemma rt_basicRecover:
  "roundtrips (write_basicRecover requeue) read_basicRecover
     (BasicRecover requeue)"
  unfolding write_basicRecover_def read_basicRecover_def by ((rule rt_parts | simp)+)

lemma rt_basicRecoverOk:
  "roundtrips write_basicRecoverOk read_basicRecoverOk
     BasicRecoverOk"
  unfolding write_basicRecoverOk_def read_basicRecoverOk_def by ((rule rt_parts | simp)+)

lemma rt_basicNack:
  "roundtrips (write_basicNack deliveryTag multiple requeue) read_basicNack
     (BasicNack deliveryTag multiple requeue)"
  unfolding write_basicNack_def read_basicNack_def by ((rule rt_parts | simp)+)

lemmas rt_basic_methods =
  rt_basicQos rt_basicQosOk rt_basicConsume rt_basicConsumeOk rt_basicCancel rt_basicCancelOk rt_basicPublish rt_basicReturn rt_basicDeliver rt_basicGet rt_basicGetOk rt_basicGetEmpty rt_basicAck rt_basicReject rt_basicRecoverAsync rt_basicRecover rt_basicRecoverOk rt_basicNack

lemma rt_basic:
  "basic_ok m \<Longrightarrow> roundtrips (write_basic m) (parse_basic (snd (basic_id m))) (clear_content m)"
  by (cases m) (simp_all add: parse_basic_def rt_basic_methods)


section \<open>Class 90, tx\<close>

datatype tx_method =
    TxSelect
  | TxSelectOk
  | TxCommit
  | TxCommitOk
  | TxRollback
  | TxRollbackOk

fun tx_id :: "tx_method \<Rightarrow> 16 word \<times> 16 word" where
  "tx_id TxSelect = (90, 10)"
| "tx_id TxSelectOk = (90, 11)"
| "tx_id TxCommit = (90, 20)"
| "tx_id TxCommitOk = (90, 21)"
| "tx_id TxRollback = (90, 30)"
| "tx_id TxRollbackOk = (90, 31)"

fun tx_wait :: "tx_method \<Rightarrow> bool" where
  "tx_wait TxSelect = True"
| "tx_wait TxSelectOk = True"
| "tx_wait TxCommit = True"
| "tx_wait TxCommitOk = True"
| "tx_wait TxRollback = True"
| "tx_wait TxRollbackOk = True"

definition write_txSelect :: "wr" where
  "write_txSelect =
     wseq []"

definition read_txSelect :: "tx_method rd" where
  "read_txSelect =
     rreturn TxSelect"

definition write_txSelectOk :: "wr" where
  "write_txSelectOk =
     wseq []"

definition read_txSelectOk :: "tx_method rd" where
  "read_txSelectOk =
     rreturn TxSelectOk"

definition write_txCommit :: "wr" where
  "write_txCommit =
     wseq []"

definition read_txCommit :: "tx_method rd" where
  "read_txCommit =
     rreturn TxCommit"

definition write_txCommitOk :: "wr" where
  "write_txCommitOk =
     wseq []"

definition read_txCommitOk :: "tx_method rd" where
  "read_txCommitOk =
     rreturn TxCommitOk"

definition write_txRollback :: "wr" where
  "write_txRollback =
     wseq []"

definition read_txRollback :: "tx_method rd" where
  "read_txRollback =
     rreturn TxRollback"

definition write_txRollbackOk :: "wr" where
  "write_txRollbackOk =
     wseq []"

definition read_txRollbackOk :: "tx_method rd" where
  "read_txRollbackOk =
     rreturn TxRollbackOk"

fun write_tx :: "tx_method \<Rightarrow> wr" where
  "write_tx TxSelect = write_txSelect"
| "write_tx TxSelectOk = write_txSelectOk"
| "write_tx TxCommit = write_txCommit"
| "write_tx TxCommitOk = write_txCommitOk"
| "write_tx TxRollback = write_txRollback"
| "write_tx TxRollbackOk = write_txRollbackOk"

definition parse_tx :: "16 word \<Rightarrow> tx_method rd" where
  "parse_tx methodId =
     (if methodId = 10 then read_txSelect
      else if methodId = 11 then read_txSelectOk
      else if methodId = 20 then read_txCommit
      else if methodId = 21 then read_txCommitOk
      else if methodId = 30 then read_txRollback
      else if methodId = 31 then read_txRollbackOk
      else rfail ErrBadMethod)"

text \<open>The strings and tables of a method fit their length fields.\<close>

fun tx_ok :: "tx_method \<Rightarrow> bool" where
  "tx_ok _ = True"

lemma rt_txSelect:
  "roundtrips write_txSelect read_txSelect
     TxSelect"
  unfolding write_txSelect_def read_txSelect_def by ((rule rt_parts | simp)+)

lemma rt_txSelectOk:
  "roundtrips write_txSelectOk read_txSelectOk
     TxSelectOk"
  unfolding write_txSelectOk_def read_txSelectOk_def by ((rule rt_parts | simp)+)

lemma rt_txCommit:
  "roundtrips write_txCommit read_txCommit
     TxCommit"
  unfolding write_txCommit_def read_txCommit_def by ((rule rt_parts | simp)+)

lemma rt_txCommitOk:
  "roundtrips write_txCommitOk read_txCommitOk
     TxCommitOk"
  unfolding write_txCommitOk_def read_txCommitOk_def by ((rule rt_parts | simp)+)

lemma rt_txRollback:
  "roundtrips write_txRollback read_txRollback
     TxRollback"
  unfolding write_txRollback_def read_txRollback_def by ((rule rt_parts | simp)+)

lemma rt_txRollbackOk:
  "roundtrips write_txRollbackOk read_txRollbackOk
     TxRollbackOk"
  unfolding write_txRollbackOk_def read_txRollbackOk_def by ((rule rt_parts | simp)+)

lemmas rt_tx_methods =
  rt_txSelect rt_txSelectOk rt_txCommit rt_txCommitOk rt_txRollback rt_txRollbackOk

lemma rt_tx:
  "tx_ok m \<Longrightarrow> roundtrips (write_tx m) (parse_tx (snd (tx_id m))) m"
  by (cases m) (simp_all add: parse_tx_def rt_tx_methods)


section \<open>Class 85, confirm\<close>

datatype confirm_method =
    ConfirmSelect bool
  | ConfirmSelectOk

fun confirm_id :: "confirm_method \<Rightarrow> 16 word \<times> 16 word" where
  "confirm_id (ConfirmSelect _) = (85, 10)"
| "confirm_id ConfirmSelectOk = (85, 11)"

fun confirm_wait :: "confirm_method \<Rightarrow> bool" where
  "confirm_wait (ConfirmSelect _) = True"
| "confirm_wait ConfirmSelectOk = True"

definition write_confirmSelect :: "bool \<Rightarrow> wr" where
  "write_confirmSelect nowait =
     wseq [write_u8 (set_bit 0 nowait 0)]"

definition read_confirmSelect :: "confirm_method rd" where
  "read_confirmSelect =
     rbind read_u8 (\<lambda>bits.
     rreturn (ConfirmSelect (get_bit bits 0)))"

definition write_confirmSelectOk :: "wr" where
  "write_confirmSelectOk =
     wseq []"

definition read_confirmSelectOk :: "confirm_method rd" where
  "read_confirmSelectOk =
     rreturn ConfirmSelectOk"

fun write_confirm :: "confirm_method \<Rightarrow> wr" where
  "write_confirm (ConfirmSelect nowait) = write_confirmSelect nowait"
| "write_confirm ConfirmSelectOk = write_confirmSelectOk"

definition parse_confirm :: "16 word \<Rightarrow> confirm_method rd" where
  "parse_confirm methodId =
     (if methodId = 10 then read_confirmSelect
      else if methodId = 11 then read_confirmSelectOk
      else rfail ErrBadMethod)"

text \<open>The strings and tables of a method fit their length fields.\<close>

fun confirm_ok :: "confirm_method \<Rightarrow> bool" where
  "confirm_ok _ = True"

lemma rt_confirmSelect:
  "roundtrips (write_confirmSelect nowait) read_confirmSelect
     (ConfirmSelect nowait)"
  unfolding write_confirmSelect_def read_confirmSelect_def by ((rule rt_parts | simp)+)

lemma rt_confirmSelectOk:
  "roundtrips write_confirmSelectOk read_confirmSelectOk
     ConfirmSelectOk"
  unfolding write_confirmSelectOk_def read_confirmSelectOk_def by ((rule rt_parts | simp)+)

lemmas rt_confirm_methods =
  rt_confirmSelect rt_confirmSelectOk

lemma rt_confirm:
  "confirm_ok m \<Longrightarrow> roundtrips (write_confirm m) (parse_confirm (snd (confirm_id m))) m"
  by (cases m) (simp_all add: parse_confirm_def rt_confirm_methods)

end
