(* ===== verification/Amqp_Frames.thy ===== *)
theory Amqp_Frames
  imports Amqp_Methods_B
begin

text \<open>
  Frames: \<open>WriteFrame\<close> and the four \<open>write\<close> functions in \<open>write.go\<close>, \<open>ReadFrame\<close> and the
  parsers in \<open>read.go\<close>, \<open>parseMethodFrame\<close> in \<open>spec091.go\<close>.
\<close>

section \<open>Methods of all classes\<close>

datatype message =
    MConnection connection_method
  | MChannel channel_method
  | MExchange exchange_method
  | MQueue queue_method
  | MBasic basic_method
  | MTx tx_method
  | MConfirm confirm_method

fun message_id :: "message \<Rightarrow> 16 word \<times> 16 word" where
  "message_id (MConnection m) = connection_id m"
| "message_id (MChannel m) = channel_id m"
| "message_id (MExchange m) = exchange_id m"
| "message_id (MQueue m) = queue_id m"
| "message_id (MBasic m) = basic_id m"
| "message_id (MTx m) = tx_id m"
| "message_id (MConfirm m) = confirm_id m"

fun message_wait :: "message \<Rightarrow> bool" where
  "message_wait (MConnection m) = connection_wait m"
| "message_wait (MChannel m) = channel_wait m"
| "message_wait (MExchange m) = exchange_wait m"
| "message_wait (MQueue m) = queue_wait m"
| "message_wait (MBasic m) = basic_wait m"
| "message_wait (MTx m) = tx_wait m"
| "message_wait (MConfirm m) = confirm_wait m"

fun write_message :: "message \<Rightarrow> wr" where
  "write_message (MConnection m) = write_connection m"
| "write_message (MChannel m) = write_channel m"
| "write_message (MExchange m) = write_exchange m"
| "write_message (MQueue m) = write_queue m"
| "write_message (MBasic m) = write_basic m"
| "write_message (MTx m) = write_tx m"
| "write_message (MConfirm m) = write_confirm m"

definition rmap :: "('a \<Rightarrow> 'b) \<Rightarrow> 'a rd \<Rightarrow> 'b rd" where
  "rmap f p = rbind p (\<lambda>x. rreturn (f x))"

definition parse_method :: "16 word \<Rightarrow> 16 word \<Rightarrow> message rd" where
  "parse_method classId methodId =
     (if classId = 10 then rmap MConnection (parse_connection methodId)
      else if classId = 20 then rmap MChannel (parse_channel methodId)
      else if classId = 40 then rmap MExchange (parse_exchange methodId)
      else if classId = 50 then rmap MQueue (parse_queue methodId)
      else if classId = 60 then rmap MBasic (parse_basic methodId)
      else if classId = 90 then rmap MTx (parse_tx methodId)
      else if classId = 85 then rmap MConfirm (parse_confirm methodId)
      else rfail ErrBadMethod)"


section \<open>Frames\<close>

text \<open>
  The class and method numbers of a method frame are set by the reader and not used by
  the writer.
\<close>

datatype frame =
    MethodFrame "16 word" "16 word" "16 word" "message option"
  | HeaderFrame "16 word" "16 word" "16 word" "64 word" properties
  | BodyFrame "16 word" bytes
  | HeartbeatFrame "16 word"

fun frame_channel :: "frame \<Rightarrow> 16 word" where
  "frame_channel (MethodFrame c _ _ _) = c"
| "frame_channel (HeaderFrame c _ _ _ _) = c"
| "frame_channel (BodyFrame c _) = c"
| "frame_channel (HeartbeatFrame c) = c"

definition frameMethod :: byte where "frameMethod = 1"
definition frameHeader :: byte where "frameHeader = 2"
definition frameBody :: byte where "frameBody = 3"
definition frameHeartbeat :: byte where "frameHeartbeat = 8"
definition frameEnd :: byte where "frameEnd = 206"

definition writeFrame :: "byte \<Rightarrow> 16 word \<Rightarrow> bytes \<Rightarrow> wr" where
  "writeFrame typ channel payload =
     (let sz = (of_nat (length payload) :: 64 word)
      in wseq
       [Inr [typ,
             ucast (drop_bit 8 (channel AND 0xFF00)),
             ucast (drop_bit 0 (channel AND 0x00FF)),
             ucast (drop_bit 24 (sz AND 0xFF000000)),
             ucast (drop_bit 16 (sz AND 0x00FF0000)),
             ucast (drop_bit 8 (sz AND 0x0000FF00)),
             ucast (drop_bit 0 (sz AND 0x000000FF))],
        Inr payload,
        Inr [frameEnd]])"

definition write_method_payload :: "message \<Rightarrow> wr" where
  "write_method_payload m =
     wseq [write_u16 (fst (message_id m)), write_u16 (snd (message_id m)), write_message m]"

fun write_frame :: "frame \<Rightarrow> wr" where
  "write_frame (MethodFrame ch _ _ mo) =
     (case mo of
        None \<Rightarrow> Inl ErrMissingMethod
      | Some m \<Rightarrow>
          (case write_method_payload m of
             Inl e \<Rightarrow> Inl e
           | Inr payload \<Rightarrow> writeFrame frameMethod ch payload))"
| "write_frame (HeaderFrame ch cls weight sz p) =
     (case write_header cls weight sz p of
        Inl e \<Rightarrow> Inl e
      | Inr payload \<Rightarrow> writeFrame frameHeader ch payload)"
| "write_frame (BodyFrame ch body) = writeFrame frameBody ch body"
| "write_frame (HeartbeatFrame ch) = writeFrame frameHeartbeat ch []"

definition parseMethodFrame :: "16 word \<Rightarrow> 32 word \<Rightarrow> frame rd" where
  "parseMethodFrame channel sz =
     rbind read_u16 (\<lambda>classId.
     rbind read_u16 (\<lambda>methodId.
     rbind (parse_method classId methodId) (\<lambda>m.
     rreturn (MethodFrame channel classId methodId (Some m)))))"

definition parseHeaderFrame :: "16 word \<Rightarrow> 32 word \<Rightarrow> frame rd" where
  "parseHeaderFrame channel sz =
     rbind read_header (\<lambda>(cls, weight, n, p). rreturn (HeaderFrame channel cls weight n p))"

definition parseBodyFrame :: "16 word \<Rightarrow> 32 word \<Rightarrow> frame rd" where
  "parseBodyFrame channel sz = rbind (ReadFull (unat sz)) (\<lambda>body. rreturn (BodyFrame channel body))"

definition parseHeartbeatFrame :: "16 word \<Rightarrow> 32 word \<Rightarrow> frame rd" where
  "parseHeartbeatFrame channel sz =
     (if 0 < sz then rfail (RPanic ''Heartbeats should not have a payload'')
      else rreturn (HeartbeatFrame channel))"

definition ReadFrame :: "frame rd" where
  "ReadFrame =
     rbind (ReadFull 7) (\<lambda>scratch.
       let typ = scratch ! 0;
           channel = of_nat (unbe (take 2 (drop 1 scratch)));
           sz = of_nat (unbe (take 4 (drop 3 scratch)))
       in rbind
            (if typ = frameMethod then parseMethodFrame channel sz
             else if typ = frameHeader then parseHeaderFrame channel sz
             else if typ = frameBody then parseBodyFrame channel sz
             else if typ = frameHeartbeat then parseHeartbeatFrame channel sz
             else rfail ErrFrame) (\<lambda>f.
          rbind (ReadFull 1) (\<lambda>scratch.
            if scratch ! 0 \<noteq> frameEnd then rfail ErrFrame else rreturn f)))"


section \<open>The header of a frame\<close>

lemma byte_of_word:
  "(ucast (drop_bit n ((w :: 'a::len word) AND push_bit n (mask 8))) :: byte) = of_nat (unat w div 2 ^ n)"
proof -
  have "(ucast (drop_bit n (w AND push_bit n (mask 8))) :: byte) = ucast (drop_bit n w)"
    by (rule bit_eqI) (auto simp: bit_ucast_iff bit_drop_bit_eq bit_and_iff bit_push_bit_iff bit_mask_iff
        possible_bit_def dest: bit_imp_le_length)
  also have "\<dots> = of_nat (unat (drop_bit n w))" by simp
  also have "unat (drop_bit n w) = unat w div 2 ^ n"
    by (rule trans [OF unat_drop_bit_eq drop_bit_eq_div])
  finally show ?thesis .
qed

lemma byte_masks:
  "(0xFF00 :: 16 word) = push_bit 8 (mask 8)" "(0x00FF :: 16 word) = push_bit 0 (mask 8)"
  "(0xFF000000 :: 64 word) = push_bit 24 (mask 8)" "(0x00FF0000 :: 64 word) = push_bit 16 (mask 8)"
  "(0x0000FF00 :: 64 word) = push_bit 8 (mask 8)" "(0x000000FF :: 64 word) = push_bit 0 (mask 8)"
  by (simp_all add: push_bit_eq_mult mask_eq_exp_minus_1)

lemma be_2: "be 2 k = [of_nat (k div 256), of_nat k]"
  using be.simps(2) [of 1 k] be.simps(2) [of 0 "k div 256"] by (simp add: be.simps numeral_2_eq_2)

lemma be_4: "be 4 k = [of_nat (k div 2 ^ 24), of_nat (k div 2 ^ 16), of_nat (k div 2 ^ 8), of_nat k]"
proof -
  have four: "(4 :: nat) = Suc (Suc (Suc (Suc 0)))" by simp
  have "k div 256 div 256 = k div 65536" and "k div 256 div 256 div 256 = k div 16777216"
    by (simp_all add: div_mult2_eq [symmetric])
  then show ?thesis unfolding four by (simp add: be.simps)
qed

lemma writeFrame_eq:
  assumes "length payload < 2 ^ 32"
  shows "writeFrame typ ch payload = Inr (typ # be 2 (unat ch) @ be 4 (length payload) @ payload @ [frameEnd])"
proof -
  have "unat (of_nat (length payload) :: 64 word) = length payload"
    using assms by (simp add: unat_of_nat)
  then show ?thesis
    unfolding writeFrame_def Let_def byte_masks byte_of_word be_2 be_4 by (simp add: wthen_def)
qed

section \<open>Round trips of frames\<close>

fun message_ok :: "message \<Rightarrow> bool" where
  "message_ok (MConnection m) = connection_ok m"
| "message_ok (MChannel m) = channel_ok m"
| "message_ok (MExchange m) = exchange_ok m"
| "message_ok (MQueue m) = queue_ok m"
| "message_ok (MBasic m) = basic_ok m"
| "message_ok (MTx m) = tx_ok m"
| "message_ok (MConfirm m) = confirm_ok m"

fun message_view :: "message \<Rightarrow> message" where
  "message_view (MBasic m) = MBasic (clear_content m)"
| "message_view m = m"

lemma class_ids:
  "fst (connection_id a) = 10" "fst (channel_id b) = 20" "fst (exchange_id c) = 40"
  "fst (queue_id d) = 50" "fst (basic_id e) = 60" "fst (tx_id f) = 90" "fst (confirm_id g) = 85"
proof -
  show "fst (connection_id a) = 10" by (cases a) simp_all
  show "fst (channel_id b) = 20" by (cases b) simp_all
  show "fst (exchange_id c) = 40" by (cases c) simp_all
  show "fst (queue_id d) = 50" by (cases d) simp_all
  show "fst (basic_id e) = 60" by (cases e) simp_all
  show "fst (tx_id f) = 90" by (cases f) simp_all
  show "fst (confirm_id g) = 85" by (cases g) simp_all
qed

lemma fits_inE:
  assumes "fits_in w n"
  obtains bs where "w = Inr bs" and "length bs < n"
  using assms by (cases w) (auto simp: fits_in_def)

lemma rt_rmap: "roundtrips w p x \<Longrightarrow> roundtrips w (rmap f p) (f x)"
  by (auto simp: roundtrips_def rmap_def rbind_def rreturn_def)

lemma rt_message:
  "message_ok m \<Longrightarrow>
   roundtrips (write_message m) (parse_method (fst (message_id m)) (snd (message_id m))) (message_view m)"
  by (cases m) (simp_all add: parse_method_def class_ids rt_rmap rt_connection rt_channel rt_exchange
      rt_queue rt_basic rt_tx rt_confirm)

lemma rt_method_payload:
  "message_ok m \<Longrightarrow> roundtrips (write_method_payload m) (parseMethodFrame ch sz)
     (MethodFrame ch (fst (message_id m)) (snd (message_id m)) (Some (message_view m)))"
  unfolding write_method_payload_def parseMethodFrame_def
  by ((rule rt_Cons rt_words rt_message rt_Nil | simp)+)

fun frame_ok :: "frame \<Rightarrow> bool" where
  "frame_ok (MethodFrame ch _ _ mo) =
     (case mo of None \<Rightarrow> False | Some m \<Rightarrow> message_ok m \<and> fits_in (write_method_payload m) (2 ^ 32))"
| "frame_ok (HeaderFrame ch cls weight sz p) =
     (properties_ok p \<and> fits_in (write_header cls weight sz p) (2 ^ 32))"
| "frame_ok (BodyFrame ch body) = (length body < 2 ^ 32)"
| "frame_ok (HeartbeatFrame ch) = True"

fun frame_view :: "frame \<Rightarrow> frame" where
  "frame_view (MethodFrame ch _ _ (Some m)) =
     MethodFrame ch (fst (message_id m)) (snd (message_id m)) (Some (message_view m))"
| "frame_view f = f"

lemma ReadFrame_eq:
  assumes "length payload < 2 ^ 32"
    and "\<And>rest. (if typ = frameMethod then parseMethodFrame ch (of_nat (length payload))
             else if typ = frameHeader then parseHeaderFrame ch (of_nat (length payload))
             else if typ = frameBody then parseBodyFrame ch (of_nat (length payload))
             else if typ = frameHeartbeat then parseHeartbeatFrame ch (of_nat (length payload))
             else rfail ErrFrame) (payload @ rest) = (Inr f, rest)"
  shows "roundtrips (writeFrame typ ch payload) ReadFrame f"
proof (rule roundtripsI [OF writeFrame_eq [OF assms(1)]])
  fix rest
  define hd7 where "hd7 = typ # be 2 (unat ch) @ be 4 (length payload)"
  have len: "length hd7 = 7" and nth: "hd7 ! 0 = typ" and c2: "take 2 (drop 1 hd7) = be 2 (unat ch)"
    and s4: "take 4 (drop 3 hd7) = be 4 (length payload)"
    by (simp_all add: hd7_def)
  have ch: "of_nat (unbe (be 2 (unat ch))) = ch" by (simp add: unbe_be_word)
  have sz: "(of_nat (unbe (be 4 (length payload))) :: 32 word) = of_nat (length payload)"
    using assms(1) by (simp add: unbe_be)
  have full: "ReadFull 7 (hd7 @ s) = (Inr hd7, s)" for s by (rule ReadFull_append) (simp add: len)
  have fin: "ReadFull 1 (frameEnd # rest) = (Inr [frameEnd], rest)" by (simp add: ReadFull_def)
  define p where "p = (if typ = frameMethod then parseMethodFrame ch (of_nat (length payload))
             else if typ = frameHeader then parseHeaderFrame ch (of_nat (length payload))
             else if typ = frameBody then parseBodyFrame ch (of_nat (length payload))
             else if typ = frameHeartbeat then parseHeartbeatFrame ch (of_nat (length payload))
             else rfail ErrFrame)"
  have p: "p (payload @ s) = (Inr f, s)" for s unfolding p_def by (rule assms(2))
  have "ReadFrame (hd7 @ s) = rbind p (\<lambda>f. rbind (ReadFull 1)
      (\<lambda>scratch. if scratch ! 0 \<noteq> frameEnd then rfail ErrFrame else rreturn f)) s" for s
    unfolding ReadFrame_def rbind_Inr [where p = "ReadFull 7", OF full] Let_def nth c2 s4 ch sz p_def ..
  then have "ReadFrame (hd7 @ payload @ frameEnd # rest) = (Inr f, rest)"
    by (simp add: rbind_def p fin rreturn_def del: One_nat_def)
  then show "ReadFrame ((typ # be 2 (unat ch) @ be 4 (length payload) @ payload @ [frameEnd]) @ rest) = (Inr f, rest)"
    by (simp add: hd7_def)
qed

lemmas frame_types = frameMethod_def frameHeader_def frameBody_def frameHeartbeat_def

lemma rt_frame: "frame_ok f \<Longrightarrow> roundtrips (write_frame f) ReadFrame (frame_view f)"
proof (cases f)
  case (MethodFrame ch cls mid mo)
  assume "frame_ok f"
  with MethodFrame obtain m where m: "mo = Some m" "message_ok m" "fits_in (write_method_payload m) (2 ^ 32)"
    by (auto split: option.splits)
  from m(3) obtain payload where "write_method_payload m = Inr payload" "length payload < 2 ^ 32"
    by (rule fits_inE)
  with MethodFrame m rt_method_payload [OF m(2), of ch "of_nat (length payload)"] show ?thesis
    by (auto simp: frame_types roundtrips_apply intro!: ReadFrame_eq)
next
  case (HeaderFrame ch cls weight n p)
  assume "frame_ok f"
  with HeaderFrame have p: "properties_ok p" "fits_in (write_header cls weight n p) (2 ^ 32)" by auto
  from p(2) obtain payload where "write_header cls weight n p = Inr payload" "length payload < 2 ^ 32"
    by (rule fits_inE)
  with HeaderFrame roundtrips_apply [OF rt_header [OF p(1), of cls weight n]] show ?thesis
    by (auto simp: frame_types parseHeaderFrame_def rbind_def rreturn_def intro!: ReadFrame_eq)
next
  case (BodyFrame ch body)
  assume "frame_ok f"
  with BodyFrame show ?thesis
    by (auto simp: frame_types parseBodyFrame_def rbind_def rreturn_def ReadFull_append unat_of_nat
        intro!: ReadFrame_eq)
next
  case (HeartbeatFrame ch)
  then show ?thesis
    by (auto simp: frame_types parseHeartbeatFrame_def rreturn_def intro!: ReadFrame_eq)
qed

interpretation frame_codec: codec write_frame ReadFrame frame_ok frame_view
  by unfold_locales (rule rt_frame)

section \<open>Properties of the frames\<close>

text \<open>
  C17: a stream of frames arrives as it was sent. Any sequence of method, header, body and heartbeat frames
  that fit their length fields is written without error, and reading as many frames from the
  bytes gives the same frames in order, on the same channels, with what follows left in the
  stream; a method with content arrives without it and with its numbers filled in.
\<close>

theorem frame_stream_roundtrip:
  assumes "\<forall>f\<in>set fs. frame_ok f"
  shows "\<exists>bs. wseq (map write_frame fs) = Inr bs \<and>
     (\<forall>rest. read_n ReadFrame (length fs) (bs @ rest) = (Inr (map frame_view fs), rest)) \<and>
     map frame_channel (map frame_view fs) = map frame_channel fs"
proof -
  have "frame_channel (frame_view f) = frame_channel f" for f
    by (cases f rule: frame_view.cases) simp_all
  with frame_codec.decode_stream [OF assms] show ?thesis by (auto simp: comp_def)
qed

theorem frame_stream_roundtrip_witness:
  "\<exists>bs. wseq (map write_frame
       [MethodFrame 1 0 0 (Some (MBasic (BasicAck 7 False))), BodyFrame 1 [1, 2, 3], HeartbeatFrame 0]) = Inr bs \<and>
     read_n ReadFrame 3 bs =
       (Inr [MethodFrame 1 60 80 (Some (MBasic (BasicAck 7 False))), BodyFrame 1 [1, 2, 3], HeartbeatFrame 0], [])"
proof -
  let ?fs = "[MethodFrame 1 0 0 (Some (MBasic (BasicAck 7 False))), BodyFrame 1 [1, 2, 3], HeartbeatFrame 0]"
  have "\<forall>f\<in>set ?fs. frame_ok f"
    by (simp add: write_method_payload_def write_basicAck_def write_u8_def write_word_def wthen_def fits_in_def)
  from frame_stream_roundtrip [OF this] obtain bs where "wseq (map write_frame ?fs) = Inr bs"
    "\<forall>rest. read_n ReadFrame (length ?fs) (bs @ rest) = (Inr (map frame_view ?fs), rest)" by blast
  moreover have "length ?fs = 3" by simp
  moreover have "map frame_view ?fs = [MethodFrame 1 60 80 (Some (MBasic (BasicAck 7 False))), BodyFrame 1 [1, 2, 3], HeartbeatFrame 0]"
    by simp
  ultimately show ?thesis by (metis append_Nil2)
qed

text \<open>
  Every method of the protocol round-trips: for each of the 62 methods of the seven
  classes whose strings and tables fit, the class number, the method number and the
  arguments written are read back by \<open>parseMethodFrame\<close> as the same method.
\<close>

theorem method_roundtrip:
  assumes "message_ok m"
  shows "\<exists>payload. write_method_payload m = Inr payload \<and>
     (\<forall>ch sz rest. parseMethodFrame ch sz (payload @ rest) =
        (Inr (MethodFrame ch (fst (message_id m)) (snd (message_id m)) (Some (message_view m))), rest))"
proof -
  from rt_method_payload [OF assms, of 0 0] obtain payload where p: "write_method_payload m = Inr payload"
    by (rule roundtripsE)
  with roundtrips_apply [OF rt_method_payload [OF assms] p] show ?thesis by blast
qed

abbreviation demo_bind :: message where
  "demo_bind \<equiv> MQueue (QueueBind 0 [0x71] [0x78] [0x6B] False [])"

theorem method_roundtrip_witness:
  "\<exists>payload. write_method_payload demo_bind = Inr payload \<and>
     parseMethodFrame 5 0 payload = (Inr (MethodFrame 5 50 20 (Some demo_bind)), [])"
proof -
  have "message_ok demo_bind" by (simp add: table_ok_def fits_in_def)
  from method_roundtrip [OF this] obtain payload where p: "write_method_payload demo_bind = Inr payload"
    and r: "\<forall>ch sz rest. parseMethodFrame ch sz (payload @ rest) =
        (Inr (MethodFrame ch (fst (message_id demo_bind)) (snd (message_id demo_bind)) (Some (message_view demo_bind))), rest)"
    by blast
  from p r [rule_format, of 5 0 "[]"] show ?thesis by simp
qed

text \<open>
  A string longer than its length field is cut off without an error: of a short string
  of any length, the reader gets the first \<open>length mod 256\<close> bytes; a routing key of 256
  bytes arrives empty.
\<close>

theorem shortstr_cut_off:
  "\<exists>bs. writeShortstr s = Inr bs \<and>
     (\<forall>rest. readShortstr (bs @ rest) = (Inr (take (length s mod 256) s), rest))"
proof -
  have len: "unat (of_nat (length s) :: byte) = length s mod 256"
    by (simp add: unat_of_nat)
  have "length (take (length s mod 256) s) \<le> length s mod 256" by simp
  also have "\<dots> < 256" by simp
  finally have "length (take (length s mod 256) s) < 256" .
  note small = rt_shortstr [OF this] writeShortstr_ok [OF this]
  have "writeShortstr s = writeShortstr (take (length s mod 256) s)"
    unfolding small(2) unfolding writeShortstr_def Let_def len
    by (simp add: wthen_def write_u8_def write_word_def be.simps len min_def)
  with small(1) show ?thesis by (auto simp: roundtrips_def)
qed

text \<open>
  What the reader does with bad frames. An unknown type is a frame error, a wrong end
  octet as well, and a heartbeat with a payload, which the peer can send at any time, panics.
\<close>

theorem bad_frames:
  "(typ \<notin> {frameMethod, frameHeader, frameBody, frameHeartbeat} \<longrightarrow>
     fst (ReadFrame (typ # c1 # c2 # s1 # s2 # s3 # s4 # rest)) = Inl ErrFrame) \<and>
   ([s1, s2, s3, s4] \<noteq> [0, 0, 0, 0] \<longrightarrow>
     (\<exists>e. fst (ReadFrame (frameHeartbeat # c1 # c2 # s1 # s2 # s3 # s4 # rest)) = Inl (RPanic e)))"
proof (intro conjI impI)
  have full: "ReadFull 7 (t # c1 # c2 # s1 # s2 # s3 # s4 # rest) = (Inr [t, c1, c2, s1, s2, s3, s4], rest)" for t
    by (simp add: ReadFull_def)
  note step = rbind_Inr [where p = "ReadFull 7", OF full]
  show "fst (ReadFrame (typ # c1 # c2 # s1 # s2 # s3 # s4 # rest)) = Inl ErrFrame"
    if "typ \<notin> {frameMethod, frameHeader, frameBody, frameHeartbeat}"
    using that unfolding ReadFrame_def step Let_def by (simp add: rbind_def rfail_def)
  assume "[s1, s2, s3, s4] \<noteq> [0, 0, 0, 0]"
  then have "unbe [s1, s2, s3, s4] \<noteq> 0" by (auto simp: unbe_def unat_eq_zero)
  moreover have byte: "unat x < 256" for x :: byte
    using unsigned_less [of x, where ?'a = nat] by simp
  have "unbe [s1, s2, s3, s4] < 2 ^ 32"
    using byte [of s1] byte [of s2] byte [of s3] byte [of s4] by (simp add: unbe_def)
  ultimately have pos: "0 < (of_nat (unbe [s1, s2, s3, s4]) :: 32 word)"
    by (simp add: word_gt_0 unat_of_nat flip: unat_eq_zero)
  have "\<exists>e. fst (ReadFrame (frameHeartbeat # c1 # c2 # s1 # s2 # s3 # s4 # rest)) = Inl (RPanic e)"
    unfolding ReadFrame_def step Let_def
    using pos by (simp add: rbind_def rfail_def parseHeartbeatFrame_def frame_types)
  then show "\<exists>e. fst (ReadFrame (frameHeartbeat # c1 # c2 # s1 # s2 # s3 # s4 # rest)) = Inl (RPanic e)" .
qed

theorem bad_frames_witness:
  "fst (ReadFrame [4, 0, 0, 0, 0, 0, 0]) = Inl ErrFrame \<and>
   (\<exists>e. fst (ReadFrame [frameHeartbeat, 0, 0, 0, 0, 0, 1, 9]) = Inl (RPanic e))"
  using bad_frames [of 4 0 0 0 0 0 0 "[]"] bad_frames [of 4 0 0 0 0 0 1 "[9]"]
  by (simp add: frame_types)

end
