(* ===== verification/Amqp_Channel.thy ===== *)
theory Amqp_Channel
  imports Amqp_Frames "HOL-Library.Sublist"
begin

text \<open>
  The frames of a channel (\<open>channel.go\<close>): \<open>sendOpen\<close>, which splits the content of a message
  into frames, and the state machine \<open>recvMethod\<close>, \<open>recvHeader\<close>, \<open>recvContent\<close>, which puts it
  together again.

  The connection is the parameter \<open>send\<close>: it takes a frame and the state of the connection
  to an error, if there is one, and the new state.
\<close>


section \<open>Messages with content\<close>

text \<open>\<open>getContent\<close> is \<open>None\<close> for the methods that are no \<open>messageWithContent\<close>.\<close>

fun getContent :: "message \<Rightarrow> (properties \<times> bytes) option" where
  "getContent (MBasic (BasicPublish _ _ _ _ _ p b)) = Some (p, b)"
| "getContent (MBasic (BasicReturn _ _ _ _ p b)) = Some (p, b)"
| "getContent (MBasic (BasicDeliver _ _ _ _ _ p b)) = Some (p, b)"
| "getContent (MBasic (BasicGetOk _ _ _ _ _ p b)) = Some (p, b)"
| "getContent _ = None"

fun setContent :: "properties \<Rightarrow> bytes \<Rightarrow> message \<Rightarrow> message" where
  "setContent p b (MBasic (BasicPublish r x k m i _ _)) = MBasic (BasicPublish r x k m i p b)"
| "setContent p b (MBasic (BasicReturn c t x k _ _)) = MBasic (BasicReturn c t x k p b)"
| "setContent p b (MBasic (BasicDeliver c t r x k _ _)) = MBasic (BasicDeliver c t r x k p b)"
| "setContent p b (MBasic (BasicGetOk t r x k n _ _)) = MBasic (BasicGetOk t r x k n p b)"
| "setContent p b m = m"

lemma setContent_getContent: "getContent m = Some (p, b) \<Longrightarrow> setContent p b m = m"
  by (cases m rule: getContent.cases) auto

lemma setContent_view: "getContent m = Some (p, b) \<Longrightarrow> setContent p b (message_view m) = m"
  by (cases m rule: getContent.cases) auto

lemma getContent_view: "getContent m = Some c \<Longrightarrow> getContent (message_view m) \<noteq> None"
  by (cases m rule: getContent.cases) auto


section \<open>Sending\<close>

type_synonym ('e, 'c) conn = "frame \<Rightarrow> 'c \<Rightarrow> 'e option \<times> 'c"

datatype 'e send_result = Sent | SendFailed 'e | SendPanic | SendClosed

definition frameHeaderSize :: int where
  "frameHeaderSize = 1 + 2 + 4 + 1"

text \<open>
  The loop over the body, with \<open>i\<close> and \<open>j\<close> as in the code. Slicing panics when \<open>j\<close> is below \<open>i\<close>,
  which happens for a negative \<open>sz\<close>; for \<open>sz\<close> zero the loop does not advance, and
  \<open>None\<close> is the loop that never ends.
\<close>

partial_function (option) send_body ::
    "('e, 'c) conn \<Rightarrow> 16 word \<Rightarrow> int \<Rightarrow> bytes \<Rightarrow> int \<Rightarrow> int \<Rightarrow> 'c \<Rightarrow> ('e send_result \<times> 'c) option" where
  "send_body send ch sz body i j c =
     (if i < int (length body) then
        let j = (if j > int (length body) then int (length body) else j)
        in if j < i then Some (SendPanic, c)
           else case send (BodyFrame ch (drop (nat i) (take (nat j) body))) c of
             (Some e, c) \<Rightarrow> Some (SendFailed e, c)
           | (None, c) \<Rightarrow> send_body send ch sz body j (j + sz) c
      else Some (Sent, c))"

definition sendOpen ::
    "('e, 'c) conn \<Rightarrow> 16 word \<Rightarrow> int \<Rightarrow> message \<Rightarrow> 'c \<Rightarrow> ('e send_result \<times> 'c) option" where
  "sendOpen send ch frameSize msg c =
     (case getContent msg of
        Some (props, body) \<Rightarrow>
          (case send (MethodFrame ch 0 0 (Some msg)) c of
             (Some e, c) \<Rightarrow> Some (SendFailed e, c)
           | (None, c) \<Rightarrow>
               (case send (HeaderFrame ch (fst (message_id msg)) 0 (of_nat (length body)) props) c of
                  (Some e, c) \<Rightarrow> Some (SendFailed e, c)
                | (None, c) \<Rightarrow>
                    send_body send ch (frameSize - frameHeaderSize) body 0 (frameSize - frameHeaderSize) c))
      | None \<Rightarrow>
          (case send (MethodFrame ch 0 0 (Some msg)) c of
             (Some e, c) \<Rightarrow> Some (SendFailed e, c)
           | (None, c) \<Rightarrow> Some (Sent, c)))"


text \<open>After a close was sent or received only \<open>channel.close-ok\<close> is sent; all else is the error \<open>ErrClosed\<close>.\<close>

definition sendClosed ::
    "('e, 'c) conn \<Rightarrow> 16 word \<Rightarrow> message \<Rightarrow> 'c \<Rightarrow> ('e send_result \<times> 'c) option" where
  "sendClosed send ch msg c =
     (if msg = MChannel ChannelCloseOk then
        (case send (MethodFrame ch 0 0 (Some msg)) c of
           (Some e, c) \<Rightarrow> Some (SendFailed e, c)
         | (None, c) \<Rightarrow> Some (Sent, c))
      else Some (SendClosed, c))"


section \<open>Receiving\<close>

datatype recv_state = RecvMethod | RecvHeader | RecvContent

record assembly =
  recv :: recv_state
  a_message :: "message option"
  a_header :: "(64 word \<times> properties) option"
  a_body :: bytes

text \<open>
  A step of the state machine: the new state and the message it dispatches, or \<open>None\<close> for a
  panic. The method of a frame is an option, as it may be nil.
\<close>

type_synonym recv_result = "(assembly \<times> message option list) option"

definition has_content :: "message option \<Rightarrow> bool" where
  "has_content mo = (case mo of None \<Rightarrow> False | Some m \<Rightarrow> getContent m \<noteq> None)"

fun recvMethod :: "frame \<Rightarrow> assembly \<Rightarrow> recv_result" where
  "recvMethod (MethodFrame _ _ _ mo) a =
     (if has_content mo then Some (a\<lparr>a_body := [], a_message := mo, recv := RecvHeader\<rparr>, [])
      else Some (a\<lparr>recv := RecvMethod\<rparr>, [mo]))"
| "recvMethod (HeaderFrame _ _ _ _ _) a = Some (a\<lparr>recv := RecvMethod\<rparr>, [])"
| "recvMethod (BodyFrame _ _) a = Some (a\<lparr>recv := RecvMethod\<rparr>, [])"
| "recvMethod (HeartbeatFrame _) a = None"

fun recvHeader :: "frame \<Rightarrow> assembly \<Rightarrow> recv_result" where
  "recvHeader (MethodFrame ch c m mo) a = recvMethod (MethodFrame ch c m mo) a"
| "recvHeader (HeaderFrame _ _ _ sz p) a =
     (let a = a\<lparr>a_header := Some (sz, p)\<rparr>
      in if sz = 0
         then (case a_message a of
                 None \<Rightarrow> None
               | Some m \<Rightarrow>
                   Some (a\<lparr>recv := RecvMethod, a_message := Some (setContent p (a_body a) m)\<rparr>,
                         [Some (setContent p (a_body a) m)]))
         else Some (a\<lparr>recv := RecvContent\<rparr>, []))"
| "recvHeader (BodyFrame _ _) a = Some (a\<lparr>recv := RecvMethod\<rparr>, [])"
| "recvHeader (HeartbeatFrame _) a = None"

fun recvContent :: "frame \<Rightarrow> assembly \<Rightarrow> recv_result" where
  "recvContent (MethodFrame ch c m mo) a = recvMethod (MethodFrame ch c m mo) a"
| "recvContent (HeaderFrame _ _ _ _ _) a = Some (a\<lparr>recv := RecvMethod\<rparr>, [])"
| "recvContent (BodyFrame _ b) a =
     (let a = a\<lparr>a_body := a_body a @ b\<rparr>
      in case a_header a of
           None \<Rightarrow> None
         | Some (sz, p) \<Rightarrow>
             if of_nat (length (a_body a)) \<ge> sz
             then (case a_message a of
                     None \<Rightarrow> None
                   | Some m \<Rightarrow>
                       Some (a\<lparr>recv := RecvMethod, a_message := Some (setContent p (a_body a) m)\<rparr>,
                             [Some (setContent p (a_body a) m)]))
             else Some (a\<lparr>recv := RecvContent\<rparr>, []))"
| "recvContent (HeartbeatFrame _) a = None"

definition recv_frame :: "frame \<Rightarrow> assembly \<Rightarrow> recv_result" where
  "recv_frame f a =
     (case recv a of
        RecvMethod \<Rightarrow> recvMethod f a
      | RecvHeader \<Rightarrow> recvHeader f a
      | RecvContent \<Rightarrow> recvContent f a)"

fun recv_frames :: "frame list \<Rightarrow> assembly \<Rightarrow> recv_result" where
  "recv_frames [] a = Some (a, [])"
| "recv_frames (f # fs) a =
     (case recv_frame f a of
        None \<Rightarrow> None
      | Some (a, ms) \<Rightarrow> map_option (\<lambda>(a, ns). (a, ms @ ns)) (recv_frames fs a))"

definition newAssembly :: assembly where
  "newAssembly = \<lparr>recv = RecvMethod, a_message = None, a_header = None, a_body = []\<rparr>"

section \<open>The frames of a message\<close>

text \<open>What \<open>sendOpen\<close> is to send: the method, the header with the length of the body, and the body in pieces.\<close>

fun chunks :: "nat \<Rightarrow> bytes \<Rightarrow> bytes list" where
  "chunks n [] = []"
| "chunks n (b # bs) = (if n = 0 then [] else take n (b # bs) # chunks n (drop n (b # bs)))"

definition content_frames :: "16 word \<Rightarrow> nat \<Rightarrow> message \<Rightarrow> frame list" where
  "content_frames ch n m =
     MethodFrame ch 0 0 (Some m) #
     (case getContent m of
        None \<Rightarrow> []
      | Some (p, b) \<Rightarrow>
          HeaderFrame ch (fst (message_id m)) 0 (of_nat (length b)) p # map (BodyFrame ch) (chunks n b))"

fun send_all :: "('e, 'c) conn \<Rightarrow> frame list \<Rightarrow> 'c \<Rightarrow> 'e send_result \<times> 'c" where
  "send_all send [] c = (Sent, c)"
| "send_all send (f # fs) c =
     (case send f c of (Some e, c) \<Rightarrow> (SendFailed e, c) | (None, c) \<Rightarrow> send_all send fs c)"

lemma concat_chunks: "0 < n \<Longrightarrow> concat (chunks n bs) = bs"
  by (induction n bs rule: chunks.induct) simp_all

lemma chunks_bound: "b \<in> set (chunks n bs) \<Longrightarrow> b \<noteq> [] \<and> length b \<le> n"
  by (induction n bs rule: chunks.induct) (auto split: if_splits)

lemma chunks_length: "0 < n \<Longrightarrow> length (chunks n bs) = (length bs + n - 1) div n"
proof (induction n bs rule: chunks.induct)
  case (2 n b bs)
  then have IH: "length (chunks n (drop n (b # bs))) = (length (drop n (b # bs)) + n - 1) div n" by simp
  show ?case
  proof (cases "length (b # bs) \<le> n")
    case True
    with 2 show ?thesis by (simp add: div_add_self2)
  next
    case False
    then have "(length (b # bs) + n - 1) div n = Suc ((length (b # bs) - 1) div n)"
      using 2 by (simp add: div_add_self2)
    with False IH 2 show ?thesis by simp
  qed
qed simp

lemma send_body_chunks:
  assumes "0 < n" and "i \<le> length body"
  shows "send_body send ch (int n) body (int i) (int i + int n) c =
     Some (send_all send (map (BodyFrame ch) (chunks n (drop i body))) c)"
  using assms(2)
proof (induction "length body - i" arbitrary: i c rule: less_induct)
  case less
  show ?case
  proof (cases "i < length body")
    case False
    with less.prems show ?thesis by (simp add: send_body.simps)
  next
    case True
    define k where "k = min (i + n) (length body)"
    have j: "(if int i + int n > int (length body) then int (length body) else int i + int n) = int k"
      by (simp add: k_def min_def)
    have k: "i < k" "k \<le> length body" using True assms(1) by (auto simp: k_def)
    have piece: "chunks n (drop i body) = drop i (take k body) # chunks n (drop k body)"
    proof (cases "drop i body")
      case Nil
      with True show ?thesis by simp
    next
      case (Cons b bs)
      then have "chunks n (drop i body) = take n (drop i body) # chunks n (drop n (drop i body))"
        using assms(1) by simp
      moreover have "take n (drop i body) = drop i (take k body)"
        by (simp add: k_def take_drop min_def add.commute)
      moreover have "drop n (drop i body) = drop k body"
        by (simp add: k_def min_def add.commute)
      ultimately show ?thesis by simp
    qed
    have next_k: "send_body send ch (int n) body (int k) (int k + int n) c' =
        Some (send_all send (map (BodyFrame ch) (chunks n (drop k body))) c')" for c'
      using less.hyps [of k] k by simp
    have "send_body send ch (int n) body (int i) (int i + int n) c =
        (case send (BodyFrame ch (drop i (take k body))) c of
           (Some e, c) \<Rightarrow> Some (SendFailed e, c)
         | (None, c) \<Rightarrow> send_body send ch (int n) body (int k) (int k + int n) c)"
      using True k(1) by (subst send_body.simps) (simp only: j Let_def, simp)
    with piece next_k show ?thesis by (simp split: prod.split option.split)
  qed
qed

lemma sendOpen_content_frames:
  assumes "frameHeaderSize < frameSize"
  shows "sendOpen send ch frameSize m c =
     Some (send_all send (content_frames ch (nat (frameSize - frameHeaderSize)) m) c)"
proof -
  define n where "n = nat (frameSize - frameHeaderSize)"
  have n: "frameSize - frameHeaderSize = int n" "0 < n" using assms by (simp_all add: n_def)
  note body = send_body_chunks [OF n(2), of 0, simplified]
  show ?thesis
    unfolding sendOpen_def content_frames_def n_def [symmetric] n(1)
    by (simp add: body split: option.split prod.split)
qed

section \<open>Putting the content together\<close>

lemma recv_frames_append:
  "recv_frames (fs @ gs) a =
     (case recv_frames fs a of
        None \<Rightarrow> None
      | Some (a, ms) \<Rightarrow> map_option (\<lambda>(a, ns). (a, ms @ ns)) (recv_frames gs a))"
proof (induction fs arbitrary: a)
  case Nil
  show ?case by (cases "recv_frames gs a") simp_all
next
  case (Cons f fs)
  then show ?case
    by (auto simp: option.map_comp comp_def case_prod_unfold split: option.split)
qed

lemma recv_method_frame: "recv_frame (MethodFrame ch c k mo) a = recvMethod (MethodFrame ch c k mo) a"
  by (cases "recv a") (simp_all add: recv_frame_def)

text \<open>
  The rest of a body arrives in pieces: while what is still missing is not there, nothing
  is dispatched, and the last piece completes the message.
\<close>

lemma recv_body:
  assumes "concat bs \<noteq> []" and "\<forall>b\<in>set bs. b \<noteq> []"
    and "recv a = RecvContent" and "a_header a = Some (sz, p)" and "a_message a = Some m"
    and "unat sz = length (a_body a) + length (concat bs)"
  shows "\<exists>a'. recv_frames (map (BodyFrame ch) bs) a =
     Some (a', [Some (setContent p (a_body a @ concat bs) m)]) \<and> recv a' = RecvMethod"
  using assms
proof (induction bs arbitrary: a)
  case (Cons b bs)
  have bound: "length (a_body a) + length (concat (b # bs)) < 2 ^ 64"
    using Cons.prems(6) unsigned_less [of sz, where ?'a = nat] by simp
  have "unat (of_nat (length (a_body a) + length b) :: 64 word) = length (a_body a) + length b"
    using bound by (subst unat_of_nat) simp
  then have "of_nat (length (a_body a) + length b) \<ge> sz \<longleftrightarrow> length (concat bs) = 0"
    using Cons.prems(6) by (simp only: word_le_nat_alt) simp
  then have len: "of_nat (length (a_body a)) + of_nat (length b) \<ge> sz \<longleftrightarrow> concat bs = []"
    by (simp only: of_nat_add length_0_conv)
  show ?case
  proof (cases "concat bs = []")
    case True
    with Cons.prems(2) have "bs = []" by (cases bs) auto
    with True len Cons.prems show ?thesis by (simp add: recv_frame_def)
  next
    case False
    let ?a = "a\<lparr>a_body := a_body a @ b, recv := RecvContent\<rparr>"
    have "\<exists>a'. recv_frames (map (BodyFrame ch) bs) ?a =
        Some (a', [Some (setContent p (a_body ?a @ concat bs) m)]) \<and> recv a' = RecvMethod"
      using False Cons.prems by (intro Cons.IH) auto
    with False len Cons.prems show ?thesis by (auto simp: recv_frame_def)
  qed
qed simp

lemma recv_content_frames:
  assumes "0 < n" and "\<And>p b. getContent m = Some (p, b) \<Longrightarrow> length b < 2 ^ 64"
  shows "\<exists>a'. recv_frames (map frame_view (content_frames ch n m)) a = Some (a', [Some m]) \<and>
     recv a' = RecvMethod"
proof (cases "getContent m")
  case None
  then have "message_view m = m"
    by (cases m rule: getContent.cases) auto
  with None show ?thesis by (simp add: content_frames_def recv_method_frame has_content_def)
next
  case (Some c)
  obtain p b where c: "c = (p, b)" by (cases c)
  let ?a = "a\<lparr>a_body := [], a_message := Some (message_view m), recv := RecvHeader\<rparr>"
  let ?b = "?a\<lparr>a_header := Some (of_nat (length b), p), recv := RecvContent\<rparr>"
  have start: "recv_frame (MethodFrame ch x y (Some (message_view m))) a = Some (?a, [])" for x y
    using getContent_view [OF Some] by (simp add: recv_method_frame has_content_def)
  have sz: "unat (of_nat (length b) :: 64 word) = length b"
    using assms(2) Some c by (simp add: unat_of_nat)
  have same: "setContent p b (message_view m) = m"
    using setContent_view Some c by blast
  have views: "frame_view \<circ> BodyFrame ch = BodyFrame ch"
    by (simp add: comp_def)
  show ?thesis
  proof (cases "b = []")
    case True
    with Some c start same show ?thesis by (simp add: content_frames_def recv_frame_def)
  next
    case False
    then have "(of_nat (length b) :: 64 word) \<noteq> 0" using sz by (metis length_0_conv unat_0)
    then have head: "recv_frame (HeaderFrame ch x w (of_nat (length b)) p) ?a = Some (?b, [])" for x w
      by (simp add: recv_frame_def)
    have "\<exists>a'. recv_frames (map (BodyFrame ch) (chunks n b)) ?b =
        Some (a', [Some (setContent p (a_body ?b @ concat (chunks n b)) (message_view m))]) \<and>
        recv a' = RecvMethod"
      using False sz assms(1) by (intro recv_body) (auto simp: concat_chunks dest: chunks_bound)
    with Some c same start head show ?thesis
      by (auto simp: content_frames_def views concat_chunks [OF assms(1)])
  qed
qed


section \<open>Frame sizes that leave no room for a payload\<close>

text \<open>With room for no octet at all the loop makes no progress, and it ends only with an error of the connection.\<close>

lemma send_body_no_progress:
  assumes "\<And>f c. fst (send f c) = None" and "body \<noteq> []"
  shows "send_body send ch 0 body 0 0 c = None"
proof (rule ccontr)
  assume "send_body send ch 0 body 0 0 c \<noteq> None"
  then obtain r where ret: "send_body send ch 0 body 0 0 c = Some r" by blast
  have "\<not> ((\<forall>f c. fst (send f c) = None) \<and> sz = 0 \<and> body \<noteq> [] \<and> i = 0 \<and> j = 0)"
    if "send_body send ch sz body i j c = Some r" for send ch sz body i j c r
  proof (rule send_body.raw_induct [where
        P = "\<lambda>send ch sz body i j c r. \<not> ((\<forall>f c. fst (send f c) = None) \<and> sz = 0 \<and> body \<noteq> [] \<and> i = 0 \<and> j = 0)",
        OF _ that])
    fix f send ch sz body i j c r
    assume IH: "\<And>send ch sz body i j c r. f send ch sz body i j c = Some r \<Longrightarrow>
        \<not> ((\<forall>f c. fst (send f c) = None) \<and> sz = 0 \<and> body \<noteq> [] \<and> i = 0 \<and> j = 0)"
      and eq: "(if i < int (length body)
          then let j = if int (length body) < j then int (length body) else j
               in if j < i then Some (SendPanic, c)
                  else case send (BodyFrame ch (drop (nat i) (take (nat j) body))) c of
                      (None, c) \<Rightarrow> f send ch sz body j (j + sz) c
                    | (Some e, c) \<Rightarrow> Some (SendFailed e, c)
          else Some (Sent, c)) = Some r"
    show "\<not> ((\<forall>f c. fst (send f c) = None) \<and> sz = 0 \<and> body \<noteq> [] \<and> i = 0 \<and> j = 0)"
    proof
      assume *: "(\<forall>f c. fst (send f c) = None) \<and> sz = 0 \<and> body \<noteq> [] \<and> i = 0 \<and> j = 0"
      then obtain c' where "send (BodyFrame ch []) c = (None, c')" by (metis prod.collapse)
      with eq * have "f send ch 0 body 0 0 c' = Some r" by simp
      from IH [OF this] * show False by simp
    qed
  qed
  from this [OF ret] assms show False by simp
qed

lemma send_body_panics:
  "sz < 0 \<Longrightarrow> body \<noteq> [] \<Longrightarrow> send_body send ch sz body 0 sz c = Some (SendPanic, c)"
  by (simp add: send_body.simps)

lemma sendOpen_no_room:
  assumes "\<And>f c. fst (send f c) = None" and "getContent m = Some (p, b)" and "b \<noteq> []"
  shows "frameSize = frameHeaderSize \<Longrightarrow> sendOpen send ch frameSize m c = None"
    and "frameSize < frameHeaderSize \<Longrightarrow> \<exists>c'. sendOpen send ch frameSize m c = Some (SendPanic, c')"
proof -
  obtain c1 where c1: "send (MethodFrame ch 0 0 (Some m)) c = (None, c1)"
    using assms(1) by (metis prod.collapse)
  obtain c2 where c2: "send (HeaderFrame ch (fst (message_id m)) 0 (of_nat (length b)) p) c1 = (None, c2)"
    using assms(1) by (metis prod.collapse)
  show "frameSize = frameHeaderSize \<Longrightarrow> sendOpen send ch frameSize m c = None"
    using assms(2) by (simp add: sendOpen_def c1 c2 send_body_no_progress [OF assms(1,3)])
  show "frameSize < frameHeaderSize \<Longrightarrow> \<exists>c'. sendOpen send ch frameSize m c = Some (SendPanic, c')"
    using assms(2) by (simp add: sendOpen_def c1 c2 send_body_panics [OF _ assms(3)])
qed


section \<open>The invariant of the state machine\<close>

text \<open>Outside \<open>RecvMethod\<close> there is a message with content to fill, and in \<open>RecvContent\<close> a header.\<close>

definition assembly_inv :: "assembly \<Rightarrow> bool" where
  "assembly_inv a \<longleftrightarrow>
     (recv a \<noteq> RecvMethod \<longrightarrow> has_content (a_message a)) \<and> (recv a = RecvContent \<longrightarrow> a_header a \<noteq> None)"

fun is_heartbeat :: "frame \<Rightarrow> bool" where
  "is_heartbeat (HeartbeatFrame _) = True"
| "is_heartbeat _ = False"

text \<open>The method a frame carries, and a message without its content, to compare what is dispatched with what came.\<close>

fun frame_methods :: "frame \<Rightarrow> message option list" where
  "frame_methods (MethodFrame _ _ _ mo) = [mo]"
| "frame_methods _ = []"

definition strip :: "message option \<Rightarrow> message option" where
  "strip = map_option (setContent no_properties [])"

lemma strip_setContent [simp]: "strip (map_option (setContent p b) mo) = strip mo"
proof -
  have "setContent q c (setContent p b m) = setContent q c m" for q c m
    by (cases "(p, b, m)" rule: setContent.cases) simp_all
  then show ?thesis by (cases mo) (simp_all add: strip_def)
qed

lemma strip_Some_setContent [simp]: "strip (Some (setContent p b m)) = strip (Some m)"
  using strip_setContent [of p b "Some m"] by simp

definition pending :: "assembly \<Rightarrow> message option list" where
  "pending a = (if recv a = RecvMethod then [] else [a_message a])"

lemma recv_frame_step:
  assumes "assembly_inv a" and "\<not> is_heartbeat f"
  shows "\<exists>a' ms. recv_frame f a = Some (a', ms) \<and> assembly_inv a' \<and>
     subseq (map strip (ms @ pending a')) (map strip (pending a @ frame_methods f))"
proof -
  have "case recv_frame f a of
      None \<Rightarrow> False
    | Some (a', ms) \<Rightarrow> assembly_inv a' \<and>
        subseq (map strip (ms @ pending a')) (map strip (pending a @ frame_methods f))"
    using assms
    by (cases f; cases "recv a"; cases "a_message a"; cases "a_header a")
       (auto simp: recv_frame_def assembly_inv_def pending_def has_content_def Let_def)
  then show ?thesis by (auto split: option.splits)
qed

lemma recv_frames_run:
  assumes "assembly_inv a" and "\<forall>f\<in>set fs. \<not> is_heartbeat f"
  shows "\<exists>a' ms. recv_frames fs a = Some (a', ms) \<and> assembly_inv a' \<and>
     subseq (map strip (ms @ pending a')) (map strip (pending a @ concat (map frame_methods fs)))"
  using assms
proof (induction fs arbitrary: a)
  case Nil
  then show ?case by simp
next
  case (Cons f fs)
  then obtain a1 ms where a1: "recv_frame f a = Some (a1, ms)" "assembly_inv a1"
    and ms: "subseq (map strip (ms @ pending a1)) (map strip (pending a @ frame_methods f))"
    using recv_frame_step [of a f] by auto
  from Cons.IH [OF a1(2)] Cons.prems(2) obtain a2 ns where a2: "recv_frames fs a1 = Some (a2, ns)" "assembly_inv a2"
    and ns: "subseq (map strip (ns @ pending a2)) (map strip (pending a1 @ concat (map frame_methods fs)))" by auto
  have "subseq (map strip ms @ map strip (ns @ pending a2))
      (map strip ms @ map strip (pending a1) @ map strip (concat (map frame_methods fs)))"
    using ns by (intro list_emb_append_mono subseq_order.refl) simp
  also have "subseq \<dots> (map strip (pending a @ frame_methods f) @ map strip (concat (map frame_methods fs)))"
    using list_emb_append_mono [OF ms subseq_order.refl] by simp
  finally show ?case using a1 a2 by simp
qed



section \<open>Properties\<close>

text \<open>A connection that writes its frames into a buffer: \<open>Connection.send\<close> without the network.\<close>

definition wire_send :: "(werr, bytes) conn" where
  "wire_send f out = (case write_frame f of Inl e \<Rightarrow> (Some e, out) | Inr bs \<Rightarrow> (None, out @ bs))"

lemma send_all_wire:
  "wseq (map write_frame fs) = Inr bs \<Longrightarrow> send_all wire_send fs out = (Sent, out @ bs)"
proof (induction fs arbitrary: bs out)
  case (Cons f fs)
  then show ?case
    by (auto simp: wthen_def wire_send_def split: sum.splits)
qed simp

definition content_ok :: "message \<Rightarrow> bool" where
  "content_ok m \<longleftrightarrow>
     message_ok m \<and> fits_in (write_method_payload m) (2 ^ 32) \<and>
     (case getContent m of
        None \<Rightarrow> True
      | Some (p, b) \<Rightarrow>
          length b < 2 ^ 64 \<and> properties_ok p \<and>
          fits_in (write_header (fst (message_id m)) 0 (of_nat (length b)) p) (2 ^ 32))"

lemma content_frames_ok:
  assumes "content_ok m" and "n < 2 ^ 32"
  shows "\<forall>f\<in>set (content_frames ch n m). frame_ok f"
  using assms
  by (auto simp: content_frames_def content_ok_def split: option.splits dest: chunks_bound)

text \<open>What the next property states, for the proofs that build on it.\<close>

lemma content_travels:
  assumes "content_ok m" and "8 < frameSize" and "frameSize < 2 ^ 32"
  shows "\<exists>bs fs. sendOpen wire_send ch frameSize m [] = Some (Sent, bs) \<and>
     read_n ReadFrame (length fs) bs = (Inr fs, []) \<and>
     (\<forall>a. \<exists>a'. recv_frames fs a = Some (a', [Some m]) \<and> recv a' = RecvMethod)"
proof -
  define n where "n = nat (frameSize - frameHeaderSize)"
  have n: "0 < n" "n < 2 ^ 32" using assms(2,3) by (simp_all add: n_def frameHeaderSize_def)
  let ?fs = "content_frames ch n m"
  from frame_codec.decode_stream [OF content_frames_ok [OF assms(1) n(2)]]
  obtain bs where bs: "wseq (map write_frame ?fs) = Inr bs"
    and read: "\<And>rest. read_n ReadFrame (length ?fs) (bs @ rest) = (Inr (map frame_view ?fs), rest)" by blast
  have "sendOpen wire_send ch frameSize m [] = Some (Sent, bs)"
    using assms(2) send_all_wire [OF bs, of "[]"] sendOpen_content_frames [of frameSize wire_send ch m "[]"]
    by (simp add: n_def frameHeaderSize_def)
  moreover have "read_n ReadFrame (length (map frame_view ?fs)) bs = (Inr (map frame_view ?fs), [])"
    using read [of "[]"] by simp
  moreover have "\<exists>a'. recv_frames (map frame_view ?fs) a = Some (a', [Some m]) \<and> recv a' = RecvMethod" for a
    using assms(1) n(1) by (intro recv_content_frames) (auto simp: content_ok_def)
  ultimately show ?thesis by blast
qed

text \<open>
  C6: content arrives. Whatever the body and whatever the frame size above the eight octets around a
  payload, \<open>sendOpen\<close> ends without an error; the frames read from its bytes bring the
  receiving channel, in any state it may be in, to dispatch the message once, with its
  properties and its whole body, and to wait for the next method.
\<close>

theorem content_arrives:
  assumes "content_ok m" and "8 < frameSize" and "frameSize < 2 ^ 32"
  shows "\<exists>bs fs. sendOpen wire_send ch frameSize m [] = Some (Sent, bs) \<and>
     read_n ReadFrame (length fs) bs = (Inr fs, []) \<and>
     (\<forall>a. \<exists>a'. recv_frames fs a = Some (a', [Some m]) \<and> recv a' = RecvMethod)"
  by (rule content_travels [OF assms])

abbreviation demo_publish :: message where
  "demo_publish \<equiv> MBasic (BasicPublish 0 [120] [107] False False no_properties [1, 2, 3, 4, 5])"

lemma demo_content_ok: "content_ok demo_publish"
proof -
  have "fits_in (write_method_payload demo_publish) (2 ^ 32)"
    by (simp add: fits_in_def write_method_payload_def write_basicPublish_def wthen_def write_word_def
        write_u8_def write_u16_def writeShortstr_def del: be.simps)
  moreover have "properties_ok no_properties"
    by (simp add: no_properties_def properties_ok_def table_ok_def zeroTime_def in_int64_def fits_in_def)
  moreover have "fits_in (write_header (fst (message_id demo_publish)) 0 (of_nat (length [1, 2, 3, 4, 5 :: byte]))
      no_properties) (2 ^ 32)"
    by (simp add: fits_in_def write_header_def write_properties_def property_mask_def no_properties_def
        hasProperty_def write_if_def wthen_def write_word_def write_u8_def write_u16_def write_u64_def
        del: be.simps)
  ultimately show ?thesis by (simp add: content_ok_def)
qed

theorem content_arrives_witness:
  "\<exists>bs fs. sendOpen wire_send 1 10 demo_publish [] = Some (Sent, bs) \<and>
     read_n ReadFrame (length fs) bs = (Inr fs, []) \<and>
     (\<exists>a'. recv_frames fs newAssembly = Some (a', [Some demo_publish]))"
  using content_arrives [OF demo_content_ok, of 10 1] by fastforce

text \<open>
  \<open>sendOpen\<close> is the plain sequence of frames: for every connection and every state of it,
  the loop over slices sends the method, the header and the pieces of the body one after
  the other up to the first error; the pieces are the body in order, none is empty, none
  makes a frame longer than the frame size, and there are no more than needed.
\<close>

theorem sendOpen_sends_pieces:
  assumes "8 < frameSize"
  shows "sendOpen send ch frameSize m c = Some (send_all send (content_frames ch (nat (frameSize - 8)) m) c) \<and>
     concat (chunks (nat (frameSize - 8)) body) = body \<and>
     (\<forall>piece\<in>set (chunks (nat (frameSize - 8)) body). piece \<noteq> [] \<and> int (length piece) + 8 \<le> frameSize) \<and>
     length (chunks (nat (frameSize - 8)) body) =
       (length body + nat (frameSize - 8) - 1) div nat (frameSize - 8)"
proof -
  have room: "0 < nat (frameSize - 8)" using assms by simp
  have "int (length piece) + 8 \<le> frameSize" if "piece \<in> set (chunks (nat (frameSize - 8)) body)" for piece
    using chunks_bound [OF that] assms by linarith
  then show ?thesis
    using sendOpen_content_frames [of frameSize send ch m c] assms chunks_bound
      concat_chunks [OF room] chunks_length [OF room]
    by (simp add: frameHeaderSize_def)
qed

theorem sendOpen_sends_pieces_witness:
  "sendOpen wire_send 1 10 demo_publish [] = Some (send_all wire_send (content_frames 1 2 demo_publish) []) \<and>
   chunks 2 [1, 2, 3, 4, 5] = [[1, 2], [3, 4], [5]]"
  using sendOpen_sends_pieces [of 10 wire_send 1 demo_publish "[]" "[1, 2, 3, 4, 5]"] by simp

text \<open>
  C34: what a channel makes of any frames. It panics exactly on a heartbeat, which the peer
  can put on any channel; on all other frames it never fails, whatever is missing or out of
  order, and the messages it dispatches are methods that came, in the order they came and
  none of them twice.
\<close>

theorem reassembly_robust:
  "(recv_frames fs newAssembly = None \<longleftrightarrow> (\<exists>f\<in>set fs. is_heartbeat f)) \<and>
   (\<forall>a ms. recv_frames fs newAssembly = Some (a, ms) \<longrightarrow>
      assembly_inv a \<and> subseq (map strip ms) (map strip (concat (map frame_methods fs))))"
proof -
  have init: "assembly_inv newAssembly" "pending newAssembly = []"
    by (simp_all add: assembly_inv_def newAssembly_def pending_def)
  have panic: "recv_frames fs a = None" if "\<exists>f\<in>set fs. is_heartbeat f" for fs a
    using that
  proof (induction fs arbitrary: a)
    case (Cons f fs)
    then show ?case
    proof (cases "is_heartbeat f")
      case True
      then have "recv_frame f a = None" by (cases f; cases "recv a") (simp_all add: recv_frame_def)
      then show ?thesis by simp
    next
      case False
      with Cons show ?thesis by (simp split: option.split)
    qed
  qed simp
  show ?thesis
  proof (cases "\<exists>f\<in>set fs. is_heartbeat f")
    case True
    with panic show ?thesis by simp
  next
    case False
    then obtain a ms where "recv_frames fs newAssembly = Some (a, ms)" and "assembly_inv a"
      and "subseq (map strip ms @ map strip (pending a)) (map strip (concat (map frame_methods fs)))"
      using recv_frames_run [OF init(1), of fs] init(2) by auto
    moreover from this(3) have "subseq (map strip ms) (map strip (concat (map frame_methods fs)))"
      by (rule subseq_order.trans [rotated]) (simp add: subseq_rev_drop_many)
    ultimately show ?thesis using False by simp
  qed
qed

theorem reassembly_robust_witness:
  "\<exists>a. recv_frames [BodyFrame 1 [7], MethodFrame 1 20 11 (Some (MBasic (BasicAck 3 True)))] newAssembly =
     Some (a, [Some (MBasic (BasicAck 3 True))]) \<and> assembly_inv a \<and>
     recv_frames [BodyFrame 1 [7], HeartbeatFrame 1] newAssembly = None"
  using reassembly_robust [of "[BodyFrame 1 [7], MethodFrame 1 20 11 (Some (MBasic (BasicAck 3 True)))]"]
    reassembly_robust [of "[BodyFrame 1 [7], HeartbeatFrame 1]"]
  by (simp add: recv_frame_def newAssembly_def has_content_def)

end
