(* ===== verification/Amqp_Consumers.thy ===== *)
theory Amqp_Consumers
  imports Amqp_Channel
begin

text \<open>
  From the channel to its consumers (\<open>delivery.go\<close>, \<open>consumers.go\<close>): \<open>newDelivery\<close>, the
  goroutine \<open>bufferDeliveries\<close> between the channel and a consumer as a labelled step
  relation, and the table of consumers.
\<close>


section \<open>Deliveries\<close>

record Delivery =
  dl_properties :: properties
  dl_ConsumerTag :: bytes
  dl_MessageCount :: "32 word"
  dl_DeliveryTag :: "64 word"
  dl_Redelivered :: bool
  dl_Exchange :: bytes
  dl_RoutingKey :: bytes
  dl_Body :: bytes

text \<open>
  The fields of \<open>properties\<close> are copied one by one into the delivery; \<open>reserved1\<close> is not among
  them. The fields for other methods stay zero.
\<close>

definition newDelivery :: "message \<Rightarrow> Delivery option" where
  "newDelivery msg =
     (case getContent msg of
        None \<Rightarrow> None
      | Some (props, body) \<Rightarrow>
          let d = \<lparr>dl_properties = props\<lparr>reserved1 := []\<rparr>, dl_ConsumerTag = [], dl_MessageCount = 0,
                   dl_DeliveryTag = 0, dl_Redelivered = False, dl_Exchange = [], dl_RoutingKey = [],
                   dl_Body = body\<rparr>
          in Some (case msg of
               MBasic (BasicDeliver consumerTag deliveryTag redelivered exchange routingKey _ _) \<Rightarrow>
                 d\<lparr>dl_ConsumerTag := consumerTag, dl_DeliveryTag := deliveryTag,
                   dl_Redelivered := redelivered, dl_Exchange := exchange, dl_RoutingKey := routingKey\<rparr>
             | MBasic (BasicGetOk deliveryTag redelivered exchange routingKey messageCount _ _) \<Rightarrow>
                 d\<lparr>dl_MessageCount := messageCount, dl_DeliveryTag := deliveryTag,
                   dl_Redelivered := redelivered, dl_Exchange := exchange, dl_RoutingKey := routingKey\<rparr>
             | _ \<Rightarrow> d))"


section \<open>The buffer of a consumer\<close>

text \<open>
  \<open>Ranging\<close> is the \<open>range\<close> over \<open>in\<close>, \<open>Offering\<close> the first \<open>select\<close> with its \<open>default\<close>, and
  \<open>Draining\<close> the inner loop. \<open>bf_queueIn\<close> is whether \<open>queueIn\<close> is still \<open>in\<close> and not nil, and
  \<open>bf_closed\<close> whether \<open>in\<close> is closed, by the table of consumers, on the other side.
\<close>

datatype 'a buffer_pc = Ranging | Offering 'a | Draining | OutClosed

record 'a buffering =
  bf_pc :: "'a buffer_pc"
  bf_queue :: "'a list"
  bf_queueIn :: bool
  bf_closed :: bool

datatype 'a buffer_event = Take 'a | Give 'a | CloseIn | CloseOut | Internal

inductive buffer_step :: "'a buffering \<Rightarrow> 'a buffer_event \<Rightarrow> 'a buffering \<Rightarrow> bool" where
  in_closed: "\<not> bf_closed b \<Longrightarrow> buffer_step b CloseIn (b\<lparr>bf_closed := True\<rparr>)"
| range_take: "bf_pc b = Ranging \<Longrightarrow> \<not> bf_closed b \<Longrightarrow> buffer_step b (Take d) (b\<lparr>bf_pc := Offering d\<rparr>)"
| range_end: "bf_pc b = Ranging \<Longrightarrow> bf_closed b \<Longrightarrow> buffer_step b CloseOut (b\<lparr>bf_pc := OutClosed\<rparr>)"
| offer_now: "bf_pc b = Offering d \<Longrightarrow> buffer_step b (Give d) (b\<lparr>bf_pc := Draining\<rparr>)"
| offer_later: "bf_pc b = Offering d \<Longrightarrow>
     buffer_step b Internal (b\<lparr>bf_queue := bf_queue b @ [d], bf_pc := Draining\<rparr>)"
| drain_give: "bf_pc b = Draining \<Longrightarrow> bf_queue b = d # q \<Longrightarrow>
     buffer_step b (Give d) (b\<lparr>bf_queue := q\<rparr>)"
| drain_take: "bf_pc b = Draining \<Longrightarrow> bf_queue b \<noteq> [] \<Longrightarrow> bf_queueIn b \<Longrightarrow> \<not> bf_closed b \<Longrightarrow>
     buffer_step b (Take d) (b\<lparr>bf_queue := bf_queue b @ [d]\<rparr>)"
| drain_closed: "bf_pc b = Draining \<Longrightarrow> bf_queue b \<noteq> [] \<Longrightarrow> bf_queueIn b \<Longrightarrow> bf_closed b \<Longrightarrow>
     buffer_step b Internal (b\<lparr>bf_queueIn := False\<rparr>)"
| drain_end: "bf_pc b = Draining \<Longrightarrow> bf_queue b = [] \<Longrightarrow> buffer_step b Internal (b\<lparr>bf_pc := Ranging\<rparr>)"

inductive_cases buffer_stepE: "buffer_step b e b'"

definition bufferDeliveries :: "'a buffering" where
  "bufferDeliveries = \<lparr>bf_pc = Ranging, bf_queue = [], bf_queueIn = True, bf_closed = False\<rparr>"

inductive buffer_run :: "'a buffer_event list \<Rightarrow> 'a buffering \<Rightarrow> bool" where
  run_start: "buffer_run [] bufferDeliveries"
| run_step: "buffer_run es b \<Longrightarrow> buffer_step b e b' \<Longrightarrow> buffer_run (es @ [e]) b'"

fun taken :: "'a buffer_event list \<Rightarrow> 'a list" where
  "taken [] = []"
| "taken (Take d # es) = d # taken es"
| "taken (_ # es) = taken es"

fun given :: "'a buffer_event list \<Rightarrow> 'a list" where
  "given [] = []"
| "given (Give d # es) = d # given es"
| "given (_ # es) = given es"

lemma taken_append [simp]: "taken (es @ fs) = taken es @ taken fs"
  by (induction es rule: taken.induct) simp_all

lemma given_append [simp]: "given (es @ fs) = given es @ given fs"
  by (induction es rule: given.induct) simp_all

text \<open>What was taken and not yet given. Between the loops there is nothing in the queue.\<close>

definition held :: "'a buffering \<Rightarrow> 'a list" where
  "held b = bf_queue b @ (case bf_pc b of Offering d \<Rightarrow> [d] | _ \<Rightarrow> [])"

definition buffer_inv :: "'a buffering \<Rightarrow> bool" where
  "buffer_inv b \<longleftrightarrow>
     (bf_pc b \<noteq> Draining \<longrightarrow> bf_queue b = []) \<and> (\<not> bf_queueIn b \<longrightarrow> bf_closed b) \<and>
     (bf_pc b = OutClosed \<longrightarrow> bf_closed b)"

lemma buffer_run_inv:
  "buffer_run es b \<Longrightarrow> buffer_inv b \<and> taken es = given es @ held b \<and>
     (CloseIn \<in> set es \<longleftrightarrow> bf_closed b) \<and> (CloseOut \<in> set es \<longleftrightarrow> bf_pc b = OutClosed)"
proof (induction rule: buffer_run.induct)
  case run_start
  then show ?case by (simp add: buffer_inv_def held_def bufferDeliveries_def)
next
  case (run_step es b e b')
  from run_step.hyps(2) run_step.IH show ?case
    by (cases rule: buffer_step.cases) (auto simp: buffer_inv_def held_def)
qed

text \<open>The goroutine alone, without the consumer: its internal steps.\<close>

definition internal_step :: "'a buffering \<Rightarrow> 'a buffering \<Rightarrow> bool" where
  "internal_step b b' \<longleftrightarrow> buffer_step b Internal b'"

lemma buffer_accepts:
  assumes "buffer_inv b" and "\<not> bf_closed b"
  shows "\<exists>b'. internal_step\<^sup>*\<^sup>* b b' \<and> (\<forall>d. \<exists>b''. buffer_step b' (Take d) b'')"
proof (cases "bf_pc b")
  case Ranging
  with assms have "\<forall>d. \<exists>b''. buffer_step b (Take d) b''" by (blast intro: range_take)
  then show ?thesis by blast
next
  case (Offering d)
  let ?b = "b\<lparr>bf_queue := bf_queue b @ [d], bf_pc := Draining\<rparr>"
  have "internal_step b ?b" using Offering by (simp add: internal_step_def offer_later)
  moreover have "\<exists>b''. buffer_step ?b (Take d) b''" for d
    using assms drain_take [of ?b d] by (auto simp: buffer_inv_def)
  ultimately show ?thesis by blast
next
  case Draining
  show ?thesis
  proof (cases "bf_queue b = []")
    case True
    with Draining have "internal_step b (b\<lparr>bf_pc := Ranging\<rparr>)"
      by (simp add: internal_step_def drain_end)
    moreover have "\<exists>b''. buffer_step (b\<lparr>bf_pc := Ranging\<rparr>) (Take d) b''" for d
      using assms range_take [of "b\<lparr>bf_pc := Ranging\<rparr>" d] by auto
    ultimately show ?thesis by blast
  next
    case False
    with Draining assms have "\<exists>b''. buffer_step b (Take d) b''" for d
      using drain_take [of b d] by (auto simp: buffer_inv_def)
    then show ?thesis by blast
  qed
next
  case OutClosed
  with assms show ?thesis by (simp add: buffer_inv_def)
qed

text \<open>After \<open>in\<close> is closed: a consumer that keeps receiving gets the rest, and then \<open>out\<close> is closed.\<close>

inductive buffer_path :: "'a buffering \<Rightarrow> 'a buffer_event list \<Rightarrow> 'a buffering \<Rightarrow> bool" where
  path_refl: "buffer_path b [] b"
| path_step: "buffer_step b e b' \<Longrightarrow> buffer_path b' es b'' \<Longrightarrow> buffer_path b (e # es) b''"

lemma buffer_path_run: "buffer_path b es b' \<Longrightarrow> buffer_run fs b \<Longrightarrow> buffer_run (fs @ es) b'"
proof (induction arbitrary: fs rule: buffer_path.induct)
  case (path_step b e b' es b'')
  then have "buffer_run (fs @ [e]) b'" by (blast intro: run_step)
  from path_step.IH [OF this] show ?case by simp
qed simp

lemma buffer_ends_empty:
  assumes "bf_pc b = Ranging" and "bf_closed b"
  shows "\<exists>b'. buffer_path b [CloseOut] b' \<and> bf_pc b' = OutClosed"
proof -
  have "buffer_path b [CloseOut] (b\<lparr>bf_pc := OutClosed\<rparr>)"
    using assms by (blast intro: path_refl path_step range_end)
  then show ?thesis by fastforce
qed

lemma buffer_drains_queue:
  "bf_pc b = Draining \<Longrightarrow> bf_closed b \<Longrightarrow>
   \<exists>es b'. buffer_path b es b' \<and> bf_pc b' = OutClosed \<and> given es = bf_queue b \<and> taken es = []"
proof (induction "bf_queue b" arbitrary: b)
  case Nil
  let ?b = "b\<lparr>bf_pc := Ranging\<rparr>"
  from Nil have "buffer_step b Internal ?b" by (simp add: drain_end)
  moreover obtain b' where "buffer_path ?b [CloseOut] b'" and "bf_pc b' = OutClosed"
    using buffer_ends_empty [of ?b] Nil by auto
  ultimately have "buffer_path b [Internal, CloseOut] b' \<and> bf_pc b' = OutClosed"
    by (blast intro: path_step)
  with Nil show ?case by force
next
  case (Cons d q)
  let ?b = "b\<lparr>bf_queue := q\<rparr>"
  from Cons have "buffer_step b (Give d) ?b" by (simp add: drain_give)
  moreover obtain es b' where "buffer_path ?b es b'" "bf_pc b' = OutClosed" "given es = q" "taken es = []"
    using Cons.hyps(1) [of ?b] Cons.prems by auto
  ultimately have "buffer_path b (Give d # es) b' \<and> bf_pc b' = OutClosed \<and>
      given (Give d # es) = d # q \<and> taken (Give d # es) = []"
    by (auto intro: path_step)
  with Cons.hyps(2) show ?case by metis
qed

lemma buffer_drains:
  assumes "buffer_inv b" and "bf_closed b" and "bf_pc b \<noteq> OutClosed"
  shows "\<exists>es b'. buffer_path b es b' \<and> bf_pc b' = OutClosed \<and> given es = held b \<and> taken es = []"
proof (cases "bf_pc b")
  case Ranging
  with assms buffer_ends_empty [of b] show ?thesis
    by (auto simp: buffer_inv_def held_def intro!: exI [of _ "[CloseOut]"])
next
  case (Offering d)
  let ?b = "b\<lparr>bf_pc := Draining\<rparr>"
  have "buffer_step b (Give d) ?b" using Offering by (rule offer_now)
  moreover obtain es b' where "buffer_path ?b es b'" "bf_pc b' = OutClosed" "given es = bf_queue b" "taken es = []"
    using buffer_drains_queue [of ?b] assms by auto
  ultimately have "buffer_path b (Give d # es) b' \<and> bf_pc b' = OutClosed \<and>
      given (Give d # es) = held b \<and> taken (Give d # es) = []"
    using Offering assms by (auto simp: held_def buffer_inv_def intro: path_step)
  then show ?thesis by blast
next
  case Draining
  with buffer_drains_queue [of b] assms show ?thesis by (simp add: held_def)
qed (use assms in simp)


section \<open>The table of consumers\<close>

text \<open>
  \<open>ct_chans\<close> is the map from tags to the channels \<open>in\<close> of the buffers, which are numbered as they are
  made; \<open>ct_closed\<close> is which of them are closed, \<open>ct_sent\<close> what was sent on which. Closing a
  closed channel and sending on one panics, which is \<open>None\<close>.
\<close>

record consumers =
  ct_chans :: "(bytes \<times> nat) list"
  ct_next :: nat
  ct_closed :: "nat set"
  ct_sent :: "(nat \<times> Delivery) list"

definition makeConsumers :: consumers where
  "makeConsumers = \<lparr>ct_chans = [], ct_next = 0, ct_closed = {}, ct_sent = []\<rparr>"

definition close_chan :: "nat \<Rightarrow> consumers \<Rightarrow> consumers option" where
  "close_chan ch t = (if ch \<in> ct_closed t then None else Some (t\<lparr>ct_closed := insert ch (ct_closed t)\<rparr>))"

definition consumers_add :: "bytes \<Rightarrow> consumers \<Rightarrow> consumers option" where
  "consumers_add tag t =
     (case (case map_of (ct_chans t) tag of None \<Rightarrow> Some t | Some prev \<Rightarrow> close_chan prev t) of
        None \<Rightarrow> None
      | Some t \<Rightarrow>
          Some (t\<lparr>ct_chans := AList.update tag (ct_next t) (ct_chans t), ct_next := Suc (ct_next t)\<rparr>))"

definition consumers_close :: "bytes \<Rightarrow> consumers \<Rightarrow> (bool \<times> consumers) option" where
  "consumers_close tag t =
     (case map_of (ct_chans t) tag of
        None \<Rightarrow> Some (False, t)
      | Some ch \<Rightarrow>
          map_option (Pair True) (close_chan ch (t\<lparr>ct_chans := AList.delete tag (ct_chans t)\<rparr>)))"

fun close_chans :: "nat list \<Rightarrow> consumers \<Rightarrow> consumers option" where
  "close_chans [] t = Some t"
| "close_chans (ch # chs) t = (case close_chan ch t of None \<Rightarrow> None | Some t \<Rightarrow> close_chans chs t)"

definition consumers_closeAll :: "consumers \<Rightarrow> consumers option" where
  "consumers_closeAll t = map_option (ct_chans_update (\<lambda>_. [])) (close_chans (map snd (ct_chans t)) t)"

definition consumers_send :: "bytes \<Rightarrow> Delivery \<Rightarrow> consumers \<Rightarrow> (bool \<times> consumers) option" where
  "consumers_send tag msg t =
     (case map_of (ct_chans t) tag of
        None \<Rightarrow> Some (False, t)
      | Some ch \<Rightarrow> if ch \<in> ct_closed t then None else Some (True, t\<lparr>ct_sent := ct_sent t @ [(ch, msg)]\<rparr>))"

datatype consumers_op = AddConsumer bytes | CloseConsumer bytes | CloseAll | SendTo bytes Delivery

fun consumers_do :: "consumers_op \<Rightarrow> consumers \<Rightarrow> consumers option" where
  "consumers_do (AddConsumer tag) t = consumers_add tag t"
| "consumers_do (CloseConsumer tag) t = map_option snd (consumers_close tag t)"
| "consumers_do CloseAll t = consumers_closeAll t"
| "consumers_do (SendTo tag d) t = map_option snd (consumers_send tag d t)"

fun consumers_run :: "consumers_op list \<Rightarrow> consumers \<Rightarrow> consumers option" where
  "consumers_run [] t = Some t"
| "consumers_run (op # ops) t = (case consumers_do op t of None \<Rightarrow> None | Some t \<Rightarrow> consumers_run ops t)"

text \<open>Every channel in the table is its own, open, and was made before.\<close>

definition consumers_inv :: "consumers \<Rightarrow> bool" where
  "consumers_inv t \<longleftrightarrow>
     distinct (map fst (ct_chans t)) \<and> distinct (map snd (ct_chans t)) \<and>
     (\<forall>ch\<in>snd ` set (ct_chans t). ch < ct_next t \<and> ch \<notin> ct_closed t) \<and>
     (\<forall>ch\<in>ct_closed t. ch < ct_next t) \<and>
     (\<forall>(ch, d)\<in>set (ct_sent t). ch < ct_next t)"

text \<open>
  The table as a map from tags to the deliveries sent to them since they were added: what the
  operations mean to a user of the channel.
\<close>

definition inbox :: "consumers \<Rightarrow> bytes \<Rightarrow> Delivery list option" where
  "inbox t tag = map_option (\<lambda>ch. map snd (filter (\<lambda>(c, d). c = ch) (ct_sent t))) (map_of (ct_chans t) tag)"

fun inbox_do :: "consumers_op \<Rightarrow> (bytes \<Rightarrow> Delivery list option) \<Rightarrow> bytes \<Rightarrow> Delivery list option" where
  "inbox_do (AddConsumer tag) m = m(tag \<mapsto> [])"
| "inbox_do (CloseConsumer tag) m = m(tag := None)"
| "inbox_do CloseAll m = (\<lambda>_. None)"
| "inbox_do (SendTo tag d) m = (case m tag of None \<Rightarrow> m | Some ds \<Rightarrow> m(tag \<mapsto> ds @ [d]))"

lemma close_chan_open: "ch \<notin> ct_closed t \<Longrightarrow> close_chan ch t = Some (t\<lparr>ct_closed := insert ch (ct_closed t)\<rparr>)"
  by (simp add: close_chan_def)

lemma close_chans_open:
  "distinct chs \<Longrightarrow> set chs \<inter> ct_closed t = {} \<Longrightarrow>
   close_chans chs t = Some (t\<lparr>ct_closed := set chs \<union> ct_closed t\<rparr>)"
  by (induction chs arbitrary: t) (simp_all add: close_chan_open)

lemma consumers_invD:
  assumes "consumers_inv t" and "map_of (ct_chans t) tag = Some ch"
  shows "ch \<notin> ct_closed t" and "ch < ct_next t"
proof -
  have "ch \<in> snd ` set (ct_chans t)" using map_of_SomeD [OF assms(2)] by (rule image_eqI [rotated]) simp
  with assms(1) show "ch \<notin> ct_closed t" and "ch < ct_next t" by (simp_all only: consumers_inv_def) blast+
qed

lemma tag_of_chan:
  assumes "consumers_inv t" and "map_of (ct_chans t) tag = Some ch"
    and "map_of (ct_chans t) tag' = Some ch"
  shows "tag' = tag"
proof -
  have "distinct (map snd (ct_chans t))" using assms(1) by (simp add: consumers_inv_def)
  then have "inj_on snd (set (ct_chans t))" by (simp add: distinct_map)
  from inj_onD [OF this _ assms(2,3) [THEN map_of_SomeD]] show ?thesis by simp
qed

lemma update_snd: "snd ` set (AList.update k v xs) \<subseteq> insert v (snd ` set xs)"
  by (induction xs) auto

lemma update_new_value:
  "distinct (map snd xs) \<Longrightarrow> v \<notin> set (map snd xs) \<Longrightarrow> distinct (map snd (AList.update k v xs))"
proof (induction xs)
  case (Cons x xs)
  with update_snd [of k v xs] show ?case by (cases x) auto
qed simp

lemma distinct_delete_snd: "distinct (map snd xs) \<Longrightarrow> distinct (map snd (AList.delete k xs))"
  by (induction xs) (auto simp: AList.delete_eq)

lemma sent_new: "consumers_inv t \<Longrightarrow> filter (\<lambda>(c, d). c = ct_next t) (ct_sent t) = []"
  by (auto simp: consumers_inv_def filter_empty_conv)

lemma chans_after_add:
  assumes "consumers_inv t" and "ch \<in> snd ` set (AList.update tag (ct_next t) (ct_chans t))"
  shows "ch < Suc (ct_next t) \<and>
    ch \<notin> (case map_of (ct_chans t) tag of None \<Rightarrow> ct_closed t | Some prev \<Rightarrow> insert prev (ct_closed t))"
proof -
  let ?chs = "AList.update tag (ct_next t) (ct_chans t)"
  have fresh: "ct_next t \<notin> snd ` set (ct_chans t)" "ct_next t \<notin> ct_closed t"
    using assms(1) by (auto simp: consumers_inv_def)
  have "distinct (map fst ?chs)" using assms(1) by (simp add: consumers_inv_def distinct_update)
  moreover obtain k where "(k, ch) \<in> set ?chs" using assms(2) by auto
  ultimately have "map_of ?chs k = Some ch" by simp
  then have k: "if k = tag then ch = ct_next t else map_of (ct_chans t) k = Some ch"
    by (auto simp: update_conv' split: if_splits)
  show ?thesis
  proof (cases "k = tag")
    case True
    with k fresh consumers_invD(2) [OF assms(1)] show ?thesis by (auto split: option.split)
  next
    case False
    with k have "map_of (ct_chans t) k = Some ch" by simp
    with consumers_invD [OF assms(1) this] tag_of_chan [OF assms(1), of tag] False show ?thesis
      by (auto split: option.split)
  qed
qed

lemma consumers_add_ok:
  assumes "consumers_inv t"
  shows "\<exists>t'. consumers_add tag t = Some t' \<and> consumers_inv t' \<and> inbox t' = inbox_do (AddConsumer tag) (inbox t)"
proof -
  define chs where "chs = AList.update tag (ct_next t) (ct_chans t)"
  define cl where "cl = (case map_of (ct_chans t) tag of None \<Rightarrow> ct_closed t | Some prev \<Rightarrow> insert prev (ct_closed t))"
  define t' where "t' = t\<lparr>ct_closed := cl, ct_chans := chs, ct_next := Suc (ct_next t)\<rparr>"
  have "consumers_add tag t = Some t'"
    using consumers_invD(1) [OF assms]
    by (auto simp: consumers_add_def t'_def chs_def cl_def close_chan_open split: option.split)
  moreover have "inbox t' = inbox_do (AddConsumer tag) (inbox t)"
    using sent_new [OF assms] by (auto simp: t'_def inbox_def chs_def update_conv')
  moreover have "consumers_inv t'"
  proof -
    have "ct_next t \<notin> snd ` set (ct_chans t)" using assms by (auto simp: consumers_inv_def)
    then have "distinct (map snd chs)" "distinct (map fst chs)"
      using assms by (auto simp: chs_def consumers_inv_def distinct_update intro: update_new_value)
    moreover have "\<forall>ch\<in>snd ` set chs. ch < Suc (ct_next t) \<and> ch \<notin> cl"
      using chans_after_add [OF assms] by (simp add: chs_def cl_def)
    moreover have "\<forall>ch\<in>cl. ch < Suc (ct_next t)"
      using assms consumers_invD(2) [OF assms] by (auto simp: cl_def consumers_inv_def less_Suc_eq split: option.splits)
    ultimately show ?thesis
      using assms by (auto simp: t'_def consumers_inv_def)
  qed
  ultimately show ?thesis by blast
qed

lemma consumers_close_ok:
  assumes "consumers_inv t"
  shows "\<exists>t'. consumers_do (CloseConsumer tag) t = Some t' \<and> consumers_inv t' \<and>
    inbox t' = inbox_do (CloseConsumer tag) (inbox t)"
proof (cases "map_of (ct_chans t) tag")
  case None
  with assms show ?thesis by (auto simp: consumers_close_def inbox_def)
next
  case (Some ch)
  define t' where "t' = t\<lparr>ct_chans := AList.delete tag (ct_chans t), ct_closed := insert ch (ct_closed t)\<rparr>"
  have dk: "distinct (map fst (AList.delete tag (ct_chans t)))"
    using assms by (simp add: consumers_inv_def distinct_delete)
  have open_chans: "ch' < ct_next t \<and> ch' \<noteq> ch \<and> ch' \<notin> ct_closed t"
    if "ch' \<in> snd ` set (AList.delete tag (ct_chans t))" for ch'
  proof -
    from that obtain k where "(k, ch') \<in> set (AList.delete tag (ct_chans t))" by auto
    with dk have "map_of (AList.delete tag (ct_chans t)) k = Some ch'" by simp
    then have "k \<noteq> tag" "map_of (ct_chans t) k = Some ch'"
      by (auto simp: delete_conv' split: if_splits)
    with consumers_invD [OF assms this(2)] tag_of_chan [OF assms Some] show ?thesis by blast
  qed
  have "consumers_do (CloseConsumer tag) t = Some t'"
    using Some consumers_invD(1) [OF assms Some] by (simp add: consumers_close_def close_chan_open t'_def)
  moreover have "inbox t' = inbox_do (CloseConsumer tag) (inbox t)"
    by (auto simp: t'_def inbox_def delete_conv')
  moreover have "consumers_inv t'"
    using assms dk open_chans consumers_invD(2) [OF assms Some]
    by (auto simp: t'_def consumers_inv_def distinct_delete_snd)
  ultimately show ?thesis by blast
qed

lemma consumers_send_ok:
  assumes "consumers_inv t"
  shows "\<exists>t'. consumers_do (SendTo tag d) t = Some t' \<and> consumers_inv t' \<and> inbox t' = inbox_do (SendTo tag d) (inbox t)"
proof (cases "map_of (ct_chans t) tag")
  case None
  with assms show ?thesis by (auto simp: consumers_send_def inbox_def)
next
  case (Some ch)
  define t' where "t' = t\<lparr>ct_sent := ct_sent t @ [(ch, d)]\<rparr>"
  have "consumers_do (SendTo tag d) t = Some t'"
    using Some consumers_invD(1) [OF assms Some] by (simp add: consumers_send_def t'_def)
  moreover have "consumers_inv t'"
    using assms consumers_invD(2) [OF assms Some] by (auto simp: t'_def consumers_inv_def)
  moreover have "inbox t' = inbox_do (SendTo tag d) (inbox t)"
  proof
    fix tag'
    show "inbox t' tag' = inbox_do (SendTo tag d) (inbox t) tag'"
    proof (cases "map_of (ct_chans t) tag' = Some ch")
      case True
      with tag_of_chan [OF assms Some] have "tag' = tag" by blast
      with Some show ?thesis by (simp add: t'_def inbox_def)
    next
      case False
      with Some have "tag' \<noteq> tag" by auto
      with Some False show ?thesis
        by (cases "map_of (ct_chans t) tag'") (simp_all add: t'_def inbox_def)
    qed
  qed
  ultimately show ?thesis by blast
qed

lemma consumers_do_ok:
  assumes "consumers_inv t"
  shows "\<exists>t'. consumers_do op t = Some t' \<and> consumers_inv t' \<and> inbox t' = inbox_do op (inbox t)"
proof (cases op)
  case CloseAll
  have "close_chans (map snd (ct_chans t)) t =
      Some (t\<lparr>ct_closed := set (map snd (ct_chans t)) \<union> ct_closed t\<rparr>)"
    using assms by (intro close_chans_open) (auto simp: consumers_inv_def)
  with CloseAll assms show ?thesis
    by (auto simp: consumers_closeAll_def consumers_inv_def inbox_def)
qed (use consumers_add_ok [OF assms] consumers_close_ok [OF assms] consumers_send_ok [OF assms] in simp_all)

lemma consumers_run_ok:
  "consumers_inv t \<Longrightarrow>
   \<exists>t'. consumers_run ops t = Some t' \<and> consumers_inv t' \<and> inbox t' = fold inbox_do ops (inbox t)"
proof (induction ops arbitrary: t)
  case (Cons op ops)
  with consumers_do_ok [of t op] show ?case by fastforce
qed simp

section \<open>Properties\<close>

text \<open>
  C13: a consumer gets every delivery once and in order, and never holds up the channel.
  What \<open>bufferDeliveries\<close> has given to the consumer is a prefix of what it took from the
  channel; as long as the channel is open it comes, without the consumer, to a point where
  it takes the next delivery; after the channel was closed a consumer that goes on
  receiving gets all the rest before its own channel is closed.
\<close>

theorem consumer_gets_all_in_order:
  assumes "buffer_run es b"
  shows "prefix (given es) (taken es) \<and>
     (CloseOut \<in> set es \<longrightarrow> given es = taken es) \<and>
     (CloseIn \<notin> set es \<longrightarrow> (\<exists>b'. internal_step\<^sup>*\<^sup>* b b' \<and> (\<forall>d. \<exists>b''. buffer_step b' (Take d) b''))) \<and>
     (CloseIn \<in> set es \<longrightarrow>
       (\<exists>fs b'. buffer_run (es @ fs) b' \<and> bf_pc b' = OutClosed \<and> given (es @ fs) = taken es))"
proof (intro conjI impI)
  have inv: "buffer_inv b" and held: "taken es = given es @ held b"
    and "CloseIn \<in> set es \<longleftrightarrow> bf_closed b" and "CloseOut \<in> set es \<longleftrightarrow> bf_pc b = OutClosed"
    using buffer_run_inv [OF assms] by auto
  note closed = this(3,4)
  show "prefix (given es) (taken es)" by (simp add: held)
  show "given es = taken es" if "CloseOut \<in> set es"
    using that closed inv held by (simp add: buffer_inv_def held_def)
  show "\<exists>b'. internal_step\<^sup>*\<^sup>* b b' \<and> (\<forall>d. \<exists>b''. buffer_step b' (Take d) b'')" if "CloseIn \<notin> set es"
    using that closed buffer_accepts [OF inv] by simp
  show "\<exists>fs b'. buffer_run (es @ fs) b' \<and> bf_pc b' = OutClosed \<and> given (es @ fs) = taken es"
    if "CloseIn \<in> set es"
  proof (cases "bf_pc b = OutClosed")
    case True
    with assms inv held show ?thesis
      by (intro exI [of _ "[]"] exI [of _ b]) (simp add: buffer_inv_def held_def)
  next
    case False
    with that closed buffer_drains [OF inv] obtain fs b'
      where "buffer_path b fs b'" "bf_pc b' = OutClosed" "given fs = held b" by blast
    with buffer_path_run [OF _ assms] held show ?thesis by (intro exI [of _ fs] exI [of _ b']) simp
  qed
qed

theorem consumer_gets_all_in_order_witness:
  "\<exists>b fs b'. buffer_run [Take (1 :: nat), Internal, Take 2, CloseIn] b \<and>
     buffer_run ([Take (1 :: nat), Internal, Take 2, CloseIn] @ fs) b' \<and> bf_pc b' = OutClosed \<and>
     given ([Take (1 :: nat), Internal, Take 2, CloseIn] @ fs) = [1, 2]"
proof -
  let ?es = "[Take (1 :: nat), Internal, Take 2, CloseIn]"
  let ?b1 = "bufferDeliveries\<lparr>bf_pc := Offering (1 :: nat)\<rparr>"
  let ?b2 = "?b1\<lparr>bf_queue := bf_queue ?b1 @ [1], bf_pc := Draining\<rparr>"
  let ?b3 = "?b2\<lparr>bf_queue := bf_queue ?b2 @ [2]\<rparr>"
  have "buffer_step bufferDeliveries (Take 1) ?b1" "buffer_step ?b1 Internal ?b2"
    "buffer_step ?b2 (Take 2) ?b3" "buffer_step ?b3 CloseIn (?b3\<lparr>bf_closed := True\<rparr>)"
    by (rule range_take offer_later drain_take in_closed; simp add: bufferDeliveries_def)+
  then have "buffer_path bufferDeliveries ?es (?b3\<lparr>bf_closed := True\<rparr>)"
    by (blast intro: path_refl path_step)
  from buffer_path_run [OF this run_start] obtain b where run: "buffer_run ?es b"
    unfolding append_Nil by blast
  from consumer_gets_all_in_order [OF run] obtain fs b' where "buffer_run (?es @ fs) b'"
    "bf_pc b' = OutClosed" "given (?es @ fs) = taken ?es" by auto
  moreover from this(3) have "given (?es @ fs) = [1, 2]" by simp
  ultimately show ?thesis using run by blast
qed

text \<open>
  C15: the table of consumers implements a map from tags to inboxes: no sequence of adding,
  cancelling, closing and sending ever closes a channel twice or sends on a closed one,
  which would panic, and each inbox holds exactly the deliveries sent to its tag since
  the tag was last added, in order.
\<close>

theorem consumers_implement_inboxes:
  "\<exists>t. consumers_run ops makeConsumers = Some t \<and> inbox t = fold inbox_do ops (\<lambda>_. None) \<and>
     (\<forall>tag d. inbox t tag = None \<longleftrightarrow> consumers_send tag d t = Some (False, t))"
proof -
  have "consumers_inv makeConsumers" and init: "inbox makeConsumers = (\<lambda>_. None)"
    by (auto simp: consumers_inv_def makeConsumers_def inbox_def)
  from consumers_run_ok [OF this(1), of ops] obtain t where t: "consumers_run ops makeConsumers = Some t"
    "consumers_inv t" "inbox t = fold inbox_do ops (\<lambda>_. None)"
    unfolding init by blast
  moreover have "inbox t tag = None \<longleftrightarrow> consumers_send tag d t = Some (False, t)" for tag d
    by (auto simp: inbox_def consumers_send_def split: option.splits)
  ultimately show ?thesis by blast
qed

end
