(* ===== verification/Amqp_Dispatch.thy ===== *)
theory Amqp_Dispatch
  imports Amqp_Consumers "HOL-Library.Multiset"
begin

text \<open>
  The state of a channel and what it does with the messages it receives (\<open>channel.go\<close>):
  \<open>dispatch\<close>, \<open>shutdown\<close>, the confirms of publishings, and the sending side with its two
  states \<open>sendOpen\<close> and \<open>sendClosed\<close>. What an operation does to the outside, in order, is a
  list of effects; \<open>None\<close> is a panic.
\<close>


section \<open>Errors\<close>

record Error =
  Code :: int
  Reason :: bytes
  Server :: bool
  Recover :: bool

definition isSoftExceptionCode :: "int \<Rightarrow> bool" where
  "isSoftExceptionCode code \<longleftrightarrow> code \<in> {311, 312, 313, 403, 404, 405, 406}"

definition newError :: "16 word \<Rightarrow> bytes \<Rightarrow> Error" where
  "newError code text =
     \<lparr>Code = uint code, Reason = text, Server = True, Recover = isSoftExceptionCode (uint code)\<rparr>"

record Return =
  rt_ReplyCode :: "16 word"
  rt_ReplyText :: bytes
  rt_Exchange :: bytes
  rt_RoutingKey :: bytes
  rt_properties :: properties
  rt_Body :: bytes

definition newReturn :: "16 word \<Rightarrow> bytes \<Rightarrow> bytes \<Rightarrow> bytes \<Rightarrow> properties \<Rightarrow> bytes \<Rightarrow> Return" where
  "newReturn replyCode replyText exchange routingKey props body =
     \<lparr>rt_ReplyCode = replyCode, rt_ReplyText = replyText, rt_Exchange = exchange,
      rt_RoutingKey = routingKey, rt_properties = props\<lparr>reserved1 := []\<rparr>, rt_Body = body\<rparr>"


section \<open>The tags that wait for a confirm\<close>

text \<open>
  \<open>tagSet\<close> is a heap of \<open>container/heap\<close>, of which the code uses \<open>Push\<close> and \<open>Pop\<close>: \<open>Pop\<close> takes out
  the least tag and panics when there is none. The heap is its ascending list.
\<close>

type_synonym tagSet = "64 word list"

definition heap_Push :: "64 word \<Rightarrow> tagSet \<Rightarrow> tagSet" where
  "heap_Push tag h = insort tag h"

definition heap_Pop :: "tagSet \<Rightarrow> (64 word \<times> tagSet) option" where
  "heap_Pop h = (case h of [] \<Rightarrow> None | tag # h \<Rightarrow> Some (tag, h))"

locale min_heap =
  fixes push :: "'a::linorder \<Rightarrow> 'h \<Rightarrow> 'h"
    and pop :: "'h \<Rightarrow> ('a \<times> 'h) option"
    and elems :: "'h \<Rightarrow> 'a multiset"
    and ok :: "'h \<Rightarrow> bool"
  assumes push_ok: "ok h \<Longrightarrow> ok (push x h)"
    and push_elems: "ok h \<Longrightarrow> elems (push x h) = add_mset x (elems h)"
    and pop_ok: "ok h \<Longrightarrow> pop h = Some (x, h') \<Longrightarrow> ok h'"
    and pop_elems: "ok h \<Longrightarrow> pop h = Some (x, h') \<Longrightarrow> elems h = add_mset x (elems h')"
    and pop_least: "ok h \<Longrightarrow> pop h = Some (x, h') \<Longrightarrow> y \<in># elems h \<Longrightarrow> x \<le> y"
    and pop_empty: "ok h \<Longrightarrow> pop h = None \<longleftrightarrow> elems h = {#}"
begin

lemma pop_member:
  assumes "ok h" and "x \<in># elems h"
  obtains y h' where "pop h = Some (y, h')" and "y \<le> x" and "x = y \<or> x \<in># elems h'"
proof -
  from assms have "pop h \<noteq> None" using pop_empty by auto
  then obtain y h' where p: "pop h = Some (y, h')" by auto
  with assms pop_elems [OF assms(1) p] pop_least [OF assms(1) p assms(2)] show thesis
    by (intro that [of y h']) auto
qed

lemma push_all:
  "ok h \<Longrightarrow> ok (fold push xs h) \<and> elems (fold push xs h) = mset xs + elems h"
  by (induction xs arbitrary: h) (simp_all add: push_ok push_elems)

end

interpretation tags: min_heap heap_Push heap_Pop mset sorted
  by unfold_locales
     (auto simp: heap_Push_def heap_Pop_def sorted_insort split: list.splits)

text \<open>
  The loops of \<open>confimOne\<close> and \<open>confimMultiple\<close>. The first takes tags out until it finds the one that
  was confirmed and puts the others back; the second notifies about each on the way. A tag
  that is not there makes the heap run empty, and \<open>Pop\<close> panics. Both give the tags the
  listeners are notified about, in order, and the heap.
\<close>

lemma heap_Pop_shorter: "heap_Pop h = Some (x, h') \<Longrightarrow> length h' < length h"
  by (auto simp: heap_Pop_def split: list.splits)

function confirm_scan :: "64 word \<Rightarrow> 64 word list \<Rightarrow> tagSet \<Rightarrow> (64 word list \<times> tagSet) option" where
  "confirm_scan tag unacked h =
     (case heap_Pop h of
        None \<Rightarrow> None
      | Some (next_tag, h) \<Rightarrow>
          if next_tag \<noteq> tag then confirm_scan tag (unacked @ [next_tag]) h
          else Some ([tag], fold heap_Push unacked h))"
  by pat_completeness auto
termination
  by (relation "measure (\<lambda>(_, _, h). length h)") (auto dest: heap_Pop_shorter)

function confirm_upto :: "64 word \<Rightarrow> 64 word list \<Rightarrow> tagSet \<Rightarrow> (64 word list \<times> tagSet) option" where
  "confirm_upto tag ns h =
     (case heap_Pop h of
        None \<Rightarrow> None
      | Some (next_tag, h) \<Rightarrow>
          if next_tag = tag then Some (ns @ [next_tag], h)
          else confirm_upto tag (ns @ [next_tag]) h)"
  by pat_completeness auto
termination
  by (relation "measure (\<lambda>(_, _, h). length h)") (auto dest: heap_Pop_shorter)

declare confirm_scan.simps [simp del] confirm_upto.simps [simp del]

definition confimOne :: "64 word \<Rightarrow> tagSet \<Rightarrow> (64 word list \<times> tagSet) option" where
  "confimOne tag h = confirm_scan tag [] h"

definition confimMultiple :: "64 word \<Rightarrow> tagSet \<Rightarrow> (64 word list \<times> tagSet) option" where
  "confimMultiple tag h = confirm_upto tag [] h"

lemma confirm_scan_found:
  "sorted h \<Longrightarrow> tag \<in># mset h \<Longrightarrow>
   \<exists>h'. confirm_scan tag us h = Some ([tag], h') \<and> sorted h' \<and> add_mset tag (mset h') = mset us + mset h"
proof (induction tag us h rule: confirm_scan.induct)
  case (1 tag us h)
  from tags.pop_member [OF "1.prems"] obtain y h1
    where p: "heap_Pop h = Some (y, h1)" and t: "tag = y \<or> tag \<in># mset h1" by blast
  note h1 = tags.pop_ok [OF "1.prems"(1) p] tags.pop_elems [OF "1.prems"(1) p]
  show ?case
  proof (cases "y = tag")
    case True
    with p h1 tags.push_all [OF h1(1), of us] show ?thesis by (simp add: confirm_scan.simps [of tag us h])
  next
    case False
    with t have "tag \<in># mset h1" by simp
    from "1.IH" [OF p refl False h1(1) this] False p h1(2) show ?thesis
      by (auto simp: confirm_scan.simps [of tag us h])
  qed
qed

lemma confirm_scan_missing: "tag \<notin> set h \<Longrightarrow> confirm_scan tag us h = None"
proof (induction h arbitrary: us)
  case (Cons x h)
  then show ?case by (auto simp: confirm_scan.simps [of tag us] heap_Pop_def)
qed (simp add: confirm_scan.simps heap_Pop_def)

lemma confirm_upto_found:
  "sorted h \<Longrightarrow> tag \<in># mset h \<Longrightarrow>
   \<exists>ms h'. confirm_upto tag ns h = Some (ns @ ms, h') \<and> sorted h' \<and> mset h = mset ms + mset h' \<and>
     sorted ms \<and> tag \<in> set ms \<and> (\<forall>x\<in>set ms. x \<le> tag) \<and> (\<forall>x\<in>set h'. tag \<le> x)"
proof (induction tag ns h rule: confirm_upto.induct)
  case (1 tag ns h)
  from tags.pop_member [OF "1.prems"] obtain y h1
    where p: "heap_Pop h = Some (y, h1)" "y \<le> tag" and t: "tag = y \<or> tag \<in># mset h1" by blast
  note h1 = tags.pop_ok [OF "1.prems"(1) p(1)] tags.pop_elems [OF "1.prems"(1) p(1)]
  have least: "y \<le> x" if "x \<in># mset h" for x
    using tags.pop_least [OF "1.prems"(1) p(1) that] .
  show ?case
  proof (cases "y = tag")
    case True
    with p h1 least show ?thesis
      by (intro exI [of _ "[y]"] exI [of _ h1]) (auto simp: confirm_upto.simps [of tag ns h])
  next
    case False
    with t have "tag \<in># mset h1" by simp
    from "1.IH" [OF p(1) refl False h1(1) this]
    obtain ms h' where *: "confirm_upto tag (ns @ [y]) h1 = Some (ns @ y # ms, h')" "sorted h'"
      "mset h1 = mset ms + mset h'" "sorted ms" "tag \<in> set ms" "\<forall>x\<in>set ms. x \<le> tag" "\<forall>x\<in>set h'. tag \<le> x"
      by auto
    have "y \<le> x" if "x \<in> set ms" for x
    proof -
      from that have "x \<in># mset h" using h1(2) *(3) by simp
      then show ?thesis by (rule least)
    qed
    with * p False h1(2) show ?thesis
      by (intro exI [of _ "y # ms"] exI [of _ h']) (auto simp: confirm_upto.simps [of tag ns h])
  qed
qed

lemma confirm_upto_missing: "tag \<notin> set h \<Longrightarrow> confirm_upto tag ns h = None"
proof (induction h arbitrary: ns)
  case (Cons x h)
  then show ?case by (auto simp: confirm_upto.simps [of tag ns] heap_Pop_def)
qed (simp add: confirm_upto.simps heap_Pop_def)

lemma confimOne_found:
  "sorted h \<Longrightarrow> tag \<in> set h \<Longrightarrow>
   \<exists>h'. confimOne tag h = Some ([tag], h') \<and> sorted h' \<and> mset h = add_mset tag (mset h')"
  using confirm_scan_found [of h tag "[]"] by (auto simp: confimOne_def)

lemma confimMultiple_found:
  assumes "sorted h" and "distinct h" and "tag \<in> set h"
  shows "confimMultiple tag h = Some (filter (\<lambda>x. x \<le> tag) h, filter (\<lambda>x. tag < x) h)"
proof -
  from assms obtain ms h' where m: "confimMultiple tag h = Some (ms, h')" "sorted h'" "mset h = mset ms + mset h'"
    "sorted ms" "tag \<in> set ms" "\<forall>x\<in>set ms. x \<le> tag" "\<forall>x\<in>set h'. tag \<le> x"
    using confirm_upto_found [of h tag "[]"] by (auto simp: confimMultiple_def)
  have "sorted (ms @ h')" using m by (force simp: sorted_append)
  moreover have "mset (ms @ h') = mset h" using m(3) by simp
  ultimately have h: "h = ms @ h'" using assms(1) by (metis properties_for_sort)
  then have "tag < x" if "x \<in> set h'" for x
    using that assms(2) m(5,7) by (auto simp: order.strict_iff_order)
  with m(6) have "filter (\<lambda>x. x \<le> tag) h = ms" "filter (\<lambda>x. tag < x) h = h'"
    unfolding h by (auto simp: filter_id_conv filter_empty_conv not_le not_less)
  with m(1) show ?thesis by simp
qed

section \<open>The channel\<close>

text \<open>
  Listeners are Go channels, numbered. \<open>ch_open\<close> is which of \<open>sendOpen\<close> and \<open>sendClosed\<close> is in the field \<open>send\<close>,
  \<open>ch_down\<close> whether the destructor ran, \<open>ch_confirms\<close> is \<open>None\<close> outside the confirm mode.
\<close>

record channel =
  ch_id :: "16 word"
  ch_assembly :: assembly
  ch_consumers :: consumers
  ch_open :: bool
  ch_down :: bool
  ch_noNotify :: bool
  ch_closes :: "nat list"
  ch_flows :: "nat list"
  ch_returns :: "nat list"
  ch_cancels :: "nat list"
  ch_acks :: "nat list"
  ch_nacks :: "nat list"
  ch_confirms :: "tagSet option"
  ch_publishCounter :: "64 word"

definition newChannel :: "16 word \<Rightarrow> channel" where
  "newChannel cid =
     \<lparr>ch_id = cid, ch_assembly = newAssembly, ch_consumers = makeConsumers, ch_open = True,
      ch_down = False, ch_noNotify = False, ch_closes = [], ch_flows = [], ch_returns = [],
      ch_cancels = [], ch_acks = [], ch_nacks = [], ch_confirms = None, ch_publishCounter = 0\<rparr>"

text \<open>\<open>PutRpc\<close> is the send on the unbuffered \<open>rpc\<close>, \<open>PutError\<close> the one on \<open>errors\<close>.\<close>

datatype effect =
    SendFrame frame
  | NotifyClose nat Error
  | NotifyFlow nat bool
  | NotifyReturn nat Return
  | NotifyCancel nat bytes
  | NotifyTag nat "64 word"
  | CloseListener nat
  | PutRpc "message option"
  | PutError Error
  | RemoveChannel "16 word"

type_synonym channel_result = "(effect list \<times> channel) option"

definition channel_send ::
    "('e, 'c) conn \<Rightarrow> int \<Rightarrow> channel \<Rightarrow> message \<Rightarrow> 'c \<Rightarrow> ('e send_result \<times> 'c) option" where
  "channel_send send frameSize ch msg c =
     (if ch_open ch then sendOpen send (ch_id ch) frameSize msg c else sendClosed send (ch_id ch) msg c)"

text \<open>The replies \<open>dispatch\<close> sends are methods without content, and it ignores their errors.\<close>

definition send_reply :: "channel \<Rightarrow> message \<Rightarrow> effect list" where
  "send_reply ch m =
     (if ch_open ch \<or> m = MChannel ChannelCloseOk
      then [SendFrame (MethodFrame (ch_id ch) 0 0 (Some m))] else [])"

lemma channel_send_reply:
  assumes "getContent m = None"
  shows "channel_send send frameSize ch m c =
     (case send_reply ch m of
        [] \<Rightarrow> Some (SendClosed, c)
      | _ \<Rightarrow> (case send (MethodFrame (ch_id ch) 0 0 (Some m)) c of
               (Some e, c) \<Rightarrow> Some (SendFailed e, c)
             | (None, c) \<Rightarrow> Some (Sent, c)))"
  using assms by (simp add: channel_send_def send_reply_def sendOpen_def sendClosed_def)

text \<open>Each listener for acks and nacks is closed once, also when it is registered for both.\<close>

fun close_seen :: "nat list \<Rightarrow> nat list \<Rightarrow> nat list" where
  "close_seen seen [] = []"
| "close_seen seen (c # cs) = (if c \<in> set seen then close_seen seen cs else c # close_seen (c # seen) cs)"

text \<open>
  \<open>shutdown\<close> closes the listeners and leaves them in the lists. To close a Go channel twice panics: a
  listener that is in its list twice; and so does a later send on one, \<open>tell\<close>.
\<close>

definition shutdown :: "Error option \<Rightarrow> channel \<Rightarrow> channel_result" where
  "shutdown e ch =
     (if ch_down ch then Some ([], ch)
      else if \<not> (distinct (ch_closes ch) \<and> distinct (ch_flows ch) \<and> distinct (ch_returns ch) \<and> distinct (ch_cancels ch))
      then None
      else
        let notified = (case e of None \<Rightarrow> [] | Some e \<Rightarrow> map (\<lambda>c. NotifyClose c e) (ch_closes ch));
            errors = (case e of None \<Rightarrow> [] | Some e \<Rightarrow> [PutError e])
        in case consumers_closeAll (ch_consumers ch) of
             None \<Rightarrow> None
           | Some consumers \<Rightarrow>
               Some (notified @ errors @
                       map CloseListener
                         (ch_closes ch @ ch_flows ch @ ch_returns ch @ ch_cancels ch @
                          close_seen [] (ch_acks ch @ ch_nacks ch)) @
                       [RemoveChannel (ch_id ch)],
                     ch\<lparr>ch_down := True, ch_open := False, ch_consumers := consumers, ch_noNotify := True\<rparr>))"

definition tell :: "channel \<Rightarrow> (nat \<Rightarrow> effect) \<Rightarrow> nat list \<Rightarrow> effect list option" where
  "tell ch note listeners = (if ch_down ch \<and> listeners \<noteq> [] then None else Some (map note listeners))"

lemma tell_open [simp]: "\<not> ch_down ch \<Longrightarrow> tell ch note ls = Some (map note ls)"
  by (simp add: tell_def)

definition confirm_tags ::
    "(64 word \<Rightarrow> tagSet \<Rightarrow> (64 word list \<times> tagSet) option) \<Rightarrow> 64 word \<Rightarrow> nat list \<Rightarrow> channel \<Rightarrow> channel_result" where
  "confirm_tags f tag listeners ch =
     (case ch_confirms ch of
        None \<Rightarrow> Some ([], ch)
      | Some h \<Rightarrow>
          (case f tag h of
             None \<Rightarrow> None
           | Some (ts, h) \<Rightarrow>
               if ch_down ch \<and> listeners \<noteq> [] then None
               else Some (concat (map (\<lambda>t. map (\<lambda>c. NotifyTag c t) listeners) ts), ch\<lparr>ch_confirms := Some h\<rparr>)))"

definition dispatch :: "message option \<Rightarrow> channel \<Rightarrow> channel_result" where
  "dispatch msg ch =
     (case msg of
        Some (MChannel (ChannelClose code reason _ _)) \<Rightarrow>
          map_option (\<lambda>(es, ch). (es @ send_reply ch (MChannel ChannelCloseOk), ch))
            (shutdown (Some (newError code reason)) ch)
      | Some (MChannel (ChannelFlow active)) \<Rightarrow>
          map_option (\<lambda>es. (es @ send_reply ch (MChannel (ChannelFlowOk active)), ch))
            (tell ch (\<lambda>c. NotifyFlow c active) (ch_flows ch))
      | Some (MBasic (BasicCancel tag _)) \<Rightarrow>
          map_option (\<lambda>es. (es @ send_reply ch (MBasic (BasicCancelOk tag)), ch))
            (tell ch (\<lambda>c. NotifyCancel c tag) (ch_cancels ch))
      | Some (MBasic (BasicReturn code reason ex key p b)) \<Rightarrow>
          map_option (\<lambda>es. (es, ch))
            (tell ch (\<lambda>c. NotifyReturn c (newReturn code reason ex key p b)) (ch_returns ch))
      | Some (MBasic (BasicAck tag multiple)) \<Rightarrow>
          confirm_tags (if multiple then confimMultiple else confimOne) tag (ch_acks ch) ch
      | Some (MBasic (BasicNack tag multiple _)) \<Rightarrow>
          confirm_tags (if multiple then confimMultiple else confimOne) tag (ch_nacks ch) ch
      | Some (MBasic (BasicDeliver tag dtag red ex key p b)) \<Rightarrow>
          (case newDelivery (MBasic (BasicDeliver tag dtag red ex key p b)) of
             None \<Rightarrow> None
           | Some d \<Rightarrow>
               map_option (\<lambda>(_, t). ([], ch\<lparr>ch_consumers := t\<rparr>)) (consumers_send tag d (ch_consumers ch)))
      | _ \<Rightarrow> Some ([PutRpc msg], ch))"

fun dispatch_all :: "message option list \<Rightarrow> channel \<Rightarrow> channel_result" where
  "dispatch_all [] ch = Some ([], ch)"
| "dispatch_all (m # ms) ch =
     (case dispatch m ch of
        None \<Rightarrow> None
      | Some (es, ch) \<Rightarrow> map_option (\<lambda>(fs, ch). (es @ fs, ch)) (dispatch_all ms ch))"

text \<open>\<open>channel.recv(channel, f)\<close>: a step of the state machine and the dispatch of what it yields.\<close>

definition channel_recv :: "frame \<Rightarrow> channel \<Rightarrow> channel_result" where
  "channel_recv f ch =
     (case recv_frame f (ch_assembly ch) of
        None \<Rightarrow> None
      | Some (a, ms) \<Rightarrow> map_option (\<lambda>(es, ch). (es, ch\<lparr>ch_assembly := a\<rparr>)) (dispatch_all ms ch))"

fun channel_recvs :: "frame list \<Rightarrow> channel \<Rightarrow> channel_result" where
  "channel_recvs [] ch = Some ([], ch)"
| "channel_recvs (f # fs) ch =
     (case channel_recv f ch of
        None \<Rightarrow> None
      | Some (es, ch) \<Rightarrow> map_option (\<lambda>(gs, ch). (es @ gs, ch)) (channel_recvs fs ch))"

text \<open>The \<open>Notify\<close> operations: a listener that comes after the shutdown is closed at once.\<close>

definition channel_NotifyClose :: "nat \<Rightarrow> channel \<Rightarrow> effect list \<times> channel" where
  "channel_NotifyClose c ch =
     (if ch_noNotify ch then ([CloseListener c], ch) else ([], ch\<lparr>ch_closes := ch_closes ch @ [c]\<rparr>))"

definition channel_NotifyFlow :: "nat \<Rightarrow> channel \<Rightarrow> effect list \<times> channel" where
  "channel_NotifyFlow c ch =
     (if ch_noNotify ch then ([CloseListener c], ch) else ([], ch\<lparr>ch_flows := ch_flows ch @ [c]\<rparr>))"

definition channel_NotifyReturn :: "nat \<Rightarrow> channel \<Rightarrow> effect list \<times> channel" where
  "channel_NotifyReturn c ch =
     (if ch_noNotify ch then ([CloseListener c], ch) else ([], ch\<lparr>ch_returns := ch_returns ch @ [c]\<rparr>))"

definition channel_NotifyCancel :: "nat \<Rightarrow> channel \<Rightarrow> effect list \<times> channel" where
  "channel_NotifyCancel c ch =
     (if ch_noNotify ch then ([CloseListener c], ch) else ([], ch\<lparr>ch_cancels := ch_cancels ch @ [c]\<rparr>))"

definition channel_NotifyConfirm :: "nat \<Rightarrow> nat \<Rightarrow> channel \<Rightarrow> effect list \<times> channel" where
  "channel_NotifyConfirm ack nack ch =
     (if ch_noNotify ch then ([CloseListener ack, CloseListener nack], ch)
      else ([], ch\<lparr>ch_acks := ch_acks ch @ [ack], ch_nacks := ch_nacks ch @ [nack]\<rparr>))"

section \<open>The invariant of the channel\<close>

definition channel_inv :: "channel \<Rightarrow> bool" where
  "channel_inv ch \<longleftrightarrow>
     consumers_inv (ch_consumers ch) \<and> assembly_inv (ch_assembly ch) \<and>
     (case ch_confirms ch of None \<Rightarrow> True | Some h \<Rightarrow> sorted h \<and> distinct h) \<and>
     (ch_open ch \<longleftrightarrow> \<not> ch_down ch) \<and> (ch_noNotify ch \<longleftrightarrow> ch_down ch) \<and>
     distinct (ch_closes ch) \<and> distinct (ch_flows ch) \<and> distinct (ch_returns ch) \<and> distinct (ch_cancels ch)"

lemma newChannel_inv: "channel_inv (newChannel cid)"
  by (simp add: channel_inv_def newChannel_def consumers_inv_def makeConsumers_def assembly_inv_def newAssembly_def)

lemma confimOne_eq:
  assumes "sorted h" and "distinct h"
  shows "confimOne tag h = (if tag \<in> set h then Some ([tag], remove1 tag h) else None)"
proof (cases "tag \<in> set h")
  case True
  with confimOne_found [OF assms(1) True] obtain h' where h': "confimOne tag h = Some ([tag], h')" "sorted h'"
    "mset h = add_mset tag (mset h')" by blast
  then have "mset (remove1 tag h) = mset h'" using True by simp
  with h'(2) assms(1) have "h' = remove1 tag h"
    by (metis properties_for_sort sorted_remove1)
  with True h'(1) show ?thesis by simp
next
  case False
  then show ?thesis by (simp add: confimOne_def confirm_scan_missing)
qed

lemma confimMultiple_eq:
  assumes "sorted h" and "distinct h"
  shows "confimMultiple tag h =
     (if tag \<in> set h then Some (filter (\<lambda>x. x \<le> tag) h, filter (\<lambda>x. tag < x) h) else None)"
  using confimMultiple_found [OF assms] by (simp add: confimMultiple_def confirm_upto_missing)

lemma confirms_shrink:
  assumes "sorted h" and "distinct h"
    and "(if multiple then confimMultiple else confimOne) tag h = Some (ts, h')"
  shows "sorted h'" and "distinct h'" and "mset h = mset ts + mset h'"
proof -
  have "mset h = mset (filter (\<lambda>x. x \<le> tag) h) + mset (filter (\<lambda>x. tag < x) h)"
    by (induction h) (auto simp: not_le)
  moreover have "mset h = add_mset tag (mset (remove1 tag h))" if "tag \<in> set h"
    using that by simp
  ultimately show "sorted h'" and "distinct h'" and "mset h = mset ts + mset h'"
    using assms by (auto simp: confimOne_eq confimMultiple_eq sorted_remove1 sorted_wrt_filter split: if_splits)
qed

lemma confirm_tags_inv:
  assumes "channel_inv ch"
    and "confirm_tags (if multiple then confimMultiple else confimOne) tag ls ch = Some (es, ch')"
  shows "channel_inv ch'"
proof (cases "ch_confirms ch")
  case None
  with assms show ?thesis by (simp add: confirm_tags_def)
next
  case (Some h)
  with assms(1) have h: "sorted h" "distinct h" by (simp_all add: channel_inv_def)
  from Some assms(2) obtain ts h' where f: "(if multiple then confimMultiple else confimOne) tag h = Some (ts, h')"
    and ch': "ch' = ch\<lparr>ch_confirms := Some h'\<rparr>"
    by (auto simp: confirm_tags_def split: option.splits if_splits)
  with confirms_shrink(1,2) [OF h f] assms(1) show ?thesis by (simp add: channel_inv_def)
qed

lemma confirm_tags_assembly: "confirm_tags f tag ls ch = Some (es, ch') \<Longrightarrow> ch_assembly ch' = ch_assembly ch"
  by (auto simp: confirm_tags_def split: option.splits if_splits)

lemma consumers_closeAll_ok:
  "consumers_inv t \<Longrightarrow> \<exists>t'. consumers_closeAll t = Some t' \<and> consumers_inv t' \<and> inbox t' = (\<lambda>_. None)"
  using consumers_do_ok [of t CloseAll] by simp

lemma shutdown_ok:
  assumes "channel_inv ch"
  obtains es ch' where "shutdown e ch = Some (es, ch')" and "channel_inv ch'" and "ch_down ch'"
    and "ch_assembly ch' = ch_assembly ch"
proof (cases "ch_down ch")
  case True
  with assms that [of "[]" ch] show thesis by (simp add: shutdown_def)
next
  case False
  from assms consumers_closeAll_ok obtain t where "consumers_closeAll (ch_consumers ch) = Some t" "consumers_inv t"
    by (auto simp: channel_inv_def)
  with assms False that show thesis by (fastforce simp: shutdown_def channel_inv_def)
qed

text \<open>The confirms the peer may send: those for a publishing that waits for one.\<close>

definition confirm_expected :: "message option \<Rightarrow> channel \<Rightarrow> bool" where
  "confirm_expected mo ch =
     (case mo of
        Some (MBasic (BasicAck tag _)) \<Rightarrow> (case ch_confirms ch of None \<Rightarrow> True | Some h \<Rightarrow> tag \<in> set h)
      | Some (MBasic (BasicNack tag _ _)) \<Rightarrow> (case ch_confirms ch of None \<Rightarrow> True | Some h \<Rightarrow> tag \<in> set h)
      | _ \<Rightarrow> True)"

text \<open>The listeners a message is for, and whether they are closed.\<close>

definition told_listeners :: "message option \<Rightarrow> channel \<Rightarrow> nat list" where
  "told_listeners mo ch =
     (case mo of
        Some (MChannel (ChannelFlow _)) \<Rightarrow> ch_flows ch
      | Some (MBasic (BasicCancel _ _)) \<Rightarrow> ch_cancels ch
      | Some (MBasic (BasicReturn _ _ _ _ _ _)) \<Rightarrow> ch_returns ch
      | Some (MBasic (BasicAck _ _)) \<Rightarrow> (if ch_confirms ch = None then [] else ch_acks ch)
      | Some (MBasic (BasicNack _ _ _)) \<Rightarrow> (if ch_confirms ch = None then [] else ch_nacks ch)
      | _ \<Rightarrow> [])"

definition to_closed_listener :: "message option \<Rightarrow> channel \<Rightarrow> bool" where
  "to_closed_listener mo ch \<longleftrightarrow> ch_down ch \<and> told_listeners mo ch \<noteq> []"

lemma confirm_tags_None:
  assumes "channel_inv ch"
  shows "confirm_tags (if multiple then confimMultiple else confimOne) tag ls ch = None \<longleftrightarrow>
     \<not> (case ch_confirms ch of None \<Rightarrow> True | Some h \<Rightarrow> tag \<in> set h) \<or>
     ch_down ch \<and> ls \<noteq> [] \<and> ch_confirms ch \<noteq> None"
proof (cases "ch_confirms ch")
  case (Some h)
  with assms have "sorted h" "distinct h" by (simp_all add: channel_inv_def)
  with Some show ?thesis
    by (auto simp: confirm_tags_def confimOne_eq confimMultiple_eq)
qed (simp add: confirm_tags_def)

lemma dispatch_deliver:
  assumes "consumers_inv (ch_consumers ch)"
    and "newDelivery (MBasic (BasicDeliver tag dtag red ex key p b)) = Some d"
  shows "\<exists>t. dispatch (Some (MBasic (BasicDeliver tag dtag red ex key p b))) ch = Some ([], ch\<lparr>ch_consumers := t\<rparr>) \<and>
     consumers_inv t \<and> inbox t = inbox_do (SendTo tag d) (inbox (ch_consumers ch))"
  using consumers_do_ok [OF assms(1), of "SendTo tag d"] assms(2) by (auto simp: dispatch_def)

lemma newDelivery_total: "\<exists>d. newDelivery (MBasic (BasicDeliver tag dtag red ex key p b)) = Some d"
  by (simp add: newDelivery_def Let_def)

lemma dispatch_confirms:
  assumes "channel_inv ch"
    and "dispatch mo ch = confirm_tags (if multiple then confimMultiple else confimOne) tag ls ch"
    and "confirm_expected mo ch \<longleftrightarrow> (case ch_confirms ch of None \<Rightarrow> True | Some h \<Rightarrow> tag \<in> set h)"
    and "told_listeners mo ch = (if ch_confirms ch = None then [] else ls)"
  shows "case dispatch mo ch of
      None \<Rightarrow> \<not> confirm_expected mo ch \<or> to_closed_listener mo ch
    | Some (es, ch') \<Rightarrow> confirm_expected mo ch \<and> \<not> to_closed_listener mo ch \<and> channel_inv ch' \<and>
        ch_assembly ch' = ch_assembly ch"
  using assms confirm_tags_None [OF assms(1), of multiple tag ls] confirm_tags_inv [OF assms(1), of multiple tag ls]
    confirm_tags_assembly [of "if multiple then confimMultiple else confimOne" tag ls ch]
  by (cases "confirm_tags (if multiple then confimMultiple else confimOne) tag ls ch")
     (auto simp: to_closed_listener_def split: if_splits)

lemma dispatch_inv:
  assumes "channel_inv ch"
  shows "case dispatch mo ch of
      None \<Rightarrow> \<not> confirm_expected mo ch \<or> to_closed_listener mo ch
    | Some (es, ch') \<Rightarrow> confirm_expected mo ch \<and> \<not> to_closed_listener mo ch \<and> channel_inv ch' \<and>
        ch_assembly ch' = ch_assembly ch"
proof (cases mo)
  case None
  then show ?thesis
    using assms by (simp add: dispatch_def confirm_expected_def to_closed_listener_def told_listeners_def)
next
  case (Some m)
  note defs = dispatch_def confirm_expected_def to_closed_listener_def told_listeners_def tell_def
  show ?thesis
  proof (cases m)
    case (MChannel c)
    show ?thesis
    proof (cases c)
      case (ChannelClose code reason cls mth)
      obtain es ch' where "shutdown (Some (newError code reason)) ch = Some (es, ch')" "channel_inv ch'"
        "ch_assembly ch' = ch_assembly ch" by (rule shutdown_ok [OF assms])
      with Some MChannel ChannelClose show ?thesis by (simp add: defs)
    qed (use Some MChannel assms in \<open>simp_all add: defs\<close>)
  next
    case (MBasic b)
    show ?thesis
    proof (cases b)
      case (BasicAck tag multiple)
      with Some MBasic show ?thesis
        by (intro dispatch_confirms [OF assms, of _ multiple tag "ch_acks ch"]) (simp_all add: defs)
    next
      case (BasicNack tag multiple requeue)
      with Some MBasic show ?thesis
        by (intro dispatch_confirms [OF assms, of _ multiple tag "ch_nacks ch"]) (simp_all add: defs)
    next
      case (BasicDeliver tag dtag red ex key p body)
      obtain d where d: "newDelivery (MBasic (BasicDeliver tag dtag red ex key p body)) = Some d"
        using newDelivery_total by blast
      from dispatch_deliver [OF _ this] assms Some MBasic BasicDeliver show ?thesis
        by (fastforce simp: channel_inv_def confirm_expected_def to_closed_listener_def told_listeners_def)
    qed (use Some MBasic assms in \<open>simp_all add: defs\<close>)
  qed (use Some assms in \<open>simp_all add: defs\<close>)
qed

text \<open>
  A run of frames: the channel keeps its invariant until a frame makes it panic.
\<close>

lemma dispatch_all_single: "dispatch_all [mo] ch = dispatch mo ch"
  by (cases "dispatch mo ch") auto

lemma dispatch_all_inv:
  "channel_inv ch \<Longrightarrow> dispatch_all ms ch = Some (es, ch') \<Longrightarrow>
   channel_inv ch' \<and> ch_assembly ch' = ch_assembly ch"
proof (induction ms arbitrary: ch es)
  case (Cons m ms)
  then obtain es1 ch1 es2 where d: "dispatch m ch = Some (es1, ch1)" and r: "dispatch_all ms ch1 = Some (es2, ch')"
    by (auto split: option.splits)
  with dispatch_inv [OF Cons.prems(1), of m] have "channel_inv ch1" "ch_assembly ch1 = ch_assembly ch" by auto
  with Cons.IH [OF this(1) r] show ?case by simp
qed simp

lemma channel_recv_inv:
  assumes "channel_inv ch" and "channel_recv f ch = Some (es, ch')"
  shows "channel_inv ch'"
proof -
  from assms(2) obtain a ms ch1 where a: "recv_frame f (ch_assembly ch) = Some (a, ms)"
    and d: "dispatch_all ms ch = Some (es, ch1)" and ch': "ch' = ch1\<lparr>ch_assembly := a\<rparr>"
    by (auto simp: channel_recv_def split: option.splits)
  have "\<not> is_heartbeat f"
  proof
    assume "is_heartbeat f"
    then have "recv_frame f (ch_assembly ch) = None"
      by (cases f; cases "recv (ch_assembly ch)") (simp_all add: recv_frame_def)
    with a show False by simp
  qed
  with recv_frame_step [of "ch_assembly ch" f] assms(1) a have "assembly_inv a"
    by (auto simp: channel_inv_def)
  with dispatch_all_inv [OF assms(1) d] ch' show ?thesis by (simp add: channel_inv_def)
qed

lemma channel_recvs_inv:
  "channel_inv ch \<Longrightarrow> channel_recvs fs ch = Some (es, ch') \<Longrightarrow> channel_inv ch'"
proof (induction fs arbitrary: ch es)
  case (Cons f fs)
  then show ?case by (auto split: option.splits dest: channel_recv_inv)
qed simp

lemma channel_recvs_append:
  "channel_recvs (fs @ gs) ch =
     (case channel_recvs fs ch of
        None \<Rightarrow> None
      | Some (es, ch) \<Rightarrow> map_option (\<lambda>(ds, ch). (es @ ds, ch)) (channel_recvs gs ch))"
proof (induction fs arbitrary: ch)
  case Nil
  show ?case by (cases "channel_recvs gs ch") simp_all
next
  case (Cons f fs)
  then show ?case
    by (auto simp: option.map_comp comp_def case_prod_unfold split: option.split)
qed

text \<open>\<open>dispatch\<close> leaves the state machine alone, so a run is the state machine followed by the dispatches.\<close>

abbreviation (input) at_assembly :: "assembly \<Rightarrow> effect list \<times> channel \<Rightarrow> effect list \<times> channel" where
  "at_assembly a \<equiv> \<lambda>(es, ch). (es, ch\<lparr>ch_assembly := a\<rparr>)"

lemma shutdown_assembly:
  "shutdown e (ch\<lparr>ch_assembly := a\<rparr>) = map_option (at_assembly a) (shutdown e ch)"
  by (auto simp: shutdown_def Let_def split: option.splits)

lemma confirm_tags_at_assembly:
  "confirm_tags f tag ls (ch\<lparr>ch_assembly := a\<rparr>) = map_option (at_assembly a) (confirm_tags f tag ls ch)"
  by (auto simp: confirm_tags_def split: option.splits)

lemma tell_assembly: "tell (ch\<lparr>ch_assembly := a\<rparr>) f ls = tell ch f ls"
  by (simp add: tell_def)

lemma send_reply_assembly: "send_reply (ch\<lparr>ch_assembly := a\<rparr>) m = send_reply ch m"
  by (simp add: send_reply_def)

lemma dispatch_assembly:
  "dispatch mo (ch\<lparr>ch_assembly := a\<rparr>) = map_option (at_assembly a) (dispatch mo ch)"
proof (cases mo)
  case (Some m)
  note defs = dispatch_def shutdown_assembly confirm_tags_at_assembly send_reply_assembly tell_assembly
    option.map_comp comp_def case_prod_unfold
  show ?thesis
  proof (cases m)
    case (MChannel c)
    with Some show ?thesis by (cases c) (simp_all add: defs)
  next
    case (MBasic b)
    with Some show ?thesis
      by (cases b) (simp_all add: defs split: option.split, intro allI impI option.map_cong refl, simp)
  qed (use Some in \<open>simp_all add: defs\<close>)
qed (simp add: dispatch_def)

lemma dispatch_all_assembly:
  "dispatch_all ms (ch\<lparr>ch_assembly := a\<rparr>) = map_option (at_assembly a) (dispatch_all ms ch)"
proof (induction ms arbitrary: ch)
  case (Cons m ms)
  then show ?case
    by (auto simp: dispatch_assembly option.map_comp comp_def case_prod_unfold split: option.split)
qed simp

lemma dispatch_all_append:
  "dispatch_all (ms @ ns) ch =
     (case dispatch_all ms ch of
        None \<Rightarrow> None
      | Some (es, ch) \<Rightarrow> map_option (\<lambda>(fs, ch). (es @ fs, ch)) (dispatch_all ns ch))"
proof (induction ms arbitrary: ch)
  case Nil
  show ?case by (cases "dispatch_all ns ch") simp_all
next
  case (Cons m ms)
  then show ?case
    by (auto simp: option.map_comp comp_def case_prod_unfold split: option.split)
qed

lemma channel_recvs_dispatch:
  "channel_recvs fs ch =
     (case recv_frames fs (ch_assembly ch) of
        None \<Rightarrow> None
      | Some (a, ms) \<Rightarrow> map_option (at_assembly a) (dispatch_all ms ch))"
proof (induction fs arbitrary: ch)
  case (Cons f fs)
  show ?case
  proof (cases "recv_frame f (ch_assembly ch)")
    case None
    then show ?thesis by (simp add: channel_recv_def)
  next
    case (Some am)
    obtain a ms where am: "am = (a, ms)" by (cases am)
    show ?thesis
    proof (cases "dispatch_all ms ch")
      case None
      with Some am show ?thesis
        by (auto simp: channel_recv_def dispatch_all_append split: option.split)
    next
      case (Some ec)
      obtain es ch1 where ec: "ec = (es, ch1)" by (cases ec)
      have run: "channel_recv f ch = Some (es, ch1\<lparr>ch_assembly := a\<rparr>)"
        using Some ec am \<open>recv_frame f (ch_assembly ch) = Some am\<close> by (simp add: channel_recv_def)
      show ?thesis
        using Cons.IH [of "ch1\<lparr>ch_assembly := a\<rparr>"] Some ec am \<open>recv_frame f (ch_assembly ch) = Some am\<close>
        by (auto simp: run dispatch_all_append dispatch_all_assembly option.map_comp comp_def
            case_prod_unfold split: option.splits)
    qed
  qed
qed simp

lemma set_close_seen: "set (close_seen seen cs) = set cs - set seen"
  by (induction seen cs rule: close_seen.induct) auto

lemma distinct_close_seen: "distinct (close_seen seen cs)"
  by (induction seen cs rule: close_seen.induct) (auto simp: set_close_seen)

lemma recv_frame_single: "recv_frame f a = Some (a', ms) \<Longrightarrow> ms = [] \<or> (\<exists>mo. ms = [mo])"
  by (cases f; cases "recv a") (auto simp: recv_frame_def Let_def split: if_splits option.splits)



text \<open>The end of \<open>Publish\<close> and of \<open>Confirm\<close>: a publishing that was sent is counted, and waits for its confirm.\<close>

definition publish_counted :: "channel \<Rightarrow> channel" where
  "publish_counted ch =
     (let n = ch_publishCounter ch + 1
      in ch\<lparr>ch_publishCounter := n, ch_confirms := map_option (heap_Push n) (ch_confirms ch)\<rparr>)"

definition confirm_mode :: "channel \<Rightarrow> channel" where
  "confirm_mode ch = ch\<lparr>ch_confirms := Some []\<rparr>"

definition waiting_tags :: "channel \<Rightarrow> 64 word list" where
  "waiting_tags ch = (case ch_confirms ch of None \<Rightarrow> [] | Some h \<Rightarrow> h)"

section \<open>The life of a channel\<close>

text \<open>
  What the program does to a channel: consumers come and go, listeners are registered, each at most once
  for its kind, publishings are sent and counted, at most \<open>2 ^ 64 - 1\<close> of them, the confirm mode is
  switched on, and the channel is shut down, by \<open>Close\<close> or with its connection. The
  channel's life is any interleaving of these, each under its mutex, with the frames the reader hands to it.
\<close>

inductive channel_act :: "channel \<Rightarrow> effect list \<Rightarrow> channel \<Rightarrow> bool" where
  act_consume: "consumers_add tag (ch_consumers ch) = Some t \<Longrightarrow> channel_act ch [] (ch\<lparr>ch_consumers := t\<rparr>)"
| act_cancel: "consumers_close tag (ch_consumers ch) = Some (found, t) \<Longrightarrow> channel_act ch [] (ch\<lparr>ch_consumers := t\<rparr>)"
| act_NotifyClose: "c \<notin> set (ch_closes ch) \<Longrightarrow> channel_NotifyClose c ch = (es, ch') \<Longrightarrow> channel_act ch es ch'"
| act_NotifyFlow: "c \<notin> set (ch_flows ch) \<Longrightarrow> channel_NotifyFlow c ch = (es, ch') \<Longrightarrow> channel_act ch es ch'"
| act_NotifyReturn: "c \<notin> set (ch_returns ch) \<Longrightarrow> channel_NotifyReturn c ch = (es, ch') \<Longrightarrow> channel_act ch es ch'"
| act_NotifyCancel: "c \<notin> set (ch_cancels ch) \<Longrightarrow> channel_NotifyCancel c ch = (es, ch') \<Longrightarrow> channel_act ch es ch'"
| act_NotifyConfirm: "channel_NotifyConfirm ack nack ch = (es, ch') \<Longrightarrow> channel_act ch es ch'"
| act_Publish: "ch_open ch \<Longrightarrow> ch_publishCounter ch \<noteq> - 1 \<Longrightarrow> channel_act ch [] (publish_counted ch)"
| act_Confirm: "channel_act ch [] (confirm_mode ch)"
| act_shutdown: "shutdown e ch = Some (es, ch') \<Longrightarrow> channel_act ch es ch'"

inductive channel_life :: "16 word \<Rightarrow> channel \<Rightarrow> bool" for cid where
  life_new: "channel_life cid (newChannel cid)"
| life_frame: "channel_life cid ch \<Longrightarrow> channel_recv f ch = Some (es, ch') \<Longrightarrow> channel_life cid ch'"
| life_act: "channel_life cid ch \<Longrightarrow> channel_act ch es ch' \<Longrightarrow> channel_life cid ch'"

text \<open>The tags that wait are those of publishings counted before.\<close>

definition life_inv :: "channel \<Rightarrow> bool" where
  "life_inv ch \<longleftrightarrow> channel_inv ch \<and> (\<forall>t\<in>set (waiting_tags ch). t \<le> ch_publishCounter ch)"

lemma waiting_tags_update [simp]:
  "waiting_tags (ch\<lparr>ch_consumers := t\<rparr>) = waiting_tags ch"
  "waiting_tags (ch\<lparr>ch_assembly := a\<rparr>) = waiting_tags ch"
  "waiting_tags (ch\<lparr>ch_closes := ls\<rparr>) = waiting_tags ch"
  "waiting_tags (ch\<lparr>ch_flows := ls\<rparr>) = waiting_tags ch"
  "waiting_tags (ch\<lparr>ch_returns := ls\<rparr>) = waiting_tags ch"
  "waiting_tags (ch\<lparr>ch_cancels := ls\<rparr>) = waiting_tags ch"
  "waiting_tags (ch\<lparr>ch_acks := ls, ch_nacks := ms\<rparr>) = waiting_tags ch"
  "waiting_tags (ch\<lparr>ch_confirms := h\<rparr>) = (case h of None \<Rightarrow> [] | Some h \<Rightarrow> h)"
  by (simp_all add: waiting_tags_def)

lemma newChannel_life: "life_inv (newChannel cid)"
  using newChannel_inv by (simp add: life_inv_def waiting_tags_def newChannel_def)

lemma confirm_tags_waiting:
  assumes "channel_inv ch"
    and "confirm_tags (if multiple then confimMultiple else confimOne) tag ls ch = Some (es, ch')"
  shows "ch_publishCounter ch' = ch_publishCounter ch \<and> set (waiting_tags ch') \<subseteq> set (waiting_tags ch)"
proof (cases "ch_confirms ch")
  case None
  with assms show ?thesis by (simp add: confirm_tags_def)
next
  case (Some h)
  with assms(1) have h: "sorted h" "distinct h" by (simp_all add: channel_inv_def)
  from Some assms(2) obtain ts h' where f: "(if multiple then confimMultiple else confimOne) tag h = Some (ts, h')"
    and ch': "ch' = ch\<lparr>ch_confirms := Some h'\<rparr>"
    by (auto simp: confirm_tags_def split: option.splits if_splits)
  have "set h = set ts \<union> set h'" using arg_cong [OF confirms_shrink(3) [OF h f], of set_mset] by simp
  with Some ch' show ?thesis by (auto simp: waiting_tags_def)
qed

lemma dispatch_waiting:
  assumes "channel_inv ch" and "dispatch mo ch = Some (es, ch')"
  shows "ch_publishCounter ch' = ch_publishCounter ch \<and> set (waiting_tags ch') \<subseteq> set (waiting_tags ch)"
proof -
  note confirms = confirm_tags_waiting [OF assms(1), of True, simplified] confirm_tags_waiting [OF assms(1), of False, simplified]
  have "shutdown e ch = Some (fs, ch1) \<Longrightarrow> ch_publishCounter ch1 = ch_publishCounter ch \<and> waiting_tags ch1 = waiting_tags ch"
    for e fs ch1
    by (auto simp: shutdown_def waiting_tags_def Let_def split: option.splits if_splits)
  with assms(2) show ?thesis
    unfolding dispatch_def
    by (auto dest: confirms split: option.splits message.splits channel_method.splits basic_method.splits if_splits)
qed

lemma channel_recv_life:
  assumes "life_inv ch" and "channel_recv f ch = Some (es, ch')"
  shows "life_inv ch'"
proof -
  from assms(2) obtain a ms ch1 where a: "recv_frame f (ch_assembly ch) = Some (a, ms)"
    and d: "dispatch_all ms ch = Some (es, ch1)" and ch': "ch' = ch1\<lparr>ch_assembly := a\<rparr>"
    by (auto simp: channel_recv_def split: option.splits)
  from recv_frame_single [OF a] d have "ch1 = ch \<or> (\<exists>mo. dispatch mo ch = Some (es, ch1))"
    by (auto simp: dispatch_all_single simp del: dispatch_all.simps(2))
  then have "ch_publishCounter ch1 = ch_publishCounter ch \<and> set (waiting_tags ch1) \<subseteq> set (waiting_tags ch)"
    using dispatch_waiting assms(1) unfolding life_inv_def by blast
  then show ?thesis
    using channel_recv_inv [OF _ assms(2)] assms(1) unfolding life_inv_def ch' by (auto simp: waiting_tags_def)
qed

lemma publish_counted_inv:
  assumes "life_inv ch" and "ch_publishCounter ch \<noteq> - 1"
  shows "life_inv (publish_counted ch)"
proof -
  let ?n = "ch_publishCounter ch"
  have less: "?n < ?n + 1"
  proof -
    have "1 + ?n \<noteq> 0" using assms(2) by (metis add.commute add_eq_0_iff2)
    then show ?thesis using unatSuc [of ?n] by (simp add: word_less_nat_alt add.commute)
  qed
  have "heap_Push (?n + 1) h = insort (?n + 1) h" for h by (simp add: heap_Push_def)
  moreover have "?n + 1 \<notin> set (waiting_tags ch)"
    using assms(1) less by (auto simp: life_inv_def dest: leD)
  ultimately show ?thesis
    using assms(1) less
    by (auto simp: life_inv_def channel_inv_def publish_counted_def waiting_tags_def Let_def distinct_insort
        sorted_insort set_insort_key split: option.splits)
qed

lemma shutdown_life:
  assumes "life_inv ch" and "shutdown e ch = Some (es, ch')"
  shows "life_inv ch'"
proof -
  obtain es1 ch1 where "shutdown e ch = Some (es1, ch1)" "channel_inv ch1"
    using assms(1) by (auto simp: life_inv_def intro: shutdown_ok)
  moreover have "waiting_tags ch' = waiting_tags ch \<and> ch_publishCounter ch' = ch_publishCounter ch"
    using assms(2) by (auto simp: shutdown_def waiting_tags_def Let_def split: option.splits if_splits)
  ultimately show ?thesis using assms by (simp add: life_inv_def)
qed

lemma channel_act_life:
  assumes "channel_act ch es ch'" and "life_inv ch"
  shows "life_inv ch'"
  using assms
proof cases
  case (act_consume tag t)
  with consumers_do_ok [of "ch_consumers ch" "AddConsumer tag"] assms(2) show ?thesis
    by (auto simp: life_inv_def channel_inv_def)
next
  case (act_cancel tag found t)
  with consumers_do_ok [of "ch_consumers ch" "CloseConsumer tag"] assms(2) show ?thesis
    by (auto simp: life_inv_def channel_inv_def)
next
  case act_Publish
  with publish_counted_inv assms(2) show ?thesis by blast
next
  case (act_shutdown e)
  with shutdown_life assms(2) show ?thesis by blast
qed (use assms(2) in \<open>auto simp: life_inv_def channel_inv_def confirm_mode_def channel_NotifyClose_def
      channel_NotifyFlow_def channel_NotifyReturn_def channel_NotifyCancel_def channel_NotifyConfirm_def split: if_splits\<close>)

lemma channel_life_inv: "channel_life cid ch \<Longrightarrow> life_inv ch"
  by (induction rule: channel_life.induct) (auto intro: newChannel_life channel_recv_life channel_act_life)

lemma channel_recv_None:
  assumes "channel_inv ch"
  shows "channel_recv f ch = None \<longleftrightarrow>
     is_heartbeat f \<or>
     (\<exists>a mo. recv_frame f (ch_assembly ch) = Some (a, [mo]) \<and> (\<not> confirm_expected mo ch \<or> to_closed_listener mo ch))"
proof (cases "recv_frame f (ch_assembly ch)")
  case None
  with assms recv_frame_step [of "ch_assembly ch" f] have "is_heartbeat f"
    by (auto simp: channel_inv_def)
  with None show ?thesis by (simp add: channel_recv_def)
next
  case (Some am)
  obtain a ms where am: "am = (a, ms)" by (cases am)
  have "\<not> is_heartbeat f"
    using Some by (cases f; cases "recv (ch_assembly ch)") (auto simp: recv_frame_def)
  moreover have "ms = [] \<or> (\<exists>mo. ms = [mo])" using recv_frame_single Some am by simp
  moreover have "dispatch mo ch = None \<longleftrightarrow> \<not> confirm_expected mo ch \<or> to_closed_listener mo ch" for mo
    using dispatch_inv [OF assms, of mo] by (auto split: option.splits)
  ultimately show ?thesis
    using Some am by (auto simp: channel_recv_def dispatch_all_single simp del: dispatch_all.simps(2))
qed


section \<open>Properties\<close>



text \<open>
  A confirm of one publishing is passed on at once, also while publishings before it
  are still waiting, and a confirm of several is passed on in ascending order, each tag
  once, to every listener; what is left waiting is the rest; a tag that does not wait
  panics.
\<close>

theorem confirm_semantics:
  assumes "ch_confirms ch = Some h" and "sorted h" and "distinct h" and "\<not> ch_down ch"
  shows "dispatch (Some (MBasic (BasicAck tag False))) ch =
       (if tag \<in> set h
        then Some (map (\<lambda>c. NotifyTag c tag) (ch_acks ch), ch\<lparr>ch_confirms := Some (remove1 tag h)\<rparr>)
        else None) \<and>
     dispatch (Some (MBasic (BasicAck tag True))) ch =
       (if tag \<in> set h
        then Some (concat (map (\<lambda>t. map (\<lambda>c. NotifyTag c t) (ch_acks ch)) (filter (\<lambda>t. t \<le> tag) h)),
                   ch\<lparr>ch_confirms := Some (filter (\<lambda>t. tag < t) h)\<rparr>)
        else None)"
  using assms by (simp add: dispatch_def confirm_tags_def confimOne_eq confimMultiple_eq)

theorem confirm_semantics_witness:
  "dispatch (Some (MBasic (BasicAck 2 False)))
     ((newChannel 1)\<lparr>ch_confirms := Some [1, 2, 3], ch_acks := [7]\<rparr>) =
     Some ([NotifyTag 7 2], (newChannel 1)\<lparr>ch_confirms := Some [1, 3], ch_acks := [7]\<rparr>)"
  using confirm_semantics [of "(newChannel 1)\<lparr>ch_confirms := Some [1, 2, 3], ch_acks := [7]\<rparr>" "[1, 2, 3]" 2]
  by (simp add: newChannel_def)

text \<open>
  After a shutdown nothing is left running: the first one tells every close listener the
  error and then closes every listener once, also one that listens for both acks and
  nacks, closes all consumers and lets nothing but \<open>close-ok\<close> out any more; later ones do
  nothing.
\<close>

theorem shutdown_once:
  assumes "channel_inv ch" and "\<not> ch_down ch"
    and "distinct (ch_closes ch @ ch_flows ch @ ch_returns ch @ ch_cancels ch)"
    and "set (ch_closes ch @ ch_flows ch @ ch_returns ch @ ch_cancels ch) \<inter> set (ch_acks ch @ ch_nacks ch) = {}"
  shows "\<exists>ls ch'. shutdown (Some e) ch =
       Some (map (\<lambda>c. NotifyClose c e) (ch_closes ch) @ PutError e # map CloseListener ls @ [RemoveChannel (ch_id ch)], ch') \<and>
     distinct ls \<and>
     set ls = set (ch_closes ch @ ch_flows ch @ ch_returns ch @ ch_cancels ch @ ch_acks ch @ ch_nacks ch) \<and>
     inbox (ch_consumers ch') = (\<lambda>_. None) \<and>
     (\<forall>m. m \<noteq> MChannel ChannelCloseOk \<longrightarrow> channel_send send frameSize ch' m c = Some (SendClosed, c)) \<and>
     (\<forall>e'. shutdown e' ch' = Some ([], ch'))"
proof -
  obtain t where t: "consumers_closeAll (ch_consumers ch) = Some t" "inbox t = (\<lambda>_. None)"
    using consumers_closeAll_ok assms(1) by (auto simp: channel_inv_def)
  let ?ch = "ch\<lparr>ch_down := True, ch_open := False, ch_consumers := t, ch_noNotify := True\<rparr>"
  let ?ls = "ch_closes ch @ ch_flows ch @ ch_returns ch @ ch_cancels ch @ close_seen [] (ch_acks ch @ ch_nacks ch)"
  have "shutdown (Some e) ch =
      Some (map (\<lambda>c. NotifyClose c e) (ch_closes ch) @ PutError e # map CloseListener ?ls @ [RemoveChannel (ch_id ch)], ?ch)"
    using assms(2,3) t(1) by (simp add: shutdown_def)
  moreover have "distinct ?ls"
    using assms(3,4) by (auto simp: distinct_close_seen set_close_seen)
  moreover have "set ?ls = set (ch_closes ch @ ch_flows ch @ ch_returns ch @ ch_cancels ch @ ch_acks ch @ ch_nacks ch)"
    by (auto simp: set_close_seen)
  moreover have "channel_send send frameSize ?ch m c = Some (SendClosed, c)" if "m \<noteq> MChannel ChannelCloseOk" for m
    using that by (simp add: channel_send_def sendClosed_def)
  moreover have "shutdown e' ?ch = Some ([], ?ch)" for e' by (simp add: shutdown_def)
  ultimately show ?thesis using t(2) by (intro exI [of _ ?ls] exI [of _ ?ch]) simp
qed

theorem shutdown_once_witness:
  "\<exists>ls ch'. shutdown (Some (newError 320 [])) ((newChannel 1)\<lparr>ch_closes := [1], ch_acks := [2], ch_nacks := [2]\<rparr>) =
     Some ([NotifyClose 1 (newError 320 [])] @ PutError (newError 320 []) # map CloseListener ls @ [RemoveChannel 1], ch') \<and>
     distinct ls \<and> set ls = {1, 2}"
proof -
  let ?ch = "(newChannel 1)\<lparr>ch_closes := [1], ch_acks := [2], ch_nacks := [2]\<rparr>"
  have "channel_inv ?ch" using newChannel_inv [of 1] by (simp add: channel_inv_def)
  from shutdown_once [OF this, of "newError 320 []" wire_send 4096 "[]"] show ?thesis
    by (auto simp: newChannel_def)
qed

fun is_deliver :: "message \<Rightarrow> bool" where
  "is_deliver (MBasic (BasicDeliver _ _ _ _ _ _ _)) = True"
| "is_deliver _ = False"

text \<open>What a delivery does to the inboxes: it goes to its tag.\<close>

fun delivery_op :: "message \<Rightarrow> consumers_op" where
  "delivery_op (MBasic (BasicDeliver tag dtag red ex key p b)) =
     SendTo tag \<lparr>dl_properties = p\<lparr>reserved1 := []\<rparr>, dl_ConsumerTag = tag, dl_MessageCount = 0,
                 dl_DeliveryTag = dtag, dl_Redelivered = red, dl_Exchange = ex, dl_RoutingKey = key, dl_Body = b\<rparr>"
| "delivery_op m = CloseAll"

lemma dispatch_is_deliver:
  assumes "consumers_inv (ch_consumers ch)" and "is_deliver m"
  shows "\<exists>t. dispatch (Some m) ch = Some ([], ch\<lparr>ch_consumers := t\<rparr>) \<and> consumers_inv t \<and>
     inbox t = inbox_do (delivery_op m) (inbox (ch_consumers ch))"
proof -
  from assms(2) obtain tag dtag red ex key p b where m: "m = MBasic (BasicDeliver tag dtag red ex key p b)"
    by (cases m rule: is_deliver.cases) auto
  show ?thesis unfolding m
    using dispatch_deliver [OF assms(1), of tag dtag red ex key p b]
    by (simp add: newDelivery_def Let_def)
qed

lemma dispatch_deliveries:
  "consumers_inv (ch_consumers ch) \<Longrightarrow> \<forall>m\<in>set ms. is_deliver m \<Longrightarrow>
   \<exists>t. dispatch_all (map Some ms) ch = Some ([], ch\<lparr>ch_consumers := t\<rparr>) \<and>
     inbox t = fold inbox_do (map delivery_op ms) (inbox (ch_consumers ch))"
proof (induction ms arbitrary: ch)
  case Nil
  then show ?case by (auto intro!: exI [of _ "ch_consumers ch"])
next
  case (Cons m ms)
  from dispatch_is_deliver [of ch m] Cons.prems obtain t where t: "dispatch (Some m) ch = Some ([], ch\<lparr>ch_consumers := t\<rparr>)"
    "consumers_inv t" "inbox t = inbox_do (delivery_op m) (inbox (ch_consumers ch))" by auto
  with Cons.IH [of "ch\<lparr>ch_consumers := t\<rparr>"] Cons.prems(2) show ?case by auto
qed

lemma recv_content_stream:
  "0 < n \<Longrightarrow> \<forall>m\<in>set ms. content_ok m \<Longrightarrow>
   \<exists>a'. recv_frames (map frame_view (concat (map (content_frames ch n) ms))) a = Some (a', map Some ms)"
proof (induction ms arbitrary: a)
  case (Cons m ms)
  have "\<exists>a1. recv_frames (map frame_view (content_frames ch n m)) a = Some (a1, [Some m]) \<and> recv a1 = RecvMethod"
    using Cons.prems by (intro recv_content_frames) (auto simp: content_ok_def)
  then obtain a1 where a1: "recv_frames (map frame_view (content_frames ch n m)) a = Some (a1, [Some m])" by blast
  with Cons.IH [of a1] Cons.prems show ?case by (auto simp: recv_frames_append)
qed simp

text \<open>
  Deliveries from the wire to the consumers. A broker that writes any number of
  deliveries with any contents, cut into frames of any size, is heard on a channel in any
  state of its invariant: from the bytes each delivery reaches the inbox of its tag once, in
  order, with its properties and its body, or is dropped when there is no such consumer;
  nothing else happens.
\<close>

theorem deliveries_reach_consumers:
  assumes "channel_inv ch" and "\<forall>m\<in>set ms. is_deliver m \<and> content_ok m"
    and "0 < n" and "n < 2 ^ 32"
  shows "\<exists>bs fs ch'.
     wseq (map write_frame (concat (map (content_frames (ch_id ch) n) ms))) = Inr bs \<and>
     read_n ReadFrame (length fs) bs = (Inr fs, []) \<and>
     channel_recvs fs ch = Some ([], ch') \<and>
     inbox (ch_consumers ch') = fold inbox_do (map delivery_op ms) (inbox (ch_consumers ch))"
proof -
  let ?fs = "concat (map (content_frames (ch_id ch) n) ms)"
  have "\<forall>f\<in>set ?fs. frame_ok f"
    using assms(2) content_frames_ok [OF _ assms(4)] by fastforce
  from frame_codec.decode_stream [OF this] obtain bs where bs: "wseq (map write_frame ?fs) = Inr bs"
    and read: "\<And>rest. read_n ReadFrame (length ?fs) (bs @ rest) = (Inr (map frame_view ?fs), rest)" by blast
  from recv_content_stream [OF assms(3), of ms "ch_id ch" "ch_assembly ch"] assms(2)
  obtain a' where a': "recv_frames (map frame_view ?fs) (ch_assembly ch) = Some (a', map Some ms)" by blast
  from dispatch_deliveries [of ch ms] assms(1,2)
  obtain t where t: "dispatch_all (map Some ms) ch = Some ([], ch\<lparr>ch_consumers := t\<rparr>)"
    "inbox t = fold inbox_do (map delivery_op ms) (inbox (ch_consumers ch))"
    by (auto simp: channel_inv_def)
  have "channel_recvs (map frame_view ?fs) ch = Some ([], ch\<lparr>ch_consumers := t, ch_assembly := a'\<rparr>)"
    by (simp add: channel_recvs_dispatch a' t(1))
  moreover have "read_n ReadFrame (length (map frame_view ?fs)) bs = (Inr (map frame_view ?fs), [])"
    using read [of "[]"] by simp
  ultimately show ?thesis
    using bs t(2)
    by (intro exI [of _ bs] exI [of _ "map frame_view ?fs"] exI [of _ "ch\<lparr>ch_consumers := t, ch_assembly := a'\<rparr>"]) simp
qed

abbreviation demo_deliver :: message where
  "demo_deliver \<equiv> MBasic (BasicDeliver [116] 9 False [120] [107] no_properties [1, 2, 3])"

lemma demo_deliver_ok: "content_ok demo_deliver"
proof -
  have "fits_in (write_method_payload demo_deliver) (2 ^ 32)"
    by (simp add: fits_in_def write_method_payload_def write_basicDeliver_def wthen_def write_word_def
        write_u8_def write_u16_def write_u64_def writeShortstr_def del: be.simps)
  moreover have "properties_ok no_properties"
    by (simp add: no_properties_def properties_ok_def table_ok_def zeroTime_def in_int64_def fits_in_def)
  moreover have "fits_in (write_header (fst (message_id demo_deliver)) 0 (of_nat (length [1, 2, 3 :: byte]))
      no_properties) (2 ^ 32)"
    by (simp add: fits_in_def write_header_def write_properties_def property_mask_def no_properties_def
        hasProperty_def write_if_def wthen_def write_word_def write_u8_def write_u16_def write_u64_def
        del: be.simps)
  ultimately show ?thesis by (simp add: content_ok_def)
qed

theorem deliveries_reach_consumers_witness:
  "\<exists>bs fs ch' d.
     wseq (map write_frame (content_frames 1 2 demo_deliver)) = Inr bs \<and>
     read_n ReadFrame (length fs) bs = (Inr fs, []) \<and>
     channel_recvs fs ((newChannel 1)\<lparr>ch_consumers := the (consumers_add [116] makeConsumers)\<rparr>) = Some ([], ch') \<and>
     inbox (ch_consumers ch') [116] = Some [d] \<and> dl_Body d = [1, 2, 3]"
proof -
  let ?ch = "(newChannel 1)\<lparr>ch_consumers := the (consumers_add [116] makeConsumers)\<rparr>"
  have t: "the (consumers_add [116] makeConsumers) =
      \<lparr>ct_chans = [([116], 0)], ct_next = 1, ct_closed = {}, ct_sent = []\<rparr>"
    by (simp add: consumers_add_def makeConsumers_def)
  have "channel_inv ?ch"
    using newChannel_inv [of 1] by (simp add: channel_inv_def t consumers_inv_def)
  moreover have "inbox (ch_consumers ?ch) [116] = Some []" by (simp add: t inbox_def)
  ultimately show ?thesis
    using deliveries_reach_consumers [of ?ch "[demo_deliver]" 2] demo_deliver_ok
    by (fastforce simp: newChannel_def)
qed

datatype confirm_event = Published | Acked "64 word" bool | Nacked "64 word" bool

fun confirm_step :: "confirm_event \<Rightarrow> channel \<Rightarrow> channel_result" where
  "confirm_step Published ch = Some ([], publish_counted ch)"
| "confirm_step (Acked tag multiple) ch = dispatch (Some (MBasic (BasicAck tag multiple))) ch"
| "confirm_step (Nacked tag multiple) ch = dispatch (Some (MBasic (BasicNack tag multiple False))) ch"

inductive confirm_run :: "channel \<Rightarrow> confirm_event list \<Rightarrow> effect list \<Rightarrow> channel \<Rightarrow> bool" for ch0 where
  confirm_start: "confirm_run ch0 [] [] (confirm_mode ch0)"
| confirm_next: "confirm_run ch0 evs es ch \<Longrightarrow> confirm_step ev ch = Some (es', ch') \<Longrightarrow>
     confirm_run ch0 (evs @ [ev]) (es @ es') ch'"

fun tag_notes :: "effect list \<Rightarrow> 64 word list" where
  "tag_notes [] = []"
| "tag_notes (NotifyTag _ t # es) = t # tag_notes es"
| "tag_notes (_ # es) = tag_notes es"

lemma tag_notes_append [simp]: "tag_notes (es @ fs) = tag_notes es @ tag_notes fs"
  by (induction es rule: tag_notes.induct) simp_all

lemma tag_notes_one: "tag_notes (concat (map (\<lambda>t. map (\<lambda>c. NotifyTag c t) [l]) ts)) = ts"
  by (induction ts) simp_all

definition published_count :: "confirm_event list \<Rightarrow> nat" where
  "published_count evs = length (filter ((=) Published) evs)"

definition confirm_inv :: "nat \<Rightarrow> nat \<Rightarrow> nat \<Rightarrow> 64 word list \<Rightarrow> channel \<Rightarrow> bool" where
  "confirm_inv a b n ns ch \<longleftrightarrow>
     ch_acks ch = [a] \<and> ch_nacks ch = [b] \<and> ch_publishCounter ch = of_nat n \<and>
     (\<exists>h. ch_confirms ch = Some h \<and> sorted h \<and> distinct h \<and>
        mset ns + mset h = mset (map of_nat [1..<Suc n]))"

lemma confirm_step_tags:
  assumes "confirm_inv a b n ns ch" and "l = a \<or> l = b"
    and "confirm_tags (if multiple then confimMultiple else confimOne) tag [l] ch = Some (es, ch')"
  shows "confirm_inv a b n (ns @ tag_notes es) ch'"
proof -
  from assms(1) obtain h where h: "ch_confirms ch = Some h" "sorted h" "distinct h"
    "mset ns + mset h = mset (map of_nat [1..<Suc n])" by (auto simp: confirm_inv_def)
  from h(1) assms(3) obtain ts h' where f: "(if multiple then confimMultiple else confimOne) tag h = Some (ts, h')"
    and es: "es = concat (map (\<lambda>t. map (\<lambda>c. NotifyTag c t) [l]) ts)" and ch': "ch' = ch\<lparr>ch_confirms := Some h'\<rparr>"
    by (auto simp: confirm_tags_def split: option.splits if_splits)
  have "tag_notes es = ts" unfolding es by (rule tag_notes_one)
  then have "mset (ns @ tag_notes es) + mset h' = mset ns + mset h"
    using confirms_shrink(3) [OF h(2,3) f] by simp
  also note h(4)
  finally have "\<exists>h''. ch_confirms ch' = Some h'' \<and> sorted h'' \<and> distinct h'' \<and>
      mset (ns @ tag_notes es) + mset h'' = mset (map of_nat [1..<Suc n])"
    using confirms_shrink(1,2) [OF h(2,3) f] ch' by (intro exI [of _ h']) simp
  moreover have "ch_acks ch' = [a] \<and> ch_nacks ch' = [b] \<and> ch_publishCounter ch' = of_nat n"
    using assms(1) ch' by (simp add: confirm_inv_def)
  ultimately show ?thesis unfolding confirm_inv_def by blast
qed

lemma confirm_step_published:
  assumes "confirm_inv a b n ns ch" and "Suc n < 2 ^ 64"
  shows "confirm_inv a b (Suc n) ns (publish_counted ch)"
proof -
  from assms(1) obtain h where h: "ch_confirms ch = Some h" "sorted h" "distinct h"
    "mset ns + mset h = mset (map of_nat [1..<Suc n])" and c: "ch_publishCounter ch = of_nat n"
    by (auto simp: confirm_inv_def)
  let ?n = "of_nat (Suc n) :: 64 word"
  have "x \<noteq> ?n" if "x \<in> set h" for x
  proof -
    have "x \<in># mset ns + mset h" using that by simp
    then obtain k where k: "x = of_nat k" "k \<le> n" unfolding h(4) by (auto simp: less_Suc_eq_le)
    have "unat x = k" using k assms(2) by (simp add: unat_of_nat)
    moreover have "unat ?n = Suc n" using assms(2) by (subst unat_of_nat) simp
    ultimately show ?thesis using k(2) by auto
  qed
  then have "?n \<notin> set h" by blast
  then have "distinct (heap_Push ?n h)" using h(3) by (simp add: heap_Push_def distinct_insort)
  moreover have "mset ns + mset (heap_Push ?n h) = mset (map of_nat [1..<Suc (Suc n)])"
    using h(4) by (simp add: heap_Push_def)
  ultimately show ?thesis
    using assms(1) h c tags.push_ok [OF h(2), of ?n]
    by (auto simp: confirm_inv_def publish_counted_def Let_def add.commute)
qed

lemma confirm_run_inv:
  assumes "ch_acks ch0 = [a]" and "ch_nacks ch0 = [b]" and "ch_publishCounter ch0 = 0"
  shows "confirm_run ch0 evs es ch \<Longrightarrow> published_count evs < 2 ^ 64 \<Longrightarrow>
     confirm_inv a b (published_count evs) (tag_notes es) ch"
proof (induction rule: confirm_run.induct)
  case confirm_start
  with assms show ?case by (simp add: confirm_inv_def confirm_mode_def published_count_def)
next
  case (confirm_next evs es ch ev es' ch')
  have "published_count evs < 2 ^ 64"
    using confirm_next.prems by (simp add: published_count_def)
  note IH = confirm_next.IH [OF this]
  then have listeners: "ch_acks ch = [a]" "ch_nacks ch = [b]" by (simp_all add: confirm_inv_def)
  show ?case
  proof (cases ev)
    case Published
    with confirm_next IH show ?thesis
      using confirm_step_published [OF IH] by (auto simp: published_count_def)
  next
    case (Acked tag multiple)
    with confirm_next.hyps(2) have "confirm_tags (if multiple then confimMultiple else confimOne) tag [a] ch = Some (es', ch')"
      by (simp add: dispatch_def listeners)
    from confirm_step_tags [OF IH _ this] Acked show ?thesis by (simp add: published_count_def)
  next
    case (Nacked tag multiple)
    with confirm_next.hyps(2) have "confirm_tags (if multiple then confimMultiple else confimOne) tag [b] ch = Some (es', ch')"
      by (simp add: dispatch_def listeners)
    from confirm_step_tags [OF IH _ this] Nacked show ?thesis by (simp add: published_count_def)
  qed
qed

text \<open>
  C19: every publishing is confirmed at most once. In the confirm mode of a new channel with a listener for
  acks and one for nacks, whatever the order of publishings, acks and nacks, single or
  multiple, the tags passed on and the tags still waiting are together the numbers from one to the number
  of publishings, each once; this holds for fewer than \<open>2 ^ 64\<close> publishings.
\<close>

theorem confirmed_at_most_once:
  assumes "confirm_run ch0 evs es ch" and "published_count evs < 2 ^ 64"
    and "ch_acks ch0 = [a]" and "ch_nacks ch0 = [b]" and "ch_publishCounter ch0 = 0"
  shows "mset (tag_notes es) + mset (waiting_tags ch) = mset (map of_nat [1..<Suc (published_count evs)]) \<and>
     distinct (tag_notes es @ waiting_tags ch)"
proof -
  let ?n = "published_count evs"
  from confirm_run_inv [OF assms(3-5,1,2)]
  obtain h where h: "ch_confirms ch = Some h" "mset (tag_notes es) + mset h = mset (map of_nat [1..<Suc ?n])"
    unfolding confirm_inv_def by blast
  then have all: "mset (tag_notes es @ waiting_tags ch) = mset (map of_nat [1..<Suc ?n])"
    by (simp only: waiting_tags_def option.case mset_append)
  have "inj_on (of_nat :: nat \<Rightarrow> 64 word) {0..?n}"
  proof (rule inj_onI)
    fix x y assume xy: "x \<in> {0..?n}" "y \<in> {0..?n}" "(of_nat x :: 64 word) = of_nat y"
    have "unat (of_nat x :: 64 word) = x" "unat (of_nat y :: 64 word) = y"
      using xy(1,2) assms(2) by (simp_all add: unat_of_nat)
    with xy(3) show "x = y" by metis
  qed
  then have "inj_on (of_nat :: nat \<Rightarrow> 64 word) (set [1..<Suc ?n])"
    by (rule inj_on_subset) auto
  then have "distinct (map (of_nat :: nat \<Rightarrow> 64 word) [1..<Suc ?n])"
    by (simp only: distinct_map distinct_upt simp_thms)
  with all have "distinct (tag_notes es @ waiting_tags ch)" by (metis mset_eq_imp_distinct_iff)
  with all show ?thesis by (simp only: mset_append simp_thms)
qed

theorem confirmed_at_most_once_witness:
  "\<exists>es ch. confirm_run ((newChannel 1)\<lparr>ch_acks := [7], ch_nacks := [8]\<rparr>) [Published, Published, Nacked 2 False] es ch \<and>
     tag_notes es = [2] \<and> distinct (tag_notes es @ waiting_tags ch)"
proof -
  let ?ch = "(newChannel 1)\<lparr>ch_acks := [7], ch_nacks := [8]\<rparr>"
  let ?ch1 = "publish_counted (confirm_mode ?ch)" and ?ch2 = "publish_counted (publish_counted (confirm_mode ?ch))"
  have c: "ch_confirms ?ch2 = Some [1, 2]"
    by (simp add: publish_counted_def confirm_mode_def newChannel_def heap_Push_def Let_def word_le_nat_alt)
  have "confirm_step (Nacked 2 False) ?ch2 = Some ([NotifyTag 8 2], ?ch2\<lparr>ch_confirms := Some [1]\<rparr>)"
    by (simp add: dispatch_def confirm_tags_def c confimOne_eq)
       (simp add: publish_counted_def confirm_mode_def newChannel_def Let_def)
  moreover have "confirm_run ?ch ([] @ [Published]) ([] @ []) ?ch1"
    by (rule confirm_next [OF confirm_start]) simp
  then have "confirm_run ?ch (([] @ [Published]) @ [Published]) (([] @ []) @ []) ?ch2"
    by (rule confirm_next) simp
  ultimately have run: "confirm_run ?ch [Published, Published, Nacked 2 False] [NotifyTag 8 2] (?ch2\<lparr>ch_confirms := Some [1]\<rparr>)"
    using confirm_next [of ?ch "[Published, Published]" "[]" ?ch2 "Nacked 2 False"] by simp
  from confirmed_at_most_once [OF this, of 7 8] have "distinct (tag_notes [NotifyTag 8 2] @ waiting_tags (?ch2\<lparr>ch_confirms := Some [1]\<rparr>))"
    by (simp add: published_count_def newChannel_def)
  with run show ?thesis by (intro exI conjI) (assumption, simp_all)
qed

end
