(* ===== verification/Amqp_Api.thy ===== *)
theory Amqp_Api
  imports Amqp_Dispatch
begin

text \<open>
  The calls of a channel (\<open>channel.go\<close>): the check of the tables a user passes in, the
  request and its reply, and the operations of the protocol on top of them, each with
  the request it sends, the replies it accepts and what it makes of them.
\<close>


section \<open>Validation of tables\<close>

text \<open>\<open>validateField\<close> holds when the function returns no error; the text of the error is not modelled.\<close>

fun validateField :: "field \<Rightarrow> bool"
  and validateFields :: "field list \<Rightarrow> bool"
  and validateEntries :: "table \<Rightarrow> bool" where
  "validateField (FdArray fv) = validateFields fv"
| "validateField (FdTable fv) = validateEntries fv"
| "validateField FdUnsupported = False"
| "validateField _ = True"
| "validateFields [] = True"
| "validateFields (v # vs) = (validateField v \<and> validateFields vs)"
| "validateEntries [] = True"
| "validateEntries ((k, v) # es) = (validateField v \<and> validateEntries es)"

definition Validate :: "table \<Rightarrow> bool" where
  "Validate t = validateField (FdTable t)"

definition encodable :: "wr \<Rightarrow> bool" where
  "encodable w \<longleftrightarrow> (\<exists>bs. w = Inr bs)"

lemma encodable_wthen [simp]: "encodable (wthen a b) \<longleftrightarrow> encodable a \<and> encodable b"
  by (auto simp: encodable_def wthen_def split: sum.splits)

lemma encodable_wseq [simp]: "encodable (wseq ws) \<longleftrightarrow> (\<forall>w\<in>set ws. encodable w)"
  by (induction ws) (auto simp: encodable_def [of "Inr []"])

lemma encodable_Inr [simp]: "encodable (Inr bs)"
  by (simp add: encodable_def)

lemma encodable_words [simp]:
  "encodable (write_u8 a)" "encodable (write_u16 b)" "encodable (write_u32 c)" "encodable (write_u64 d)"
  "encodable (put_len n)" "encodable (writeShortstr s)" "encodable (writeLongstr l)"
  by (simp_all add: write_u8_def write_u16_def write_u32_def write_u64_def write_word_def put_len_def
      writeShortstr_def writeLongstr_def Let_def)

lemma encodable_case [simp]:
  "encodable (case w of Inl e \<Rightarrow> Inl e | Inr bs \<Rightarrow> f bs) \<longleftrightarrow> (\<exists>bs. w = Inr bs \<and> encodable (f bs))"
  by (cases w) (auto simp: encodable_def)

lemma validate_encodable:
  "validateField f \<longleftrightarrow> encodable (writeField f)"
  "validateFields fs \<longleftrightarrow> encodable (writeFields fs)"
  "validateEntries es \<longleftrightarrow> encodable (writeEntries es)"
proof (induction f and fs and es rule: validateField_validateFields_validateEntries.induct)
  case (1 fv)
  then show ?case by (simp add: encodable_def [of "writeFields fv"])
next
  case (2 fv)
  then show ?case by (simp add: encodable_def [of "writeEntries fv"])
qed (simp_all add: encodable_def [of "Inl _"])

lemma Validate_encodable: "Validate t \<longleftrightarrow> encodable (writeTable t)"
  by (simp add: Validate_def validate_encodable(3) encodable_def [of "writeEntries t"] writeTable_def)

section \<open>Requests and replies\<close>

text \<open>
  The reply to a call is a parameter: what the \<open>select\<close> over \<open>errors\<close> and \<open>rpc\<close> receives. Two
  messages have the same Go type when they have the same numbers.
\<close>

datatype reply = OnErrors Error | OnRpc "message option"

datatype 'e call_error =
    UnsupportedField | SendError "'e send_result" | PeerError Error | ErrCommandInvalid | ErrClosed

type_synonym ('e, 'r, 'c) api = "(('e call_error + 'r) \<times> 'c) option"

definition channel_call ::
    "('e, 'c) conn \<Rightarrow> int \<Rightarrow> reply \<Rightarrow> message \<Rightarrow> (16 word \<times> 16 word) list \<Rightarrow> channel \<Rightarrow> 'c \<Rightarrow>
     ('e, message option, 'c) api" where
  "channel_call send fs rp req res ch c =
     (case channel_send send fs ch req c of
        None \<Rightarrow> None
      | Some (Sent, c) \<Rightarrow>
          Some (if message_wait req then
                  (case rp of
                     OnErrors e \<Rightarrow> Inl (PeerError e)
                   | OnRpc None \<Rightarrow> Inl ErrClosed
                   | OnRpc (Some msg) \<Rightarrow>
                       if message_id msg \<in> set res then Inr (Some msg) else Inl ErrCommandInvalid)
                else Inr None, c)
      | Some (r, c) \<Rightarrow> Some (Inl (SendError r), c))"

definition api_map :: "('r \<Rightarrow> 's) \<Rightarrow> ('e, 'r, 'c) api \<Rightarrow> ('e, 's, 'c) api" where
  "api_map f r = map_option (\<lambda>(x, c). (case x of Inl e \<Rightarrow> Inl e | Inr y \<Rightarrow> Inr (f y), c)) r"

text \<open>A call that has no result but its error, and one whose table is checked first.\<close>

definition call_unit ::
    "('e, 'c) conn \<Rightarrow> int \<Rightarrow> reply \<Rightarrow> message \<Rightarrow> 16 word \<times> 16 word \<Rightarrow> channel \<Rightarrow> 'c \<Rightarrow> ('e, unit, 'c) api" where
  "call_unit send fs rp req res ch c = api_map (\<lambda>_. ()) (channel_call send fs rp req [res] ch c)"

definition validated :: "table \<Rightarrow> 'c \<Rightarrow> ('e, 'r, 'c) api \<Rightarrow> ('e, 'r, 'c) api" where
  "validated args c r = (if Validate args then r else Some (Inl UnsupportedField, c))"

definition channel_open :: "('e, 'c) conn \<Rightarrow> int \<Rightarrow> reply \<Rightarrow> channel \<Rightarrow> 'c \<Rightarrow> ('e, unit, 'c) api" where
  "channel_open send fs rp = call_unit send fs rp (MChannel (ChannelOpen [])) (20, 11)"

definition replySuccess :: "16 word" where "replySuccess = 200"

text \<open>\<open>Close\<close> shuts the channel down after the call, whatever the call gave.\<close>

definition channel_Close ::
    "('e, 'c) conn \<Rightarrow> int \<Rightarrow> reply \<Rightarrow> channel \<Rightarrow> 'c \<Rightarrow>
     ((('e call_error + unit) \<times> 'c) \<times> effect list \<times> channel) option" where
  "channel_Close send fs rp ch c =
     (case call_unit send fs rp (MChannel (ChannelClose replySuccess [] 0 0)) (20, 41) ch c of
        None \<Rightarrow> None
      | Some r \<Rightarrow> map_option (Pair r) (shutdown None ch))"


section \<open>Queues and exchanges\<close>

definition Qos ::
    "('e, 'c) conn \<Rightarrow> int \<Rightarrow> reply \<Rightarrow> int \<Rightarrow> int \<Rightarrow> bool \<Rightarrow> channel \<Rightarrow> 'c \<Rightarrow> ('e, unit, 'c) api" where
  "Qos send fs rp prefetchCount prefetchSize global =
     call_unit send fs rp (MBasic (BasicQos (of_int prefetchSize) (of_int prefetchCount) global)) (60, 11)"

record Queue =
  q_Name :: bytes
  q_Messages :: int
  q_Consumers :: int

fun declared_queue :: "bytes \<Rightarrow> message option \<Rightarrow> Queue" where
  "declared_queue name (Some (MQueue (QueueDeclareOk queue messageCount consumerCount))) =
     \<lparr>q_Name = queue, q_Messages = uint messageCount, q_Consumers = uint consumerCount\<rparr>"
| "declared_queue name _ = \<lparr>q_Name = name, q_Messages = 0, q_Consumers = 0\<rparr>"

definition queue_declare ::
    "bool \<Rightarrow> ('e, 'c) conn \<Rightarrow> int \<Rightarrow> reply \<Rightarrow> bytes \<Rightarrow> bool \<Rightarrow> bool \<Rightarrow> bool \<Rightarrow> bool \<Rightarrow> table \<Rightarrow>
     channel \<Rightarrow> 'c \<Rightarrow> ('e, Queue, 'c) api" where
  "queue_declare passive send fs rp name durable autoDelete exclusive noWait args ch c =
     validated args c (api_map (declared_queue name) (channel_call send fs rp
       (MQueue (QueueDeclare 0 name passive durable exclusive autoDelete noWait args)) [(50, 11)] ch c))"

definition Channel_QueueDeclare ::
    "('e, 'c) conn \<Rightarrow> int \<Rightarrow> reply \<Rightarrow> bytes \<Rightarrow> bool \<Rightarrow> bool \<Rightarrow> bool \<Rightarrow> bool \<Rightarrow> table \<Rightarrow>
     channel \<Rightarrow> 'c \<Rightarrow> ('e, Queue, 'c) api" where
  "Channel_QueueDeclare = queue_declare False"

definition Channel_QueueDeclarePassive ::
    "('e, 'c) conn \<Rightarrow> int \<Rightarrow> reply \<Rightarrow> bytes \<Rightarrow> bool \<Rightarrow> bool \<Rightarrow> bool \<Rightarrow> bool \<Rightarrow> table \<Rightarrow>
     channel \<Rightarrow> 'c \<Rightarrow> ('e, Queue, 'c) api" where
  "Channel_QueueDeclarePassive = queue_declare True"

text \<open>\<open>QueueInspect\<close> returns its queue also beside an error; here only without one.\<close>

definition QueueInspect ::
    "('e, 'c) conn \<Rightarrow> int \<Rightarrow> reply \<Rightarrow> bytes \<Rightarrow> channel \<Rightarrow> 'c \<Rightarrow> ('e, Queue, 'c) api" where
  "QueueInspect send fs rp name ch c =
     api_map (\<lambda>res. (declared_queue name res)\<lparr>q_Name := name\<rparr>) (channel_call send fs rp
       (MQueue (QueueDeclare 0 name True False False False False [])) [(50, 11)] ch c)"

definition Channel_QueueBind ::
    "('e, 'c) conn \<Rightarrow> int \<Rightarrow> reply \<Rightarrow> bytes \<Rightarrow> bytes \<Rightarrow> bytes \<Rightarrow> bool \<Rightarrow> table \<Rightarrow> channel \<Rightarrow> 'c \<Rightarrow> ('e, unit, 'c) api" where
  "Channel_QueueBind send fs rp name key ex noWait args ch c =
     validated args c (call_unit send fs rp (MQueue (QueueBind 0 name ex key noWait args)) (50, 21) ch c)"

definition Channel_QueueUnbind ::
    "('e, 'c) conn \<Rightarrow> int \<Rightarrow> reply \<Rightarrow> bytes \<Rightarrow> bytes \<Rightarrow> bytes \<Rightarrow> table \<Rightarrow> channel \<Rightarrow> 'c \<Rightarrow> ('e, unit, 'c) api" where
  "Channel_QueueUnbind send fs rp name key ex args ch c =
     validated args c (call_unit send fs rp (MQueue (QueueUnbind 0 name ex key args)) (50, 51) ch c)"

fun purged_count :: "message option \<Rightarrow> int" where
  "purged_count (Some (MQueue (QueuePurgeOk n))) = uint n"
| "purged_count (Some (MQueue (QueueDeleteOk n))) = uint n"
| "purged_count _ = 0"

definition Channel_QueuePurge ::
    "('e, 'c) conn \<Rightarrow> int \<Rightarrow> reply \<Rightarrow> bytes \<Rightarrow> bool \<Rightarrow> channel \<Rightarrow> 'c \<Rightarrow> ('e, int, 'c) api" where
  "Channel_QueuePurge send fs rp name noWait ch c =
     api_map purged_count (channel_call send fs rp (MQueue (QueuePurge 0 name noWait)) [(50, 31)] ch c)"

definition Channel_QueueDelete ::
    "('e, 'c) conn \<Rightarrow> int \<Rightarrow> reply \<Rightarrow> bytes \<Rightarrow> bool \<Rightarrow> bool \<Rightarrow> bool \<Rightarrow> channel \<Rightarrow> 'c \<Rightarrow> ('e, int, 'c) api" where
  "Channel_QueueDelete send fs rp name ifUnused ifEmpty noWait ch c =
     api_map purged_count
       (channel_call send fs rp (MQueue (QueueDelete 0 name ifUnused ifEmpty noWait)) [(50, 41)] ch c)"

definition exchange_declare ::
    "bool \<Rightarrow> ('e, 'c) conn \<Rightarrow> int \<Rightarrow> reply \<Rightarrow> bytes \<Rightarrow> bytes \<Rightarrow> bool \<Rightarrow> bool \<Rightarrow> bool \<Rightarrow> bool \<Rightarrow> table \<Rightarrow>
     channel \<Rightarrow> 'c \<Rightarrow> ('e, unit, 'c) api" where
  "exchange_declare passive send fs rp name kind durable autoDelete internal noWait args ch c =
     validated args c (call_unit send fs rp
       (MExchange (ExchangeDeclare 0 name kind passive durable autoDelete internal noWait args)) (40, 11) ch c)"

definition Channel_ExchangeDeclare ::
    "('e, 'c) conn \<Rightarrow> int \<Rightarrow> reply \<Rightarrow> bytes \<Rightarrow> bytes \<Rightarrow> bool \<Rightarrow> bool \<Rightarrow> bool \<Rightarrow> bool \<Rightarrow> table \<Rightarrow>
     channel \<Rightarrow> 'c \<Rightarrow> ('e, unit, 'c) api" where
  "Channel_ExchangeDeclare = exchange_declare False"

definition Channel_ExchangeDeclarePassive ::
    "('e, 'c) conn \<Rightarrow> int \<Rightarrow> reply \<Rightarrow> bytes \<Rightarrow> bytes \<Rightarrow> bool \<Rightarrow> bool \<Rightarrow> bool \<Rightarrow> bool \<Rightarrow> table \<Rightarrow>
     channel \<Rightarrow> 'c \<Rightarrow> ('e, unit, 'c) api" where
  "Channel_ExchangeDeclarePassive = exchange_declare True"

definition Channel_ExchangeDelete ::
    "('e, 'c) conn \<Rightarrow> int \<Rightarrow> reply \<Rightarrow> bytes \<Rightarrow> bool \<Rightarrow> bool \<Rightarrow> channel \<Rightarrow> 'c \<Rightarrow> ('e, unit, 'c) api" where
  "Channel_ExchangeDelete send fs rp name ifUnused noWait =
     call_unit send fs rp (MExchange (ExchangeDelete 0 name ifUnused noWait)) (40, 21)"

definition Channel_ExchangeBind ::
    "('e, 'c) conn \<Rightarrow> int \<Rightarrow> reply \<Rightarrow> bytes \<Rightarrow> bytes \<Rightarrow> bytes \<Rightarrow> bool \<Rightarrow> table \<Rightarrow> channel \<Rightarrow> 'c \<Rightarrow> ('e, unit, 'c) api" where
  "Channel_ExchangeBind send fs rp dest key source noWait args ch c =
     validated args c (call_unit send fs rp (MExchange (ExchangeBind 0 dest source key noWait args)) (40, 31) ch c)"

definition Channel_ExchangeUnbind ::
    "('e, 'c) conn \<Rightarrow> int \<Rightarrow> reply \<Rightarrow> bytes \<Rightarrow> bytes \<Rightarrow> bytes \<Rightarrow> bool \<Rightarrow> table \<Rightarrow> channel \<Rightarrow> 'c \<Rightarrow> ('e, unit, 'c) api" where
  "Channel_ExchangeUnbind send fs rp dest key source noWait args ch c =
     validated args c (call_unit send fs rp (MExchange (ExchangeUnbind 0 dest source key noWait args)) (40, 51) ch c)"

section \<open>Publishing, consuming and the rest\<close>

text \<open>
  A \<open>Publishing\<close> has the fields of \<open>properties\<close> but \<open>reserved1\<close>, and a body. \<open>Publish\<close> counts the
  publishing only after it was sent without an error.
\<close>

type_synonym Publishing = "properties \<times> bytes"

definition Publish ::
    "('e, 'c) conn \<Rightarrow> int \<Rightarrow> bytes \<Rightarrow> bytes \<Rightarrow> bool \<Rightarrow> bool \<Rightarrow> Publishing \<Rightarrow> channel \<Rightarrow> 'c \<Rightarrow>
     (('e call_error option \<times> channel) \<times> 'c) option" where
  "Publish send fs ex key mandatory immediate msg ch c =
     (if \<not> Validate (Headers (fst msg)) then Some ((Some UnsupportedField, ch), c)
      else
        (case channel_send send fs ch
            (MBasic (BasicPublish 0 ex key mandatory immediate ((fst msg)\<lparr>reserved1 := []\<rparr>) (snd msg))) c of
           None \<Rightarrow> None
         | Some (Sent, c) \<Rightarrow> Some ((None, publish_counted ch), c)
         | Some (r, c) \<Rightarrow> Some ((Some (SendError r), ch), c)))"

text \<open>
  \<open>Consume\<close> adds the consumer before it asks, as deliveries may come before the answer, and takes it out again
  after an error. \<open>fresh\<close> is the result of \<open>uniqueConsumerTag\<close>.
\<close>

definition Channel_Consume ::
    "('e, 'c) conn \<Rightarrow> int \<Rightarrow> reply \<Rightarrow> bytes \<Rightarrow> bytes \<Rightarrow> bytes \<Rightarrow> bool \<Rightarrow> bool \<Rightarrow> bool \<Rightarrow> bool \<Rightarrow> table \<Rightarrow>
     channel \<Rightarrow> 'c \<Rightarrow> ((('e call_error option) \<times> channel) \<times> 'c) option" where
  "Channel_Consume send fs rp fresh queue consumer autoAck exclusive noLocal noWait args ch c =
     (if \<not> Validate args then Some ((Some UnsupportedField, ch), c)
      else
        let consumer = (if consumer = [] then fresh else consumer)
        in case consumers_add consumer (ch_consumers ch) of
             None \<Rightarrow> None
           | Some t \<Rightarrow>
               (case channel_call send fs rp
                   (MBasic (BasicConsume 0 queue consumer noLocal autoAck exclusive noWait args)) [(60, 21)]
                   (ch\<lparr>ch_consumers := t\<rparr>) c of
                  None \<Rightarrow> None
                | Some (Inr _, c) \<Rightarrow> Some ((None, ch\<lparr>ch_consumers := t\<rparr>), c)
                | Some (Inl e, c) \<Rightarrow>
                    (case consumers_close consumer t of
                       None \<Rightarrow> None
                     | Some (_, t) \<Rightarrow> Some ((Some e, ch\<lparr>ch_consumers := t\<rparr>), c))))"

fun cancelled_tag :: "bytes \<Rightarrow> message option \<Rightarrow> bytes" where
  "cancelled_tag consumer (Some (MBasic (BasicCancelOk tag))) = tag"
| "cancelled_tag consumer _ = consumer"

definition Channel_Cancel ::
    "('e, 'c) conn \<Rightarrow> int \<Rightarrow> reply \<Rightarrow> bytes \<Rightarrow> bool \<Rightarrow> channel \<Rightarrow> 'c \<Rightarrow>
     (('e call_error option \<times> channel) \<times> 'c) option" where
  "Channel_Cancel send fs rp consumer noWait ch c =
     (case channel_call send fs rp (MBasic (BasicCancel consumer noWait)) [(60, 31)] ch c of
        None \<Rightarrow> None
      | Some (Inl e, c) \<Rightarrow> Some ((Some e, ch), c)
      | Some (Inr res, c) \<Rightarrow>
          map_option (\<lambda>(_, t). ((None, ch\<lparr>ch_consumers := t\<rparr>), c))
            (consumers_close (cancelled_tag consumer res) (ch_consumers ch)))"

fun got_delivery :: "message option \<Rightarrow> Delivery option" where
  "got_delivery (Some (MBasic (BasicGetOk tag red ex key n p b))) =
     (if tag > 0 then newDelivery (MBasic (BasicGetOk tag red ex key n p b)) else None)"
| "got_delivery _ = None"

definition Channel_Get ::
    "('e, 'c) conn \<Rightarrow> int \<Rightarrow> reply \<Rightarrow> bytes \<Rightarrow> bool \<Rightarrow> channel \<Rightarrow> 'c \<Rightarrow> ('e, Delivery option, 'c) api" where
  "Channel_Get send fs rp queue autoAck ch c =
     api_map got_delivery (channel_call send fs rp (MBasic (BasicGet 0 queue autoAck)) [(60, 71), (60, 72)] ch c)"

definition Channel_Tx :: "('e, 'c) conn \<Rightarrow> int \<Rightarrow> reply \<Rightarrow> channel \<Rightarrow> 'c \<Rightarrow> ('e, unit, 'c) api" where
  "Channel_Tx send fs rp = call_unit send fs rp (MTx TxSelect) (90, 11)"

definition Channel_TxCommit :: "('e, 'c) conn \<Rightarrow> int \<Rightarrow> reply \<Rightarrow> channel \<Rightarrow> 'c \<Rightarrow> ('e, unit, 'c) api" where
  "Channel_TxCommit send fs rp = call_unit send fs rp (MTx TxCommit) (90, 21)"

definition Channel_TxRollback :: "('e, 'c) conn \<Rightarrow> int \<Rightarrow> reply \<Rightarrow> channel \<Rightarrow> 'c \<Rightarrow> ('e, unit, 'c) api" where
  "Channel_TxRollback send fs rp = call_unit send fs rp (MTx TxRollback) (90, 31)"

definition Channel_Flow :: "('e, 'c) conn \<Rightarrow> int \<Rightarrow> reply \<Rightarrow> bool \<Rightarrow> channel \<Rightarrow> 'c \<Rightarrow> ('e, unit, 'c) api" where
  "Channel_Flow send fs rp active = call_unit send fs rp (MChannel (ChannelFlow active)) (20, 21)"

definition Channel_Confirm ::
    "('e, 'c) conn \<Rightarrow> int \<Rightarrow> reply \<Rightarrow> bool \<Rightarrow> channel \<Rightarrow> 'c \<Rightarrow> (('e call_error option \<times> channel) \<times> 'c) option" where
  "Channel_Confirm send fs rp noWait ch c =
     (case call_unit send fs rp (MConfirm (ConfirmSelect noWait)) (85, 11) ch c of
        None \<Rightarrow> None
      | Some (Inl e, c) \<Rightarrow> Some ((Some e, ch), c)
      | Some (Inr _, c) \<Rightarrow> Some ((None, confirm_mode ch), c))"

definition Channel_Recover :: "('e, 'c) conn \<Rightarrow> int \<Rightarrow> reply \<Rightarrow> bool \<Rightarrow> channel \<Rightarrow> 'c \<Rightarrow> ('e, unit, 'c) api" where
  "Channel_Recover send fs rp requeue = call_unit send fs rp (MBasic (BasicRecover requeue)) (60, 111)"

text \<open>The acknowledgements are sent without waiting.\<close>

definition Channel_Ack ::
    "('e, 'c) conn \<Rightarrow> int \<Rightarrow> 64 word \<Rightarrow> bool \<Rightarrow> channel \<Rightarrow> 'c \<Rightarrow> ('e send_result \<times> 'c) option" where
  "Channel_Ack send fs tag multiple ch = channel_send send fs ch (MBasic (BasicAck tag multiple))"

definition Channel_Nack ::
    "('e, 'c) conn \<Rightarrow> int \<Rightarrow> 64 word \<Rightarrow> bool \<Rightarrow> bool \<Rightarrow> channel \<Rightarrow> 'c \<Rightarrow> ('e send_result \<times> 'c) option" where
  "Channel_Nack send fs tag multiple requeue ch = channel_send send fs ch (MBasic (BasicNack tag multiple requeue))"

definition Channel_Reject ::
    "('e, 'c) conn \<Rightarrow> int \<Rightarrow> 64 word \<Rightarrow> bool \<Rightarrow> channel \<Rightarrow> 'c \<Rightarrow> ('e send_result \<times> 'c) option" where
  "Channel_Reject send fs tag requeue ch = channel_send send fs ch (MBasic (BasicReject tag requeue))"

text \<open>A delivery is acknowledged on the channel it came from, by its tag.\<close>

definition Delivery_Ack ::
    "('e, 'c) conn \<Rightarrow> int \<Rightarrow> channel \<Rightarrow> Delivery \<Rightarrow> bool \<Rightarrow> 'c \<Rightarrow> ('e send_result \<times> 'c) option" where
  "Delivery_Ack send fs acknowledger d multiple = Channel_Ack send fs (dl_DeliveryTag d) multiple acknowledger"

definition Delivery_Reject ::
    "('e, 'c) conn \<Rightarrow> int \<Rightarrow> channel \<Rightarrow> Delivery \<Rightarrow> bool \<Rightarrow> 'c \<Rightarrow> ('e send_result \<times> 'c) option" where
  "Delivery_Reject send fs acknowledger d requeue = Channel_Reject send fs (dl_DeliveryTag d) requeue acknowledger"

definition Delivery_Nack ::
    "('e, 'c) conn \<Rightarrow> int \<Rightarrow> channel \<Rightarrow> Delivery \<Rightarrow> bool \<Rightarrow> bool \<Rightarrow> 'c \<Rightarrow> ('e send_result \<times> 'c) option" where
  "Delivery_Nack send fs acknowledger d multiple requeue =
     Channel_Nack send fs (dl_DeliveryTag d) multiple requeue acknowledger"

section \<open>Properties\<close>

text \<open>The bit of a request by which the client does without an answer.\<close>

fun no_wait :: "message \<Rightarrow> bool" where
  "no_wait (MExchange (ExchangeDeclare _ _ _ _ _ _ _ nw _)) = nw"
| "no_wait (MExchange (ExchangeDelete _ _ _ nw)) = nw"
| "no_wait (MExchange (ExchangeBind _ _ _ _ nw _)) = nw"
| "no_wait (MExchange (ExchangeUnbind _ _ _ _ nw _)) = nw"
| "no_wait (MQueue (QueueDeclare _ _ _ _ _ _ nw _)) = nw"
| "no_wait (MQueue (QueueBind _ _ _ _ nw _)) = nw"
| "no_wait (MQueue (QueuePurge _ _ nw)) = nw"
| "no_wait (MQueue (QueueDelete _ _ _ _ nw)) = nw"
| "no_wait (MBasic (BasicConsume _ _ _ _ _ _ nw _)) = nw"
| "no_wait (MBasic (BasicCancel _ nw)) = nw"
| "no_wait (MConfirm (ConfirmSelect nw)) = nw"
| "no_wait m = False"

fun is_confirm_select :: "message \<Rightarrow> bool" where
  "is_confirm_select (MConfirm (ConfirmSelect _)) = True"
| "is_confirm_select _ = False"

text \<open>
  A request that does without an answer does not wait for one, and the reply plays no
  part; the one exception is \<open>confirm.select\<close>, which waits for the answer it told the peer
  not to send.
\<close>

theorem no_wait_requests:
  assumes "no_wait m"
  shows "(\<not> is_confirm_select m \<longrightarrow>
       \<not> message_wait m \<and> channel_call send fs rp m res ch c = channel_call send fs rp' m res' ch c) \<and>
     (is_confirm_select m \<longrightarrow> message_wait m)"
proof (intro conjI impI)
  assume "\<not> is_confirm_select m"
  with assms have "\<not> message_wait m" by (cases m rule: no_wait.cases) simp_all
  then show "\<not> message_wait m" and "channel_call send fs rp m res ch c = channel_call send fs rp' m res' ch c"
    by (simp_all add: channel_call_def cong: option.case_cong)
next
  assume "is_confirm_select m"
  then show "message_wait m" by (cases m rule: is_confirm_select.cases) simp_all
qed

theorem no_wait_requests_witness:
  "\<not> message_wait (MBasic (BasicCancel [1] True)) \<and> message_wait (MConfirm (ConfirmSelect True))"
  using no_wait_requests [of "MBasic (BasicCancel [1] True)" wire_send 0 "OnRpc None" "[]" "newChannel 1" "[]" "OnRpc None" "[]"]
    no_wait_requests [of "MConfirm (ConfirmSelect True)" wire_send 0 "OnRpc None" "[]" "newChannel 1" "[]" "OnRpc None" "[]"]
  by simp

text \<open>
  C36: validation is exact: a table passes \<open>Validate\<close> if and only if it can be encoded, at
  whatever depth its arrays and tables hold a value; so a publishing that passes does
  not fail in the encoder of its header.
\<close>

theorem validate_iff_encodable:
  "(Validate t \<longleftrightarrow> (\<exists>bs. writeTable t = Inr bs)) \<and>
   (Validate (Headers p) \<longrightarrow> (\<exists>bs. write_header cls weight sz p = Inr bs))"
proof -
  have "encodable (write_header cls weight sz p)" if "Validate (Headers p)"
    using that by (simp add: write_header_def write_properties_def write_if_def Validate_encodable)
  with Validate_encodable [of t] show ?thesis by (simp add: encodable_def)
qed

theorem validate_iff_encodable_witness:
  "\<not> Validate [([107], FdArray [FdNil, FdTable [([108], FdUnsupported)]])] \<and>
   \<not> (\<exists>bs. writeTable [([107], FdArray [FdNil, FdTable [([108], FdUnsupported)]])] = Inr bs) \<and>
   (\<exists>bs. write_header 60 0 5 no_properties = Inr bs)"
  using validate_iff_encodable [of "[([107], FdArray [FdNil, FdTable [([108], FdUnsupported)]])]" no_properties 60 0 5]
  by (simp add: Validate_def no_properties_def)

text \<open>
  A consumer is in the table before the request is sent, so that no delivery comes too early,
  and is out of it after an error: a failed \<open>Consume\<close> leaves the inboxes as they
  were, but for an earlier consumer of the tag, which is gone; a successful one has an empty inbox.
\<close>

theorem consume_registers:
  assumes "channel_inv ch" and "Validate args"
    and "Channel_Consume send fs rp fresh queue consumer autoAck exclusive noLocal noWait args ch c = Some ((r, ch'), c')"
  shows "inbox (ch_consumers ch') =
     (inbox (ch_consumers ch))((if consumer = [] then fresh else consumer) := (if r = None then Some [] else None)) \<and>
     consumers_inv (ch_consumers ch')"
proof -
  let ?tag = "if consumer = [] then fresh else consumer"
  have inv: "consumers_inv (ch_consumers ch)" using assms(1) by (simp add: channel_inv_def)
  from consumers_add_ok [OF inv, of ?tag] obtain t where t: "consumers_add ?tag (ch_consumers ch) = Some t"
    "consumers_inv t" "inbox t = (inbox (ch_consumers ch))(?tag \<mapsto> [])" by auto
  from consumers_do_ok [OF t(2), of "CloseConsumer ?tag"] obtain f u where u: "consumers_close ?tag t = Some (f, u)"
    "consumers_inv u" "inbox u = (inbox t)(?tag := None)" by auto
  from assms(2,3) t u show ?thesis
    by (auto simp: Channel_Consume_def Let_def split: option.splits sum.splits)
qed

theorem consume_registers_witness:
  "\<exists>ch'. Channel_Consume wire_send 4096 (OnErrors \<lparr>Code = 404, Reason = [], Server = True, Recover = True\<rparr>)
     [1] [113] [] False False False False [] (newChannel 1) [] =
       Some ((Some (PeerError \<lparr>Code = 404, Reason = [], Server = True, Recover = True\<rparr>), ch'), snd (the (sendOpen wire_send 1 4096
         (MBasic (BasicConsume 0 [113] [1] False False False False [])) []))) \<and>
     inbox (ch_consumers ch') [1] = None"
proof -
  let ?rp = "OnErrors \<lparr>Code = 404, Reason = [], Server = True, Recover = True\<rparr>"
  let ?m = "MBasic (BasicConsume 0 [113] [1] False False False False [])"
  have "encodable (write_method_payload ?m)"
    by (simp add: write_method_payload_def write_basicConsume_def Validate_encodable [symmetric] Validate_def)
  then obtain bs where "write_frame (MethodFrame 1 0 0 (Some ?m)) = Inr bs"
    by (auto simp: encodable_def writeFrame_def Let_def wthen_def)
  then have send: "sendOpen wire_send 1 4096 ?m [] = Some (Sent, bs)"
    by (simp add: sendOpen_def wire_send_def)
  have "\<exists>ch'. Channel_Consume wire_send 4096 ?rp [1] [113] [] False False False False [] (newChannel 1) [] =
      Some ((Some (PeerError \<lparr>Code = 404, Reason = [], Server = True, Recover = True\<rparr>), ch'), bs)"
    using send
    by (simp add: Channel_Consume_def Validate_def Let_def consumers_add_def consumers_close_def newChannel_def
        makeConsumers_def channel_call_def channel_send_def close_chan_def)
  then obtain ch' where ch': "Channel_Consume wire_send 4096 ?rp [1] [113] [] False False False False [] (newChannel 1) [] =
      Some ((Some (PeerError \<lparr>Code = 404, Reason = [], Server = True, Recover = True\<rparr>), ch'), bs)" by blast
  from consume_registers [OF newChannel_inv _ this] have "inbox (ch_consumers ch') [1] = None"
    by (simp add: Validate_def)
  with ch' send show ?thesis by (intro exI [of _ ch']) simp
qed



end
