(* ===== verification/Amqp_Connection.thy ===== *)
theory Amqp_Connection
  imports Amqp_Api
begin

text \<open>
  The connection (\<open>connection.go\<close>, \<open>registry.go\<close>): the registry of channels, the dispatch of
  frames to the connection itself and to its channels, the shutdown, and the goroutine
  that reads. What is done to the outside is a list of effects; \<open>None\<close> is a panic.
\<close>


section \<open>The registry of channels\<close>

record registry =
  rg_channels :: "(16 word \<times> channel) list"
  rg_sequence :: "16 word"

definition new_registry :: registry where
  "new_registry = \<lparr>rg_channels = [], rg_sequence = 0\<rparr>"

definition registry_add :: "16 word \<Rightarrow> channel \<Rightarrow> registry \<Rightarrow> registry" where
  "registry_add cid c m = m\<lparr>rg_channels := AList.update cid c (rg_channels m)\<rparr>"

definition registry_get :: "16 word \<Rightarrow> registry \<Rightarrow> channel option" where
  "registry_get cid m = map_of (rg_channels m) cid"

definition registry_remove :: "16 word \<Rightarrow> registry \<Rightarrow> registry" where
  "registry_remove cid m = m\<lparr>rg_channels := AList.delete cid (rg_channels m)\<rparr>"

definition registry_next :: "registry \<Rightarrow> 16 word \<times> registry" where
  "registry_next m = (rg_sequence m + 1, m\<lparr>rg_sequence := rg_sequence m + 1\<rparr>)"

definition registry_removeAll :: "registry \<Rightarrow> channel list \<times> registry" where
  "registry_removeAll m = (map snd (rg_channels m), m\<lparr>rg_channels := []\<rparr>)"

lemma registry_get_add [simp]:
  "registry_get i (registry_add j c m) = (if i = j then Some c else registry_get i m)"
  by (simp add: registry_get_def registry_add_def update_conv')

lemma registry_get_remove [simp]:
  "registry_get i (registry_remove j m) = (if i = j then None else registry_get i m)"
  by (simp add: registry_get_def registry_remove_def delete_conv')


section \<open>The connection\<close>

record connection =
  cn_registry :: registry
  cn_down :: bool
  cn_noNotify :: bool
  cn_closes :: "nat list"
  cn_blocks :: "nat list"

definition Open_connection :: connection where
  "Open_connection =
     \<lparr>cn_registry = new_registry, cn_down = False, cn_noNotify = False, cn_closes = [], cn_blocks = []\<rparr>"

datatype conn_effect =
    OnChannel "16 word" effect
  | WriteFrame frame
  | TellClose nat Error
  | TellBlocked nat bool bytes
  | PutConnRpc "message option"
  | PutConnError Error
  | CloseTransport
  | CloseConnListener nat

text \<open>
  Where the goroutine that reads stands: at the next frame, at a send on a channel \<open>rpc\<close>, in a
  call of \<open>closeWith\<close>, or at the send on \<open>deadlines\<close>. The functions called by \<open>demux\<close> end
  in the first three, where \<open>Reading\<close> says that they return.
\<close>

datatype reader_pc = Reading | PuttingRpc "16 word" | InCloseWith Error | PuttingDeadline | Stopped

type_synonym demux_result = "(conn_effect list \<times> reader_pc \<times> connection) option"

definition ascii :: "string \<Rightarrow> bytes" where
  "ascii s = map of_char s"

definition ErrClosed_error :: Error where
  "ErrClosed_error =
     \<lparr>Code = 504, Reason = ascii ''channel/connection is not open'', Server = False, Recover = False\<rparr>"

definition ErrUnexpectedFrame :: Error where
  "ErrUnexpectedFrame =
     \<lparr>Code = 505, Reason = ascii ''unexpected frame received'', Server = False, Recover = False\<rparr>"

text \<open>\<open>closeWith\<close> sends its request and then waits for the reply, in the goroutine that would have to read it.\<close>

definition closeWith :: "Error \<Rightarrow> connection \<Rightarrow> demux_result" where
  "closeWith e cn =
     Some ([WriteFrame (MethodFrame 0 0 0 (Some (MConnection (ConnectionClose (of_int (Code e)) (Reason e) 0 0))))],
           InCloseWith e, cn)"

definition conn_NotifyClose :: "nat \<Rightarrow> connection \<Rightarrow> conn_effect list \<times> connection" where
  "conn_NotifyClose c cn =
     (if cn_noNotify cn then ([CloseConnListener c], cn) else ([], cn\<lparr>cn_closes := cn_closes cn @ [c]\<rparr>))"

definition conn_NotifyBlocked :: "nat \<Rightarrow> connection \<Rightarrow> conn_effect list \<times> connection" where
  "conn_NotifyBlocked c cn =
     (if cn_noNotify cn then ([CloseConnListener c], cn) else ([], cn\<lparr>cn_blocks := cn_blocks cn @ [c]\<rparr>))"

text \<open>\<open>Channel\<close> makes a channel under the next number; the call that opens it is \<open>channel_open\<close>.\<close>

definition conn_Channel :: "connection \<Rightarrow> 16 word \<times> connection" where
  "conn_Channel cn =
     (let (cid, m) = registry_next (cn_registry cn)
      in (cid, cn\<lparr>cn_registry := registry_add cid (newChannel cid) m\<rparr>))"

fun shutdown_channels :: "Error option \<Rightarrow> channel list \<Rightarrow> conn_effect list option" where
  "shutdown_channels e [] = Some []"
| "shutdown_channels e (ch # chs) =
     (case shutdown e ch of
        None \<Rightarrow> None
      | Some (es, _) \<Rightarrow> map_option (\<lambda>fs. map (OnChannel (ch_id ch)) es @ fs) (shutdown_channels e chs))"

text \<open>
  As on a channel, the shutdown closes the listeners and leaves them in their lists: a listener that is in its
  list twice is closed twice, and a notice of the broker that is read after the shutdown is sent
  on a closed one. Both panic.
\<close>

definition conn_shutdown :: "Error option \<Rightarrow> connection \<Rightarrow> (conn_effect list \<times> connection) option" where
  "conn_shutdown e cn =
     (if cn_down cn then Some ([], cn)
      else if \<not> (distinct (cn_closes cn) \<and> distinct (cn_blocks cn)) then None
      else
        let (chs, m) = registry_removeAll (cn_registry cn);
            told = (case e of None \<Rightarrow> [] | Some e \<Rightarrow> map (\<lambda>c. TellClose c e) (cn_closes cn));
            errors = (case e of None \<Rightarrow> [] | Some e \<Rightarrow> [PutConnError e])
        in map_option (\<lambda>es.
             (told @ es @ errors @ [CloseTransport] @ map CloseConnListener (cn_closes cn @ cn_blocks cn),
              cn\<lparr>cn_registry := m, cn_down := True, cn_noNotify := True\<rparr>)) (shutdown_channels e chs))"

definition tell_blocked :: "bool \<Rightarrow> bytes \<Rightarrow> connection \<Rightarrow> demux_result" where
  "tell_blocked active reason cn =
     (if cn_down cn \<and> cn_blocks cn \<noteq> [] then None
      else Some (map (\<lambda>c. TellBlocked c active reason) (cn_blocks cn), Reading, cn))"

definition dispatch0 :: "frame \<Rightarrow> connection \<Rightarrow> demux_result" where
  "dispatch0 f cn =
     (case f of
        MethodFrame _ _ _ mo \<Rightarrow>
          (case mo of
             Some (MConnection (ConnectionClose code reason _ _)) \<Rightarrow>
               map_option (\<lambda>(es, cn). (WriteFrame (MethodFrame 0 0 0 (Some (MConnection ConnectionCloseOk))) # es, Reading, cn))
                 (conn_shutdown (Some (newError code reason)) cn)
           | Some (MConnection (ConnectionBlocked reason)) \<Rightarrow> tell_blocked True reason cn
           | Some (MConnection ConnectionUnblocked) \<Rightarrow> tell_blocked False [] cn
           | _ \<Rightarrow> Some ([PutConnRpc mo], PuttingRpc 0, cn))
      | HeartbeatFrame _ \<Rightarrow> Some ([], Reading, cn)
      | _ \<Rightarrow> closeWith ErrUnexpectedFrame cn)"

definition dispatchClosed :: "frame \<Rightarrow> connection \<Rightarrow> demux_result" where
  "dispatchClosed f cn =
     (case f of
        MethodFrame ch _ _ mo \<Rightarrow>
          (case mo of
             Some (MChannel (ChannelClose _ _ _ _)) \<Rightarrow>
               Some ([WriteFrame (MethodFrame ch 0 0 (Some (MChannel ChannelCloseOk)))], Reading, cn)
           | Some (MChannel ChannelCloseOk) \<Rightarrow> Some ([], Reading, cn)
           | _ \<Rightarrow> closeWith ErrClosed_error cn)
      | _ \<Rightarrow> Some ([], Reading, cn))"

text \<open>A channel that shut down has taken itself out of the registry.\<close>

definition registry_after :: "16 word \<Rightarrow> effect list \<Rightarrow> channel \<Rightarrow> registry \<Rightarrow> registry" where
  "registry_after cid es ch m =
     (if RemoveChannel cid \<in> set es then registry_remove cid m else registry_add cid ch m)"

fun puts_rpc :: "effect \<Rightarrow> bool" where
  "puts_rpc (PutRpc _) = True"
| "puts_rpc _ = False"

definition dispatchN :: "frame \<Rightarrow> connection \<Rightarrow> demux_result" where
  "dispatchN f cn =
     (case registry_get (frame_channel f) (cn_registry cn) of
        None \<Rightarrow> dispatchClosed f cn
      | Some ch \<Rightarrow>
          map_option (\<lambda>(es, ch).
            (map (OnChannel (frame_channel f)) es,
             if \<exists>e\<in>set es. puts_rpc e then PuttingRpc (frame_channel f) else Reading,
             cn\<lparr>cn_registry := registry_after (frame_channel f) es ch (cn_registry cn)\<rparr>))
            (channel_recv f ch))"

definition demux :: "frame \<Rightarrow> connection \<Rightarrow> demux_result" where
  "demux f cn = (if frame_channel f = 0 then dispatch0 f cn else dispatchN f cn)"


section \<open>The goroutine that reads\<close>

text \<open>
  \<open>rs_frames\<close> is what the peer sent and was not read yet, \<open>rs_awaiting\<close> the channels, 0 for the
  connection itself, on which a call waits for its reply. A failed write makes another
  goroutine shut the connection down, which puts the error a waiting call receives. After
  each frame the reader sends its deadline to the heartbeater (\<open>rs_heartbeater\<close> says that it
  runs), through a channel with room for one, if the transport has deadlines.
\<close>

record reader_state =
  rs_frames :: "frame list"
  rs_pc :: reader_pc
  rs_conn :: connection
  rs_awaiting :: "16 word set"
  rs_effects :: "conn_effect list"
  rs_haveDeadliner :: bool
  rs_deadlines :: "unit chan"
  rs_heartbeater :: bool

datatype reader_event =
    ReadOne | ReadFails Error | RpcTaken | CallBegins "16 word" | FrameArrives frame | WriteFails Error
  | CloseWithFails | DeadlinePut | DeadlineTaken | HeartbeaterStarts | HeartbeaterStops

definition after_demux :: "reader_state \<Rightarrow> reader_pc" where
  "after_demux s = (if rs_haveDeadliner s then PuttingDeadline else Reading)"

inductive reader_step :: "reader_state \<Rightarrow> reader_event \<Rightarrow> reader_state \<Rightarrow> bool" where
  read_one: "rs_pc s = Reading \<Longrightarrow> rs_frames s = f # fs \<Longrightarrow> demux f (rs_conn s) = Some (es, p, cn) \<Longrightarrow>
     reader_step s ReadOne
       (s\<lparr>rs_frames := fs, rs_pc := (if p = Reading then after_demux s else p), rs_conn := cn,
          rs_effects := rs_effects s @ es\<rparr>)"
| read_fails: "rs_pc s = Reading \<Longrightarrow> conn_shutdown (Some e) (rs_conn s) = Some (es, cn) \<Longrightarrow>
     reader_step s (ReadFails e) (s\<lparr>rs_pc := Stopped, rs_conn := cn, rs_effects := rs_effects s @ es\<rparr>)"
| rpc_taken: "rs_pc s = PuttingRpc c \<Longrightarrow> c \<in> rs_awaiting s \<Longrightarrow>
     reader_step s RpcTaken (s\<lparr>rs_pc := after_demux s, rs_awaiting := rs_awaiting s - {c}\<rparr>)"
| call_begins: "reader_step s (CallBegins c) (s\<lparr>rs_awaiting := insert c (rs_awaiting s)\<rparr>)"
| frame_arrives: "reader_step s (FrameArrives f) (s\<lparr>rs_frames := rs_frames s @ [f]\<rparr>)"
| write_fails: "conn_shutdown (Some e) (rs_conn s) = Some (es, cn) \<Longrightarrow>
     reader_step s (WriteFails e) (s\<lparr>rs_conn := cn, rs_effects := rs_effects s @ es\<rparr>)"
| close_with_fails: "rs_pc s = InCloseWith e \<Longrightarrow> cn_down (rs_conn s) \<Longrightarrow>
     reader_step s CloseWithFails (s\<lparr>rs_pc := after_demux s\<rparr>)"
| deadline_put: "rs_pc s = PuttingDeadline \<Longrightarrow> chan_send () (rs_deadlines s) = Some q \<Longrightarrow>
     reader_step s DeadlinePut (s\<lparr>rs_pc := Reading, rs_deadlines := q\<rparr>)"
| deadline_taken: "rs_heartbeater s \<Longrightarrow> chan_recv (rs_deadlines s) = Some ((), q) \<Longrightarrow>
     reader_step s DeadlineTaken (s\<lparr>rs_deadlines := q\<rparr>)"
| heartbeater_starts: "reader_step s HeartbeaterStarts (s\<lparr>rs_heartbeater := True\<rparr>)"
| heartbeater_stops: "reader_step s HeartbeaterStops (s\<lparr>rs_heartbeater := False\<rparr>)"

inductive_cases reader_stepE: "reader_step s ev s'"

inductive reader_run :: "reader_state \<Rightarrow> reader_event list \<Rightarrow> reader_state \<Rightarrow> bool" where
  reader_refl: "reader_run s [] s"
| reader_trans: "reader_step s ev s' \<Longrightarrow> reader_run s' evs s'' \<Longrightarrow> reader_run s (ev # evs) s''"

definition start_reader :: "bool \<Rightarrow> connection \<Rightarrow> reader_state" where
  "start_reader haveDeadliner cn =
     \<lparr>rs_frames = [], rs_pc = Reading, rs_conn = cn, rs_awaiting = {}, rs_effects = [],
      rs_haveDeadliner = haveDeadliner, rs_deadlines = make_chan 1, rs_heartbeater = False\<rparr>"

section \<open>Each channel sees its own frames\<close>

lemma dispatch_keeps:
  assumes "dispatch mo ch = Some (es, ch')"
  shows "ch_id ch' = ch_id ch" and "ch_down ch \<Longrightarrow> ch_down ch'"
    and "RemoveChannel i \<in> set es \<Longrightarrow> i = ch_id ch \<and> ch_down ch'"
    and "RemoveChannel (ch_id ch) \<notin> set es \<Longrightarrow> ch_down ch' \<longleftrightarrow> ch_down ch"
  using assms
  by (auto simp: dispatch_def shutdown_def confirm_tags_def send_reply_def tell_def Let_def
      split: option.splits message.splits channel_method.splits basic_method.splits if_splits)

lemma dispatch_all_keeps:
  assumes "dispatch_all ms ch = Some (es, ch')"
  shows "ch_id ch' = ch_id ch \<and> (ch_down ch \<longrightarrow> ch_down ch') \<and>
     (RemoveChannel (ch_id ch) \<in> set es \<longrightarrow> ch_down ch') \<and>
     (RemoveChannel (ch_id ch) \<notin> set es \<longrightarrow> (ch_down ch' \<longleftrightarrow> ch_down ch))"
  using assms
proof (induction ms arbitrary: ch es)
  case (Cons m ms)
  then obtain es1 ch1 es2 where d: "dispatch m ch = Some (es1, ch1)" and r: "dispatch_all ms ch1 = Some (es2, ch')"
    and es: "es = es1 @ es2" by (auto split: option.splits)
  from Cons.IH [OF r] dispatch_keeps [OF d] es show ?case by auto
qed simp

lemma channel_recv_keeps:
  assumes "channel_recv f ch = Some (es, ch')"
  shows "ch_id ch' = ch_id ch \<and> (ch_down ch \<longrightarrow> ch_down ch') \<and>
     (RemoveChannel (ch_id ch) \<in> set es \<longrightarrow> ch_down ch') \<and>
     (RemoveChannel (ch_id ch) \<notin> set es \<longrightarrow> (ch_down ch' \<longleftrightarrow> ch_down ch))"
  using assms dispatch_all_keeps by (fastforce simp: channel_recv_def split: option.splits)

lemma channel_recvs_down: "channel_recvs fs ch = Some (es, ch') \<Longrightarrow> ch_down ch \<Longrightarrow> ch_down ch'"
proof (induction fs arbitrary: ch es)
  case (Cons f fs)
  then show ?case by (auto split: option.splits dest: channel_recv_keeps)
qed simp

text \<open>The frames that close the connection, and a run of the demultiplexer until a call of \<open>closeWith\<close>.\<close>

fun closes_connection :: "frame \<Rightarrow> bool" where
  "closes_connection (MethodFrame ch _ _ (Some (MConnection (ConnectionClose _ _ _ _)))) = (ch = 0)"
| "closes_connection _ = False"

fun demux_all :: "frame list \<Rightarrow> connection \<Rightarrow> (conn_effect list \<times> connection) option" where
  "demux_all [] cn = Some ([], cn)"
| "demux_all (f # fs) cn =
     (case demux f cn of
        None \<Rightarrow> None
      | Some (es, InCloseWith e, cn) \<Rightarrow> None
      | Some (es, _, cn) \<Rightarrow> map_option (\<lambda>(ds, cn). (es @ ds, cn)) (demux_all fs cn))"

fun channel_effects :: "16 word \<Rightarrow> conn_effect list \<Rightarrow> effect list" where
  "channel_effects i [] = []"
| "channel_effects i (OnChannel j e # es) = (if i = j then e # channel_effects i es else channel_effects i es)"
| "channel_effects i (_ # es) = channel_effects i es"

lemma channel_effects_append [simp]:
  "channel_effects i (es @ fs) = channel_effects i es @ channel_effects i fs"
  by (induction i es rule: channel_effects.induct) simp_all

lemma channel_effects_map: "channel_effects i (map (OnChannel j) es) = (if i = j then es else [])"
  by (cases "i = j"; induction es) simp_all

lemma channel_effects_tell [simp]: "channel_effects i (map (\<lambda>c. TellBlocked c b r) cs) = []"
  by (induction cs) simp_all

lemma dispatch0_other:
  assumes "dispatch0 f cn = Some (es, p, cn')" and "\<not> closes_connection f" and "frame_channel f = 0"
  shows "cn_registry cn' = cn_registry cn" and "channel_effects i es = []"
proof -
  have "cn_registry cn' = cn_registry cn \<and> channel_effects i es = []"
  proof (cases f)
    case (MethodFrame ch x y mo)
    show ?thesis
    proof (cases "\<exists>c. mo = Some (MConnection c)")
      case True
      then obtain c where "mo = Some (MConnection c)" by blast
      with MethodFrame assms show ?thesis
        by (cases c) (auto simp: dispatch0_def tell_blocked_def split: if_splits)
    next
      case False
      with MethodFrame assms show ?thesis
        by (auto simp: dispatch0_def split: option.splits message.splits)
    qed
  qed (use assms in \<open>auto simp: dispatch0_def closeWith_def\<close>)
  then show "cn_registry cn' = cn_registry cn" and "channel_effects i es = []" by simp_all
qed

lemma dispatchClosed_other:
  assumes "dispatchClosed f cn = Some (es, p, cn')"
  shows "cn' = cn" and "channel_effects i es = []"
  using assms
  by (auto simp: dispatchClosed_def closeWith_def
      split: frame.splits option.splits message.splits channel_method.splits)

lemma demux_other:
  assumes "demux f cn = Some (es, p, cn')" and "\<not> closes_connection f" and "frame_channel f \<noteq> i"
  shows "registry_get i (cn_registry cn') = registry_get i (cn_registry cn)" and "channel_effects i es = []"
proof -
  have "registry_get i (cn_registry cn') = registry_get i (cn_registry cn) \<and> channel_effects i es = []"
  proof (cases "frame_channel f = 0")
    case True
    with assms dispatch0_other [of f cn es p cn'] show ?thesis by (simp add: demux_def)
  next
    case False
    show ?thesis
    proof (cases "registry_get (frame_channel f) (cn_registry cn)")
      case None
      with False assms dispatchClosed_other [of f cn es p cn'] show ?thesis
        by (simp add: demux_def dispatchN_def)
    next
      case (Some ch)
      with False assms show ?thesis
        by (auto simp: demux_def dispatchN_def registry_after_def channel_effects_map split: option.splits)
    qed
  qed
  then show "registry_get i (cn_registry cn') = registry_get i (cn_registry cn)" and "channel_effects i es = []"
    by simp_all
qed

lemma demux_own:
  assumes "demux f cn = Some (es, p, cn')" and "frame_channel f = i" and "i \<noteq> 0"
    and "registry_get i (cn_registry cn) = Some ch" and "channel_recv f ch = Some (es', ch')"
    and "ch_id ch = i" and "\<not> ch_down ch'"
  shows "registry_get i (cn_registry cn') = Some ch'" and "channel_effects i es = es'"
proof -
  have "RemoveChannel i \<notin> set es'" using channel_recv_keeps [OF assms(5)] assms(6,7) by auto
  with assms show "registry_get i (cn_registry cn') = Some ch'" and "channel_effects i es = es'"
    by (auto simp: demux_def dispatchN_def registry_after_def channel_effects_map)
qed

lemma demux_refines:
  assumes "demux_all fs cn = Some (es, cn')" and "\<forall>f\<in>set fs. \<not> closes_connection f"
    and "i \<noteq> 0" and "registry_get i (cn_registry cn) = Some ch" and "ch_id ch = i"
    and "channel_recvs (filter (\<lambda>f. frame_channel f = i) fs) ch = Some (es', ch')" and "\<not> ch_down ch'"
  shows "registry_get i (cn_registry cn') = Some ch' \<and> channel_effects i es = es'"
  using assms
proof (induction fs arbitrary: cn ch es es')
  case (Cons f fs)
  from Cons.prems(1) obtain es1 p cn1 es2 where d: "demux f cn = Some (es1, p, cn1)"
    and r: "demux_all fs cn1 = Some (es2, cn')" and es: "es = es1 @ es2"
    by (auto split: option.splits reader_pc.splits)
  show ?case
  proof (cases "frame_channel f = i")
    case False
    with demux_other [OF d _ False] Cons.prems(2) have "registry_get i (cn_registry cn1) = Some ch" "channel_effects i es1 = []"
      using Cons.prems(4) by auto
    with Cons.IH [OF r _ Cons.prems(3) this(1) Cons.prems(5)] Cons.prems(2,6,7) False es show ?thesis by simp
  next
    case True
    with Cons.prems(6) obtain fes ch1 es3 where c: "channel_recv f ch = Some (fes, ch1)"
      and cr: "channel_recvs (filter (\<lambda>f. frame_channel f = i) fs) ch1 = Some (es3, ch')" and es': "es' = fes @ es3"
      by (auto split: option.splits)
    from channel_recvs_down [OF cr] Cons.prems(7) have "\<not> ch_down ch1" by blast
    from demux_own [OF d True Cons.prems(3,4) c Cons.prems(5) this]
    have "registry_get i (cn_registry cn1) = Some ch1" "channel_effects i es1 = fes" by auto
    moreover have "ch_id ch1 = i" using channel_recv_keeps [OF c] Cons.prems(5) by simp
    ultimately show ?thesis
      using Cons.IH [OF r _ Cons.prems(3) _ _ cr Cons.prems(7)] Cons.prems(2) es es' by simp
  qed
qed simp

section \<open>The invariant of the connection\<close>

definition conn_inv :: "connection \<Rightarrow> bool" where
  "conn_inv cn \<longleftrightarrow>
     (\<forall>i ch. registry_get i (cn_registry cn) = Some ch \<longrightarrow> channel_inv ch \<and> ch_id ch = i) \<and>
     distinct (map fst (rg_channels (cn_registry cn))) \<and>
     distinct (cn_closes cn) \<and> distinct (cn_blocks cn)"

text \<open>The frames that tell the listeners for \<open>connection.blocked\<close>.\<close>

fun blocked_notice :: "frame \<Rightarrow> bool" where
  "blocked_notice (MethodFrame _ _ _ (Some (MConnection (ConnectionBlocked _)))) = True"
| "blocked_notice (MethodFrame _ _ _ (Some (MConnection ConnectionUnblocked))) = True"
| "blocked_notice _ = False"

lemma shutdown_channels_ok:
  "\<forall>ch\<in>set chs. channel_inv ch \<Longrightarrow> \<exists>es. shutdown_channels e chs = Some es"
proof (induction chs)
  case (Cons ch chs)
  moreover have "channel_inv ch" using Cons.prems by simp
  then obtain es ch' where "shutdown e ch = Some (es, ch')" by (rule shutdown_ok)
  ultimately show ?case by auto
qed simp

lemma conn_inv_channels: "conn_inv cn \<Longrightarrow> \<forall>ch\<in>set (map snd (rg_channels (cn_registry cn))). channel_inv ch"
  unfolding conn_inv_def registry_get_def by (auto dest: map_of_is_SomeI)

lemma conn_shutdown_ok:
  assumes "conn_inv cn"
  obtains es cn' where "conn_shutdown e cn = Some (es, cn')" and "conn_inv cn'" and "cn_down cn'"
proof (cases "cn_down cn")
  case True
  with assms that [of "[]" cn] show thesis by (simp add: conn_shutdown_def)
next
  case False
  obtain es where "shutdown_channels e (map snd (rg_channels (cn_registry cn))) = Some es"
    using shutdown_channels_ok [OF conn_inv_channels [OF assms]] by blast
  moreover have "distinct (cn_closes cn)" "distinct (cn_blocks cn)" using assms by (simp_all add: conn_inv_def)
  ultimately show thesis using False that
    by (fastforce simp: conn_shutdown_def registry_removeAll_def conn_inv_def registry_get_def)
qed

lemma registry_after_inv:
  assumes "conn_inv cn" and "registry_get i (cn_registry cn) = Some ch" and "channel_recv f ch = Some (es, ch')"
  shows "conn_inv (cn\<lparr>cn_registry := registry_after i es ch' (cn_registry cn)\<rparr>)"
proof -
  have "channel_inv ch" "ch_id ch = i" using assms(1,2) by (simp_all add: conn_inv_def)
  then have "channel_inv ch'" "ch_id ch' = i"
    using channel_recv_inv [OF _ assms(3)] channel_recv_keeps [OF assms(3)] by simp_all
  moreover have "distinct (map fst (rg_channels (registry_after i es ch' (cn_registry cn))))"
    using assms(1)
    by (auto simp: conn_inv_def registry_after_def registry_remove_def registry_add_def distinct_update distinct_delete)
  ultimately show ?thesis
    using assms(1) by (auto simp: conn_inv_def registry_after_def)
qed

lemma demux_inv:
  assumes "conn_inv cn"
  shows "case demux f cn of
      None \<Rightarrow> if frame_channel f = 0 then blocked_notice f \<and> cn_down cn \<and> cn_blocks cn \<noteq> []
        else \<exists>ch. registry_get (frame_channel f) (cn_registry cn) = Some ch \<and> channel_recv f ch = None
    | Some (es, p, cn') \<Rightarrow> conn_inv cn' \<and>
        (frame_channel f = 0 \<longrightarrow> \<not> (blocked_notice f \<and> cn_down cn \<and> cn_blocks cn \<noteq> []))"
proof (cases "frame_channel f = 0")
  case True
  show ?thesis
  proof (cases f)
    case (MethodFrame ch x y mo)
    show ?thesis
    proof (cases "\<exists>code reason c k. mo = Some (MConnection (ConnectionClose code reason c k))")
      case True
      then obtain code reason c k where mo: "mo = Some (MConnection (ConnectionClose code reason c k))" by blast
      obtain es cn' where "conn_shutdown (Some (newError code reason)) cn = Some (es, cn')" "conn_inv cn'"
        by (rule conn_shutdown_ok [OF assms])
      with mo MethodFrame \<open>frame_channel f = 0\<close> show ?thesis by (simp add: demux_def dispatch0_def)
    next
      case False
      with MethodFrame True assms show ?thesis
        by (auto simp: demux_def dispatch0_def tell_blocked_def
            split: option.splits message.splits connection_method.splits)
    qed
  qed (use True assms in \<open>simp_all add: demux_def dispatch0_def closeWith_def\<close>)
next
  case False
  show ?thesis
  proof (cases "registry_get (frame_channel f) (cn_registry cn)")
    case None
    with False assms show ?thesis
      by (auto simp: demux_def dispatchN_def dispatchClosed_def closeWith_def
          split: frame.splits option.splits message.splits channel_method.splits)
  next
    case (Some ch)
    with False registry_after_inv [OF assms Some] show ?thesis
      by (auto simp: demux_def dispatchN_def split: option.splits)
  qed
qed

lemma reader_step_inv: "reader_step s ev s' \<Longrightarrow> conn_inv (rs_conn s) \<Longrightarrow> conn_inv (rs_conn s')"
proof (induction rule: reader_step.induct)
  case (read_one s f fs es p cn)
  with demux_inv [of "rs_conn s" f] show ?case by simp
next
  case (read_fails s e es cn)
  then show ?case by (metis conn_shutdown_ok fst_conv option.inject reader_state.select_convs(3)
        reader_state.surjective reader_state.update_convs snd_conv)
next
  case (write_fails e s es cn)
  then show ?case by (metis conn_shutdown_ok fst_conv option.inject reader_state.select_convs(3)
        reader_state.surjective reader_state.update_convs snd_conv)
qed simp_all

lemma reader_run_inv: "reader_run s evs s' \<Longrightarrow> conn_inv (rs_conn s) \<Longrightarrow> conn_inv (rs_conn s')"
  by (induction rule: reader_run.induct) (auto dest: reader_step_inv)

section \<open>Opening channels\<close>

fun open_channels :: "nat \<Rightarrow> connection \<Rightarrow> 16 word list \<times> connection" where
  "open_channels 0 cn = ([], cn)"
| "open_channels (Suc n) cn =
     (let (ids, cn) = open_channels n cn; (i, cn) = conn_Channel cn in (ids @ [i], cn))"

lemma open_channels_ids:
  assumes "rg_sequence (cn_registry cn) = 0"
  shows "fst (open_channels n cn) = map of_nat [1..<Suc n] \<and>
     rg_sequence (cn_registry (snd (open_channels n cn))) = of_nat n"
proof (induction n)
  case (Suc n)
  obtain ids cn' where o: "open_channels n cn = (ids, cn')" by (cases "open_channels n cn")
  with Suc show ?case
    by (simp add: conn_Channel_def registry_next_def registry_add_def Let_def add.commute)
qed (simp add: assms)

lemma conn_Channel_inv: "conn_inv cn \<Longrightarrow> conn_Channel cn = (i, cn') \<Longrightarrow> conn_inv cn'"
proof -
  assume inv: "conn_inv cn" and "conn_Channel cn = (i, cn')"
  then have cn': "cn' = cn\<lparr>cn_registry := registry_add i (newChannel i) ((cn_registry cn)\<lparr>rg_sequence := i\<rparr>)\<rparr>"
    and i: "i = rg_sequence (cn_registry cn) + 1"
    by (auto simp: conn_Channel_def registry_next_def)
  have "registry_get j (m\<lparr>rg_sequence := i\<rparr>) = registry_get j m" for j m
    by (simp add: registry_get_def)
  moreover have "ch_id (newChannel i) = i" by (simp add: newChannel_def)
  moreover have "distinct (map fst (rg_channels (registry_add i (newChannel i) ((cn_registry cn)\<lparr>rg_sequence := i\<rparr>))))"
    using inv by (simp add: conn_inv_def registry_add_def distinct_update)
  ultimately show "conn_inv cn'"
    using inv newChannel_inv [of i] unfolding conn_inv_def cn' by auto
qed

lemma open_channels_inv: "conn_inv cn \<Longrightarrow> conn_inv (snd (open_channels n cn))"
proof (induction n)
  case (Suc n)
  obtain ids cn1 where o: "open_channels n cn = (ids, cn1)" by (cases "open_channels n cn")
  obtain i cn2 where c: "conn_Channel cn1 = (i, cn2)" by (cases "conn_Channel cn1")
  with o Suc conn_Channel_inv [OF _ c] show ?case by simp
qed simp

lemma Open_connection_inv: "conn_inv Open_connection"
  by (simp add: conn_inv_def Open_connection_def new_registry_def registry_get_def)


section \<open>Where the reader stays\<close>

lemma reader_run_keeps:
  assumes "reader_run s evs s'" and "P s" and "\<forall>ev\<in>set evs. ok ev"
    and "\<And>s ev s'. reader_step s ev s' \<Longrightarrow> P s \<Longrightarrow> ok ev \<Longrightarrow> P s'"
  shows "P s'"
  using assms(1-3) by (induction rule: reader_run.induct) (auto dest: assms(4))

lemma closeWith_stuck:
  assumes "reader_run s evs s'" and "rs_pc s = InCloseWith e" and "\<not> cn_down (rs_conn s)"
    and "\<And>err. WriteFails err \<notin> set evs"
  shows "rs_pc s' = InCloseWith e \<and> rs_conn s' = rs_conn s \<and> rs_effects s' = rs_effects s \<and>
    prefix (rs_frames s) (rs_frames s')"
proof (rule reader_run_keeps [OF assms(1), where ok = "\<lambda>ev. \<forall>err. ev \<noteq> WriteFails err"])
  fix t ev t'
  assume "reader_step t ev t'" and "\<forall>err. ev \<noteq> WriteFails err"
    and "rs_pc t = InCloseWith e \<and> rs_conn t = rs_conn s \<and> rs_effects t = rs_effects s \<and> prefix (rs_frames s) (rs_frames t)"
  then show "rs_pc t' = InCloseWith e \<and> rs_conn t' = rs_conn s \<and> rs_effects t' = rs_effects s \<and> prefix (rs_frames s) (rs_frames t')"
    using assms(3) by (cases rule: reader_step.cases) auto
qed (use assms(2,4) in auto)

lemma rpc_stuck:
  assumes "reader_run s evs s'" and "rs_pc s = PuttingRpc c" and "c \<notin> rs_awaiting s" and "CallBegins c \<notin> set evs"
  shows "rs_pc s' = PuttingRpc c \<and> prefix (rs_frames s) (rs_frames s')"
proof -
  have "rs_pc s' = PuttingRpc c \<and> c \<notin> rs_awaiting s' \<and> prefix (rs_frames s) (rs_frames s')"
  proof (rule reader_run_keeps [OF assms(1), where ok = "\<lambda>ev. ev \<noteq> CallBegins c"])
    fix t ev t'
    assume "reader_step t ev t'" and "ev \<noteq> CallBegins c"
      and "rs_pc t = PuttingRpc c \<and> c \<notin> rs_awaiting t \<and> prefix (rs_frames s) (rs_frames t)"
    then show "rs_pc t' = PuttingRpc c \<and> c \<notin> rs_awaiting t' \<and> prefix (rs_frames s) (rs_frames t')"
      by (cases rule: reader_step.cases) auto
  qed (use assms(2-4) in auto)
  then show ?thesis by simp
qed

lemma deadline_stuck:
  assumes "reader_run s evs s'" and "rs_pc s = PuttingDeadline" and "\<not> rs_heartbeater s"
    and "HeartbeaterStarts \<notin> set evs" and "chan_cap (rs_deadlines s) \<le> length (chan_buf (rs_deadlines s))"
  shows "rs_pc s' = PuttingDeadline \<and> prefix (rs_frames s) (rs_frames s')"
proof -
  let ?P = "\<lambda>t. rs_pc t = PuttingDeadline \<and> \<not> rs_heartbeater t \<and> rs_deadlines t = rs_deadlines s \<and>
      prefix (rs_frames s) (rs_frames t)"
  have "?P s'"
  proof (rule reader_run_keeps [OF assms(1), where ok = "\<lambda>ev. ev \<noteq> HeartbeaterStarts"])
    fix t ev t'
    assume "reader_step t ev t'" and "ev \<noteq> HeartbeaterStarts" and "?P t"
    then show "?P t'"
      using go_chan.send_full [OF assms(5)] by (cases rule: reader_step.cases) auto
  qed (use assms in auto)
  then show ?thesis by simp
qed


section \<open>Properties\<close>

text \<open>
  C4: multiplexing is invisible to a channel. However the frames of the channels and of the
  connection are interleaved, as long as none closes the connection or a channel, each
  channel ends in the state, and with the effects, that its own frames in their order give.
\<close>

theorem demux_refines_channels:
  assumes "demux_all fs cn = Some (es, cn')" and "\<forall>f\<in>set fs. \<not> closes_connection f"
    and "conn_inv cn" and "i \<noteq> 0" and "registry_get i (cn_registry cn) = Some ch"
    and "channel_recvs (filter (\<lambda>f. frame_channel f = i) fs) ch = Some (es', ch')" and "\<not> ch_down ch'"
  shows "registry_get i (cn_registry cn') = Some ch' \<and> channel_effects i es = es'"
proof -
  have "ch_id ch = i" using assms(3,5) by (simp add: conn_inv_def)
  from demux_refines [OF assms(1,2,4,5) this assms(6,7)] show ?thesis .
qed

theorem demux_refines_channels_witness:
  "\<exists>es cn' ch'. demux_all
       [MethodFrame 1 60 60 (Some demo_deliver), HeartbeatFrame 0, MethodFrame 2 20 20 (Some (MChannel (ChannelFlow True))),
        HeaderFrame 1 60 0 0 no_properties] (snd (open_channels 2 Open_connection)) = Some (es, cn') \<and>
     registry_get 1 (cn_registry cn') = Some ch' \<and> channel_effects 1 es = []"
proof -
  let ?fs = "[MethodFrame 1 60 60 (Some demo_deliver), HeartbeatFrame 0,
      MethodFrame 2 20 20 (Some (MChannel (ChannelFlow True))), HeaderFrame 1 60 0 0 no_properties]"
  let ?cn = "snd (open_channels 2 Open_connection)"
  have cn: "?cn = Open_connection\<lparr>cn_registry := \<lparr>rg_channels = [(1, newChannel 1), (2, newChannel 2)], rg_sequence = 2\<rparr>\<rparr>"
    by (simp add: numeral_2_eq_2 Open_connection_def conn_Channel_def registry_next_def new_registry_def
        registry_add_def)
  have "\<exists>es cn'. demux_all ?fs ?cn = Some (es, cn')"
    unfolding cn
    by (simp add: demux_def dispatch0_def dispatchN_def registry_get_def registry_after_def registry_add_def
        channel_recv_def recv_frame_def newChannel_def newAssembly_def has_content_def dispatch_def
        send_reply_def newDelivery_def Let_def consumers_send_def makeConsumers_def)
  then obtain es cn' where d: "demux_all ?fs ?cn = Some (es, cn')" by blast
  have "\<exists>ch'. channel_recvs (filter (\<lambda>f. frame_channel f = 1) ?fs) (newChannel 1) = Some ([], ch') \<and> \<not> ch_down ch'"
    by (simp add: channel_recv_def recv_frame_def newChannel_def newAssembly_def has_content_def dispatch_def
        newDelivery_def Let_def consumers_send_def makeConsumers_def)
  then obtain ch' where c: "channel_recvs (filter (\<lambda>f. frame_channel f = 1) ?fs) (newChannel 1) = Some ([], ch')"
    "\<not> ch_down ch'" by blast
  have "registry_get 1 (cn_registry ?cn) = Some (newChannel 1)" unfolding cn by (simp add: registry_get_def)
  from demux_refines_channels [OF d _ open_channels_inv [OF Open_connection_inv] _ this c]
  have "registry_get 1 (cn_registry cn') = Some ch' \<and> channel_effects 1 es = []" by simp
  with d show ?thesis by blast
qed

text \<open>
  C11: \<open>closeWith\<close> from the reading goroutine never returns by itself. Once a frame led to it, the
  goroutine waits for a reply only it could read: whatever the peer sends, the reply
  included, and whatever calls begin, nothing more is read, the connection is not shut
  down and no listener hears of it, until a write fails. And once it waits to
  hand over a reply nobody called for, not even the shutdown frees it. The same holds once it
  waits to pass on a deadline and no heartbeater runs or is started, as after a handshake
  that fails: the connection can then be shut down, and the goroutine stays.
\<close>

theorem reader_wedged:
  assumes "reader_run s evs s'"
  shows "(rs_pc s = InCloseWith e \<and> \<not> cn_down (rs_conn s) \<and> (\<forall>err. WriteFails err \<notin> set evs) \<longrightarrow>
       rs_pc s' = InCloseWith e \<and> rs_conn s' = rs_conn s \<and> rs_effects s' = rs_effects s \<and>
       prefix (rs_frames s) (rs_frames s')) \<and>
     (rs_pc s = PuttingRpc c \<and> c \<notin> rs_awaiting s \<and> CallBegins c \<notin> set evs \<longrightarrow>
       rs_pc s' = PuttingRpc c \<and> prefix (rs_frames s) (rs_frames s')) \<and>
     (rs_pc s = PuttingDeadline \<and> \<not> rs_heartbeater s \<and> HeartbeaterStarts \<notin> set evs \<and>
       chan_cap (rs_deadlines s) \<le> length (chan_buf (rs_deadlines s)) \<longrightarrow>
       rs_pc s' = PuttingDeadline \<and> prefix (rs_frames s) (rs_frames s'))"
proof (rule conjI [OF impI conjI [OF impI impI]])
  assume "rs_pc s = InCloseWith e \<and> \<not> cn_down (rs_conn s) \<and> (\<forall>err. WriteFails err \<notin> set evs)"
  then show "rs_pc s' = InCloseWith e \<and> rs_conn s' = rs_conn s \<and> rs_effects s' = rs_effects s \<and>
      prefix (rs_frames s) (rs_frames s')"
    using assms by (intro closeWith_stuck) auto
next
  assume "rs_pc s = PuttingRpc c \<and> c \<notin> rs_awaiting s \<and> CallBegins c \<notin> set evs"
  then show "rs_pc s' = PuttingRpc c \<and> prefix (rs_frames s) (rs_frames s')"
    using assms by (intro rpc_stuck) auto
next
  assume "rs_pc s = PuttingDeadline \<and> \<not> rs_heartbeater s \<and> HeartbeaterStarts \<notin> set evs \<and>
      chan_cap (rs_deadlines s) \<le> length (chan_buf (rs_deadlines s))"
  then show "rs_pc s' = PuttingDeadline \<and> prefix (rs_frames s) (rs_frames s')"
    using assms by (intro deadline_stuck) auto
qed

theorem reader_wedged_witness:
  "\<exists>s s'. reader_run ((start_reader False Open_connection)\<lparr>rs_frames := [BodyFrame 0 [1]]\<rparr>) [ReadOne] s \<and>
     reader_run s [FrameArrives (MethodFrame 0 10 51 (Some (MConnection ConnectionCloseOk)))] s' \<and>
     rs_pc s' = InCloseWith ErrUnexpectedFrame \<and> \<not> cn_down (rs_conn s')"
proof -
  let ?start = "(start_reader False Open_connection)\<lparr>rs_frames := [BodyFrame 0 [1]]\<rparr>"
  let ?close = "[WriteFrame (MethodFrame 0 0 0 (Some (MConnection (ConnectionClose
      (of_int (Code ErrUnexpectedFrame)) (Reason ErrUnexpectedFrame) 0 0))))]"
  let ?s = "?start\<lparr>rs_frames := [], rs_pc := InCloseWith ErrUnexpectedFrame, rs_conn := Open_connection, rs_effects := ?close\<rparr>"
  let ?ok = "MethodFrame 0 10 51 (Some (MConnection ConnectionCloseOk))"
  have "reader_step ?start ReadOne ?s"
    using read_one [of ?start "BodyFrame 0 [1]" "[]" ?close "InCloseWith ErrUnexpectedFrame" Open_connection]
    by (simp add: start_reader_def demux_def dispatch0_def closeWith_def Open_connection_def)
  then have run: "reader_run ?start [ReadOne] ?s" by (blast intro: reader_refl reader_trans)
  have "reader_run ?s [FrameArrives ?ok] (?s\<lparr>rs_frames := rs_frames ?s @ [?ok]\<rparr>)"
    by (rule reader_trans [OF frame_arrives reader_refl])
  then obtain s' where s': "reader_run ?s [FrameArrives ?ok] s'" by blast
  from reader_wedged [OF this, of ErrUnexpectedFrame 0]
  have "rs_pc s' = InCloseWith ErrUnexpectedFrame \<and> \<not> cn_down (rs_conn s')"
    by (simp add: Open_connection_def start_reader_def)
  with run s' show ?thesis by blast
qed

text \<open>
  The numbers of the channels: up to 65535 channels get the numbers from one on, all
  different and none 0; the next one gets the number 0, whose frames go to the connection,
  so that no frame ever reaches that channel.
\<close>

theorem channel_numbers:
  "fst (open_channels n Open_connection) = map of_nat [1..<Suc n] \<and>
   (n < 2 ^ 16 \<longrightarrow> distinct (fst (open_channels n Open_connection)) \<and> 0 \<notin> set (fst (open_channels n Open_connection))) \<and>
   last (fst (open_channels (2 ^ 16) Open_connection)) = 0 \<and>
   (demux f cn = Some (es, p, cn') \<and> \<not> closes_connection f \<longrightarrow>
     registry_get 0 (cn_registry cn') = registry_get 0 (cn_registry cn) \<and> channel_effects 0 es = [])"
proof -
  have ids: "fst (open_channels n Open_connection) = map of_nat [1..<Suc n]" for n
    using open_channels_ids [of Open_connection n] by (simp add: Open_connection_def new_registry_def)
  have small: "unat (of_nat k :: 16 word) = k" if "k < 2 ^ 16" for k
    using that by (simp add: unat_of_nat)
  have "distinct (map of_nat [1..<Suc n] :: 16 word list) \<and> 0 \<notin> set (map of_nat [1..<Suc n] :: 16 word list)"
    if "n < 2 ^ 16"
  proof -
    have inj: "inj_on (of_nat :: nat \<Rightarrow> 16 word) (set [1..<Suc n])"
    proof (rule inj_onI)
      fix x y assume x: "x \<in> set [1..<Suc n]" and y: "y \<in> set [1..<Suc n]"
        and eq: "(of_nat x :: 16 word) = of_nat y"
      have "x < 2 ^ 16" "y < 2 ^ 16" using x y that by (simp_all del: upt_Suc)
      with small [of x] small [of y] show "x = y" unfolding eq by linarith
    qed
    have pos: "(of_nat k :: 16 word) \<noteq> 0" if "k \<in> set [1..<Suc n]" for k
    proof
      assume "(of_nat k :: 16 word) = 0"
      moreover have "0 < k" "k < 2 ^ 16" using that \<open>n < 2 ^ 16\<close> by (simp_all del: upt_Suc)
      ultimately show False using small [of k] by simp
    qed
    have "distinct (map of_nat [1..<Suc n] :: 16 word list)"
      unfolding distinct_map by (rule conjI [OF distinct_upt inj])
    moreover have "0 \<notin> set (map of_nat [1..<Suc n] :: 16 word list)"
      unfolding set_map by (metis imageE pos)
    ultimately show ?thesis by (rule conjI)
  qed
  moreover have "last (fst (open_channels (2 ^ 16) Open_connection)) = 0"
    unfolding ids by (simp add: last_map)
  moreover have "registry_get 0 (cn_registry cn') = registry_get 0 (cn_registry cn) \<and> channel_effects 0 es = []"
    if "demux f cn = Some (es, p, cn')" "\<not> closes_connection f"
  proof (cases "frame_channel f = 0")
    case True
    with that dispatch0_other [of f cn es p cn'] show ?thesis by (simp add: demux_def)
  next
    case False
    with demux_other [OF that] show ?thesis by simp
  qed
  ultimately show ?thesis unfolding ids by blast
qed

theorem channel_numbers_witness:
  "fst (open_channels 3 Open_connection) = [1, 2, 3] \<and> distinct (fst (open_channels 3 Open_connection)) \<and>
   (\<exists>es p cn'. demux (HeartbeatFrame 0) Open_connection = Some (es, p, cn') \<and> channel_effects 0 es = [])"
proof -
  have "demux (HeartbeatFrame 0) Open_connection = Some ([], Reading, Open_connection)"
    by (simp add: demux_def dispatch0_def)
  with channel_numbers [of 3 "HeartbeatFrame 0" Open_connection "[]" Reading Open_connection] show ?thesis
    by (simp add: upt_rec)
qed

text \<open>
  A broker that answers the credentials with \<open>connection.close\<close>: the reader has passed on the
  deadline of the first frame, shuts the connection down at the second, and then
  stays at the send of the second deadline, for no heartbeater is ever started.
\<close>

theorem refused_handshake_leaks_reader:
  "\<exists>s. reader_run ((start_reader True Open_connection)
        \<lparr>rs_frames := [MethodFrame 0 10 10 (Some (MConnection (ConnectionStart 0 9 [] [] []))),
            MethodFrame 0 10 50 (Some (MConnection (ConnectionClose 403 [] 0 0)))], rs_awaiting := {0}\<rparr>)
      [ReadOne, RpcTaken, DeadlinePut, ReadOne] s \<and> cn_down (rs_conn s) \<and>
    (\<forall>evs s'. reader_run s evs s' \<and> HeartbeaterStarts \<notin> set evs \<longrightarrow> rs_pc s' = PuttingDeadline)"
proof -
  let ?start = "MConnection (ConnectionStart 0 9 [] [] [])"
  let ?close = "MethodFrame 0 10 50 (Some (MConnection (ConnectionClose 403 [] 0 0)))"
  let ?s = "(start_reader True Open_connection)\<lparr>rs_frames := [MethodFrame 0 10 10 (Some ?start), ?close], rs_awaiting := {0}\<rparr>"
  let ?a = "?s\<lparr>rs_frames := [?close], rs_pc := PuttingRpc 0, rs_effects := [PutConnRpc (Some ?start)]\<rparr>"
  let ?b = "?a\<lparr>rs_pc := PuttingDeadline, rs_awaiting := {}\<rparr>"
  let ?q = "\<lparr>chan_cap = 1, chan_buf = [()]\<rparr>"
  let ?c = "?b\<lparr>rs_pc := Reading, rs_deadlines := ?q\<rparr>"
  have a: "reader_step ?s ReadOne ?a"
    using read_one [of ?s "MethodFrame 0 10 10 (Some ?start)" "[?close]" "[PutConnRpc (Some ?start)]" "PuttingRpc 0" Open_connection]
    by (simp add: start_reader_def demux_def dispatch0_def Open_connection_def)
  have b: "reader_step ?a RpcTaken ?b"
    using rpc_taken [of ?a 0] by (simp add: start_reader_def after_demux_def)
  have c: "reader_step ?b DeadlinePut ?c"
    using deadline_put [of ?b ?q] by (simp add: start_reader_def chan_send_def make_chan_def)
  have "conn_inv (rs_conn ?c)" by (simp add: start_reader_def Open_connection_inv)
  then obtain es cn where sd: "conn_shutdown (Some (newError 403 [])) (rs_conn ?c) = Some (es, cn)" "cn_down cn"
    by (rule conn_shutdown_ok)
  then have "demux ?close (rs_conn ?c) = Some (WriteFrame (MethodFrame 0 0 0 (Some (MConnection ConnectionCloseOk))) # es, Reading, cn)"
    by (simp add: demux_def dispatch0_def)
  from read_one [OF _ _ this, of "[]"] obtain d where d: "reader_step ?c ReadOne d" and
    "rs_conn d = cn" "rs_pc d = PuttingDeadline" "rs_deadlines d = ?q" "\<not> rs_heartbeater d"
    by (auto simp: start_reader_def after_demux_def)
  moreover from a b c d have "reader_run ?s [ReadOne, RpcTaken, DeadlinePut, ReadOne] d"
    by (blast intro: reader_refl reader_trans)
  ultimately show ?thesis
    using sd(2) deadline_stuck [of d] by (intro exI [of _ d]) auto
qed

end
