(* ===== verification/Amqp_Handshake.thy ===== *)
theory Amqp_Handshake
  imports Amqp_Connection "HOL-Library.Extended_Nat"
begin

text \<open>
  How a connection begins (\<open>connection.go\<close>, \<open>auth.go\<close>): the calls on channel 0, the choice of a
  mechanism to authenticate with, the handshake with its tuning, and the goroutine
  that sends heartbeats. As for the channels, the connection is the parameter \<open>send\<close>
  and what a call receives is a parameter of type \<open>reply\<close>.
\<close>


section \<open>Authentication\<close>

text \<open>The interface \<open>Authentication\<close> is the record of what its two methods return.\<close>

record Authentication =
  Mechanism :: bytes
  Response :: bytes

record PlainAuth =
  Username :: bytes
  Password :: bytes

definition plain_Mechanism :: "PlainAuth \<Rightarrow> bytes" where
  "plain_Mechanism me = ascii ''PLAIN''"

definition plain_Response :: "PlainAuth \<Rightarrow> bytes" where
  "plain_Response me = [0] @ Username me @ [0] @ Password me"

definition plain_Authentication :: "PlainAuth \<Rightarrow> Authentication" where
  "plain_Authentication me = \<lparr>Mechanism = plain_Mechanism me, Response = plain_Response me\<rparr>"

fun supports :: "bytes \<Rightarrow> bytes list \<Rightarrow> bool" where
  "supports m [] = False"
| "supports m (mech # mechs) = (if m = mech then True else supports m mechs)"

fun pickSASLMechanism :: "Authentication list \<Rightarrow> bytes list \<Rightarrow> Authentication option" where
  "pickSASLMechanism [] serverMechanisms = None"
| "pickSASLMechanism (auth # client) serverMechanisms =
     (if supports (Mechanism auth) serverMechanisms then Some auth
      else pickSASLMechanism client serverMechanisms)"

lemma supports_iff: "supports m mechs \<longleftrightarrow> m \<in> set mechs"
  by (induction mechs) auto

lemma pickSASLMechanism_find:
  "pickSASLMechanism client mechs = find (\<lambda>a. Mechanism a \<in> set mechs) client"
  by (induction client) (simp_all add: supports_iff)


section \<open>Tuning\<close>

definition pick :: "int \<Rightarrow> int \<Rightarrow> int" where
  "pick client server =
     (if client = 0 \<or> server = 0 then (if client > server then client else server)
      else (if client > server then server else client))"

record Config =
  SASL :: "Authentication list option"
  Vhost :: bytes
  Channels :: int
  FrameSize :: int
  Heartbeat :: duration
  Properties :: table

text \<open>
  What the handshake stores in the connection; \<open>hs_heartbeater\<close> is the interval of
  the goroutine it starts.
\<close>

record handshake =
  hs_Config :: Config
  hs_Major :: int
  hs_Minor :: int
  hs_Properties :: table
  hs_heartbeater :: "duration option"


section \<open>Calls on channel 0\<close>

text \<open>\<open>send\<close> on the connection, with what it tells the other goroutines.\<close>

datatype send_event = ShutdownSpawned Error | SentAt instant

definition conn_send ::
    "('e, 'w) conn \<Rightarrow> ('e \<Rightarrow> bytes) \<Rightarrow> bool \<Rightarrow> instant \<Rightarrow> frame \<Rightarrow> 'w \<Rightarrow> 'e option \<times> send_event list \<times> 'w" where
  "conn_send put errText heartbeaterWaits now f w =
     (case put f w of
        (Some err, w) \<Rightarrow>
          (Some err, [ShutdownSpawned \<lparr>Code = 501, Reason = errText err, Server = False, Recover = False\<rparr>], w)
      | (None, w) \<Rightarrow> (None, if heartbeaterWaits then [SentAt now] else [], w))"

definition conn_call ::
    "('e, 'c) conn \<Rightarrow> reply \<Rightarrow> message option \<Rightarrow> (16 word \<times> 16 word) list \<Rightarrow> 'c \<Rightarrow>
     ('e call_error + message) \<times> 'c" where
  "conn_call send rp req res c =
     (case (case req of Some m \<Rightarrow> send (MethodFrame 0 0 0 (Some m)) c | None \<Rightarrow> (None, c)) of
        (Some err, c) \<Rightarrow> (Inl (SendError (SendFailed err)), c)
      | (None, c) \<Rightarrow>
          (case rp of
             OnErrors err \<Rightarrow> Inl (PeerError err)
           | OnRpc (Some msg) \<Rightarrow> if message_id msg \<in> set res then Inr msg else Inl ErrCommandInvalid
           | OnRpc None \<Rightarrow> Inl ErrCommandInvalid, c))"

text \<open>\<open>Close\<close> calls and then shuts the connection down.\<close>

definition conn_Close ::
    "('e, 'c) conn \<Rightarrow> reply \<Rightarrow> connection \<Rightarrow> 'c \<Rightarrow>
     ((('e call_error + message) \<times> 'c) \<times> conn_effect list \<times> connection) option" where
  "conn_Close send rp cn c =
     map_option (Pair (conn_call send rp
         (Some (MConnection (ConnectionClose replySuccess (ascii ''kthxbai'') 0 0))) [(10, 51)] c))
       (conn_shutdown None cn)"

fun isCapable :: "table \<Rightarrow> bytes \<Rightarrow> bool" where
  "isCapable properties featureName =
     (case map_of properties (ascii ''capabilities'') of
        Some (FdTable capabilities) \<Rightarrow>
          (case map_of capabilities featureName of Some (FdBool b) \<Rightarrow> b | _ \<Rightarrow> False)
      | _ \<Rightarrow> False)"


section \<open>The handshake\<close>

datatype 'e open_error =
    OpenSend 'e | OpenCall "'e call_error" | ErrSASL | ErrCredentials | ErrVhost

type_synonym ('e, 'c) opened = "'e open_error option \<times> handshake \<times> 'c"

definition openVhost :: "('e, 'c) conn \<Rightarrow> reply \<Rightarrow> Config \<Rightarrow> handshake \<Rightarrow> 'c \<Rightarrow> ('e, 'c) opened" where
  "openVhost send rpOpen config me c =
     (case conn_call send rpOpen (Some (MConnection (ConnectionOpen (Vhost config) [] False))) [(10, 41)] c of
        (Inl err, c) \<Rightarrow> (Some ErrVhost, me, c)
      | (Inr _, c) \<Rightarrow> (None, me\<lparr>hs_Config := (hs_Config me)\<lparr>Vhost := Vhost config\<rparr>\<rparr>, c))"

definition defaultProduct :: bytes where
  "defaultProduct = ascii ''https://github.com/streadway/amqp''"

definition defaultVersion :: bytes where
  "defaultVersion = [206, 178]"

definition client_properties :: "table \<Rightarrow> table" where
  "client_properties t =
     AList.update (ascii ''capabilities'')
       (FdTable [(ascii ''connection.blocked'', FdBool True), (ascii ''consumer_cancel_notify'', FdBool True)])
       (if length t = 0
        then [(ascii ''product'', FdString defaultProduct), (ascii ''version'', FdString defaultVersion)] else t)"

text \<open>The fields of the replies; a reply of another type leaves the zero value, and does not get here.\<close>

fun start_fields :: "message \<Rightarrow> byte \<times> byte \<times> table \<times> bytes" where
  "start_fields (MConnection (ConnectionStart major minor properties mechanisms _)) =
     (major, minor, properties, mechanisms)"
| "start_fields _ = (0, 0, [], [])"

fun tune_fields :: "message \<Rightarrow> 16 word \<times> 32 word \<times> 16 word" where
  "tune_fields (MConnection (ConnectionTune channelMax frameMax heartbeat)) = (channelMax, frameMax, heartbeat)"
| "tune_fields _ = (0, 0, 0)"

definition tuned :: "Config \<Rightarrow> message \<Rightarrow> Config \<Rightarrow> Config" where
  "tuned config tune mine =
     (let (channelMax, frameMax, heartbeat) = tune_fields tune in
      mine\<lparr>Channels := pick (Channels config) (uint channelMax),
           FrameSize := pick (FrameSize config) (uint frameMax),
           Heartbeat := wrap64 (second * pick (go_div (Heartbeat config) second) (uint heartbeat))\<rparr>)"

definition tune_ok :: "Config \<Rightarrow> message" where
  "tune_ok mine = MConnection (ConnectionTuneOk (of_int (Channels mine)) (of_int (FrameSize mine))
     (of_int (go_div (Heartbeat mine) second)))"

definition openTune ::
    "('e, 'c) conn \<Rightarrow> reply \<Rightarrow> reply \<Rightarrow> Config \<Rightarrow> Authentication \<Rightarrow> handshake \<Rightarrow> 'c \<Rightarrow> ('e, 'c) opened" where
  "openTune send rpTune rpOpen config auth me c =
     (let config = config\<lparr>Properties := client_properties (Properties config)\<rparr> in
      case conn_call send rpTune
        (Some (MConnection (ConnectionStartOk (Properties config) (Mechanism auth) (Response auth) [])))
        [(10, 30)] c of
        (Inl err, c) \<Rightarrow> (Some ErrCredentials, me, c)
      | (Inr tune, c) \<Rightarrow>
          (let mine = tuned config tune (hs_Config me);
               me = me\<lparr>hs_Config := mine, hs_heartbeater := Some (Heartbeat mine)\<rparr>
           in case send (MethodFrame 0 0 0 (Some (tune_ok mine))) c of
                (Some err, c) \<Rightarrow> (Some (OpenSend err), me, c)
              | (None, c) \<Rightarrow> openVhost send rpOpen config me c))"

definition openStart ::
    "('e, 'c) conn \<Rightarrow> reply \<Rightarrow> reply \<Rightarrow> reply \<Rightarrow> Config \<Rightarrow> handshake \<Rightarrow> 'c \<Rightarrow> ('e, 'c) opened" where
  "openStart send rpStart rpTune rpOpen config me c =
     (case conn_call send rpStart None [(10, 10)] c of
        (Inl err, c) \<Rightarrow> (Some (OpenCall err), me, c)
      | (Inr start, c) \<Rightarrow>
          (let (major, minor, properties, mechanisms) = start_fields start;
               me = me\<lparr>hs_Major := uint major, hs_Minor := uint minor, hs_Properties := properties\<rparr>
           in case pickSASLMechanism (case SASL config of None \<Rightarrow> [] | Some as \<Rightarrow> as) (Split 32 mechanisms) of
                None \<Rightarrow> (Some ErrSASL, me, c)
              | Some auth \<Rightarrow>
                  openTune send rpTune rpOpen config auth
                    (me\<lparr>hs_Config := (hs_Config me)\<lparr>SASL := Some [auth]\<rparr>\<rparr>) c))"

definition new_handshake :: handshake where
  "new_handshake =
     \<lparr>hs_Config = \<lparr>SASL = None, Vhost = [], Channels = 0, FrameSize = 0, Heartbeat = 0, Properties = []\<rparr>,
      hs_Major = 0, hs_Minor = 0, hs_Properties = [], hs_heartbeater = None\<rparr>"

definition conn_open ::
    "('c \<Rightarrow> 'e option \<times> 'c) \<Rightarrow> ('e, 'c) conn \<Rightarrow> reply \<Rightarrow> reply \<Rightarrow> reply \<Rightarrow> Config \<Rightarrow> 'c \<Rightarrow> ('e, 'c) opened" where
  "conn_open sendHeader send rpStart rpTune rpOpen config c =
     (case sendHeader c of
        (Some err, c) \<Rightarrow> (Some (OpenSend err), new_handshake, c)
      | (None, c) \<Rightarrow> openStart send rpStart rpTune rpOpen config new_handshake c)"


section \<open>Heartbeats\<close>

text \<open>
  One iteration of the loop of \<open>heartbeater\<close>. The case of a tick arises only for a positive
  interval, since \<open>sendTicks\<close> is a nil channel otherwise. \<open>None\<close> ends the goroutine. The
  heartbeat it sends itself finds nobody that receives from \<open>sends\<close>, so that \<open>lastSent\<close> stays.
\<close>

datatype hb_event = SendSeen instant | SendsClosed | HbTick instant | DeadlineReset instant | HbDone

datatype hb_effect = SendHeartbeat | SetReadDeadline instant

definition maxServerHeartbeatsInFlight :: int where
  "maxServerHeartbeatsInFlight = 3"

definition heartbeater_iteration ::
    "duration \<Rightarrow> bool \<Rightarrow> hb_event \<Rightarrow> instant \<Rightarrow> hb_effect list \<times> instant option" where
  "heartbeater_iteration interval sendOk ev lastSent =
     (case ev of
        SendSeen t \<Rightarrow> ([], Some t)
      | SendsClosed \<Rightarrow> ([], None)
      | HbTick t \<Rightarrow>
          if time_sub t lastSent > wrap64 (interval - second)
          then ([SendHeartbeat], if sendOk then Some lastSent else None)
          else ([], Some lastSent)
      | DeadlineReset now \<Rightarrow>
          (if interval > 0 then [SetReadDeadline (now + wrap64 (maxServerHeartbeatsInFlight * interval))] else [],
           Some lastSent)
      | HbDone \<Rightarrow> ([], None))"

section \<open>Tuned limits\<close>

text \<open>A limit of 0 is no limit.\<close>

definition limit_of :: "int \<Rightarrow> enat" where
  "limit_of n = (if n = 0 then \<infinity> else enat (nat n))"

lemma limit_of_pick: "0 \<le> a \<Longrightarrow> 0 \<le> b \<Longrightarrow> limit_of (pick a b) = min (limit_of a) (limit_of b)"
  by (auto simp: limit_of_def pick_def min_def)

lemma pick_bounds: "0 \<le> a \<Longrightarrow> 0 \<le> b \<Longrightarrow> 0 \<le> pick a b \<and> pick a b \<le> max a b"
  by (auto simp: pick_def)

lemma tuned_Properties [simp]: "tuned (config\<lparr>Properties := p\<rparr>) tune mine = tuned config tune mine"
  by (simp add: tuned_def)

lemma uint_bounds16: "0 \<le> uint (w :: 16 word)" "uint (w :: 16 word) < 2 ^ 16"
  using uint_bounded [of w] by simp_all

lemma uint_bounds32: "0 \<le> uint (w :: 32 word)" "uint (w :: 32 word) < 2 ^ 32"
  using uint_bounded [of w] by simp_all

lemma uint_of_int: "0 \<le> n \<Longrightarrow> n < 2 ^ LENGTH('a) \<Longrightarrow> uint (of_int n :: 'a::len word) = n"
  by (simp add: uint_word_of_int)


section \<open>The outcome of a call\<close>

text \<open>A connection that never fails, as the list of the frames it was given.\<close>

definition log_send :: "(string, frame list) conn" where
  "log_send f fs = (None, fs @ [f])"

definition reply_result :: "reply \<Rightarrow> (16 word \<times> 16 word) list \<Rightarrow> 'e call_error + message" where
  "reply_result rp res =
     (case rp of
        OnErrors err \<Rightarrow> Inl (PeerError err)
      | OnRpc (Some msg) \<Rightarrow> if message_id msg \<in> set res then Inr msg else Inl ErrCommandInvalid
      | OnRpc None \<Rightarrow> Inl ErrCommandInvalid)"

lemma conn_call_log:
  "conn_call log_send rp (Some m) res fs = (reply_result rp res, fs @ [MethodFrame 0 0 0 (Some m)])"
  "conn_call log_send rp None res fs = (reply_result rp res, fs)"
  by (simp_all add: conn_call_def log_send_def reply_result_def)

lemma reply_result_Inr: "reply_result rp [i] = Inr m \<longleftrightarrow> rp = OnRpc (Some m) \<and> message_id m = i"
  by (auto simp: reply_result_def split: reply.splits option.splits if_splits)

lemma message_id_connection:
  "message_id m = (10, 10) \<longleftrightarrow> (\<exists>a b c d e. m = MConnection (ConnectionStart a b c d e))"
  "message_id m = (10, 30) \<longleftrightarrow> (\<exists>a b c. m = MConnection (ConnectionTune a b c))"
  "message_id m = (10, 41) \<longleftrightarrow> (\<exists>a. m = MConnection (ConnectionOpenOk a))"
proof -
  have "fst (message_id m) = 10 \<longleftrightarrow> (\<exists>c. m = MConnection c)"
    by (cases m; rename_tac x; case_tac x) simp_all
  moreover have "connection_id c = (10, 10) \<longleftrightarrow> (\<exists>a b p d e. c = ConnectionStart a b p d e)"
    "connection_id c = (10, 30) \<longleftrightarrow> (\<exists>a b h. c = ConnectionTune a b h)"
    "connection_id c = (10, 41) \<longleftrightarrow> (\<exists>a. c = ConnectionOpenOk a)" for c
    by (cases c; simp)+
  ultimately show "message_id m = (10, 10) \<longleftrightarrow> (\<exists>a b c d e. m = MConnection (ConnectionStart a b c d e))"
    "message_id m = (10, 30) \<longleftrightarrow> (\<exists>a b c. m = MConnection (ConnectionTune a b c))"
    "message_id m = (10, 41) \<longleftrightarrow> (\<exists>a. m = MConnection (ConnectionOpenOk a))"
    by (metis fst_conv message_id.simps)+
qed

section \<open>Gaps between the frames written\<close>

text \<open>
  A timeline of the frames other goroutines write, each seen by the heartbeater or not, and
  of its ticks. \<open>hb_times\<close> are the instants at which a frame is written, its heartbeats
  included; \<open>hb_timed\<close> says that time does not go back and no tick is missed.
\<close>

datatype timeline_event = Written instant bool | TickAt instant

fun hb_times :: "duration \<Rightarrow> instant \<Rightarrow> timeline_event list \<Rightarrow> instant list" where
  "hb_times interval lastSent [] = []"
| "hb_times interval lastSent (Written t seen # evs) =
     t # hb_times interval
       (if seen then (case heartbeater_iteration interval True (SendSeen t) lastSent of
            (_, Some l) \<Rightarrow> l | (_, None) \<Rightarrow> lastSent) else lastSent) evs"
| "hb_times interval lastSent (TickAt t # evs) =
     (case heartbeater_iteration interval True (HbTick t) lastSent of
        (es, Some l) \<Rightarrow> (if SendHeartbeat \<in> set es then [t] else []) @ hb_times interval l evs
      | (es, None) \<Rightarrow> if SendHeartbeat \<in> set es then [t] else [])"

fun hb_timed :: "duration \<Rightarrow> instant \<Rightarrow> instant \<Rightarrow> timeline_event list \<Rightarrow> bool" where
  "hb_timed interval now due [] \<longleftrightarrow> True"
| "hb_timed interval now due (Written t seen # evs) \<longleftrightarrow> now \<le> t \<and> t \<le> due \<and> hb_timed interval t due evs"
| "hb_timed interval now due (TickAt t # evs) \<longleftrightarrow> t = due \<and> hb_timed interval t (due + interval) evs"

text \<open>From \<open>prev\<close> on no two neighbours are further apart than \<open>gap\<close>.\<close>

fun gaps_within :: "duration \<Rightarrow> instant \<Rightarrow> instant list \<Rightarrow> bool" where
  "gaps_within gap prev [] \<longleftrightarrow> True"
| "gaps_within gap prev (t # ts) \<longleftrightarrow> t - prev \<le> gap \<and> gaps_within gap t ts"

lemma tick_sends:
  assumes "second \<le> interval" and "interval < 2 ^ 62"
  shows "time_sub t l > wrap64 (interval - second) \<longleftrightarrow> t - l > interval - second"
proof -
  have "wrap64 (interval - second) = interval - second"
    using assms by (intro wrap64_id) (simp add: in_int64_def)
  then show ?thesis using assms by (auto simp: time_sub_def max_def min_def)
qed

lemma hb_times_gaps:
  assumes "second \<le> interval" and "interval < 2 ^ 62" and "hb_timed interval now due evs"
    and "lastSent \<le> prev" and "prev \<le> now" and "now \<le> due" and "due - prev \<le> 2 * interval - second"
  shows "gaps_within (2 * interval - second) prev (hb_times interval lastSent evs) \<and>
    due + interval * int (length (filter (\<lambda>e. \<exists>t. e = TickAt t) evs)) -
      last (prev # hb_times interval lastSent evs) \<le> 2 * interval - second"
  using assms(3-7)
proof (induction evs arbitrary: now due lastSent prev)
  case (Cons e evs)
  show ?case
  proof (cases e)
    case (Written t seen)
    with Cons.prems have "now \<le> t" "t \<le> due" and run: "hb_timed interval t due evs" by simp_all
    with Cons.prems have "(if seen then t else lastSent) \<le> t" "due - t \<le> 2 * interval - second" by auto
    from Cons.IH [OF run this(1) order_refl \<open>t \<le> due\<close> this(2)] Written \<open>t \<le> due\<close> Cons.prems(5) show ?thesis
      by (cases seen) (simp_all add: heartbeater_iteration_def)
  next
    case (TickAt t)
    with Cons.prems have t: "t = due" and run: "hb_timed interval due (due + interval) evs" by auto
    note sends = tick_sends [OF assms(1,2), of due lastSent]
    show ?thesis
    proof (cases "due - lastSent > interval - second")
      case True
      from Cons.IH [OF run _ order_refl, of lastSent] Cons.prems assms(1) True sends TickAt t show ?thesis
        by (simp add: heartbeater_iteration_def algebra_simps)
    next
      case False
      from Cons.IH [OF run Cons.prems(2)] Cons.prems assms(1) False sends TickAt t show ?thesis
        by (simp add: heartbeater_iteration_def algebra_simps)
    qed
  qed
qed simp

section \<open>The stages of the handshake\<close>

lemma handshake_replies:
  "reply_result (OnRpc (Some (MConnection (ConnectionStart ma mi ps ms ls)))) [(10, 10)] =
    Inr (MConnection (ConnectionStart ma mi ps ms ls))"
  "reply_result (OnRpc (Some (MConnection (ConnectionTune a b c)))) [(10, 30)] = Inr (MConnection (ConnectionTune a b c))"
  "reply_result (OnRpc (Some (MConnection (ConnectionOpenOk k)))) [(10, 41)] = Inr (MConnection (ConnectionOpenOk k))"
  by (simp_all add: reply_result_def)

lemmas handshake_defs = conn_open_def openStart_def openTune_def openVhost_def conn_call_log Let_def
  pickSASLMechanism_find log_send_def

abbreviation handshake_frames :: "Config \<Rightarrow> Authentication \<Rightarrow> Config \<Rightarrow> frame list" where
  "handshake_frames config auth mine \<equiv> map (\<lambda>m. MethodFrame 0 0 0 (Some (MConnection m)))
     [ConnectionStartOk (client_properties (Properties config)) (Mechanism auth) (Response auth) [],
      ConnectionTuneOk (of_int (Channels mine)) (of_int (FrameSize mine)) (of_int (go_div (Heartbeat mine) second)),
      ConnectionOpen (Vhost config) [] False]"

text \<open>After \<open>start\<close> and the choice of a mechanism: the broker tunes or not, and opens the vhost or not.\<close>

lemma handshake_tuned:
  assumes run: "conn_open (\<lambda>fs. (None, fs)) log_send rpStart rpTune rpOpen config [] = (r, me, fs)"
    and st: "rpStart = OnRpc (Some (MConnection (ConnectionStart ma mi ps ms ls)))"
    and auth: "find (\<lambda>a. Mechanism a \<in> set (Split 32 ms)) (case SASL config of None \<Rightarrow> [] | Some as \<Rightarrow> as) = Some auth"
    and tn: "rpTune = OnRpc (Some (MConnection (ConnectionTune a b c)))"
  shows "r = (if \<exists>k. rpOpen = OnRpc (Some (MConnection (ConnectionOpenOk k))) then None else Some ErrVhost) \<and>
     fs = handshake_frames config auth (hs_Config me) \<and> SASL (hs_Config me) = Some [auth] \<and>
     hs_heartbeater me = Some (Heartbeat (hs_Config me)) \<and>
     Channels (hs_Config me) = pick (Channels config) (uint a) \<and>
     FrameSize (hs_Config me) = pick (FrameSize config) (uint b) \<and>
     Heartbeat (hs_Config me) = wrap64 (second * pick (go_div (Heartbeat config) second) (uint c))"
proof (cases "reply_result rpOpen [(10, 41)] :: string call_error + message")
  case (Inl e)
  then have "\<nexists>k. rpOpen = OnRpc (Some (MConnection (ConnectionOpenOk k)))" by (auto simp: handshake_replies)
  then show ?thesis
    using run auth Inl by (simp add: handshake_defs st tn handshake_replies tune_ok_def tuned_def)
      (auto simp: new_handshake_def)
next
  case (Inr ok)
  then obtain k where "rpOpen = OnRpc (Some (MConnection (ConnectionOpenOk k)))"
    by (auto simp: reply_result_Inr message_id_connection)
  then show ?thesis
    using run auth by (simp add: handshake_defs st tn handshake_replies tune_ok_def tuned_def)
      (auto simp: new_handshake_def)
qed

text \<open>The outcomes, by how far the broker keeps to the script.\<close>

lemma handshake_outcomes:
  assumes run: "conn_open (\<lambda>fs. (None, fs)) log_send rpStart rpTune rpOpen config [] = (r, me, fs)"
  defines "client \<equiv> (case SASL config of None \<Rightarrow> [] | Some as \<Rightarrow> as)"
  obtains (start) e where "\<nexists>ma mi ps ms ls. rpStart = OnRpc (Some (MConnection (ConnectionStart ma mi ps ms ls)))"
      "r = Some (OpenCall e)" "fs = []" "hs_heartbeater me = None"
  | (mechanism) ma mi ps ms ls where "rpStart = OnRpc (Some (MConnection (ConnectionStart ma mi ps ms ls)))"
      "find (\<lambda>a. Mechanism a \<in> set (Split 32 ms)) client = None" "r = Some ErrSASL" "fs = []" "hs_heartbeater me = None"
  | (tune) ma mi ps ms ls auth where "rpStart = OnRpc (Some (MConnection (ConnectionStart ma mi ps ms ls)))"
      "find (\<lambda>a. Mechanism a \<in> set (Split 32 ms)) client = Some auth"
      "\<nexists>a b c. rpTune = OnRpc (Some (MConnection (ConnectionTune a b c)))" "r = Some ErrCredentials"
      "fs = take 1 (handshake_frames config auth (hs_Config me))" "hs_heartbeater me = None"
  | (tuned) ma mi ps ms ls auth a b c where "rpStart = OnRpc (Some (MConnection (ConnectionStart ma mi ps ms ls)))"
      "find (\<lambda>a. Mechanism a \<in> set (Split 32 ms)) client = Some auth"
      "rpTune = OnRpc (Some (MConnection (ConnectionTune a b c)))"
proof (cases "reply_result rpStart [(10, 10)] :: string call_error + message")
  case (Inl e)
  then have "\<nexists>ma mi ps ms ls. rpStart = OnRpc (Some (MConnection (ConnectionStart ma mi ps ms ls)))"
    by (auto simp: handshake_replies)
  then show ?thesis using run Inl by (intro start [of e]) (auto simp: handshake_defs new_handshake_def)
next
  case (Inr start_msg)
  then obtain ma mi ps ms ls where st: "rpStart = OnRpc (Some (MConnection (ConnectionStart ma mi ps ms ls)))"
    by (auto simp: reply_result_Inr message_id_connection)
  show ?thesis
  proof (cases "find (\<lambda>a. Mechanism a \<in> set (Split 32 ms)) client")
    case None
    then show ?thesis using run
      by (intro mechanism [OF st]) (auto simp: handshake_defs st handshake_replies new_handshake_def client_def)
  next
    case (Some auth)
    show ?thesis
    proof (cases "reply_result rpTune [(10, 30)] :: string call_error + message")
      case (Inl e)
      then have "\<nexists>a b c. rpTune = OnRpc (Some (MConnection (ConnectionTune a b c)))" by (auto simp: handshake_replies)
      then show ?thesis using run Some Inl
        by (intro tune [OF st Some]) (auto simp: handshake_defs st handshake_replies new_handshake_def client_def)
    next
      case (Inr tune_msg)
      then obtain a b c where "rpTune = OnRpc (Some (MConnection (ConnectionTune a b c)))"
        by (auto simp: reply_result_Inr message_id_connection)
      then show ?thesis by (rule tuned [OF st Some])
    qed
  qed
qed

section \<open>Properties\<close>



text \<open>
  The tuning. For a configuration within the range of the wire the limits agreed on are the
  tighter ones of client and broker, where 0 is no limit, and \<open>tune-ok\<close> tells the
  broker exactly the values the client goes on with.
\<close>

theorem tuning_agrees:
  fixes config mine :: Config and cm hb :: "16 word" and fm :: "32 word"
  assumes "0 \<le> Channels config" and "Channels config < 2 ^ 16" and "0 \<le> FrameSize config" and "FrameSize config < 2 ^ 32"
    and "0 \<le> Heartbeat config" and "Heartbeat config < 2 ^ 16 * second"
  defines "t \<equiv> tuned config (MConnection (ConnectionTune cm fm hb)) mine"
  shows "limit_of (Channels t) = min (limit_of (Channels config)) (limit_of (uint cm)) \<and>
     limit_of (FrameSize t) = min (limit_of (FrameSize config)) (limit_of (uint fm)) \<and>
     limit_of (Heartbeat t div second) = min (limit_of (Heartbeat config div second)) (limit_of (uint hb)) \<and>
     (\<exists>a b c. tune_ok t = MConnection (ConnectionTuneOk a b c) \<and>
       uint a = Channels t \<and> uint b = FrameSize t \<and> uint c * second = Heartbeat t)"
proof -
  let ?s = "pick (Heartbeat config div second) (uint hb)"
  have s: "0 \<le> ?s \<and> ?s < 2 ^ 16"
  proof -
    have "0 \<le> Heartbeat config div second" "Heartbeat config div second < 2 ^ 16"
      using assms(5,6) by (simp_all add: div_less_iff_less_mult)
    then show ?thesis
      using pick_bounds [of "Heartbeat config div second" "uint hb"] uint_bounds16 [of hb] by (simp add: le_max_iff_disj) linarith
  qed
  then have hbt: "Heartbeat t = second * ?s"
    using assms(5) by (simp add: t_def tuned_def go_div_nonneg in_int64_def)
  have c: "0 \<le> Channels t \<and> Channels t < 2 ^ 16"
    using pick_bounds [of "Channels config" "uint cm"] assms(1,2) uint_bounds16 [of cm] by (auto simp: t_def tuned_def)
  have f: "0 \<le> FrameSize t \<and> FrameSize t < 2 ^ 32"
    using pick_bounds [of "FrameSize config" "uint fm"] assms(3,4) uint_bounds32 [of fm] by (auto simp: t_def tuned_def)
  have "tune_ok t = MConnection (ConnectionTuneOk (of_int (Channels t)) (of_int (FrameSize t)) (of_int ?s))"
    using s by (simp add: tune_ok_def hbt go_div_nonneg)
  moreover have "uint (of_int (Channels t) :: 16 word) = Channels t" using c by (intro uint_of_int) simp_all
  moreover have "uint (of_int (FrameSize t) :: 32 word) = FrameSize t" using f by (intro uint_of_int) simp_all
  moreover have "uint (of_int ?s :: 16 word) = ?s" using s by (intro uint_of_int) simp_all
  moreover have "limit_of (Channels t) = min (limit_of (Channels config)) (limit_of (uint cm))"
    using assms(1) by (simp add: t_def tuned_def limit_of_pick)
  moreover have "limit_of (FrameSize t) = min (limit_of (FrameSize config)) (limit_of (uint fm))"
    using assms(3) by (simp add: t_def tuned_def limit_of_pick)
  moreover have "limit_of (Heartbeat t div second) = min (limit_of (Heartbeat config div second)) (limit_of (uint hb))"
    using assms(5) by (simp add: hbt limit_of_pick)
  ultimately show ?thesis using hbt by (metis mult.commute)
qed

text \<open>A limit on the channels beyond the wire's range is announced to the broker as none.\<close>

lemma tuning_truncates:
  "tune_ok (tuned (config\<lparr>Channels := 65536, FrameSize := 0, Heartbeat := 0\<rparr>) (MConnection (ConnectionTune 0 131072 60)) mine) =
     MConnection (ConnectionTuneOk 0 131072 60)"
  by (simp add: tune_ok_def tuned_def pick_def go_div_def in_int64_def)

theorem tuning_agrees_witness:
  "\<exists>a b c. tune_ok (tuned ((hs_Config new_handshake)\<lparr>Heartbeat := 10 * second\<rparr>)
        (MConnection (ConnectionTune 2047 131072 60)) (hs_Config new_handshake)) =
      MConnection (ConnectionTuneOk a b c) \<and> uint a = 2047 \<and> uint b = 131072 \<and> uint c = 10"
  using tuning_agrees [of "(hs_Config new_handshake)\<lparr>Heartbeat := 10 * second\<rparr>" 2047 131072 60 "hs_Config new_handshake"]
  by (auto simp: new_handshake_def tuned_def pick_def go_div_def in_int64_def)

text \<open>
  A client that sets no frame size, as \<open>Dial\<close> does, splits its messages by the frame size of the
  broker alone: above 8 a body is sent in pieces, the last with the rest; at 8
  the loop over a body never ends; and below 8, also for 0, which
  stands for no limit, sending a body panics.
\<close>

theorem frame_size_of_the_broker:
  assumes "FrameSize config = 0" and "\<And>f c. fst (send f c) = None" and "getContent m = Some (p, b)" and "b \<noteq> []"
  shows "FrameSize (tuned config (MConnection (ConnectionTune cm fm hb)) mine) = uint fm \<and>
     (8 < uint fm \<longrightarrow>
       sendOpen send ch (FrameSize (tuned config (MConnection (ConnectionTune cm fm hb)) mine)) m c =
         Some (send_all send (content_frames ch (nat (uint fm - 8)) m) c)) \<and>
     (uint fm = 8 \<longrightarrow>
       sendOpen send ch (FrameSize (tuned config (MConnection (ConnectionTune cm fm hb)) mine)) m c = None) \<and>
     (uint fm < 8 \<longrightarrow> (\<exists>c'.
       sendOpen send ch (FrameSize (tuned config (MConnection (ConnectionTune cm fm hb)) mine)) m c = Some (SendPanic, c')))"
proof -
  have "pick 0 (uint fm) = uint fm" using uint_bounds32 [of fm] by (simp add: pick_def)
  with assms(1) have size: "FrameSize (tuned config (MConnection (ConnectionTune cm fm hb)) mine) = uint fm"
    by (simp add: tuned_def)
  show ?thesis
    unfolding size using sendOpen_no_room [OF assms(2,3,4)] sendOpen_content_frames [of "uint fm" send ch m c]
    by (simp add: frameHeaderSize_def)
qed

theorem frame_size_of_the_broker_witness:
  "\<exists>c'. sendOpen log_send 1 (FrameSize (tuned (hs_Config new_handshake) (MConnection (ConnectionTune 0 0 0)) (hs_Config new_handshake)))
     demo_publish [] = Some (SendPanic, c')"
proof -
  have "FrameSize (hs_Config new_handshake) = 0" by (simp add: new_handshake_def)
  moreover have "getContent demo_publish = Some (no_properties, [1, 2, 3, 4, 5])" by simp
  ultimately have "0 < (8::int) \<longrightarrow> ?thesis"
    using frame_size_of_the_broker [of "hs_Config new_handshake" log_send demo_publish no_properties "[1, 2, 3, 4, 5]"
        0 0 0 "hs_Config new_handshake" 1 "[]"] unfolding log_send_def unsigned_0 by fastforce
  then show ?thesis by simp
qed

text \<open>
  C18: how long the connection is silent. Whatever frames are written at whatever times, and
  whichever of them the heartbeater misses, two neighbouring frames, and the last frame
  and the next tick, are at most twice the tuned interval less a second apart. The bound is
  reached, which is more than the interval and a second as soon as the interval exceeds two seconds.
\<close>

theorem heartbeat_gap:
  assumes "second \<le> interval" and "interval < 2 ^ 62" and "hb_timed interval start (start + interval) evs"
  shows "gaps_within (2 * interval - second) start (hb_times interval start evs) \<and>
     start + interval + interval * int (length (filter (\<lambda>e. \<exists>t. e = TickAt t) evs)) -
       last (start # hb_times interval start evs) \<le> 2 * interval - second \<and>
     (let evs' = [Written (start + second) True, TickAt (start + interval), TickAt (start + 2 * interval)] in
       hb_timed interval start (start + interval) evs' \<and>
       hb_times interval start evs' = [start + second, start + second + (2 * interval - second)])"
proof -
  have "hb_times interval start
      [Written (start + second) True, TickAt (start + interval), TickAt (start + 2 * interval)] =
      [start + second, start + second + (2 * interval - second)]"
    using tick_sends [OF assms(1,2), of "start + interval" "start + second"]
      tick_sends [OF assms(1,2), of "start + 2 * interval" "start + second"] assms(1)
    by (simp add: heartbeater_iteration_def algebra_simps)
  moreover have "hb_timed interval start (start + interval)
      [Written (start + second) True, TickAt (start + interval), TickAt (start + 2 * interval)]"
    using assms(1) by simp
  ultimately show ?thesis
    using hb_times_gaps [OF assms, of start start] assms(1) by (simp del: hb_times.simps hb_timed.simps)
qed

theorem heartbeat_gap_witness:
  "gaps_within (19 * second) 0 (hb_times (10 * second) 0
     [TickAt (10 * second), Written (11 * second) False, TickAt (20 * second)]) \<and>
   hb_times (10 * second) 0 [Written second True, TickAt (10 * second), TickAt (20 * second)] = [second, 20 * second]"
  using heartbeat_gap [of "10 * second" 0 "[TickAt (10 * second), Written (11 * second) False, TickAt (20 * second)]"]
  by (simp del: hb_times.simps gaps_within.simps)

end
