(* ===== verification/Decimal.thy ===== *)
theory Decimal
  imports Prelude
begin

text \<open>
  Decimal numbers in text: \<open>ParseInt\<close>, \<open>ParseUint\<close> and \<open>FormatInt\<close> of the standard library, over octets,
  and that parsing undoes formatting.
\<close>


section \<open>Parsing and formatting\<close>

fun digits_value :: "nat \<Rightarrow> bytes \<Rightarrow> nat option" where
  "digits_value n [] = Some n"
| "digits_value n (c # cs) =
     (if 48 \<le> c \<and> c \<le> 57 then digits_value (10 * n + unat (c - 48)) cs else None)"

text \<open>
  \<open>strconv.ParseInt(s, 10, n)\<close>: an optional sign, digits, and a value of \<open>n\<close> bits;
  \<open>strconv.ParseUint(s, 10, 64)\<close>: digits without a sign.
\<close>

definition ParseInt :: "nat \<Rightarrow> bytes \<Rightarrow> int option" where
  "ParseInt bits s =
     (let neg = (s \<noteq> [] \<and> hd s = 45);
          ds = (if s \<noteq> [] \<and> (hd s = 43 \<or> hd s = 45) then tl s else s)
      in if ds = [] then None
         else case digits_value 0 ds of
           None \<Rightarrow> None
         | Some n \<Rightarrow>
             let v = (if neg then - int n else int n) in if - (2 ^ (bits - 1)) \<le> v \<and> v < 2 ^ (bits - 1) then Some v else None)"

definition ParseUint64 :: "bytes \<Rightarrow> nat option" where
  "ParseUint64 s =
     (if s = [] then None
      else case digits_value 0 s of None \<Rightarrow> None | Some n \<Rightarrow> if n < 2 ^ 64 then Some n else None)"

fun nat_digits :: "nat \<Rightarrow> bytes" where
  "nat_digits n = (if n < 10 then [48 + of_nat n] else nat_digits (n div 10) @ [48 + of_nat (n mod 10)])"

declare nat_digits.simps [simp del]

definition FormatInt :: "int \<Rightarrow> bytes" where
  "FormatInt i = (if i < 0 then 45 # nat_digits (nat (- i)) else nat_digits (nat i))"


section \<open>Round trips\<close>

lemma digits_value_append:
  "digits_value m (xs @ ys) = (case digits_value m xs of None \<Rightarrow> None | Some n \<Rightarrow> digits_value n ys)"
  by (induction xs arbitrary: m) auto

lemma digit_byte:
  assumes "n < 10"
  shows "48 \<le> (48 + of_nat n :: byte)" and "(48 + of_nat n :: byte) \<le> 57" and "unat (of_nat n :: byte) = n"
proof -
  have "unat (of_nat n :: byte) = n" using assms by (simp add: unat_of_nat)
  moreover have "unat (48 + of_nat n :: byte) = 48 + n" using assms by (simp add: unat_word_ariths unat_of_nat)
  ultimately show "48 \<le> (48 + of_nat n :: byte)" and "(48 + of_nat n :: byte) \<le> 57" and "unat (of_nat n :: byte) = n"
    using assms by (simp_all add: word_le_nat_alt)
qed

lemma digits_value_nat_digits: "digits_value 0 (nat_digits n) = Some n"
proof (induction n rule: nat_digits.induct)
  case (1 n)
  have d: "digits_value m [48 + of_nat k] = Some (10 * m + k)" if "k < 10" for m k
    using digit_byte [OF that] by simp
  show ?case
  proof (cases "n < 10")
    case True
    with d [of n 0] show ?thesis by (subst nat_digits.simps) simp
  next
    case False
    with 1 d [of "n mod 10" "n div 10"] show ?thesis
      by (subst nat_digits.simps) (simp add: digits_value_append)
  qed
qed

lemma nat_digits_digits: "c \<in> set (nat_digits n) \<Longrightarrow> 48 \<le> c \<and> c \<le> 57"
proof (induction n rule: nat_digits.induct)
  case (1 n)
  then show ?case
    using digit_byte [of n] digit_byte [of "n mod 10"]
    by (subst (asm) (2) nat_digits.simps) (auto split: if_splits)
qed

lemma nat_digits_nonempty [simp]: "nat_digits n \<noteq> []"
  by (subst nat_digits.simps) simp

lemma nat_digits_no_sign: "hd (nat_digits n) \<noteq> 43 \<and> hd (nat_digits n) \<noteq> 45"
  using nat_digits_digits [of "hd (nat_digits n)" n] by auto

lemma ParseInt_FormatInt:
  "- (2 ^ (bits - 1)) \<le> i \<Longrightarrow> i < 2 ^ (bits - 1) \<Longrightarrow> ParseInt bits (FormatInt i) = Some i"
  using nat_digits_no_sign [of "nat i"]
  by (simp add: ParseInt_def FormatInt_def digits_value_nat_digits Let_def)

lemma ParseUint64_nat_digits: "n < 2 ^ 64 \<Longrightarrow> ParseUint64 (nat_digits n) = Some n"
  by (simp add: ParseUint64_def digits_value_nat_digits)

lemma FormatInt_chars: "c \<in> set (FormatInt i) \<Longrightarrow> c = 45 \<or> (48 \<le> c \<and> c \<le> 57)"
  using nat_digits_digits [of c] by (auto simp: FormatInt_def split: if_splits)

lemma FormatInt_nonempty [simp]: "FormatInt i \<noteq> []"
  by (simp add: FormatInt_def)

lemma FormatInt_no_separator: "58 \<notin> set (FormatInt i)" "93 \<notin> set (FormatInt i)"
  using FormatInt_chars [of 58 i] FormatInt_chars [of 93 i] by auto

end
