(* ===== verification/Amqp_Decoded.thy ===== *)
theory Amqp_Decoded
  imports Amqp_Field
begin

text \<open>
  The type of what is read: every value the readers of \<open>Amqp_Field\<close> return is one the wire can
  hold, so that it can be written again, into no more octets than it was read from, and read
  back unchanged. The rules follow the structure of the readers.
\<close>


section \<open>Results and octets consumed\<close>

text \<open>\<open>consumes Q p\<close>: when \<open>p\<close> returns \<open>x\<close> and takes \<open>k\<close> octets off the stream, then \<open>Q x k\<close>.\<close>

definition consumes :: "('a \<Rightarrow> nat \<Rightarrow> bool) \<Rightarrow> 'a rd \<Rightarrow> bool" where
  "consumes Q p \<longleftrightarrow>
     (\<forall>s x s'. p s = (Inr x, s') \<longrightarrow> length s' \<le> length s \<and> Q x (length s - length s'))"

named_theorems consumes_intros \<open>what readers consume\<close>

lemma consumesD: "consumes Q p \<Longrightarrow> p s = (Inr x, s') \<Longrightarrow> length s' \<le> length s \<and> Q x (length s - length s')"
  by (simp add: consumes_def)

lemma consumes_weaken: "consumes Q p \<Longrightarrow> (\<And>x k. Q x k \<Longrightarrow> R x k) \<Longrightarrow> consumes R p"
  by (auto simp: consumes_def)

lemma consumes_rreturn [consumes_intros]: "Q x 0 \<Longrightarrow> consumes Q (rreturn x)"
  by (simp add: consumes_def rreturn_def)

lemma consumes_rfail [consumes_intros]: "consumes Q (rfail e)"
  by (simp add: consumes_def rfail_def)

lemma consumes_rbind:
  assumes "consumes Q p" and "\<And>x k. Q x k \<Longrightarrow> consumes (\<lambda>y l. R y (k + l)) (f x)"
  shows "consumes R (rbind p f)"
  unfolding consumes_def
proof (intro allI impI)
  fix s y s'
  assume "rbind p f s = (Inr y, s')"
  then obtain x t where p: "p s = (Inr x, t)" and f: "f x t = (Inr y, s')"
    by (auto simp: rbind_def split: prod.splits sum.splits)
  from consumesD [OF assms(1) p] have le: "length t \<le> length s" and Q: "Q x (length s - length t)" by simp_all
  from consumesD [OF assms(2) [OF Q] f]
  have "length s' \<le> length t" "R y (length s - length t + (length t - length s'))" by blast+
  moreover have "length s - length t + (length t - length s') = length s - length s'" using le calculation(1) by linarith
  ultimately show "length s' \<le> length s \<and> R y (length s - length s')" using le by simp
qed

lemma consumes_ReadFull: "consumes (\<lambda>bs k. length bs = n \<and> k = n) (ReadFull n)"
  by (auto simp: consumes_def ReadFull_def split: if_splits)

lemma consumes_read_word: "consumes (\<lambda>_ k. k = n) (read_word n)"
  unfolding read_word_def by (rule consumes_rbind [OF consumes_ReadFull consumes_rreturn]) simp

lemma consumes_words:
  "consumes (\<lambda>_ k. k = 1) read_u8" "consumes (\<lambda>_ k. k = 2) read_u16"
  "consumes (\<lambda>_ k. k = 4) read_u32" "consumes (\<lambda>_ k. k = 8) read_u64"
  by (simp_all add: read_u8_def read_u16_def read_u32_def read_u64_def consumes_read_word)

lemma consumes_readShortstr: "consumes (\<lambda>s k. length s < 256 \<and> k = 1 + length s) readShortstr"
  unfolding readShortstr_def
proof (rule consumes_rbind [OF consumes_words(1)])
  fix w :: byte and k :: nat
  assume "k = 1"
  then show "consumes (\<lambda>y l. length y < 256 \<and> k + l = 1 + length y) (ReadFull (unat w))"
    using unsigned_less [of w] by (intro consumes_weaken [OF consumes_ReadFull]) auto
qed

lemma consumes_readLongstr: "consumes (\<lambda>s k. length s < 2 ^ 32 \<and> k = 4 + length s) readLongstr"
  unfolding readLongstr_def
proof (rule consumes_rbind [OF consumes_words(3)])
  fix w :: "32 word" and k :: nat
  assume "k = 4"
  then show "consumes (\<lambda>y l. length y < 2 ^ 32 \<and> k + l = 4 + length y) (ReadFull (unat w))"
    using unsigned_less [of w] by (intro consumes_weaken [OF consumes_ReadFull]) auto
qed

lemma consumes_readBytes: "consumes (\<lambda>s k. length s < 2 ^ 31 \<and> k = 4 + length s) readBytes"
  unfolding readBytes_def
proof (rule consumes_rbind [OF consumes_words(3)])
  fix w :: "32 word" and k :: nat
  assume k: "k = 4"
  have "unat w < 2 ^ 31" if "\<not> sint w < 0"
  proof -
    have "\<not> bit (uint w) 31" using that by (simp add: sint_uint)
    then have "take_bit (Suc 31) (uint w) = take_bit 31 (uint w)" by (simp only: take_bit_Suc_from_most) simp
    moreover have "take_bit (Suc 31) (uint w) = uint w" using uint_bounded [of w] by (simp add: take_bit_int_eq_self)
    ultimately have "take_bit 31 (uint w) = uint w" by simp
    then have "uint w < 2 ^ 31" using take_bit_int_less_exp [of 31 "uint w"] by (rule subst)
    then have "int (unat w) < int (2 ^ 31)" by simp
    then show ?thesis by (simp only: of_nat_less_iff)
  qed
  with k show "consumes (\<lambda>y l. length y < 2 ^ 31 \<and> k + l = 4 + length y)
      (if sint w < 0 then rfail (RPanic ''makeslice: len out of range'') else ReadFull (unat w))"
    by (auto intro: consumes_rfail consumes_weaken [OF consumes_ReadFull])
qed

lemma consumes_limited: "consumes Q p \<Longrightarrow> consumes (\<lambda>x k. Q x k \<and> k \<le> n) (limited n p)"
  unfolding consumes_def
proof (intro allI impI)
  fix s x s'
  assume Q: "\<forall>s x s'. p s = (Inr x, s') \<longrightarrow> length s' \<le> length s \<and> Q x (length s - length s')"
    and "limited n p s = (Inr x, s')"
  then obtain l where l: "p (take n s) = (Inr x, l)" "s' = l @ drop n s"
    by (auto simp: limited_def split: prod.splits)
  from Q [rule_format, OF l(1)] have "length l \<le> min n (length s)" "Q x (min n (length s) - length l)"
    by (simp_all add: min.commute)
  moreover have "length s - length s' = min n (length s) - length l" using l(2) by (simp add: min_def)
  ultimately show "length s' \<le> length s \<and> Q x (length s - length s') \<and> length s - length s' \<le> n"
    using l(2) by (simp add: min_def split: if_splits)
qed


section \<open>Tables without duplicate keys\<close>

lemma writeEntries_update:
  assumes "writeEntries t = Inr bt" and "writeField v = Inr bv" and "length k < 256"
  shows "\<exists>bs. writeEntries (AList.update k v t) = Inr bs \<and> length bs \<le> length bt + 1 + length k + length bv"
  using assms(1)
proof (induction t arbitrary: bt)
  case Nil
  with assms show ?case by (simp add: wthen_def writeShortstr_ok)
next
  case (Cons e t)
  obtain k' v' where e: "e = (k', v')" by force
  from Cons.prems obtain b1 b2 bt' where b: "writeShortstr k' = Inr b1" "writeField v' = Inr b2" "writeEntries t = Inr bt'"
    "bt = b1 @ b2 @ bt'"
    by (auto simp: e wthen_def split: sum.splits)
  show ?case
  proof (cases "k = k'")
    case True
    with b assms show ?thesis by (auto simp: e wthen_def)
  next
    case False
    from Cons.IH [OF b(3)] False b(1,2,4) show ?thesis by (auto simp: e wthen_def)
  qed
qed

lemma entries_ok_update: "entries_ok t \<Longrightarrow> length k < 256 \<Longrightarrow> field_ok v \<Longrightarrow> entries_ok (AList.update k v t)"
proof (induction t)
  case (Cons e t)
  obtain k' v' where e: "e = (k', v')" by force
  with Cons have "entries_ok (AList.update k v t)" by simp
  moreover have "fst ` set (AList.update k v t) = insert k (fst ` set t)"
    using dom_update [of k v t] by simp
  ultimately show ?case using Cons.prems by (cases "k = k'") (simp_all add: e)
qed simp

section \<open>Values, arrays and tables\<close>

definition field_read :: "field \<Rightarrow> nat \<Rightarrow> bool" where
  "field_read v k \<longleftrightarrow> field_ok v \<and> (\<exists>bs. writeField v = Inr bs \<and> length bs \<le> k)"

definition fields_read :: "field list \<Rightarrow> nat \<Rightarrow> bool" where
  "fields_read vs k \<longleftrightarrow> fields_ok vs \<and> (\<exists>bs. writeFields vs = Inr bs \<and> length bs \<le> k)"

definition entries_read :: "table \<Rightarrow> nat \<Rightarrow> bool" where
  "entries_read t k \<longleftrightarrow> entries_ok t \<and> (\<exists>bs. writeEntries t = Inr bs \<and> length bs \<le> k)"

lemma consumes_if [consumes_intros]: "consumes Q p \<Longrightarrow> consumes Q q \<Longrightarrow> consumes Q (if b then p else q)"
  by simp

lemma field_read_simps:
  "1 \<le> k \<Longrightarrow> field_read FdNil k" "2 \<le> k \<Longrightarrow> field_read (FdBool b) k" "2 \<le> k \<Longrightarrow> field_read (FdByte c) k"
  "3 \<le> k \<Longrightarrow> field_read (FdInt16 w2) k" "5 \<le> k \<Longrightarrow> field_read (FdInt32 w4) k" "9 \<le> k \<Longrightarrow> field_read (FdInt64 w8) k"
  "5 \<le> k \<Longrightarrow> field_read (FdFloat32 w4) k" "9 \<le> k \<Longrightarrow> field_read (FdFloat64 w8) k"
  "6 \<le> k \<Longrightarrow> field_read (FdDecimal c w4) k"
  "9 \<le> k \<Longrightarrow> field_read (FdTime (sint w8 * second)) k"
  "length s < 2 ^ 32 \<Longrightarrow> 5 + length s \<le> k \<Longrightarrow> field_read (FdString s) k"
  "length s < 2 ^ 31 \<Longrightarrow> 5 + length s \<le> k \<Longrightarrow> field_read (FdBytes s) k"
  using sint_ge [of w8] sint_lt [of w8]
  by (simp_all add: field_read_def wthen_def put_len_def in_int64_def)

lemma field_read_FdArray: "fields_read vs l \<Longrightarrow> l < 2 ^ 32 \<Longrightarrow> 5 + l \<le> k \<Longrightarrow> field_read (FdArray vs) k"
  by (auto simp: field_read_def fields_read_def fits_in_def wthen_def put_len_def)

lemma field_read_FdTable: "entries_read t l \<Longrightarrow> l < 2 ^ 32 \<Longrightarrow> 5 + l \<le> k \<Longrightarrow> field_read (FdTable t) k"
  by (auto simp: field_read_def entries_read_def fits_in_def wthen_def writeLongstr_def Let_def)

lemma consumes_readDecimal: "consumes (\<lambda>v k. \<exists>c w. v = FdDecimal c w \<and> k = 5) readDecimal"
  unfolding readDecimal_def
  by (rule consumes_rbind [OF consumes_words(1)], rule consumes_rbind [OF consumes_words(3)], rule consumes_rreturn) auto

lemma consumes_readTimestamp: "consumes (\<lambda>t k. \<exists>w :: 64 word. t = sint w * second \<and> k = 8) readTimestamp"
  unfolding readTimestamp_def by (rule consumes_rbind [OF consumes_words(4)], rule consumes_rreturn) auto

lemma consumes_scalar:
  assumes "consumes Q p" and "\<And>x k. Q x k \<Longrightarrow> field_read (g x) (Suc k)"
  shows "consumes (\<lambda>v k. field_read v (Suc k)) (rbind p (\<lambda>x. rreturn (g x)))"
  by (rule consumes_rbind [OF assms(1)], rule consumes_rreturn) (simp add: assms(2))

lemma consumes_array:
  assumes "consumes fields_read (rdArrayLoop n)"
  shows "consumes (\<lambda>v k. field_read v (Suc k))
    (rbind read_u32 (\<lambda>size. rbind (limited (unat size) (rdArrayLoop n)) (\<lambda>v. rreturn (FdArray v))))"
proof (rule consumes_rbind [OF consumes_words(3)])
  fix w :: "32 word" and k :: nat
  assume k: "k = 4"
  have w: "unat w < 2 ^ 32" using unsigned_less [of w] by simp
  show "consumes (\<lambda>v l. field_read v (Suc (k + l))) (rbind (limited (unat w) (rdArrayLoop n)) (\<lambda>v. rreturn (FdArray v)))"
  proof (rule consumes_rbind [OF consumes_limited [OF assms]], rule consumes_rreturn)
    fix vs l
    assume "fields_read vs l \<and> l \<le> unat w"
    with k w show "field_read (FdArray vs) (Suc (k + (l + 0)))" by (intro field_read_FdArray [of _ l]) auto
  qed
qed

lemma consumes_table:
  assumes "\<And>s t s'. rdTableLoop n [] s = (Inr t, s') \<Longrightarrow> entries_read t (length s)"
  shows "consumes (\<lambda>v k. field_read v (Suc k))
    (rbind readLongstr (\<lambda>str. case rdTableLoop n [] str of
       (Inl e, _) \<Rightarrow> rfail e | (Inr t, _) \<Rightarrow> rreturn (FdTable t)))"
proof (rule consumes_rbind [OF consumes_readLongstr])
  fix str :: bytes and k :: nat
  assume s: "length str < 2 ^ 32 \<and> k = 4 + length str"
  obtain r rest where r: "rdTableLoop n [] str = (r, rest)" by fastforce
  show "consumes (\<lambda>v l. field_read v (Suc (k + l)))
      (case rdTableLoop n [] str of (Inl e, _) \<Rightarrow> rfail e | (Inr t, _) \<Rightarrow> rreturn (FdTable t))"
  proof (cases r)
    case (Inl e)
    with r show ?thesis by (simp add: consumes_rfail)
  next
    case (Inr t)
    with r assms [of str t rest] have "entries_read t (length str)" by simp
    with s have "field_read (FdTable t) (Suc (k + 0))" by (intro field_read_FdTable [of _ "length str"]) auto
    with r Inr show ?thesis by (simp add: consumes_rreturn)
  qed
qed

lemma consumes_rdField:
  assumes "consumes fields_read (rdArrayLoop n)"
    and "\<And>s t s'. rdTableLoop n [] s = (Inr t, s') \<Longrightarrow> entries_read t (length s)"
  shows "consumes field_read (rdField (Suc n))"
  unfolding rdField.simps
proof (rule consumes_rbind [OF consumes_words(1)])
  fix ty :: byte and k :: nat
  assume k: "k = 1"
  note scalar = consumes_scalar [OF consumes_words(1)] consumes_scalar [OF consumes_words(2)]
    consumes_scalar [OF consumes_words(3)] consumes_scalar [OF consumes_words(4)]
    consumes_scalar [OF consumes_readLongstr] consumes_scalar [OF consumes_readBytes]
  have "consumes (\<lambda>v k. field_read v (Suc k)) readDecimal"
    by (rule consumes_weaken [OF consumes_readDecimal]) (auto intro: field_read_simps)
  moreover have "consumes (\<lambda>v k. field_read v (Suc k)) (rbind readTimestamp (\<lambda>v. rreturn (FdTime v)))"
    by (rule consumes_scalar [OF consumes_readTimestamp]) (auto intro: field_read_simps)
  ultimately show "consumes (\<lambda>v l. field_read v (k + l)) (
       if ty = 0x74 then rbind read_u8 (\<lambda>v. rreturn (FdBool (v \<noteq> 0)))
       else if ty = 0x62 then rbind read_u8 (\<lambda>v. rreturn (FdByte v))
       else if ty = 0x73 then rbind read_u16 (\<lambda>v. rreturn (FdInt16 v))
       else if ty = 0x49 then rbind read_u32 (\<lambda>v. rreturn (FdInt32 v))
       else if ty = 0x6C then rbind read_u64 (\<lambda>v. rreturn (FdInt64 v))
       else if ty = 0x66 then rbind read_u32 (\<lambda>v. rreturn (FdFloat32 v))
       else if ty = 0x64 then rbind read_u64 (\<lambda>v. rreturn (FdFloat64 v))
       else if ty = 0x44 then readDecimal
       else if ty = 0x53 then rbind readLongstr (\<lambda>v. rreturn (FdString v))
       else if ty = 0x41 then
         rbind read_u32 (\<lambda>size. rbind (limited (unat size) (rdArrayLoop n)) (\<lambda>v. rreturn (FdArray v)))
       else if ty = 0x54 then rbind readTimestamp (\<lambda>v. rreturn (FdTime v))
       else if ty = 0x46 then
         rbind readLongstr (\<lambda>str. case rdTableLoop n [] str of
           (Inl e, _) \<Rightarrow> rfail e | (Inr t, _) \<Rightarrow> rreturn (FdTable t))
       else if ty = 0x78 then rbind readBytes (\<lambda>v. rreturn (FdBytes v))
       else if ty = 0x56 then rreturn FdNil
       else rfail ErrSyntax)"
    unfolding k plus_1_eq_Suc
    by (intro consumes_if consumes_array [OF assms(1)] consumes_table [OF assms(2)] scalar consumes_rfail consumes_rreturn)
      (auto intro: field_read_simps)
qed

lemma consumes_rdArrayLoop_Suc:
  assumes "consumes field_read (rdField n)" and "consumes fields_read (rdArrayLoop n)"
    and shrinks: "shrinks (rdField n)"
  shows "consumes fields_read (rdArrayLoop (Suc n))"
  unfolding consumes_def
proof (intro allI impI)
  fix s vs s'
  assume run: "rdArrayLoop (Suc n) s = (Inr vs, s')"
  obtain r t where r: "rdField n s = (r, t)" by fastforce
  with shrinks have t: "length t \<le> length s" unfolding shrinks_def by (metis snd_conv)
  show "length s' \<le> length s \<and> fields_read vs (length s - length s')"
  proof (cases r)
    case (Inl e)
    with run r have "vs = []" "s' = t" by (cases e; simp)+
    with t show ?thesis by (simp add: fields_read_def)
  next
    case (Inr v)
    with run r obtain ws where vs: "vs = v # ws" and ws: "rdArrayLoop n t = (Inr ws, s')"
      by (auto simp: rbind_def rreturn_def split: prod.splits sum.splits)
    from r Inr have "rdField n s = (Inr v, t)" by simp
    from consumesD [OF assms(1) this] consumesD [OF assms(2) ws] obtain b bs where
      "field_ok v" "writeField v = Inr b" "length b \<le> length s - length t"
      "fields_ok ws" "writeFields ws = Inr bs" "length bs \<le> length t - length s'" "length s' \<le> length t"
      by (auto simp: field_read_def fields_read_def)
    with t vs show ?thesis by (auto simp: fields_read_def wthen_def)
  qed
qed

lemma rdTableLoop_Suc_read:
  assumes "consumes field_read (rdField n)"
    and IH: "\<And>t s t' s' k. rdTableLoop n t s = (Inr t', s') \<Longrightarrow> entries_read t k \<Longrightarrow> entries_read t' (k + length s)"
    and run: "rdTableLoop (Suc n) t s = (Inr t', s')" and t: "entries_read t k"
  shows "entries_read t' (k + length s)"
proof (cases "s = []")
  case True
  with run t show ?thesis by simp
next
  case False
  with run obtain key s1 v s2 where key: "readShortstr s = (Inr key, s1)" and v: "rdField n s1 = (Inr v, s2)"
    and rest: "rdTableLoop n (AList.update key v t) s2 = (Inr t', s')"
    by (auto simp: rbind_def split: prod.splits sum.splits)
  from consumesD [OF consumes_readShortstr key] consumesD [OF assms(1) v] obtain b where
    k1: "length key < 256" "length s - length s1 = 1 + length key" "length s1 \<le> length s" and
    v1: "field_ok v" "writeField v = Inr b" "length b \<le> length s1 - length s2" "length s2 \<le> length s1"
    by (auto simp: field_read_def)
  from t obtain bt where bt: "entries_ok t" "writeEntries t = Inr bt" "length bt \<le> k"
    by (auto simp: entries_read_def)
  from writeEntries_update [OF bt(2) v1(2) k1(1)] obtain bs where
    "writeEntries (AList.update key v t) = Inr bs" "length bs \<le> length bt + 1 + length key + length b" by blast
  with entries_ok_update [OF bt(1) k1(1) v1(1)] bt(3) v1(3)
  have "entries_read (AList.update key v t) (k + 1 + length key + (length s1 - length s2))"
    by (auto simp: entries_read_def)
  from IH [OF rest this] have "entries_read t' (k + 1 + length key + (length s1 - length s2) + length s2)" .
  moreover have "k + 1 + length key + (length s1 - length s2) + length s2 = k + length s" using k1 v1(4) by linarith
  ultimately show ?thesis by metis
qed

lemma readers_read:
  "consumes field_read (rdField n) \<and> consumes fields_read (rdArrayLoop n) \<and>
   (\<forall>t s t' s' k. rdTableLoop n t s = (Inr t', s') \<longrightarrow> entries_read t k \<longrightarrow> entries_read t' (k + length s))"
proof (induction n)
  case 0
  show ?case
    unfolding rdField.simps rdArrayLoop.simps rdTableLoop.simps
    by (intro conjI consumes_rfail) (simp add: rfail_def)
next
  case (Suc n)
  then have field: "consumes field_read (rdField n)" and array: "consumes fields_read (rdArrayLoop n)"
    and table: "\<And>t s t' s' k. rdTableLoop n t s = (Inr t', s') \<Longrightarrow> entries_read t k \<Longrightarrow> entries_read t' (k + length s)"
    by blast+
  have empty: "entries_read [] 0" by (simp add: entries_read_def)
  have "consumes field_read (rdField (Suc n))"
    using table [OF _ empty] by (intro consumes_rdField [OF array]) simp
  moreover have "consumes fields_read (rdArrayLoop (Suc n))"
    using shrinks_loops [of n] by (intro consumes_rdArrayLoop_Suc [OF field array]) blast
  moreover have "entries_read t' (k + length s)"
    if "rdTableLoop (Suc n) t s = (Inr t', s')" "entries_read t k" for t s t' s' k
    by (rule rdTableLoop_Suc_read [OF field table that])
  ultimately show ?case by blast
qed

lemma readTable_entries: "readTable s = (Inr t, s') \<Longrightarrow> table_ok t \<and> (\<exists>bs. writeTable t = Inr bs \<and> length bs + length s' \<le> length s)"
proof -
  assume "readTable s = (Inr t, s')"
  then obtain str s1 s2 where str: "readLongstr s = (Inr str, s1)"
    and loop: "rdTableLoop (2 * length str + 2) [] str = (Inr t, s2)" and s': "s' = s1"
    by (auto simp: readTable_def rbind_def rfail_def rreturn_def split: prod.splits sum.splits)
  from readers_read [of "2 * length str + 2"] loop have "entries_read t (0 + length str)"
    by (metis entries_read_def entries_ok.simps(1) list.size(3) order_refl writeEntries.simps(1))
  with consumesD [OF consumes_readLongstr str] s' show ?thesis
    by (auto simp: entries_read_def table_ok_def fits_in_def writeTable_def writeLongstr_def wthen_def Let_def)
qed


section \<open>Properties\<close>

text \<open>
  C30: what is read has the type of what can be written. Every table and every value the readers
  return, from whatever octets, is within the limits of the wire: its keys are
  distinct and short, its strings and nested encodings not too long, its times
  whole seconds. So it can be written again, takes no more octets than it was read from, and
  reading it again gives the same table.
\<close>

theorem tables_read_are_writable:
  assumes "readTable s = (Inr t, s')"
  shows "table_ok t \<and> (\<exists>bs. writeTable t = Inr bs \<and> length bs + length s' \<le> length s \<and>
     (\<forall>rest. readTable (bs @ rest) = (Inr t, rest))) \<and>
     (\<forall>v u u'. readField u = (Inr v, u') \<longrightarrow> field_ok v \<and> (\<exists>bs. writeField v = Inr bs \<and> length bs + length u' \<le> length u))"
proof -
  from readTable_entries [OF assms] obtain bs where t: "table_ok t" "writeTable t = Inr bs" "length bs + length s' \<le> length s"
    by blast
  have "field_ok v \<and> (\<exists>bs. writeField v = Inr bs \<and> length bs + length u' \<le> length u)" if "readField u = (Inr v, u')" for v u u'
    using readers_read [of "2 * length u + 1"] that by (fastforce simp: readField_def field_read_def dest: consumesD)
  with t table_codec.decode_encode [OF t(1)] show ?thesis by blast
qed

theorem tables_read_are_writable_witness:
  "\<exists>t. readTable [0, 0, 0, 8, 1, 97, 0x74, 7, 1, 97, 0x74, 0, 0x56, 9] = (Inr t, [0x56, 9]) \<and>
     t = [([97], FdBool False)] \<and> table_ok t"
proof -
  have "readTable [0, 0, 0, 8, 1, 97, 0x74, 7, 1, 97, 0x74, 0, 0x56, 9] = (Inr [([97], FdBool False)], [0x56, 9])"
    by code_simp
  from this tables_read_are_writable [OF this] show ?thesis by blast
qed

end
