(* ===== verification/Proc_Text.thy ===== *)
theory Proc_Text
  imports Decimal Process_Stats
begin

text \<open>
  Text of the files under \<open>/proc\<close>: the functions of the packages \<open>strings\<close> and \<open>strconv\<close> gopsutil
  uses on it, the outcome of a piece of code that can fail or panic, and \<open>ReadLines\<close> of
  gopsutil's \<open>common.go\<close>. The contents are taken to be ASCII.
\<close>


section \<open>Outcomes\<close>

text \<open>The type \<open>probe\<close> of the answers of gopsutil: a value, an error or a panic.\<close>

fun pbind :: "'a probe \<Rightarrow> ('a \<Rightarrow> 'b probe) \<Rightarrow> 'b probe" where
  "pbind (POk x) f = f x"
| "pbind (PErr e) f = PErr e"
| "pbind PPanic f = PPanic"

definition p_sum :: "err + 'a \<Rightarrow> 'a probe" where
  "p_sum r = (case r of Inl e \<Rightarrow> PErr e | Inr x \<Rightarrow> POk x)"

definition p_opt :: "err \<Rightarrow> 'a option \<Rightarrow> 'a probe" where
  "p_opt e r = (case r of None \<Rightarrow> PErr e | Some x \<Rightarrow> POk x)"

text \<open>Indexing a slice panics out of range.\<close>

definition p_at :: "'a list \<Rightarrow> nat \<Rightarrow> 'a probe" where
  "p_at xs i = (if i < length xs then POk (xs ! i) else PPanic)"

lemma pbind_POk [simp]: "pbind p POk = p"
  by (cases p) simp_all

lemma pbind_assoc: "pbind (pbind p f) g = pbind p (\<lambda>x. pbind (f x) g)"
  by (cases p) simp_all

lemma pbind_eq_POk: "pbind p f = POk y \<longleftrightarrow> (\<exists>x. p = POk x \<and> f x = POk y)"
  by (cases p) simp_all


section \<open>Strings\<close>

fun SplitWhen :: "('a \<Rightarrow> bool) \<Rightarrow> 'a list \<Rightarrow> 'a list list" where
  "SplitWhen f [] = [[]]"
| "SplitWhen f (x # xs) =
     (if f x then [] # SplitWhen f xs
      else (case SplitWhen f xs of [] \<Rightarrow> [[x]] | p # ps \<Rightarrow> (x # p) # ps))"

definition FieldsFunc :: "(char \<Rightarrow> bool) \<Rightarrow> string \<Rightarrow> string list" where
  "FieldsFunc f s = filter (\<lambda>p. p \<noteq> []) (SplitWhen f s)"

abbreviation tab :: char where "tab \<equiv> CHR 0x09"
abbreviation newline :: char where "newline \<equiv> CHR 0x0A"
abbreviation blank :: char where "blank \<equiv> CHR 0x20"

definition spaces :: "char set" where
  "spaces = {tab, newline, CHR 0x0B, CHR 0x0C, CHR 0x0D, blank}"

definition is_space :: "char \<Rightarrow> bool" where
  "is_space c \<longleftrightarrow> c \<in> spaces"

definition Fields :: "string \<Rightarrow> string list" where
  "Fields = FieldsFunc is_space"

text \<open>\<open>strings.SplitN(s, c, 2)\<close>: split at the first separator only.\<close>

fun SplitN2 :: "char \<Rightarrow> string \<Rightarrow> string list" where
  "SplitN2 c [] = [[]]"
| "SplitN2 c (x # xs) =
     (if x = c then [[], xs]
      else (case SplitN2 c xs of [] \<Rightarrow> [[x]] | p # ps \<Rightarrow> (x # p) # ps))"

definition TrimLeft :: "string \<Rightarrow> char set \<Rightarrow> string" where
  "TrimLeft s cutset = dropWhile (\<lambda>c. c \<in> cutset) s"

definition TrimRight :: "string \<Rightarrow> char set \<Rightarrow> string" where
  "TrimRight s cutset = rev (dropWhile (\<lambda>c. c \<in> cutset) (rev s))"

definition Trim :: "string \<Rightarrow> char set \<Rightarrow> string" where
  "Trim s cutset = TrimRight (TrimLeft s cutset) cutset"

fun Index :: "char \<Rightarrow> string \<Rightarrow> int" where
  "Index c [] = -1"
| "Index c (x # xs) = (if x = c then 0 else let i = Index c xs in if i < 0 then -1 else i + 1)"

definition HasPrefix :: "string \<Rightarrow> string \<Rightarrow> bool" where
  "HasPrefix s p \<longleftrightarrow> take (length p) s = p"

definition HasSuffix :: "string \<Rightarrow> string \<Rightarrow> bool" where
  "HasSuffix s p \<longleftrightarrow> drop (length s - length p) s = p"

definition Contains :: "string \<Rightarrow> string \<Rightarrow> bool" where
  "Contains s p \<longleftrightarrow> (\<exists>i\<in>set [0..<Suc (length s)]. take (length p) (drop i s) = p)"

text \<open>A slice \<open>s[i:j]\<close> panics unless the bounds are in order.\<close>

definition p_slice :: "string \<Rightarrow> int \<Rightarrow> int \<Rightarrow> string probe" where
  "p_slice s i j =
     (if 0 \<le> i \<and> i \<le> j \<and> j \<le> int (length s) then POk (drop (nat i) (take (nat j) s)) else PPanic)"

definition octets :: "string \<Rightarrow> bytes" where
  "octets s = map of_char s"

definition parse_uint :: "string \<Rightarrow> u64 probe" where
  "parse_uint s = p_opt ''invalid unsigned'' (map_option of_nat (ParseUint64 (octets s)))"

definition parse_int :: "nat \<Rightarrow> string \<Rightarrow> int probe" where
  "parse_int bits s = p_opt ''invalid integer'' (ParseInt bits (octets s))"

definition Itoa :: "int \<Rightarrow> string" where
  "Itoa i = map (\<lambda>b. char_of (unat b)) (FormatInt i)"


section \<open>Lines\<close>

text \<open>\<open>ReadLines\<close> keeps the lines that end in a newline: text behind the last one is dropped.\<close>

definition ReadLines :: "string \<Rightarrow> string list" where
  "ReadLines contents = map (\<lambda>l. Trim l {newline}) (butlast (Split newline contents))"

fun StringsHas :: "string list \<Rightarrow> string \<Rightarrow> bool" where
  "StringsHas [] src = False"
| "StringsHas (t # ts) src = (if Trim t spaces = src then True else StringsHas ts src)"

fun StringsContains :: "string list \<Rightarrow> string \<Rightarrow> bool" where
  "StringsContains [] src = False"
| "StringsContains (t # ts) src = (if Contains t src then True else StringsContains ts src)"


section \<open>Numbers in text\<close>

lemma of_char_unat [simp]: "(of_char (char_of (unat (b :: byte)) :: char) :: byte) = b"
proof -
  have "unat b < 256" using unsigned_less [of b] by simp
  then have "(of_char (char_of (unat b)) :: nat) = unat b" by simp
  then show ?thesis using of_nat_of_char [of "char_of (unat b)", where 'a = byte] by simp
qed

lemma octets_Itoa: "octets (Itoa i) = FormatInt i"
  by (simp add: octets_def Itoa_def comp_def)

lemma parse_int_Itoa: "- (2 ^ (bits - 1)) \<le> i \<Longrightarrow> i < 2 ^ (bits - 1) \<Longrightarrow> parse_int bits (Itoa i) = POk i"
  by (simp add: parse_int_def octets_Itoa ParseInt_FormatInt p_opt_def)

text \<open>The kernel prints an unsigned number with \<open>%u\<close>.\<close>

definition utoa :: "u64 \<Rightarrow> string" where
  "utoa w = Itoa (uint w)"

lemma parse_uint_utoa: "parse_uint (utoa w) = POk w"
proof -
  have "unat w < 2 ^ 64" using unsigned_less [of w] by simp
  moreover have "octets (utoa w) = nat_digits (unat w)"
    by (simp add: utoa_def octets_Itoa FormatInt_def)
  ultimately show ?thesis
    by (simp add: parse_uint_def ParseUint64_nat_digits p_opt_def)
qed

lemma number_chars:
  "\<forall>n\<in>set [45, 48, 49, 50, 51, 52, 53, 54, 55, 56, 57 :: nat]. (char_of n :: char) \<in> set ''-0123456789''"
  by code_simp

lemma Itoa_chars:
  assumes "c \<in> set (Itoa i)"
  shows "c \<in> set ''-0123456789''"
proof -
  from assms obtain b where b: "b \<in> set (FormatInt i)" "c = char_of (unat b)" by (auto simp: Itoa_def)
  from FormatInt_chars [OF b(1)] have "unat b = 45 \<or> 48 \<le> unat b \<and> unat b \<le> 57"
    by (auto simp: word_le_nat_alt)
  moreover have "n \<in> set [45, 48, 49, 50, 51, 52, 53, 54, 55, 56, 57]" if "n = 45 \<or> 48 \<le> n \<and> n \<le> 57" for n :: nat
    using that by (simp, arith)
  ultimately have "unat b \<in> set [45, 48, 49, 50, 51, 52, 53, 54, 55, 56, 57]" by blast
  with number_chars show ?thesis unfolding b(2) by (rule bspec)
qed

lemma Itoa_not_space: "c \<in> set (Itoa i) \<Longrightarrow> \<not> is_space c"
  using Itoa_chars by (fastforce simp: is_space_def spaces_def)

lemma Itoa_nonempty [simp]: "Itoa i \<noteq> []"
  by (simp add: Itoa_def)


section \<open>Words and lines\<close>

lemma SplitWhen_neq_Nil [simp]: "SplitWhen f s \<noteq> []"
  by (induction s) (auto split: list.splits)

lemma SplitWhen_piece: "\<forall>c\<in>set p. \<not> f c \<Longrightarrow> SplitWhen f p = [p]"
  by (induction p) auto

lemma SplitWhen_append: "\<forall>c\<in>set p. \<not> f c \<Longrightarrow> f x \<Longrightarrow> SplitWhen f (p @ x # s) = p # SplitWhen f s"
  by (induction p) auto

text \<open>A word is not empty and has no white space.\<close>

definition word_ok :: "string \<Rightarrow> bool" where
  "word_ok w \<longleftrightarrow> w \<noteq> [] \<and> (\<forall>c\<in>set w. \<not> is_space c)"

lemma Fields_word: "word_ok w \<Longrightarrow> Fields w = [w]"
  by (simp add: Fields_def FieldsFunc_def word_ok_def SplitWhen_piece)

lemma Fields_append: "word_ok w \<Longrightarrow> is_space x \<Longrightarrow> Fields (w @ x # s) = w # Fields s"
  by (simp add: Fields_def FieldsFunc_def word_ok_def SplitWhen_append)

lemma Fields_Nil [simp]: "Fields [] = []"
  by (simp add: Fields_def FieldsFunc_def)

lemma is_space_simps [simp]: "is_space blank" "is_space newline" "is_space tab"
  by (simp_all add: is_space_def spaces_def)

lemma Fields_Join:
  assumes "ws \<noteq> []" and "\<forall>w\<in>set ws. word_ok w"
  shows "Fields (Join blank ws @ [newline]) = ws"
  using assms
proof (induction ws rule: induct_list012)
  case (2 w)
  then show ?case using Fields_append [of w newline "[]"] by simp
next
  case (3 w v ws)
  then show ?case using Fields_append [of w blank "Join blank (v # ws) @ [newline]"] by simp
qed simp

lemma word_ok_Itoa [simp]: "word_ok (Itoa i)"
  using Itoa_not_space by (simp add: word_ok_def)

lemma word_ok_utoa [simp]: "word_ok (utoa w)"
  by (simp add: utoa_def)

definition text_lines :: "string list \<Rightarrow> string" where
  "text_lines ls = concat (map (\<lambda>l. l @ [newline]) ls)"

lemma Split_text_lines: "\<forall>l\<in>set ls. newline \<notin> set l \<Longrightarrow> Split newline (text_lines ls) = ls @ [[]]"
  by (induction ls) (auto simp: text_lines_def Split_append)

lemma dropWhile_notin: "c \<notin> set l \<Longrightarrow> dropWhile (\<lambda>x. x \<in> {c}) l = l"
  by (cases l) auto

lemma Trim_notin: "c \<notin> set l \<Longrightarrow> Trim l {c} = l"
  using dropWhile_notin [of c l] dropWhile_notin [of c "rev l"]
  by (simp add: Trim_def TrimLeft_def TrimRight_def)

lemma ReadLines_text_lines: "\<forall>l\<in>set ls. newline \<notin> set l \<Longrightarrow> ReadLines (text_lines ls) = ls"
  by (simp add: ReadLines_def Split_text_lines Trim_notin map_idI)

lemma newline_Itoa: "newline \<notin> set (Itoa i)"
  using Itoa_not_space [of newline i] by auto

lemma newline_utoa: "newline \<notin> set (utoa w)"
  by (simp add: utoa_def newline_Itoa)

lemma length_Split: "length (Split c s) = Suc (length (filter (\<lambda>x. x = c) s))"
  by (induction s) (auto split: list.splits)

lemma ReadLines_eq_Nil: "ReadLines s = [] \<longleftrightarrow> newline \<notin> set s"
proof -
  have "ReadLines s = [] \<longleftrightarrow> length (Split newline s) \<le> 1"
    by (simp add: ReadLines_def butlast_conv_take le_diff_conv length_Split)
  also have "\<dots> \<longleftrightarrow> newline \<notin> set s"
    by (auto simp: length_Split filter_empty_conv)
  finally show ?thesis .
qed

end
