(* ===== verification/Proc_Process.thy ===== *)
theory Proc_Process
  imports Proc_Text
begin

text \<open>
  gopsutil on Linux, as far as the statistics agent uses it (\<open>process/process_linux.go\<close>,
  \<open>process/process.go\<close>, \<open>process/process_posix.go\<close>, \<open>internal/common\<close>): the record
  \<open>process\<close> with what is remembered between calls, the functions that fill it from the files
  under \<open>/proc\<close>, and the calls on top of them.

  The operating system is the record \<open>os_view\<close>: what reading a file, listing a directory
  or following a link gives at one moment. For a file that can be opened and then not be read to
  its end, \<open>os_read\<close> is the error and \<open>os_partial\<close> what was read before it. Float arithmetic is the record \<open>gops\<close>.
\<close>


section \<open>The operating system\<close>

record os_view =
  os_env :: string
  os_read :: "string \<Rightarrow> err + string"
  os_partial :: "string \<Rightarrow> string option"
  os_names :: "string \<Rightarrow> err + string list"
  os_link :: "string \<Rightarrow> err + string"
  os_rdev :: "string \<Rightarrow> err + u64"
  os_exists :: "string \<Rightarrow> bool"
  os_pgrep :: "int \<Rightarrow> err + string"
  os_lsb_release :: "err + string"
  os_hostname :: "err + string"
  os_priority :: "int \<Rightarrow> int"
  os_lsof :: "string list \<Rightarrow> err + string"
  os_kill :: "string list \<Rightarrow> err option"
  os_user :: "string \<Rightarrow> err + string"

record 'f gops = "'f fops" +
  gparse :: "string \<Rightarrow> 'f option"
  gsub :: "'f \<Rightarrow> 'f \<Rightarrow> 'f"
  gmul :: "'f \<Rightarrow> 'f \<Rightarrow> 'f"
  gdiv :: "'f \<Rightarrow> 'f \<Rightarrow> 'f"
  gint :: "int \<Rightarrow> 'f"
  gis0 :: "'f \<Rightarrow> bool"
  gseconds :: "duration \<Rightarrow> 'f"

text \<open>
  Paths are joined with slashes; \<open>filepath.Join\<close> also cleans them, which the paths below the
  directory do not need (that of a \<open>HOST_PROC\<close> that is not clean is left out). The names of a
  directory whose listing fails part way are those read until then.
\<close>

definition GetEnv :: "string \<Rightarrow> string \<Rightarrow> string list \<Rightarrow> string" where
  "GetEnv env dfault combineWith =
     (let value = (if env = '''' then dfault else env) in Join CHR 0x2F (value # combineWith))"

definition HostProc :: "os_view \<Rightarrow> string list \<Rightarrow> string" where
  "HostProc os combineWith = GetEnv (os_env os) ''/proc'' combineWith"

definition ClockTicks :: nat where "ClockTicks = 100"
definition PageSize :: u64 where "PageSize = 4096"


section \<open>A process\<close>

record 'f process =
  p_Pid :: int
  p_name :: string
  p_status :: string
  p_numCtxSwitches :: "(int \<times> int) option"
  p_uids :: "int list"
  p_gids :: "int list"
  p_numThreads :: int
  p_memInfo :: "memory_info option"
  p_lastCPUTimes :: "'f cpu_times option"
  p_lastCPUTime :: instant

definition new_process :: "int \<Rightarrow> 'f process" where
  "new_process pid =
     \<lparr>p_Pid = pid, p_name = '''', p_status = '''', p_numCtxSwitches = None, p_uids = [], p_gids = [],
      p_numThreads = 0, p_memInfo = None, p_lastCPUTimes = None, p_lastCPUTime = 0\<rparr>"

lemma p_Pid_new_process [simp]: "p_Pid (new_process pid) = pid"
  by (simp add: new_process_def)

record memory_info_ex =
  ex_RSS :: u64
  ex_VMS :: u64
  ex_Shared :: u64
  ex_Text :: u64
  ex_Lib :: u64
  ex_Data :: u64
  ex_Dirty :: u64


section \<open>The file status\<close>

text \<open>A value that was parsed is stored; an error or a panic leaves the process as it was.\<close>

definition store :: "'a probe \<Rightarrow> ('a \<Rightarrow> 'p) \<Rightarrow> 'p \<Rightarrow> 'p \<times> unit probe" where
  "store r upd p = (case r of POk x \<Rightarrow> (upd x, POk ()) | PErr e \<Rightarrow> (p, PErr e) | PPanic \<Rightarrow> (p, PPanic))"

fun parse_ids :: "string list \<Rightarrow> int list \<Rightarrow> int list \<times> unit probe" where
  "parse_ids [] ids = (ids, POk ())"
| "parse_ids (i # is) ids =
     (case parse_int 32 i of
        POk v \<Rightarrow> parse_ids is (ids @ [v])
      | PErr e \<Rightarrow> (ids, PErr e)
      | PPanic \<Rightarrow> (ids, PPanic))"

definition kB :: "string \<Rightarrow> u64 probe" where
  "kB value = pbind (parse_uint (Trim value {blank, CHR ''k'', CHR ''B''})) (\<lambda>v. POk (v * 1024))"

definition with_mem :: "'f process \<Rightarrow> (memory_info \<Rightarrow> memory_info) \<Rightarrow> 'f process" where
  "with_mem p f = p\<lparr>p_memInfo := map_option f (p_memInfo p)\<rparr>"

definition status_field :: "string \<Rightarrow> string \<Rightarrow> 'f process \<Rightarrow> 'f process \<times> unit probe" where
  "status_field key value p =
     (if key = ''Name'' then (p\<lparr>p_name := Trim value {blank, tab}\<rparr>, POk ())
      else if key = ''State'' then
        store (p_slice value (Index CHR 0x28 value + 1) (Index CHR 0x29 value)) (\<lambda>s. p\<lparr>p_status := s\<rparr>) p
      else if key = ''Uid'' then
        (let (ids, r) = parse_ids (Split tab value) [] in (p\<lparr>p_uids := ids\<rparr>, r))
      else if key = ''Gid'' then
        (let (ids, r) = parse_ids (Split tab value) [] in (p\<lparr>p_gids := ids\<rparr>, r))
      else if key = ''Threads'' then store (parse_int 32 value) (\<lambda>v. p\<lparr>p_numThreads := v\<rparr>) p
      else if key = ''voluntary_ctxt_switches'' then
        store (parse_int 64 value) (\<lambda>v. p\<lparr>p_numCtxSwitches := map_option (\<lambda>(_, i). (v, i)) (p_numCtxSwitches p)\<rparr>) p
      else if key = ''nonvoluntary_ctxt_switches'' then
        store (parse_int 64 value) (\<lambda>v. p\<lparr>p_numCtxSwitches := map_option (\<lambda>(n, _). (n, v)) (p_numCtxSwitches p)\<rparr>) p
      else if key = ''VmRSS'' then store (kB value) (\<lambda>v. with_mem p (\<lambda>m. m\<lparr>RSS := v\<rparr>)) p
      else if key = ''VmSize'' then store (kB value) (\<lambda>v. with_mem p (\<lambda>m. m\<lparr>VMS := v\<rparr>)) p
      else if key = ''VmSwap'' then store (kB value) (\<lambda>v. with_mem p (\<lambda>m. m\<lparr>Swap := v\<rparr>)) p
      else (p, POk ()))"

definition status_line :: "string \<Rightarrow> 'f process \<Rightarrow> 'f process \<times> unit probe" where
  "status_line line p =
     (let tabParts = SplitN2 tab line in
      if length tabParts < 2 then (p, POk ())
      else status_field (TrimRight (tabParts ! 0) {CHR '':''}) (tabParts ! 1) p)"

fun status_lines :: "string list \<Rightarrow> 'f process \<Rightarrow> 'f process \<times> unit probe" where
  "status_lines [] p = (p, POk ())"
| "status_lines (line # lines) p =
     (case status_line line p of
        (p, POk _) \<Rightarrow> status_lines lines p
      | (p, r) \<Rightarrow> (p, r))"

definition fillFromStatus :: "os_view \<Rightarrow> 'f process \<Rightarrow> 'f process \<times> unit probe" where
  "fillFromStatus os p =
     (case os_read os (HostProc os [Itoa (p_Pid p), ''status'']) of
        Inl e \<Rightarrow> (p, PErr e)
      | Inr contents \<Rightarrow>
          status_lines (Split newline contents)
            (p\<lparr>p_numCtxSwitches := Some (0, 0), p_memInfo := Some \<lparr>RSS = 0, VMS = 0, Swap = 0\<rparr>\<rparr>))"

definition NewProcess :: "os_view \<Rightarrow> int \<Rightarrow> 'f process \<times> unit probe" where
  "NewProcess os pid = fillFromStatus os (new_process pid)"


section \<open>The files statm and io, and the directory fd\<close>

definition fillFromStatm :: "os_view \<Rightarrow> 'f process \<Rightarrow> (memory_info \<times> memory_info_ex) probe" where
  "fillFromStatm os p =
     pbind (p_sum (os_read os (HostProc os [Itoa (p_Pid p), ''statm'']))) (\<lambda>contents.
     let fs = Split blank contents in
     pbind (pbind (p_at fs 0) parse_uint) (\<lambda>vms.
     pbind (pbind (p_at fs 1) parse_uint) (\<lambda>rss.
     let memInfo = \<lparr>RSS = rss * PageSize, VMS = vms * PageSize, Swap = 0\<rparr> in
     pbind (pbind (p_at fs 2) parse_uint) (\<lambda>shared.
     pbind (pbind (p_at fs 3) parse_uint) (\<lambda>txt.
     pbind (pbind (p_at fs 4) parse_uint) (\<lambda>lib.
     pbind (pbind (p_at fs 5) parse_uint) (\<lambda>dirty.
     POk (memInfo,
       \<lparr>ex_RSS = rss * PageSize, ex_VMS = vms * PageSize, ex_Shared = shared * PageSize, ex_Text = txt * PageSize,
        ex_Lib = lib * PageSize, ex_Data = 0, ex_Dirty = dirty * PageSize\<rparr>))))))))"

definition io_set :: "string \<Rightarrow> u64 \<Rightarrow> io_counters \<Rightarrow> io_counters" where
  "io_set param t ret =
     (if param = ''syscr'' then ret\<lparr>ReadCount := t\<rparr>
      else if param = ''syscw'' then ret\<lparr>WriteCount := t\<rparr>
      else if param = ''read_bytes'' then ret\<lparr>ReadBytes := t\<rparr>
      else if param = ''write_bytes'' then ret\<lparr>WriteBytes := t\<rparr>
      else ret)"

fun io_lines :: "string list \<Rightarrow> io_counters \<Rightarrow> io_counters probe" where
  "io_lines [] ret = POk ret"
| "io_lines (line # lines) ret =
     (let field = Fields line in
      if length field < 2 then io_lines lines ret
      else pbind (parse_uint (field ! 1)) (\<lambda>t.
        let param = field ! 0;
            param = (if HasSuffix param '':'' then take (length param - 1) param else param)
        in io_lines lines (io_set param t ret)))"

definition fillFromIO :: "os_view \<Rightarrow> 'f process \<Rightarrow> io_counters probe" where
  "fillFromIO os p =
     pbind (p_sum (os_read os (HostProc os [Itoa (p_Pid p), ''io'']))) (\<lambda>ioline.
       io_lines (Split newline ioline) \<lparr>ReadCount = 0, WriteCount = 0, ReadBytes = 0, WriteBytes = 0\<rparr>)"

text \<open>A slice of pointers: \<open>None\<close> is nil.\<close>

fun open_files :: "os_view \<Rightarrow> string \<Rightarrow> string list \<Rightarrow> open_file option list \<Rightarrow> open_file option list probe" where
  "open_files os statPath [] openfiles = POk openfiles"
| "open_files os statPath (fd # fds) openfiles =
     (case os_link os (Join CHR 0x2F [statPath, fd]) of
        Inl _ \<Rightarrow> open_files os statPath fds openfiles
      | Inr path \<Rightarrow>
          pbind (parse_uint fd) (\<lambda>t. open_files os statPath fds (openfiles @ [Some \<lparr>Path = path, Fd = t\<rparr>])))"

definition fillFromfd :: "os_view \<Rightarrow> 'f process \<Rightarrow> (int \<times> open_file option list) probe" where
  "fillFromfd os p =
     (let statPath = HostProc os [Itoa (p_Pid p), ''fd''] in
      pbind (p_sum (os_names os statPath)) (\<lambda>fnames.
        let numFDs = wrap32 (int (length fnames)) in
        if numFDs < 0 then PPanic
        else pbind (open_files os statPath fnames (replicate (nat numFDs) None)) (\<lambda>openfiles. POk (numFDs, openfiles))))"

text \<open>
  \<open>common.ReadLines\<close> fails only if the file cannot be opened; an error of reading it ends the
  lines like the end of the file.
\<close>

definition os_opened :: "os_view \<Rightarrow> string \<Rightarrow> string option" where
  "os_opened os path = (case os_read os path of Inl _ \<Rightarrow> os_partial os path | Inr c \<Rightarrow> Some c)"

definition read_lines :: "os_view \<Rightarrow> string \<Rightarrow> err + string list" where
  "read_lines os path =
     (case os_read os path of
        Inl e \<Rightarrow> (case os_partial os path of None \<Rightarrow> Inl e | Some c \<Rightarrow> Inr (ReadLines c))
      | Inr c \<Rightarrow> Inr (ReadLines c))"

lemma read_lines_Inr: "read_lines os path = Inr ls \<longleftrightarrow> (\<exists>c. os_opened os path = Some c \<and> ls = ReadLines c)"
  by (auto simp: read_lines_def os_opened_def split: sum.splits option.splits)

section \<open>The file stat\<close>

text \<open>\<open>host.BootTime\<close> (\<open>host/host_linux.go\<close>): the line \<open>btime\<close> of \<open>/proc/stat\<close>.\<close>

fun btime_lines :: "string list \<Rightarrow> u64 probe" where
  "btime_lines [] = PErr ''could not find btime''"
| "btime_lines (line # lines) =
     (if HasPrefix line ''btime'' then
        (let f = Fields line in
         if length f \<noteq> 2 then PErr ''wrong btime format''
         else pbind (parse_int 64 (f ! 1)) (\<lambda>b. POk (of_int b)))
      else btime_lines lines)"

definition host_BootTime :: "os_view \<Rightarrow> u64 probe" where
  "host_BootTime os = pbind (p_sum (read_lines os (HostProc os [''stat'']))) btime_lines"

text \<open>\<open>strings.Replace(s, old, "", -1)\<close>; the number counts the characters of an occurrence still to skip.\<close>

fun remove_all :: "nat \<Rightarrow> string \<Rightarrow> string \<Rightarrow> string" where
  "remove_all n old [] = []"
| "remove_all (Suc n) old (x # s) = remove_all n old s"
| "remove_all 0 old (x # s) =
     (if old \<noteq> [] \<and> take (length old) (x # s) = old then remove_all (length old - 1) old s
      else x # remove_all 0 old s)"

fun terminals :: "os_view \<Rightarrow> string list \<Rightarrow> (u64 \<times> string) list \<Rightarrow> err + (u64 \<times> string) list" where
  "terminals os [] ret = Inr ret"
| "terminals os (name # names) ret =
     (case os_rdev os name of
        Inl e \<Rightarrow> Inl e
      | Inr rdev \<Rightarrow> terminals os names (AList.update rdev (remove_all 0 ''/dev'' name) ret))"

definition getTerminalMap :: "os_view \<Rightarrow> err + (u64 \<times> string) list" where
  "getTerminalMap os =
     (case os_names os ''/dev'' of
        Inl e \<Rightarrow> Inl e
      | Inr devnames \<Rightarrow>
          let termfiles = map (\<lambda>d. ''/dev/tty/'' @ d) (filter (\<lambda>d. HasPrefix d ''/dev/tty'') devnames) in
          case os_names os ''/dev/pts'' of
            Inl e \<Rightarrow> Inl e
          | Inr ptsnames \<Rightarrow> terminals os (termfiles @ map (\<lambda>n. ''/dev/pts/'' @ n) ptsnames) [])"

definition zero_cpu :: "'f gops \<Rightarrow> 'f cpu_times" where
  "zero_cpu G =
     (let z = fzero G in
      \<lparr>CPU = '''', User = z, System = z, Idle = z, Nice = z, Iowait = z, Irq = z,
       Softirq = z, Steal = z, Guest = z, GuestNice = z, Stolen = z\<rparr>)"

record 'f stat_file =
  st_terminal :: string
  st_ppid :: int
  st_cpuTimes :: "'f cpu_times"
  st_createTime :: int
  st_nice :: int

definition parse_float :: "'f gops \<Rightarrow> string \<Rightarrow> 'f probe" where
  "parse_float G s = p_opt ''invalid float'' (gparse G s)"

definition stat_terminal :: "os_view \<Rightarrow> string list \<Rightarrow> string probe" where
  "stat_terminal os fs =
     (case getTerminalMap os of
        Inl _ \<Rightarrow> POk ''''
      | Inr termmap \<Rightarrow>
          pbind (pbind (p_at fs 6) parse_uint) (\<lambda>t.
            POk (case map_of termmap t of None \<Rightarrow> '''' | Some name \<Rightarrow> name)))"

definition stat_times :: "'f gops \<Rightarrow> string list \<Rightarrow> 'f cpu_times probe" where
  "stat_times G fs =
     pbind (pbind (p_at fs 13) (parse_float G)) (\<lambda>utime.
     pbind (pbind (p_at fs 14) (parse_float G)) (\<lambda>stime.
     POk ((zero_cpu G)\<lparr>CPU := ''cpu'', User := gdiv G utime (gint G (int ClockTicks)),
                       System := gdiv G stime (gint G (int ClockTicks))\<rparr>)))"

definition stat_created :: "os_view \<Rightarrow> string list \<Rightarrow> int probe" where
  "stat_created os fs =
     (let bootTime = (case host_BootTime os of POk b \<Rightarrow> b | _ \<Rightarrow> 0) in
      pbind (pbind (p_at fs 21) parse_uint) (\<lambda>t.
      let ctime = t div of_nat ClockTicks + bootTime in POk (sint (ctime * 1000))))"

definition fillFromStat :: "'f gops \<Rightarrow> os_view \<Rightarrow> 'f process \<Rightarrow> 'f stat_file probe" where
  "fillFromStat G os p =
     pbind (p_sum (os_read os (HostProc os [Itoa (p_Pid p), ''stat'']))) (\<lambda>contents.
     let fs = Fields contents in
     pbind (stat_terminal os fs) (\<lambda>terminal.
     pbind (pbind (p_at fs 3) (parse_int 32)) (\<lambda>ppid.
     pbind (stat_times G fs) (\<lambda>cpuTimes.
     pbind (stat_created os fs) (\<lambda>createTime.
     POk \<lparr>st_terminal = terminal, st_ppid = ppid, st_cpuTimes = cpuTimes, st_createTime = createTime,
          st_nice = wrap32 (os_priority os (p_Pid p))\<rparr>)))))"


section \<open>The calls\<close>

definition proc_MemoryInfo :: "os_view \<Rightarrow> 'f process \<Rightarrow> memory_info option probe" where
  "proc_MemoryInfo os p = pbind (fillFromStatm os p) (\<lambda>_. POk (p_memInfo p))"

definition proc_MemoryInfoEx :: "os_view \<Rightarrow> 'f process \<Rightarrow> memory_info_ex probe" where
  "proc_MemoryInfoEx os p = pbind (fillFromStatm os p) (\<lambda>(_, memInfoEx). POk memInfoEx)"

definition proc_CPUTimes :: "'f gops \<Rightarrow> os_view \<Rightarrow> 'f process \<Rightarrow> 'f cpu_times probe" where
  "proc_CPUTimes G os p = pbind (fillFromStat G os p) (\<lambda>st. POk (st_cpuTimes st))"

definition proc_IOCounters :: "os_view \<Rightarrow> 'f process \<Rightarrow> io_counters probe" where
  "proc_IOCounters os p = fillFromIO os p"

text \<open>\<open>OpenFiles\<close> assigns to the elements of a slice of length 0.\<close>

fun copy_files :: "open_file list \<Rightarrow> nat \<Rightarrow> open_file option list \<Rightarrow> open_file list probe" where
  "copy_files ret i [] = POk ret"
| "copy_files ret i (o1 # os) =
     (case o1 of
        None \<Rightarrow> PPanic
      | Some f \<Rightarrow> if i < length ret then copy_files (ret[i := f]) (Suc i) os else PPanic)"

definition proc_OpenFiles :: "os_view \<Rightarrow> 'f process \<Rightarrow> open_file list probe" where
  "proc_OpenFiles os p = pbind (fillFromfd os p) (\<lambda>(_, ofs). copy_files [] 0 ofs)"

definition proc_NumThreads :: "os_view \<Rightarrow> 'f process \<Rightarrow> 'f process \<times> int probe" where
  "proc_NumThreads os p =
     (let (p, r) = fillFromStatus os p in (p, pbind r (\<lambda>_. POk (p_numThreads p))))"

definition calculate :: "'f gops \<Rightarrow> int \<Rightarrow> 'f cpu_times \<Rightarrow> 'f cpu_times \<Rightarrow> 'f \<Rightarrow> 'f" where
  "calculate G numcpu t1 t2 delta =
     (if gis0 G delta then gint G 0
      else
        let delta_proc = fadd G (gsub G (User t2) (User t1)) (gsub G (System t2) (System t1))
        in gmul G (gmul G (gdiv G delta_proc delta) (gint G 100)) (gint G numcpu))"

text \<open>
  \<open>CPUPercent\<close>; \<open>os1\<close> and \<open>os2\<close> are the system at the two readings and \<open>now1\<close> to \<open>now3\<close> the
  readings of the clock, in their order.
\<close>

definition proc_CPUPercent ::
    "'f gops \<Rightarrow> int \<Rightarrow> duration \<Rightarrow> os_view \<Rightarrow> os_view \<Rightarrow> instant \<Rightarrow> instant \<Rightarrow> instant \<Rightarrow> 'f process \<Rightarrow>
     'f process \<times> 'f probe" where
  "proc_CPUPercent G numcpu interval os1 os2 now1 now2 now3 p =
     (let finish = (\<lambda>p t1 cpuTimes now now'.
        let delta = gmul G (gseconds G (time_sub now (p_lastCPUTime p))) (gint G numcpu)
        in (p\<lparr>p_lastCPUTimes := Some cpuTimes, p_lastCPUTime := now'\<rparr>, POk (calculate G numcpu t1 cpuTimes delta)))
      in case proc_CPUTimes G os1 p of
        PErr e \<Rightarrow> (p, PErr e)
      | PPanic \<Rightarrow> (p, PPanic)
      | POk cpuTimes \<Rightarrow>
          if interval > 0 then
            (let p = p\<lparr>p_lastCPUTimes := Some cpuTimes, p_lastCPUTime := now1\<rparr> in
             case proc_CPUTimes G os2 p of
               PErr e \<Rightarrow> (p, PErr e)
             | PPanic \<Rightarrow> (p, PPanic)
             | POk cpuTimes' \<Rightarrow> finish p cpuTimes cpuTimes' now2 now3)
          else
            (case p_lastCPUTimes p of
               None \<Rightarrow>
                 (case proc_CPUTimes G os2 p of
                    PErr e \<Rightarrow> (p\<lparr>p_lastCPUTimes := None\<rparr>, PErr e)
                  | PPanic \<Rightarrow> (p, PPanic)
                  | POk t \<Rightarrow> (p\<lparr>p_lastCPUTimes := Some t, p_lastCPUTime := now1\<rparr>, POk (gint G 0)))
             | Some t1 \<Rightarrow> finish p t1 cpuTimes now1 now2))"

text \<open>\<open>CallPgrep\<close> and \<open>Children\<close>.\<close>

fun pgrep_lines :: "string list \<Rightarrow> int list \<Rightarrow> int list" where
  "pgrep_lines [] ret = ret"
| "pgrep_lines (l # ls) ret =
     (if length l = 0 then pgrep_lines ls ret
      else (case parse_int 64 l of POk i \<Rightarrow> pgrep_lines ls (ret @ [wrap32 i]) | _ \<Rightarrow> pgrep_lines ls ret))"

definition CallPgrep :: "os_view \<Rightarrow> int \<Rightarrow> int list probe" where
  "CallPgrep os pid = pbind (p_sum (os_pgrep os pid)) (\<lambda>out. POk (pgrep_lines (Split newline out) []))"

fun new_processes :: "os_view \<Rightarrow> int list \<Rightarrow> 'f process list \<Rightarrow> 'f process list probe" where
  "new_processes os [] ret = POk ret"
| "new_processes os (pid # pids) ret =
     (let (np, r) = NewProcess os pid in pbind r (\<lambda>_. new_processes os pids (ret @ [np])))"

definition proc_Children :: "os_view \<Rightarrow> 'f process \<Rightarrow> 'f process list probe" where
  "proc_Children os p = pbind (CallPgrep os (p_Pid p)) (\<lambda>pids. new_processes os pids [])"

definition proc_Ppid :: "'f gops \<Rightarrow> os_view \<Rightarrow> 'f process \<Rightarrow> int probe" where
  "proc_Ppid G os p = pbind (fillFromStat G os p) (\<lambda>st. POk (st_ppid st))"

definition proc_CreateTime :: "'f gops \<Rightarrow> os_view \<Rightarrow> 'f process \<Rightarrow> int probe" where
  "proc_CreateTime G os p = pbind (fillFromStat G os p) (\<lambda>st. POk (st_createTime st))"

definition proc_Terminal :: "'f gops \<Rightarrow> os_view \<Rightarrow> 'f process \<Rightarrow> string probe" where
  "proc_Terminal G os p = pbind (fillFromStat G os p) (\<lambda>st. POk (st_terminal st))"

definition proc_Nice :: "'f gops \<Rightarrow> os_view \<Rightarrow> 'f process \<Rightarrow> int probe" where
  "proc_Nice G os p = pbind (fillFromStat G os p) (\<lambda>st. POk (st_nice st))"

definition proc_Status :: "os_view \<Rightarrow> 'f process \<Rightarrow> 'f process \<times> string probe" where
  "proc_Status os p = (let (p, r) = fillFromStatus os p in (p, pbind r (\<lambda>_. POk (p_status p))))"

definition proc_Uids :: "os_view \<Rightarrow> 'f process \<Rightarrow> 'f process \<times> int list probe" where
  "proc_Uids os p = (let (p, r) = fillFromStatus os p in (p, pbind r (\<lambda>_. POk (p_uids p))))"

definition proc_Gids :: "os_view \<Rightarrow> 'f process \<Rightarrow> 'f process \<times> int list probe" where
  "proc_Gids os p = (let (p, r) = fillFromStatus os p in (p, pbind r (\<lambda>_. POk (p_gids p))))"

definition proc_NumCtxSwitches :: "os_view \<Rightarrow> 'f process \<Rightarrow> 'f process \<times> (int \<times> int) option probe" where
  "proc_NumCtxSwitches os p =
     (let (p, r) = fillFromStatus os p in (p, pbind r (\<lambda>_. POk (p_numCtxSwitches p))))"

definition proc_NumFDs :: "os_view \<Rightarrow> 'f process \<Rightarrow> int probe" where
  "proc_NumFDs os p = pbind (fillFromfd os p) (\<lambda>(numFds, _). POk numFds)"

definition proc_Cmdline :: "os_view \<Rightarrow> 'f process \<Rightarrow> string probe" where
  "proc_Cmdline os p =
     pbind (p_sum (os_read os (HostProc os [Itoa (p_Pid p), ''cmdline'']))) (\<lambda>cmdline.
       POk (Join blank (FieldsFunc (\<lambda>r. r = CHR 0x00) cmdline)))"

definition proc_Cwd :: "os_view \<Rightarrow> 'f process \<Rightarrow> string probe" where
  "proc_Cwd os p = p_sum (os_link os (HostProc os [Itoa (p_Pid p), ''cwd'']))"

definition proc_Exe :: "os_view \<Rightarrow> 'f process \<Rightarrow> string probe" where
  "proc_Exe os p = p_sum (os_link os (HostProc os [Itoa (p_Pid p), ''exe'']))"

fun numeric_pids :: "string list \<Rightarrow> int list" where
  "numeric_pids [] = []"
| "numeric_pids (fname # fnames) =
     (case parse_int 32 fname of POk pid \<Rightarrow> pid # numeric_pids fnames | _ \<Rightarrow> numeric_pids fnames)"

definition Pids :: "os_view \<Rightarrow> int list probe" where
  "Pids os = pbind (p_sum (os_names os (HostProc os []))) (\<lambda>fnames. POk (numeric_pids fnames))"

definition PidExists :: "os_view \<Rightarrow> int \<Rightarrow> bool probe" where
  "PidExists os pid = pbind (Pids os) (\<lambda>pids. POk (pid \<in> set pids))"

text \<open>\<open>Parent\<close> with its run of \<open>lsof\<close>, the signals, which are sent by the command \<open>kill\<close>, and \<open>Username\<close>.\<close>

fun lsof_lines :: "string \<Rightarrow> string list \<Rightarrow> string list" where
  "lsof_lines arg [] = []"
| "lsof_lines arg (l # ls) = (if HasPrefix l arg then drop 1 l # lsof_lines arg ls else lsof_lines arg ls)"

definition callLsof :: "os_view \<Rightarrow> string \<Rightarrow> int \<Rightarrow> string list probe" where
  "callLsof os arg pid =
     (let cmd = (if pid = 0 then [''-F'' @ arg] else [''-a'', ''-F'' @ arg, ''-p'', Itoa pid]) in
      pbind (p_sum (os_lsof os cmd)) (\<lambda>out. POk (lsof_lines arg (tl (Split newline out)))))"

definition proc_Parent :: "os_view \<Rightarrow> 'f process \<Rightarrow> 'f process option \<times> unit probe" where
  "proc_Parent os p =
     (case pbind (callLsof os ''R'' (p_Pid p)) (\<lambda>r.
             if length r \<noteq> 1 then PErr ''wrong number of parents'' else parse_int 64 (r ! 0)) of
        POk v \<Rightarrow> (let (np, e) = NewProcess os (wrap32 v) in (Some np, e))
      | PErr e \<Rightarrow> (None, PErr e)
      | PPanic \<Rightarrow> (None, PPanic))"

definition signal_name :: "int \<Rightarrow> string" where
  "signal_name sig =
     (if sig = 19 then ''STOP'' else if sig = 18 then ''CONT'' else if sig = 15 then ''TERM''
      else if sig = 9 then ''KILL'' else ''INT'')"

definition SendSignal :: "os_view \<Rightarrow> int \<Rightarrow> 'f process \<Rightarrow> err option" where
  "SendSignal os sig p = os_kill os [''-s'', signal_name sig, Itoa (p_Pid p)]"

definition proc_Suspend :: "os_view \<Rightarrow> 'f process \<Rightarrow> err option" where "proc_Suspend os = SendSignal os 19"
definition proc_Resume :: "os_view \<Rightarrow> 'f process \<Rightarrow> err option" where "proc_Resume os = SendSignal os 18"
definition proc_Terminate :: "os_view \<Rightarrow> 'f process \<Rightarrow> err option" where "proc_Terminate os = SendSignal os 15"
definition proc_Kill :: "os_view \<Rightarrow> 'f process \<Rightarrow> err option" where "proc_Kill os = SendSignal os 9"

definition proc_Username :: "os_view \<Rightarrow> 'f process \<Rightarrow> 'f process \<times> string probe" where
  "proc_Username os p =
     (let (p, r) = proc_Uids os p in
      (p, pbind r (\<lambda>uids. if length uids > 0 then p_sum (os_user os (Itoa (uids ! 0))) else POk '''')))"


section \<open>A system with given files\<close>

text \<open>An instance of the operating system for the witnesses: files by path, and the output of \<open>pgrep\<close>.\<close>

definition files_os :: "(string \<times> string) list \<Rightarrow> err + string \<Rightarrow> os_view" where
  "files_os files pgrep =
     \<lparr>os_env = '''',
      os_read = (\<lambda>path. case map_of files path of None \<Rightarrow> Inl ''no such file'' | Some c \<Rightarrow> Inr c),
      os_partial = (\<lambda>_. None), os_names = (\<lambda>_. Inl ''no such directory''), os_link = (\<lambda>_. Inl ''no such link''),
      os_rdev = (\<lambda>_. Inl ''no such device''), os_exists = (\<lambda>path. path \<in> fst ` set files),
      os_pgrep = (\<lambda>_. pgrep), os_lsb_release = Inl ''no such command'', os_hostname = Inr ''host'',
      os_priority = (\<lambda>_. 0), os_lsof = (\<lambda>_. Inl ''no such command''), os_kill = (\<lambda>_. None),
      os_user = (\<lambda>_. Inl ''no such user'')\<rparr>"

lemma files_os_simps [simp]:
  "os_env (files_os files g) = ''''"
  "os_read (files_os files g) path =
     (case map_of files path of None \<Rightarrow> Inl ''no such file'' | Some c \<Rightarrow> Inr c)"
  "os_partial (files_os files g) path = None"
  "os_names (files_os files g) path = Inl ''no such directory''"
  "os_exists (files_os files g) path \<longleftrightarrow> path \<in> fst ` set files"
  "os_pgrep (files_os files g) pid = g"
  "os_priority (files_os files g) pid = 0"
  by (simp_all add: files_os_def)

end
