(* ===== verification/Proc_Files.thy ===== *)
theory Proc_Files
  imports Proc_Process
begin

text \<open>
  What gopsutil makes of the files of a process as the kernel writes them: the lines of \<open>io\<close> and
  \<open>status\<close>, the fields of \<open>stat\<close> and the output of \<open>pgrep\<close> are read back, and what a process remembers
  between two readings.
\<close>


section \<open>The file io\<close>

definition io_line :: "string \<times> u64 \<Rightarrow> string" where
  "io_line = (\<lambda>(name, w). name @ '': '' @ utoa w)"

lemma Fields_io_line: "word_ok n \<Longrightarrow> Fields (io_line (n, w)) = [n @ '':'', utoa w]"
proof -
  assume n: "word_ok n"
  then have "word_ok (n @ '':'')" by (auto simp: word_ok_def is_space_def spaces_def)
  then show ?thesis using Fields_append [of "n @ '':''" blank "utoa w"] by (simp add: io_line_def Fields_word)
qed

lemma HasSuffix_append [simp]: "HasSuffix (s @ p) p"
  by (simp add: HasSuffix_def)

lemma io_lines_entries:
  assumes "\<forall>(n, w)\<in>set kvs. word_ok n"
  shows "io_lines (map io_line kvs @ [[]]) ret = POk (foldl (\<lambda>r (n, w). io_set n w r) ret kvs)"
  using assms
proof (induction kvs arbitrary: ret)
  case (Cons kv kvs)
  obtain n w where kv: "kv = (n, w)" by force
  with Cons.prems have n: "word_ok n" by simp
  with HasSuffix_append [of n "'':''"] Cons show ?case
    by (simp add: kv Fields_io_line parse_uint_utoa)
qed simp


section \<open>The file status\<close>

definition status_entry :: "string \<times> string \<Rightarrow> string" where
  "status_entry = (\<lambda>(key, value). key @ '':'' @ [tab] @ value)"

definition key_ok :: "string \<Rightarrow> bool" where
  "key_ok k \<longleftrightarrow> k \<noteq> [] \<and> tab \<notin> set k \<and> newline \<notin> set k \<and> last k \<noteq> CHR '':''"

lemma SplitN2_append: "c \<notin> set k \<Longrightarrow> SplitN2 c (k @ c # v) = [k, v]"
  by (induction k) auto

lemma status_line_entry:
  assumes "key_ok k"
  shows "status_line (status_entry (k, v)) p = status_field k v p"
proof -
  have "TrimRight (k @ '':'') {CHR '':''} = k"
    using assms by (cases k rule: rev_cases) (auto simp: TrimRight_def key_ok_def)
  moreover have "SplitN2 tab ((k @ '':'') @ tab # v) = [k @ '':'', v]"
    using assms by (intro SplitN2_append) (auto simp: key_ok_def)
  ultimately show ?thesis by (simp add: status_line_def status_entry_def)
qed

lemma status_lines_entries:
  fixes p :: "'f process"
  assumes "\<forall>(k, v)\<in>set kvs. key_ok k \<and> (\<forall>p :: 'f process. snd (status_field k v p) = POk ())"
  shows "status_lines (map status_entry kvs @ [[]]) p = (foldl (\<lambda>p (k, v). fst (status_field k v p)) p kvs, POk ())"
  using assms
proof (induction kvs arbitrary: p)
  case Nil
  then show ?case by (simp add: status_line_def)
next
  case (Cons kv kvs)
  obtain k v where kv: "kv = (k, v)" by force
  with Cons.prems have "key_ok k" "snd (status_field k v p) = POk ()" by auto
  with Cons show ?case
    by (cases "status_field k v p") (simp add: kv status_line_entry)
qed

text \<open>A component that one key sets and no other touches.\<close>

lemma foldl_component:
  assumes "\<And>k v p. (k, v) \<in> set kvs \<Longrightarrow> f (step p (k, v)) = (if k = K then x else f p)"
  shows "f (foldl step p kvs) = (if K \<in> fst ` set kvs then x else f p)"
  using assms
proof (induction kvs arbitrary: p)
  case (Cons kv kvs)
  obtain k v where kv: "kv = (k, v)" by force
  have "f (foldl step (step p (k, v)) kvs) = (if K \<in> fst ` set kvs then x else f (step p (k, v)))"
    using Cons.prems by (intro Cons.IH) simp
  with Cons.prems [of k v p] show ?case by (auto simp: kv)
qed simp


section \<open>What is remembered of a process\<close>

text \<open>Once \<open>NewProcess\<close> has read the status file, the two pointers it sets are never nil.\<close>

definition process_ok :: "'f process \<Rightarrow> bool" where
  "process_ok p \<longleftrightarrow> p_memInfo p \<noteq> None \<and> p_numCtxSwitches p \<noteq> None"

text \<open>The changes a line of the status file can make, on two processes alike.\<close>

lemma if_related: "(b \<Longrightarrow> P x y) \<Longrightarrow> (\<not> b \<Longrightarrow> P x' y') \<Longrightarrow> P (if b then x else x') (if b then y else y')"
  by simp

lemma prod_related: "(\<And>a b. P (f a b) (g a b)) \<Longrightarrow> P (case z of (a, b) \<Rightarrow> f a b) (case z of (a, b) \<Rightarrow> g a b)"
  by (cases z) simp

lemma status_field_cases:
  assumes "\<And>n. P (p\<lparr>p_name := n\<rparr>, POk ()) (q\<lparr>p_name := n\<rparr>, POk ())"
    and "\<And>r. P (store r (\<lambda>s. p\<lparr>p_status := s\<rparr>) p) (store r (\<lambda>s. q\<lparr>p_status := s\<rparr>) q)"
    and "\<And>ids r. P (p\<lparr>p_uids := ids\<rparr>, r) (q\<lparr>p_uids := ids\<rparr>, r)"
    and "\<And>ids r. P (p\<lparr>p_gids := ids\<rparr>, r) (q\<lparr>p_gids := ids\<rparr>, r)"
    and "\<And>r. P (store r (\<lambda>n. p\<lparr>p_numThreads := n\<rparr>) p) (store r (\<lambda>n. q\<lparr>p_numThreads := n\<rparr>) q)"
    and "\<And>r f. P (store (r :: int probe) (\<lambda>n. p\<lparr>p_numCtxSwitches := map_option (f n) (p_numCtxSwitches p)\<rparr>) p)
      (store r (\<lambda>n. q\<lparr>p_numCtxSwitches := map_option (f n) (p_numCtxSwitches q)\<rparr>) q)"
    and "\<And>r f. P (store (r :: u64 probe) (\<lambda>n. with_mem p (f n)) p) (store r (\<lambda>n. with_mem q (f n)) q)"
    and "P (p, POk ()) (q, POk ())"
  shows "P (status_field k v p) (status_field k v q)"
  unfolding status_field_def Let_def
  by (rule if_related [where P = P] prod_related [where P = P] assms)+

text \<open>
  Two results of reading the status file agree: the same outcome, and the same memory. What the
  processes remember besides is not touched.
\<close>

definition same_memory :: "'f process \<times> unit probe \<Rightarrow> 'g process \<times> unit probe \<Rightarrow> bool" where
  "same_memory x y \<longleftrightarrow> snd x = snd y \<and> p_memInfo (fst x) = p_memInfo (fst y)"

definition kept :: "'f process \<Rightarrow> 'f process \<Rightarrow> bool" where
  "kept p q \<longleftrightarrow> p_Pid q = p_Pid p \<and> p_lastCPUTimes q = p_lastCPUTimes p \<and>
     p_lastCPUTime q = p_lastCPUTime p \<and> (process_ok p \<longrightarrow> process_ok q)"

lemma kept_refl [simp]: "kept p p"
  by (simp add: kept_def)

lemma kept_trans [trans]: "kept p q \<Longrightarrow> kept q r \<Longrightarrow> kept p r"
  by (simp add: kept_def)

lemma status_field_kept: "kept p (fst (status_field k v p))"
  by (rule status_field_cases [where P = "\<lambda>x _. kept p (fst x)"])
    (auto simp: kept_def store_def with_mem_def process_ok_def split: probe.split)

lemma status_field_memory:
  "p_memInfo p = p_memInfo q \<Longrightarrow> same_memory (status_field k v p) (status_field k v q)"
  by (rule status_field_cases) (auto simp: same_memory_def store_def with_mem_def split: probe.split)

lemma status_line_kept: "kept p (fst (status_line l p))"
  by (simp add: status_line_def Let_def status_field_kept)

lemma status_line_memory: "p_memInfo p = p_memInfo q \<Longrightarrow> same_memory (status_line l p) (status_line l q)"
  by (simp add: status_line_def Let_def status_field_memory) (simp add: same_memory_def)

lemma status_lines_kept: "kept p (fst (status_lines ls p))"
proof (induction ls arbitrary: p)
  case (Cons l ls)
  show ?case
    using status_line_kept [of p l] Cons [of "fst (status_line l p)"]
    by (auto split: prod.split probe.split intro: kept_trans)
qed simp

lemma status_lines_memory:
  "p_memInfo p = p_memInfo q \<Longrightarrow> same_memory (status_lines ls p) (status_lines ls q)"
proof (induction ls arbitrary: p q)
  case Nil
  then show ?case by (simp add: same_memory_def)
next
  case (Cons l ls)
  then have "same_memory (status_line l p) (status_line l q)" by (simp add: status_line_memory)
  then show ?case
    by (cases "status_line l p"; cases "status_line l q")
      (auto simp: same_memory_def split: probe.split intro: Cons.IH [unfolded same_memory_def, THEN conjunct1]
        Cons.IH [unfolded same_memory_def, THEN conjunct2])
qed

lemma fillFromStatus_kept: "kept p (fst (fillFromStatus os p))"
proof -
  have "kept p (p\<lparr>p_numCtxSwitches := Some (0, 0), p_memInfo := Some \<lparr>RSS = 0, VMS = 0, Swap = 0\<rparr>\<rparr>)" (is "kept p ?q")
    by (simp add: kept_def process_ok_def)
  also have "kept ?q (fst (status_lines ls ?q))" for ls by (rule status_lines_kept)
  finally show ?thesis by (simp add: fillFromStatus_def split: sum.split)
qed

lemma NewProcess_ok: "snd (NewProcess os pid :: 'f process \<times> unit probe) = POk () \<Longrightarrow> process_ok (fst (NewProcess os pid :: 'f process \<times> unit probe))"
  using status_lines_kept [of "(new_process pid)\<lparr>p_numCtxSwitches := Some (0, 0), p_memInfo := Some \<lparr>RSS = 0, VMS = 0, Swap = 0\<rparr>\<rparr> :: 'f process"]
  by (auto simp: NewProcess_def fillFromStatus_def kept_def process_ok_def split: sum.splits)

text \<open>The memory the status file of a process shows, when the file can be read.\<close>

definition status_memory :: "os_view \<Rightarrow> int \<Rightarrow> memory_info option" where
  "status_memory os pid = p_memInfo (fst (NewProcess os pid :: unit process \<times> unit probe))"

lemma fillFromStatus_memory:
  "p_memInfo (fst (fillFromStatus os p)) =
     (case os_read os (HostProc os [Itoa (p_Pid p), ''status'']) of
        Inl _ \<Rightarrow> p_memInfo p | Inr _ \<Rightarrow> status_memory os (p_Pid p))"
proof (cases "os_read os (HostProc os [Itoa (p_Pid p), ''status''])")
  case (Inr c)
  let ?start = "\<lambda>p. p\<lparr>p_numCtxSwitches := Some (0, 0), p_memInfo := Some \<lparr>RSS = 0, VMS = 0, Swap = 0\<rparr>\<rparr>"
  have "same_memory (status_lines (Split newline c) (?start p))
      (status_lines (Split newline c) (?start (new_process (p_Pid p) :: unit process)))"
    by (rule status_lines_memory) simp
  with Inr show ?thesis
    by (simp add: same_memory_def status_memory_def NewProcess_def fillFromStatus_def new_process_def)
qed (simp add: fillFromStatus_def)

lemma status_memory_Some:
  "os_read os (HostProc os [Itoa pid, ''status'']) = Inr c \<Longrightarrow> \<exists>m. status_memory os pid = Some m"
  using status_lines_kept [of "(new_process pid)\<lparr>p_numCtxSwitches := Some (0, 0), p_memInfo := Some \<lparr>RSS = 0, VMS = 0, Swap = 0\<rparr>\<rparr> :: unit process" "Split newline c"]
  by (auto simp: status_memory_def NewProcess_def fillFromStatus_def kept_def process_ok_def new_process_def)


section \<open>Round trips of the files\<close>

lemma newline_word: "word_ok w \<Longrightarrow> newline \<notin> set w"
  by (auto simp: word_ok_def)

lemma newline_io_line: "word_ok n \<Longrightarrow> newline \<notin> set (io_line (n, w))"
  by (simp add: io_line_def newline_utoa newline_word)

text \<open>
  The kernel's file \<open>io\<close> of a process is read back: whatever the seven counters are, the calls and
  the bytes of the block layer are exactly what the kernel printed (the bytes passed to the calls
  themselves, \<open>rchar\<close> and \<open>wchar\<close>, are not kept).
\<close>

theorem io_counters_read_back:
  assumes "os_read os (HostProc os [Itoa (p_Pid p), ''io'']) =
    Inr (text_lines (map io_line
      [(''rchar'', rc), (''wchar'', wc), (''syscr'', sr), (''syscw'', sw),
       (''read_bytes'', rb), (''write_bytes'', wb), (''cancelled_write_bytes'', cb)]))"
  shows "proc_IOCounters os p = POk \<lparr>ReadCount = sr, WriteCount = sw, ReadBytes = rb, WriteBytes = wb\<rparr>"
proof -
  let ?kvs = "[(''rchar'', rc), (''wchar'', wc), (''syscr'', sr), (''syscw'', sw),
       (''read_bytes'', rb), (''write_bytes'', wb), (''cancelled_write_bytes'', cb)]"
  have ok: "\<forall>(n, w)\<in>set ?kvs. word_ok n" by (simp add: word_ok_def is_space_def spaces_def)
  then have "\<forall>l\<in>set (map io_line ?kvs). newline \<notin> set l" by (auto simp: newline_io_line simp del: list.map)
  then have "Split newline (text_lines (map io_line ?kvs)) = map io_line ?kvs @ [[]]"
    by (rule Split_text_lines)
  then show ?thesis
    using io_lines_entries [OF ok, of "\<lparr>ReadCount = 0, WriteCount = 0, ReadBytes = 0, WriteBytes = 0\<rparr>"]
    by (simp add: proc_IOCounters_def fillFromIO_def assms p_sum_def io_set_def)
qed

lemma dropWhile_within: "set a \<subseteq> cs \<Longrightarrow> dropWhile (\<lambda>c. c \<in> cs) (a @ s) = dropWhile (\<lambda>c. c \<in> cs) s"
  by (induction a) auto

lemma dropWhile_outside: "s \<noteq> [] \<Longrightarrow> \<forall>c\<in>set s. c \<notin> cs \<Longrightarrow> dropWhile (\<lambda>c. c \<in> cs) (s @ b) = s @ b"
  by (cases s) auto

lemma Trim_padded:
  assumes "s \<noteq> []" and "\<forall>c\<in>set s. c \<notin> cs" and "set a \<subseteq> cs" and "set b \<subseteq> cs"
  shows "Trim (a @ s @ b) cs = s"
  using dropWhile_within [of a cs "s @ b"] dropWhile_outside [of s cs b]
    dropWhile_within [of "rev b" cs "rev s"] dropWhile_outside [of "rev s" cs "[]"] assms
  by (simp add: Trim_def TrimLeft_def TrimRight_def)

text \<open>A size as the kernel prints it: padded on the left, in kilobytes.\<close>

definition kB_text :: "nat \<Rightarrow> u64 \<Rightarrow> string" where
  "kB_text n w = replicate n blank @ utoa w @ '' kB''"

lemma Trim_kB_text: "Trim (kB_text n w) {blank, CHR ''k'', CHR ''B''} = utoa w"
proof -
  have "c \<notin> {blank, CHR ''k'', CHR ''B''}" if "c \<in> set (utoa w)" for c
    using Itoa_chars [of c "uint w"] that by (auto simp: utoa_def)
  then show ?thesis
    unfolding kB_text_def by (intro Trim_padded) (auto simp: utoa_def)
qed

lemma kB_kB_text: "kB (kB_text n w) = POk (w * 1024)"
  by (simp add: kB_def Trim_kB_text parse_uint_utoa)

text \<open>
  A key that is there once, with a component of the process that no other key changes: the
  component is what the line of the key makes it, wherever the line stands.
\<close>

lemma status_component:
  fixes p :: "'f process"
  assumes "distinct (map fst kvs)" and "(K, value) \<in> set kvs"
    and "\<forall>(k, v)\<in>set kvs. key_ok k \<and> (\<forall>p :: 'f process. snd (status_field k v p) = POk ())"
    and "\<And>k v p. k \<noteq> K \<Longrightarrow> f (fst (status_field k v p)) = f p"
    and "\<And>p. f (fst (status_field K value p)) = x"
  shows "f (fst (status_lines (map status_entry kvs @ [[]]) p)) = x"
proof -
  have "f ((\<lambda>p (k, v). fst (status_field k v p)) p (k, v)) = (if k = K then x else f p)"
    if "(k, v) \<in> set kvs" for k v p
    using that assms(1,2,4,5) by (auto dest: eq_key_imp_eq_value)
  then have "f (foldl (\<lambda>p (k, v). fst (status_field k v p)) p kvs) = (if K \<in> fst ` set kvs then x else f p)"
    by (rule foldl_component)
  moreover have "K \<in> fst ` set kvs" using assms(2) by force
  ultimately show ?thesis by (simp add: status_lines_entries [OF assms(3)])
qed

definition mem_part :: "(memory_info \<Rightarrow> u64) \<Rightarrow> u64 \<Rightarrow> 'f process \<Rightarrow> u64" where
  "mem_part sel x p = (case p_memInfo p of None \<Rightarrow> x | Some m \<Rightarrow> sel m)"

lemma if_one: "(b \<Longrightarrow> Q x) \<Longrightarrow> (\<not> b \<Longrightarrow> Q y) \<Longrightarrow> Q (if b then x else y)"
  by simp

lemma mem_part_store:
  "mem_part sel x (fst (store r (\<lambda>v. with_mem p (g v)) p)) = mem_part sel x p"
  if "\<And>v m. sel (g v m) = sel m"
  using that by (cases r) (simp_all add: store_def with_mem_def mem_part_def split: option.split)

lemma mem_part_simps:
  "mem_part sel x (p\<lparr>p_name := n\<rparr>) = mem_part sel x p"
  "mem_part sel x (p\<lparr>p_uids := ids\<rparr>) = mem_part sel x p"
  "mem_part sel x (p\<lparr>p_gids := ids\<rparr>) = mem_part sel x p"
  "mem_part sel x (fst (store r (\<lambda>s. p\<lparr>p_status := s\<rparr>) p)) = mem_part sel x p"
  "mem_part sel x (fst (store r' (\<lambda>s. p\<lparr>p_numThreads := s\<rparr>) p)) = mem_part sel x p"
  "mem_part sel x (fst (store r' (\<lambda>s. p\<lparr>p_numCtxSwitches := g s\<rparr>) p)) = mem_part sel x p"
  by (simp_all add: mem_part_def store_def split: probe.split)

lemma status_field_mem_part:
  assumes "k = ''VmRSS'' \<Longrightarrow> \<forall>v m. sel (m\<lparr>RSS := v\<rparr>) = sel m"
    and "k = ''VmSize'' \<Longrightarrow> \<forall>v m. sel (m\<lparr>VMS := v\<rparr>) = sel m"
    and "k = ''VmSwap'' \<Longrightarrow> \<forall>v m. sel (m\<lparr>Swap := v\<rparr>) = sel m"
  shows "mem_part sel x (fst (status_field k v p)) = mem_part sel x p"
  unfolding status_field_def Let_def
  by ((rule if_one [where Q = "\<lambda>y. mem_part sel x (fst y) = mem_part sel x p"])+,
      simp_all only: mem_part_simps fst_conv split: prod.split,
      simp_all add: mem_part_store assms mem_part_simps)

lemma status_field_threads:
  assumes "k \<noteq> ''Threads''"
  shows "p_numThreads (fst (status_field k v p)) = p_numThreads p"
  unfolding status_field_def Let_def
  by ((rule if_one [where Q = "\<lambda>y. p_numThreads (fst y) = p_numThreads p"])+,
      simp_all add: assms store_def with_mem_def split: prod.split probe.split)

text \<open>Whether the value of a key can be parsed does not depend on the process.\<close>

definition value_ok :: "string \<Rightarrow> string \<Rightarrow> bool" where
  "value_ok k v \<longleftrightarrow> snd (status_field k v (new_process 0 :: unit process)) = POk ()"

lemma value_okD: "value_ok k v \<Longrightarrow> snd (status_field k v p) = POk ()"
proof -
  have "snd (status_field k v p) = snd (status_field k v (new_process 0 :: unit process))"
    by (rule status_field_cases [where P = "\<lambda>x y. snd x = snd y"]) (simp_all add: store_def split: probe.split)
  then show "value_ok k v \<Longrightarrow> snd (status_field k v p) = POk ()" by (simp add: value_ok_def)
qed

text \<open>
  C27: the kernel's file \<open>status\<close> is read back: whatever other keys it has and in whatever order, the
  number of threads is the one printed, and the memory the three sizes printed in kilobytes,
  with 64-bit wrap-around.
\<close>

theorem status_read_back:
  assumes contents: "os_read os (HostProc os [Itoa (p_Pid p), ''status'']) = Inr (text_lines (map status_entry kvs))"
    and keys: "distinct (map fst kvs)"
    and entries: "\<forall>(k, v)\<in>set kvs. key_ok k \<and> value_ok k v \<and> newline \<notin> set v"
    and known: "(''VmRSS'', kB_text a r) \<in> set kvs" "(''VmSize'', kB_text b s) \<in> set kvs"
      "(''VmSwap'', kB_text c w) \<in> set kvs" "(''Threads'', Itoa n) \<in> set kvs"
    and n: "0 \<le> n" "n < 2 ^ 31"
  shows "snd (proc_NumThreads os p) = POk n \<and>
    p_memInfo (fst (proc_NumThreads os p)) = Some \<lparr>RSS = r * 1024, VMS = s * 1024, Swap = w * 1024\<rparr>"
proof -
  let ?p = "p\<lparr>p_numCtxSwitches := Some (0, 0), p_memInfo := Some \<lparr>RSS = 0, VMS = 0, Swap = 0\<rparr>\<rparr>"
  define q where "q = fst (status_lines (map status_entry kvs @ [[]]) ?p)"
  have ok: "\<forall>(k, v)\<in>set kvs. key_ok k \<and> (\<forall>p :: 'a process. snd (status_field k v p) = POk ())"
    using entries value_okD by fastforce
  note component = status_component [OF keys _ ok, where p = ?p, folded q_def]
  have "mem_part RSS (r * 1024) q = r * 1024"
    by (rule component [OF known(1)], rule status_field_mem_part)
      (auto simp: status_field_def kB_kB_text store_def with_mem_def mem_part_def split: option.split)
  moreover have "mem_part VMS (s * 1024) q = s * 1024"
    by (rule component [OF known(2)], rule status_field_mem_part)
      (auto simp: status_field_def kB_kB_text store_def with_mem_def mem_part_def split: option.split)
  moreover have "mem_part Swap (w * 1024) q = w * 1024"
    by (rule component [OF known(3)], rule status_field_mem_part)
      (auto simp: status_field_def kB_kB_text store_def with_mem_def mem_part_def split: option.split)
  moreover have "p_numThreads q = n"
    by (rule component [OF known(4)], rule status_field_threads)
      (use n in \<open>simp_all add: status_field_def parse_int_Itoa store_def\<close>)
  moreover have "p_memInfo q \<noteq> None"
    using status_lines_kept [of ?p "map status_entry kvs @ [[]]"]
    by (simp add: q_def kept_def process_ok_def)
  moreover have "proc_NumThreads os p = (q, POk (p_numThreads q))"
  proof -
    have "newline \<notin> set (status_entry kv)" if "kv \<in> set kvs" for kv
      using that entries by (auto simp: status_entry_def key_ok_def)
    then have "fillFromStatus os p = status_lines (map status_entry kvs @ [[]]) ?p"
      by (simp add: fillFromStatus_def contents Split_text_lines)
    also have "\<dots> = (q, POk ())" by (simp add: q_def status_lines_entries [OF ok])
    finally show ?thesis by (simp add: proc_NumThreads_def)
  qed
  ultimately show ?thesis by (auto simp: mem_part_def)
qed

section \<open>The fields of stat and the output of pgrep\<close>

text \<open>
  The file \<open>stat\<close> is one line: the pid, the words of the command's name with its parentheses, and
  from the state on the fields the kernel documents.
\<close>

definition stat_text :: "string \<Rightarrow> string list \<Rightarrow> string list \<Rightarrow> string" where
  "stat_text pid command fs = Join blank (pid # command @ fs) @ [newline]"

lemma Fields_stat_text:
  "\<forall>w\<in>set (pid # command @ fs). word_ok w \<Longrightarrow> Fields (stat_text pid command fs) = pid # command @ fs"
  unfolding stat_text_def by (intro Fields_Join) simp_all

lemma p_at_stat: "n < length fs \<Longrightarrow> i = Suc (length command + n) \<Longrightarrow> p_at (pid # command @ fs) i = POk (fs ! n)"
  by (simp add: p_at_def nth_append)

lemma state_not_int: "c \<in> set ''RSDTtZX'' \<Longrightarrow> parse_int 32 [c] = PErr ''invalid integer''"
  by (simp, elim disjE; simp; code_simp)

lemma p_opt_Some [simp]: "p_opt e (Some x) = POk x"
  by (simp add: p_opt_def)

text \<open>
  C28: the CPU times of a process are its fields \<open>utime\<close> and \<open>stime\<close> in clock ticks of a hundredth of a
  second, when its command's name is one word. A blank in the name moves the fields, so that the
  state is taken for the parent's pid and the times of such a process are an error.
\<close>

theorem cpu_times_read_back:
  assumes contents: "os_read os (HostProc os [Itoa (p_Pid p), ''stat'']) = Inr (stat_text pid command fs)"
    and words: "\<forall>w\<in>set (pid # command @ fs). word_ok w"
    and fs: "20 \<le> length fs" "fs ! 0 \<in> set (map (\<lambda>c. [c]) ''RSDTtZX'')" "fs ! 1 = Itoa ppid" "fs ! 4 = utoa tty"
      "gparse G (fs ! 11) = Some u" "gparse G (fs ! 12) = Some s" "fs ! 19 = utoa start"
    and ppid: "0 \<le> ppid" "ppid < 2 ^ 31"
  shows "(length command = 1 \<longrightarrow> proc_CPUTimes G os p =
            POk ((zero_cpu G)\<lparr>CPU := ''cpu'', User := gdiv G u (gint G 100), System := gdiv G s (gint G 100)\<rparr>)) \<and>
         (length command = 2 \<longrightarrow> (\<exists>e. proc_CPUTimes G os p = PErr e))"
proof (intro conjI impI)
  note read = proc_CPUTimes_def fillFromStat_def contents p_sum_def Fields_stat_text [OF words]
  {
    assume "length command = 1"
    then have "p_at (pid # command @ fs) 3 = POk (Itoa ppid)" "p_at (pid # command @ fs) 6 = POk (utoa tty)"
      "p_at (pid # command @ fs) 13 = POk (fs ! 11)" "p_at (pid # command @ fs) 14 = POk (fs ! 12)"
      "p_at (pid # command @ fs) 21 = POk (utoa start)"
      using p_at_stat [of 1 fs 3] p_at_stat [of 4 fs 6] p_at_stat [of 11 fs 13] p_at_stat [of 12 fs 14]
        p_at_stat [of 19 fs 21] fs by simp_all
    then show "proc_CPUTimes G os p =
        POk ((zero_cpu G)\<lparr>CPU := ''cpu'', User := gdiv G u (gint G 100), System := gdiv G s (gint G 100)\<rparr>)"
      using fs ppid
      by (simp add: read stat_terminal_def stat_times_def stat_created_def parse_float_def parse_int_Itoa
        parse_uint_utoa ClockTicks_def split: sum.split)
  next
    assume "length command = 2"
    then have third: "p_at (pid # command @ fs) 3 = POk (fs ! 0)" "p_at (pid # command @ fs) 6 = POk (fs ! 3)"
      using p_at_stat [of 0 fs 3] p_at_stat [of 3 fs 6] fs by force+
    obtain c where "fs ! 0 = [c]" "c \<in> set ''RSDTtZX''" using fs(2) by auto
    then have state: "parse_int 32 (fs ! 0) = PErr ''invalid integer''" by (simp only: state_not_int)
    have "stat_terminal os (pid # command @ fs) \<noteq> PPanic"
      by (simp add: stat_terminal_def third parse_uint_def p_opt_def split: sum.split option.split)
    then show "\<exists>e. proc_CPUTimes G os p = PErr e"
      by (cases "stat_terminal os (pid # command @ fs)") (simp_all add: read third state)
  }
qed

lemma pgrep_lines_Itoa:
  "\<forall>i\<in>set pids. - (2 ^ 31) \<le> i \<and> i < 2 ^ 31 \<Longrightarrow> pgrep_lines (map Itoa pids @ [[]]) ret = ret @ pids"
proof (induction pids arbitrary: ret)
  case (Cons i rest)
  then show ?case by (simp add: parse_int_Itoa in_int32_def)
qed simp

text \<open>The children are those \<open>pgrep\<close> lists, in its order; when it fails (also because there are none), there is an error.\<close>

theorem CallPgrep_read_back:
  assumes "\<forall>i\<in>set pids. 0 \<le> i \<and> i < 2 ^ 31"
    and "os_pgrep os pid = (if pids = [] then Inl ''exit status 1'' else Inr (text_lines (map Itoa pids)))"
  shows "CallPgrep os pid = (if pids = [] then PErr ''exit status 1'' else POk pids)"
proof -
  have "Split newline (text_lines (map Itoa pids)) = map Itoa pids @ [[]]"
    by (rule Split_text_lines) (simp add: newline_Itoa)
  then show ?thesis
    using assms pgrep_lines_Itoa [of pids "[]"] by (force simp: CallPgrep_def p_sum_def)
qed

section \<open>Instances\<close>

text \<open>The files of a process, in the form the kernel gives them.\<close>

lemma Itoa_numerals: "Itoa 7 = ''7''" "Itoa 1 = ''1''" "utoa 3 = ''3''"
  by code_simp+

definition example_status :: "(string \<times> string) list" where
  "example_status =
     [(''Name'', ''sh''), (''State'', ''S (sleeping)''), (''Threads'', Itoa 1), (''VmSize'', kB_text 3 40),
      (''VmRSS'', kB_text 4 12), (''VmSwap'', kB_text 8 0)]"

definition example_files :: "(string \<times> string) list" where
  "example_files =
     [(''/proc/7/status'', text_lines (map status_entry example_status)),
      (''/proc/1/status'', text_lines (map status_entry example_status)),
      (''/proc/7/statm'', ''10 3 2 1 0 1 0''),
      (''/proc/7/io'', text_lines (map io_line
         [(''rchar'', 1), (''wchar'', 2), (''syscr'', 3), (''syscw'', 4),
          (''read_bytes'', 5), (''write_bytes'', 6), (''cancelled_write_bytes'', 7)])),
      (''/proc/7/stat'', stat_text ''7'' [''(sh)''] (''S'' # Itoa 1 # replicate 18 (utoa 3)))]"

definition example_os :: os_view where
  "example_os = files_os example_files (Inr (text_lines [Itoa 1]))"

lemma example_path:
  "HostProc example_os [Itoa 7, f] = ''/proc/7/'' @ f" "HostProc example_os [Itoa 1, f] = ''/proc/1/'' @ f"
  by (simp_all add: HostProc_def GetEnv_def example_os_def Itoa_numerals)

lemma example_read:
  "os_read example_os ''/proc/1/status'' = Inr (text_lines (map status_entry example_status))"
  "os_read example_os ''/proc/7/status'' = Inr (text_lines (map status_entry example_status))"
  "os_read example_os ''/proc/7/statm'' = Inr ''10 3 2 1 0 1 0''"
  "os_read example_os ''/proc/7/io'' = Inr (text_lines (map io_line
         [(''rchar'', 1), (''wchar'', 2), (''syscr'', 3), (''syscw'', 4),
          (''read_bytes'', 5), (''write_bytes'', 6), (''cancelled_write_bytes'', 7)]))"
  "os_read example_os ''/proc/7/stat'' = Inr (stat_text ''7'' [''(sh)''] (''S'' # Itoa 1 # replicate 18 (utoa 3)))"
  by (simp_all add: example_os_def example_files_def)

theorem io_counters_read_back_witness:
  "proc_IOCounters example_os (new_process 7 :: unit process) =
     POk \<lparr>ReadCount = 3, WriteCount = 4, ReadBytes = 5, WriteBytes = 6\<rparr>"
  by (rule io_counters_read_back) (simp add: example_path example_read new_process_def)

lemma value_ok_simps:
  "value_ok ''VmRSS'' (kB_text n w)" "value_ok ''VmSize'' (kB_text n w)" "value_ok ''VmSwap'' (kB_text n w)"
  "value_ok ''Threads'' (Itoa 1)" "value_ok ''Name'' v" "value_ok ''State'' ''S (sleeping)''"
  by (simp_all add: value_ok_def status_field_def kB_kB_text parse_int_Itoa store_def p_slice_def)

lemma example_value_ok: "\<forall>(k, v)\<in>set example_status. value_ok k v"
  by (simp add: example_status_def value_ok_simps)

lemma example_NewProcess: "snd (NewProcess example_os 1) = POk ()"
proof -
  have "\<forall>(k, v)\<in>set example_status. key_ok k \<and> (\<forall>p :: 'a process. snd (status_field k v p) = POk ())"
    using example_value_ok value_okD by (fastforce simp: example_status_def key_ok_def)
  then have "snd (status_lines (map status_entry example_status @ [[]]) p) = POk ()" for p :: "'a process"
    by (simp add: status_lines_entries)
  moreover have "\<forall>l\<in>set (map status_entry example_status). newline \<notin> set l"
    by (simp add: example_status_def status_entry_def newline_Itoa kB_text_def newline_utoa)
  ultimately show ?thesis
    by (simp add: NewProcess_def fillFromStatus_def new_process_def example_path example_read Split_text_lines)
qed

theorem status_read_back_witness:
  "snd (proc_NumThreads example_os (new_process 7 :: unit process)) = POk 1 \<and>
   p_memInfo (fst (proc_NumThreads example_os (new_process 7 :: unit process))) =
     Some \<lparr>RSS = 12 * 1024, VMS = 40 * 1024, Swap = 0 * 1024\<rparr>"
proof (rule status_read_back)
  show "os_read example_os (HostProc example_os [Itoa (p_Pid (new_process 7 :: unit process)), ''status'']) =
      Inr (text_lines (map status_entry example_status))"
    by (simp add: example_path example_read new_process_def)
  show "\<forall>(k, v)\<in>set example_status. key_ok k \<and> value_ok k v \<and> newline \<notin> set v"
    using example_value_ok by (simp add: example_status_def key_ok_def newline_Itoa kB_text_def newline_utoa)
qed (simp_all add: example_status_def)

text \<open>Float arithmetic on whole numbers; a text is parsed when it is one digit.\<close>

definition int_gops :: "int gops" where
  "int_gops = \<lparr>fzero = 0, fadd = (+), fround32 = (\<lambda>x. x),
     gparse = (\<lambda>s. case s of [c] \<Rightarrow> Some (of_char c - 48) | _ \<Rightarrow> None),
     gsub = (-), gmul = (*), gdiv = (div), gint = (\<lambda>x. x), gis0 = (\<lambda>x. x = 0), gseconds = (\<lambda>d. d div second)\<rparr>"

theorem cpu_times_read_back_witness:
  "proc_CPUTimes int_gops example_os (new_process 7) =
     POk ((zero_cpu int_gops)\<lparr>CPU := ''cpu'', User := gdiv int_gops 3 (gint int_gops 100),
       System := gdiv int_gops 3 (gint int_gops 100)\<rparr>)"
proof -
  let ?fs = "''S'' # Itoa 1 # replicate 18 (utoa 3)"
  have "\<forall>w\<in>set (''7'' # [''(sh)''] @ ?fs). word_ok w"
    by (simp add: word_ok_def is_space_def spaces_def Itoa_numerals)
  moreover have "os_read example_os (HostProc example_os [Itoa (p_Pid (new_process 7 :: int process)), ''stat'']) =
      Inr (stat_text ''7'' [''(sh)''] ?fs)"
    by (simp add: example_path example_read new_process_def)
  moreover have "gparse int_gops (utoa 3) = Some 3"
    by (simp add: Itoa_numerals int_gops_def)
  ultimately show ?thesis
    using cpu_times_read_back [of example_os "new_process 7" "''7''" "[''(sh)'']" ?fs 1 3 int_gops 3 3 3]
    by (simp add: nth_Cons')
qed

theorem CallPgrep_read_back_witness: "CallPgrep example_os 7 = POk [1]"
  using CallPgrep_read_back [of "[1]" example_os 7] by (simp add: example_os_def)

end
