(* ===== verification/Proc_Host.thy ===== *)
theory Proc_Host
  imports Proc_Process
begin

text \<open>
  The description of the host in a sample: \<open>HostInfo\<close> of gopsutil's \<open>host/host_linux.go\<close>, with the
  distribution from the release files under \<open>/etc\<close> and the virtualization from files under
  \<open>/proc\<close>. The two regular expressions are written out; texts are ASCII.
\<close>


section \<open>The distribution\<close>

record LSB =
  ID :: string
  Release :: string
  Codename :: string
  Description :: string

definition zero_LSB :: LSB where
  "zero_LSB = \<lparr>ID = '''', Release = '''', Codename = '''', Description = ''''\<rparr>"

fun lsb_release_lines :: "string list \<Rightarrow> LSB \<Rightarrow> LSB" where
  "lsb_release_lines [] ret = ret"
| "lsb_release_lines (line # lines) ret =
     (let field = Split CHR ''='' line in
      lsb_release_lines lines
        (if length field < 2 then ret
         else if field ! 0 = ''DISTRIB_ID'' then ret\<lparr>ID := field ! 1\<rparr>
         else if field ! 0 = ''DISTRIB_RELEASE'' then ret\<lparr>Release := field ! 1\<rparr>
         else if field ! 0 = ''DISTRIB_CODENAME'' then ret\<lparr>Codename := field ! 1\<rparr>
         else if field ! 0 = ''DISTRIB_DESCRIPTION'' then ret\<lparr>Description := field ! 1\<rparr>
         else ret))"

fun lsb_command_lines :: "string list \<Rightarrow> LSB \<Rightarrow> LSB" where
  "lsb_command_lines [] ret = ret"
| "lsb_command_lines (line # lines) ret =
     (let field = Split CHR '':'' line in
      lsb_command_lines lines
        (if length field < 2 then ret
         else if field ! 0 = ''Distributor ID'' then ret\<lparr>ID := field ! 1\<rparr>
         else if field ! 0 = ''Release'' then ret\<lparr>Release := field ! 1\<rparr>
         else if field ! 0 = ''Codename'' then ret\<lparr>Codename := field ! 1\<rparr>
         else if field ! 0 = ''Description'' then ret\<lparr>Description := field ! 1\<rparr>
         else ret))"

definition getLSB :: "os_view \<Rightarrow> err + LSB" where
  "getLSB os =
     (if os_exists os ''/etc/lsb-release'' then
        (case read_lines os ''/etc/lsb-release'' of
           Inl e \<Rightarrow> Inl e
         | Inr contents \<Rightarrow> Inr (lsb_release_lines contents zero_LSB))
      else if os_exists os ''/usr/bin/lsb_release'' then
        (case os_lsb_release os of
           Inl e \<Rightarrow> Inl e
         | Inr out \<Rightarrow> Inr (lsb_command_lines (Split newline out) zero_LSB))
      else Inr zero_LSB)"

definition to_lower :: "char \<Rightarrow> char" where
  "to_lower c =
     (let n = (of_char c :: nat) in if 65 \<le> n \<and> n \<le> 90 then char_of (n + 32) else c)"

definition ToLower :: "string \<Rightarrow> string" where
  "ToLower s = map to_lower s"

definition is_digit :: "char \<Rightarrow> bool" where
  "is_digit c \<longleftrightarrow> c \<in> set ''0123456789''"

text \<open>
  The submatch of the leftmost match of a literal, a character of one class and then as many of
  another as there are.
\<close>

fun submatch :: "string \<Rightarrow> (char \<Rightarrow> bool) \<Rightarrow> (char \<Rightarrow> bool) \<Rightarrow> string \<Rightarrow> string option" where
  "submatch lit f g [] = None"
| "submatch lit f g (x # s) =
     (case (if HasPrefix (x # s) lit then drop (length lit) (x # s) else []) of
        [] \<Rightarrow> submatch lit f g s
      | c # t \<Rightarrow> if f c then Some (c # takeWhile g t) else submatch lit f g s)"

definition digit_or_dot :: "char \<Rightarrow> bool" where
  "digit_or_dot c \<longleftrightarrow> is_digit c \<or> c = CHR ''.''"

definition getRedhatishVersion :: "string list \<Rightarrow> string" where
  "getRedhatishVersion contents =
     (let c = ToLower (concat contents) in
      if Contains c ''rawhide'' then ''rawhide''
      else (case submatch ''release '' is_digit digit_or_dot c of Some m \<Rightarrow> m | None \<Rightarrow> ''''))"

definition getRedhatishPlatform :: "string list \<Rightarrow> string" where
  "getRedhatishPlatform contents =
     (let c = ToLower (concat contents) in
      if Contains c ''red hat'' then ''redhat'' else Split blank c ! 0)"

fun suse_lines :: "string list \<Rightarrow> string \<Rightarrow> string" where
  "suse_lines [] version = version"
| "suse_lines (line # lines) version =
     suse_lines lines
       (case submatch ''VERSION = '' digit_or_dot digit_or_dot line of
          Some m \<Rightarrow> m
        | None \<Rightarrow>
            (case submatch ''PATCHLEVEL = '' is_digit is_digit line of
               Some m \<Rightarrow> version @ ''.'' @ m
             | None \<Rightarrow> version))"

definition getSuseVersion :: "string list \<Rightarrow> string" where
  "getSuseVersion contents = suse_lines contents ''''"

definition getSusePlatform :: "string list \<Rightarrow> string" where
  "getSusePlatform contents =
     (if Contains (ToLower (concat contents)) ''opensuse'' then ''opensuse'' else ''suse'')"

text \<open>
  Platform and version, from the first release file there is. Only the case of Debian can panic:
  it takes the first of the lines.
\<close>

definition versioned :: "string \<Rightarrow> (string list \<Rightarrow> string) \<Rightarrow> err + string list \<Rightarrow> string \<times> string" where
  "versioned platform f r = (case r of Inl _ \<Rightarrow> (platform, '''') | Inr contents \<Rightarrow> (platform, f contents))"

definition named ::
    "(string list \<Rightarrow> string) \<Rightarrow> (string list \<Rightarrow> string) \<Rightarrow> err + string list \<Rightarrow> string \<times> string" where
  "named g f r = (case r of Inl _ \<Rightarrow> ('''', '''') | Inr contents \<Rightarrow> (g contents, f contents))"

definition debian_platform :: "os_view \<Rightarrow> LSB \<Rightarrow> (string \<times> string) probe" where
  "debian_platform os lsb =
     (if ID lsb = ''Ubuntu'' then POk (''ubuntu'', Release lsb)
      else if ID lsb = ''LinuxMint'' then POk (''linuxmint'', Release lsb)
      else
        let platform = (if os_exists os ''/usr/bin/raspi-config'' then ''raspbian'' else ''debian'') in
        case read_lines os ''/etc/debian_version'' of
          Inl _ \<Rightarrow> POk (platform, '''')
        | Inr contents \<Rightarrow> pbind (p_at contents 0) (\<lambda>version. POk (platform, version)))"

definition lsb_platform :: "LSB \<Rightarrow> string \<times> string" where
  "lsb_platform lsb =
     (if ID lsb = ''RedHat'' then (''redhat'', Release lsb)
      else if ID lsb = ''Amazon'' then (''amazon'', Release lsb)
      else if ID lsb = ''ScientificSL'' then (''scientific'', Release lsb)
      else if ID lsb = ''XenServer'' then (''xenserver'', Release lsb)
      else if ID lsb \<noteq> '''' then (ToLower (ID lsb), Release lsb)
      else ('''', ''''))"

definition platform_version :: "os_view \<Rightarrow> LSB \<Rightarrow> (string \<times> string) probe" where
  "platform_version os lsb =
     (if os_exists os ''/etc/oracle-release'' then
        POk (versioned ''oracle'' getRedhatishVersion (read_lines os ''/etc/oracle-release''))
      else if os_exists os ''/etc/enterprise-release'' then
        POk (versioned ''oracle'' getRedhatishVersion (read_lines os ''/etc/enterprise-release''))
      else if os_exists os ''/etc/debian_version'' then debian_platform os lsb
      else if os_exists os ''/etc/redhat-release'' then
        POk (named getRedhatishPlatform getRedhatishVersion (read_lines os ''/etc/redhat-release''))
      else if os_exists os ''/etc/system-release'' then
        POk (named getRedhatishPlatform getRedhatishVersion (read_lines os ''/etc/system-release''))
      else if os_exists os ''/etc/gentoo-release'' then
        POk (versioned ''gentoo'' getRedhatishVersion (read_lines os ''/etc/gentoo-release''))
      else if os_exists os ''/etc/SuSE-release'' then
        POk (named getSusePlatform getSuseVersion (read_lines os ''/etc/SuSE-release''))
      else if os_exists os ''/etc/arch-release'' then POk (''arch'', '''')
      else POk (lsb_platform lsb))"

definition platform_family :: "string \<Rightarrow> string" where
  "platform_family platform =
     (if platform \<in> {''debian'', ''ubuntu'', ''linuxmint'', ''raspbian''} then ''debian''
      else if platform = ''fedora'' then ''fedora''
      else if platform \<in> {''oracle'', ''centos'', ''redhat'', ''scientific'', ''enterpriseenterprise'',
                        ''amazon'', ''xenserver'', ''cloudlinux'', ''ibm_powerkvm''} then ''rhel''
      else if platform \<in> {''suse'', ''opensuse''} then ''suse''
      else if platform = ''gentoo'' then ''gentoo''
      else if platform = ''slackware'' then ''slackware''
      else if platform = ''arch'' then ''arch''
      else if platform = ''exherbo'' then ''exherbo''
      else '''')"

definition GetPlatformInformation :: "os_view \<Rightarrow> (string \<times> string \<times> string) probe" where
  "GetPlatformInformation os =
     (let lsb = (case getLSB os of Inl _ \<Rightarrow> zero_LSB | Inr lsb \<Rightarrow> lsb) in
      pbind (platform_version os lsb) (\<lambda>(platform, version).
        POk (platform, platform_family platform, version)))"


section \<open>Virtualization\<close>

text \<open>A step looks at one file and changes system and role; the file may be missing or not readable.\<close>

definition looking_at ::
    "os_view \<Rightarrow> string \<Rightarrow> (string list \<Rightarrow> string \<times> string \<Rightarrow> string \<times> string) \<Rightarrow> string \<times> string \<Rightarrow> string \<times> string" where
  "looking_at os path f v =
     (if os_exists os path then (case read_lines os path of Inl _ \<Rightarrow> v | Inr contents \<Rightarrow> f contents v) else v)"

definition virt_xen :: "os_view \<Rightarrow> string \<times> string \<Rightarrow> string \<times> string" where
  "virt_xen os v =
     (let filename = HostProc os [''xen''] in
      if os_exists os filename then
        looking_at os (filename @ ''/capabilities'')
          (\<lambda>contents (system, role). if StringsHas contents ''control_d'' then (system, ''host'') else (system, role))
          (''xen'', ''guest'')
      else v)"

definition virt_modules :: "string list \<Rightarrow> string \<times> string \<Rightarrow> string \<times> string" where
  "virt_modules contents v =
     (if StringsContains contents ''kvm'' then (''kvm'', ''host'')
      else if StringsContains contents ''vboxdrv'' then (''vbox'', ''host'')
      else if StringsContains contents ''vboxguest'' then (''vbox'', ''guest'')
      else v)"

definition virt_cpuinfo :: "string list \<Rightarrow> string \<times> string \<Rightarrow> string \<times> string" where
  "virt_cpuinfo contents v =
     (if StringsHas contents ''QEMU Virtual CPU'' \<or> StringsHas contents ''Common KVM processor'' \<or>
         StringsHas contents ''Common 32-bit KVM processor''
      then (''kvm'', ''guest'') else v)"

definition virt_openvz :: "os_view \<Rightarrow> string \<times> string \<Rightarrow> string \<times> string" where
  "virt_openvz os v =
     (let filename = HostProc os [] in
      if os_exists os (filename @ ''/bc/0'') then (''openvz'', ''host'')
      else if os_exists os (filename @ ''/vz'') then (''openvz'', ''guest'')
      else v)"

definition virt_status :: "string list \<Rightarrow> string \<times> string \<Rightarrow> string \<times> string" where
  "virt_status contents v =
     (if StringsHas contents ''s_context:'' \<or> StringsHas contents ''VxID:''
      then (''linux-vserver'', snd v) else v)"

definition virt_cgroup :: "os_view \<Rightarrow> string list \<Rightarrow> string \<times> string \<Rightarrow> string \<times> string" where
  "virt_cgroup os contents v =
     (if StringsHas contents ''lxc'' \<or> StringsHas contents ''docker'' then (''lxc'', ''guest'')
      else if os_exists os ''/usr/bin/lxc-version'' then (''lxc'', ''host'')
      else v)"

definition GetVirtualization :: "os_view \<Rightarrow> string \<times> string" where
  "GetVirtualization os =
     (let proc = HostProc os [] in
      looking_at os (proc @ ''/self/cgroup'') (virt_cgroup os)
        (looking_at os (proc @ ''/self/status'') virt_status
          (virt_openvz os
            (looking_at os (HostProc os [''cpuinfo'']) virt_cpuinfo
              (looking_at os (HostProc os [''modules'']) virt_modules
                (virt_xen os ('''', '''')))))))"


section \<open>The host\<close>

definition uptime :: "instant \<Rightarrow> u64 \<Rightarrow> u64" where
  "uptime now boot = of_int (now div second) - boot"

definition proc_HostInfo :: "os_view \<Rightarrow> instant \<Rightarrow> host_info probe" where
  "proc_HostInfo os now =
     (let ret = zero_host\<lparr>OS := ''linux'',
                  Hostname := (case os_hostname os of Inl _ \<Rightarrow> '''' | Inr hostname \<Rightarrow> hostname)\<rparr> in
      pbind (GetPlatformInformation os) (\<lambda>(platform, family, version).
      let ret = ret\<lparr>Platform := platform, PlatformFamily := family, PlatformVersion := version\<rparr>;
          (system, role) = GetVirtualization os;
          ret = ret\<lparr>VirtualizationSystem := system, VirtualizationRole := role\<rparr>
      in POk (case host_BootTime os of
                POk boot \<Rightarrow> ret\<lparr>BootTime := boot, Uptime := uptime now boot\<rparr>
              | _ \<Rightarrow> ret)))"

section \<open>The users\<close>

text \<open>
  \<open>Users\<close> reads \<open>/var/run/utmp\<close>: entries of 384 octets in the layout of the struct \<open>utmp\<close> on amd64, in
  little-endian order. What is left behind the last whole entry is dropped.
\<close>

record user_stat =
  us_User :: string
  us_Terminal :: string
  us_Host :: string
  us_Started :: int

definition utmp_size :: nat where "utmp_size = 384"

definition utmp_field :: "nat \<Rightarrow> nat \<Rightarrow> string \<Rightarrow> string" where
  "utmp_field offset len entry = take len (drop offset entry)"

definition IntToString :: "string \<Rightarrow> string" where
  "IntToString orig = takeWhile (\<lambda>o1. o1 \<noteq> CHR 0x00) orig"

definition little_endian :: "string \<Rightarrow> nat" where
  "little_endian s = foldr (\<lambda>c n. of_char c + 256 * n) s 0"

definition utmp_user :: "string \<Rightarrow> user_stat" where
  "utmp_user entry =
     \<lparr>us_User = IntToString (utmp_field 44 32 entry), us_Terminal = IntToString (utmp_field 8 32 entry),
      us_Host = IntToString (utmp_field 76 256 entry), us_Started = wrap32 (int (little_endian (utmp_field 340 4 entry)))\<rparr>"

definition Users :: "os_view \<Rightarrow> err + user_stat list" where
  "Users os =
     (case os_read os ''/var/run/utmp'' of
        Inl e \<Rightarrow> Inl e
      | Inr buf \<Rightarrow>
          Inr (map (\<lambda>i. utmp_user (take utmp_size (drop (i * utmp_size) buf))) [0..<length buf div utmp_size]))"


section \<open>What is found of the host\<close>

lemma debian_platform_panics:
  "debian_platform os lsb = PPanic \<longleftrightarrow>
     ID lsb \<notin> {''Ubuntu'', ''LinuxMint''} \<and> (\<exists>c. os_opened os ''/etc/debian_version'' = Some c \<and> newline \<notin> set c)"
proof (cases "read_lines os ''/etc/debian_version''")
  case (Inl e)
  then have "os_opened os ''/etc/debian_version'' = None"
    by (simp add: read_lines_def os_opened_def split: sum.splits option.splits)
  with Inl show ?thesis by (simp add: debian_platform_def)
next
  case (Inr ls)
  then obtain c where "os_opened os ''/etc/debian_version'' = Some c" "ls = ReadLines c"
    by (auto simp: read_lines_Inr)
  with Inr show ?thesis
    by (auto simp: debian_platform_def p_at_def Let_def ReadLines_eq_Nil)
qed

lemma debian_platform_no_error: "debian_platform os lsb \<noteq> PErr e"
  by (auto simp: debian_platform_def p_at_def Let_def split: sum.split)

definition lsb_id :: "os_view \<Rightarrow> string" where
  "lsb_id os = (case getLSB os of Inl _ \<Rightarrow> '''' | Inr lsb \<Rightarrow> ID lsb)"

lemma HostInfo_outcome:
  "proc_HostInfo os now = PPanic \<longleftrightarrow> GetPlatformInformation os = PPanic"
  "proc_HostInfo os now \<noteq> PErr e"
proof -
  have "platform_version os lsb \<noteq> PErr e" for lsb
    by (simp add: platform_version_def debian_platform_no_error)
  then have *: "GetPlatformInformation os \<noteq> PErr e"
    by (cases "platform_version os (case getLSB os of Inl _ \<Rightarrow> zero_LSB | Inr lsb \<Rightarrow> lsb)")
      (auto simp: GetPlatformInformation_def Let_def)
  show "proc_HostInfo os now = PPanic \<longleftrightarrow> GetPlatformInformation os = PPanic"
    and "proc_HostInfo os now \<noteq> PErr e"
    using * by (cases "GetPlatformInformation os"; auto simp: proc_HostInfo_def Let_def split: prod.split)+
qed

text \<open>
  C29: reading the host information never fails with an error, and it panics on exactly one kind of
  system: a Debian that is not known as Ubuntu or Mint and whose \<open>/etc/debian_version\<close> has no
  complete line (an empty file, one whose only line is not ended, or one that can be opened and of
  which no complete line can be read).
\<close>

theorem host_info_panics:
  "(proc_HostInfo os now = PPanic \<longleftrightarrow>
     \<not> os_exists os ''/etc/oracle-release'' \<and> \<not> os_exists os ''/etc/enterprise-release'' \<and>
     os_exists os ''/etc/debian_version'' \<and> lsb_id os \<notin> {''Ubuntu'', ''LinuxMint''} \<and>
     (\<exists>c. os_opened os ''/etc/debian_version'' = Some c \<and> newline \<notin> set c)) \<and>
   proc_HostInfo os now \<noteq> PErr e"
proof -
  define lsb where "lsb = (case getLSB os of Inl _ \<Rightarrow> zero_LSB | Inr lsb \<Rightarrow> lsb)"
  have id: "lsb_id os = ID lsb" by (simp add: lsb_id_def lsb_def zero_LSB_def split: sum.split)
  have "GetPlatformInformation os = PPanic \<longleftrightarrow> platform_version os lsb = PPanic"
    by (cases "platform_version os lsb") (auto simp: GetPlatformInformation_def lsb_def [symmetric])
  then show ?thesis
    by (simp add: HostInfo_outcome id platform_version_def debian_platform_panics)
qed

lemma StringsHas_iff: "StringsHas ts src \<longleftrightarrow> (\<exists>t\<in>set ts. Trim t spaces = src)"
  by (induction ts) auto

text \<open>
  Trimming removes characters of the cutset only.
\<close>

lemma Trim_keeps: "c \<in> set t \<Longrightarrow> c \<notin> cs \<Longrightarrow> c \<in> set (Trim t cs)"
proof -
  have *: "c \<in> set (dropWhile (\<lambda>x. x \<in> cs) u)" if "c \<in> set u" "c \<notin> cs" for u
    using that by (induction u) auto
  assume "c \<in> set t" "c \<notin> cs"
  then show ?thesis using * [of t] * [of "rev (dropWhile (\<lambda>x. x \<in> cs) t)"]
    by (simp add: Trim_def TrimLeft_def TrimRight_def)
qed

text \<open>
  A process in a container is not found out from the file \<open>cgroup\<close>: its lines name a hierarchy, a
  controller and a path with colons between them, and none of them is the word \<open>docker\<close> or
  \<open>lxc\<close>. The host, with \<open>/usr/bin/lxc-version\<close>, is.
\<close>

theorem cgroup_never_guest:
  assumes "os_read os path = Inr (text_lines ls)" and "\<forall>l\<in>set ls. CHR '':'' \<in> set l \<and> newline \<notin> set l"
  shows "looking_at os path (virt_cgroup os) v =
     (if os_exists os path \<and> os_exists os ''/usr/bin/lxc-version'' then (''lxc'', ''host'') else v)"
proof -
  have "\<not> StringsHas ls w" if w: "CHR '':'' \<notin> set w" for w
  proof
    assume "StringsHas ls w"
    then obtain t where "t \<in> set ls" "Trim t spaces = w" by (auto simp: StringsHas_iff)
    with assms(2) Trim_keeps [of "CHR '':''" t spaces] w show False by (auto simp: spaces_def)
  qed
  then have "\<not> StringsHas ls ''lxc''" "\<not> StringsHas ls ''docker''" by simp_all
  moreover have "read_lines os path = Inr ls"
    using assms by (simp add: read_lines_def ReadLines_text_lines)
  ultimately show ?thesis by (simp add: looking_at_def virt_cgroup_def)
qed

theorem cgroup_never_guest_witness:
  "looking_at (files_os [(''/proc/self/cgroup'', text_lines [''1:name=docker:/docker/0f''])] (Inr ''''))
     ''/proc/self/cgroup'' (virt_cgroup (files_os [(''/proc/self/cgroup'', text_lines [''1:name=docker:/docker/0f''])] (Inr '''')))
     ('''', '''') = ('''', '''')"
  using cgroup_never_guest [of "files_os [(''/proc/self/cgroup'', text_lines [''1:name=docker:/docker/0f''])] (Inr '''')"
      "''/proc/self/cgroup''" "[''1:name=docker:/docker/0f'']" "('''', '''')"]
  by simp

text \<open>An entry of \<open>utmp\<close> as it is written: fixed fields, padded with zeros.\<close>

definition padded :: "nat \<Rightarrow> string \<Rightarrow> string" where
  "padded n s = s @ replicate (n - length s) CHR 0x00"

definition utmp_entry :: "string \<Rightarrow> string \<Rightarrow> string \<Rightarrow> string \<Rightarrow> string \<Rightarrow> string \<Rightarrow> string" where
  "utmp_entry start terminal mark user hst finish = start @ padded 32 terminal @ mark @ padded 32 user @ padded 256 hst @ finish"

lemma length_padded: "length s \<le> n \<Longrightarrow> length (padded n s) = n"
  by (simp add: padded_def)

lemma IntToString_padded:
  assumes "CHR 0x00 \<notin> set s"
  shows "IntToString (padded n s) = s"
proof -
  have "takeWhile (\<lambda>c. c \<noteq> CHR 0x00) (s @ xs) = s @ takeWhile (\<lambda>c. c \<noteq> CHR 0x00) xs" for xs
    using assms by (intro takeWhile_append2) auto
  then show ?thesis by (simp add: IntToString_def padded_def takeWhile_replicate)
qed

lemma utmp_user_entry:
  assumes "length start = 8" and "length mark = 4" and "length finish = 52"
    and "length terminal \<le> 32" and "length user \<le> 32" and "length hst \<le> 256"
    and "CHR 0x00 \<notin> set terminal" and "CHR 0x00 \<notin> set user" and "CHR 0x00 \<notin> set hst"
  shows "us_User (utmp_user (utmp_entry start terminal mark user hst finish)) = user"
    and "us_Terminal (utmp_user (utmp_entry start terminal mark user hst finish)) = terminal"
    and "us_Host (utmp_user (utmp_entry start terminal mark user hst finish)) = hst"
    and "length (utmp_entry start terminal mark user hst finish) = utmp_size"
  using assms
  by (simp_all add: utmp_user_def utmp_field_def utmp_entry_def length_padded IntToString_padded utmp_size_def)

lemma length_concat_entries: "\<forall>e\<in>set es. length e = n \<Longrightarrow> length (concat es) = length es * n"
  by (induction es) auto

lemma entry_of_concat:
  "\<forall>e\<in>set es. length e = n \<Longrightarrow> i < length es \<Longrightarrow> take n (drop (i * n) (concat es @ rest)) = es ! i"
proof (induction es arbitrary: i)
  case (Cons e es)
  then show ?case by (cases i) simp_all
qed simp

text \<open>
  The users are those of the entries of the file, in its order; octets that do not make an entry are left out.
\<close>

theorem users_read_back:
  assumes "os_read os ''/var/run/utmp'' = Inr (concat es @ rest)" and "\<forall>e\<in>set es. length e = utmp_size"
    and "length rest < utmp_size"
  shows "Users os = Inr (map utmp_user es)"
proof -
  have "length (concat es @ rest) div utmp_size = length es"
    using assms length_concat_entries [OF assms(2)] by (simp add: utmp_size_def)
  moreover have "map (\<lambda>i. utmp_user (take utmp_size (drop (i * utmp_size) (concat es @ rest)))) [0..<length es] = map utmp_user es"
    using entry_of_concat [OF assms(2)] by (intro nth_equalityI) simp_all
  ultimately show ?thesis by (simp add: Users_def assms(1))
qed

theorem users_read_back_witness:
  "\<exists>us. Users (files_os [(''/var/run/utmp'', utmp_entry (replicate 8 CHR 0x00) ''pts/0'' ''ts/0'' ''root'' ''host'' (replicate 52 CHR 0x00))] (Inr '''')) =
     Inr us \<and> map us_User us = [''root'']"
proof -
  let ?e = "utmp_entry (replicate 8 CHR 0x00) ''pts/0'' ''ts/0'' ''root'' ''host'' (replicate 52 CHR 0x00)"
  have "length ?e = utmp_size" by (rule utmp_user_entry(4)) simp_all
  moreover have "us_User (utmp_user ?e) = ''root''" by (rule utmp_user_entry(1)) simp_all
  ultimately show ?thesis
    using users_read_back [of "files_os [(''/var/run/utmp'', ?e)] (Inr '''')" "[?e]" "[]"]
    by (simp add: utmp_size_def)
qed

end
