(* ===== verification/Proc_Sampling.thy ===== *)
theory Proc_Sampling
  imports Proc_Files Proc_Host Complex_Main
begin

text \<open>
  What the statistics agent makes of gopsutil: the answers of gopsutil for a process, in the order
  the agent asks, are the parameter \<open>proc_probes\<close> of \<open>Process_Stats\<close>, and the samples are those of
  the files under \<open>/proc\<close>.
\<close>


section \<open>The answers for one process\<close>

text \<open>
  The calls of \<open>aggregateStatForProc\<close> on a process, in their order. Between two calls the system
  changes: the i-th reads \<open>v i\<close>, and \<open>now1\<close>, \<open>now2\<close> are the readings of the clock in \<open>CPUPercent\<close>.
  A nil pointer from \<open>MemoryInfo\<close> is followed in \<open>sum\<close>, which panics.
\<close>

definition probe_mem :: "os_view \<Rightarrow> 'f process \<Rightarrow> memory_info probe" where
  "probe_mem os p = pbind (proc_MemoryInfo os p) (\<lambda>m. case m of None \<Rightarrow> PPanic | Some m \<Rightarrow> POk m)"

definition gather ::
    "'f gops \<Rightarrow> int \<Rightarrow> (nat \<Rightarrow> os_view) \<Rightarrow> instant \<Rightarrow> instant \<Rightarrow> 'f process \<Rightarrow> 'f process \<times> 'f proc_probes" where
  "gather G numcpu v now1 now2 p =
     (let mem = probe_mem (v 0) p;
          cpu = proc_CPUTimes G (v 1) p;
          io = proc_IOCounters (v 2) p;
          files = proc_OpenFiles (v 3) p;
          (p, threads) = proc_NumThreads (v 4) p;
          (p, percent) = proc_CPUPercent G numcpu 0 (v 5) (v 6) now1 now2 now2 p
      in (p, \<lparr>pr_pid = p_Pid p, pr_mem = mem, pr_cpu = cpu, pr_io = io, pr_files = files,
              pr_threads = threads, pr_percent = percent\<rparr>))"

text \<open>
  The system while one sample is taken: at the host information, at each call for the contained
  process, at the list of its children and at each call for each child.
\<close>

record os_run =
  run_now :: instant
  run_host :: os_view
  run_uptime :: instant
  run_proc :: "nat \<Rightarrow> os_view"
  run_clock :: "instant \<times> instant"
  run_children :: os_view
  run_child :: "nat \<Rightarrow> nat \<Rightarrow> os_view"
  run_child_clock :: "nat \<Rightarrow> instant \<times> instant"

fun gather_children ::
    "'f gops \<Rightarrow> int \<Rightarrow> (nat \<Rightarrow> nat \<Rightarrow> os_view) \<Rightarrow> (nat \<Rightarrow> instant \<times> instant) \<Rightarrow> 'f process list \<Rightarrow> 'f proc_probes list" where
  "gather_children G numcpu v clock [] = []"
| "gather_children G numcpu v clock (c # cs) =
     snd (gather G numcpu (v 0) (fst (clock 0)) (snd (clock 0)) c) #
       gather_children G numcpu (\<lambda>i. v (Suc i)) (\<lambda>i. clock (Suc i)) cs"

text \<open>
  What \<open>collectSample\<close> gets from gopsutil: the process afterwards and the answers.
\<close>

definition gather_sample ::
    "'f gops \<Rightarrow> int \<Rightarrow> os_run \<Rightarrow> int \<Rightarrow> (('f, 'j) stat_sample \<Rightarrow> byte list \<times> err option) \<Rightarrow>
     ((nat \<times> nat) option \<Rightarrow> publishing \<Rightarrow> err option) \<Rightarrow> 'f process \<Rightarrow> 'f process \<times> ('f, 'j) sample_env" where
  "gather_sample G numcpu w out marshal publish p =
     (let host = proc_HostInfo (run_host w) (run_uptime w);
          (p, probes) = gather G numcpu (run_proc w) (fst (run_clock w)) (snd (run_clock w)) p;
          children = proc_Children (run_children w) p
      in (p, \<lparr>se_now = run_now w, se_host = host, se_proc = probes,
              se_children = pbind children (\<lambda>cs.
                POk (gather_children G numcpu (run_child w) (run_child_clock w) cs)),
              se_stdout = out, se_marshal = marshal, se_publish = publish\<rparr>))"

text \<open>The sample that is published, with the process as it is left for the next one.\<close>

definition sample_of ::
    "'f gops \<Rightarrow> int \<Rightarrow> 'j collector \<Rightarrow> os_run \<Rightarrow> int \<Rightarrow> 'f process \<Rightarrow> ('f process \<times> ('f, 'j) stat_sample) option" where
  "sample_of G numcpu ps w out p =
     (let (p, env) = gather_sample G numcpu w out (\<lambda>_. ([], None)) (\<lambda>_ _. None) p
      in map_option (\<lambda>(s, _). (p, s)) (collectSample_stat (fops.truncate G) ps env))"


section \<open>The answers and the process afterwards\<close>

lemma CPUPercent_frame:
  "p_Pid (fst (proc_CPUPercent G numcpu d os1 os2 t1 t2 t3 p)) = p_Pid p"
  "p_memInfo (fst (proc_CPUPercent G numcpu d os1 os2 t1 t2 t3 p)) = p_memInfo p"
  "p_numCtxSwitches (fst (proc_CPUPercent G numcpu d os1 os2 t1 t2 t3 p)) = p_numCtxSwitches p"
  by (auto simp: proc_CPUPercent_def Let_def split: probe.split option.split)

lemma gather_mem: "pr_mem (snd (gather G numcpu v t1 t2 p)) = probe_mem (v 0) p"
  and gather_files: "pr_files (snd (gather G numcpu v t1 t2 p)) = proc_OpenFiles (v 3) p"
  and gather_io: "pr_io (snd (gather G numcpu v t1 t2 p)) = proc_IOCounters (v 2) p"
  and gather_cpu: "pr_cpu (snd (gather G numcpu v t1 t2 p)) = proc_CPUTimes G (v 1) p"
  and gather_percent: "pr_percent (snd (gather G numcpu v t1 t2 p)) =
    snd (proc_CPUPercent G numcpu 0 (v 5) (v 6) t1 t2 t2 (fst (fillFromStatus (v 4) p)))"
  and gather_process: "fst (gather G numcpu v t1 t2 p) =
    fst (proc_CPUPercent G numcpu 0 (v 5) (v 6) t1 t2 t2 (fst (fillFromStatus (v 4) p)))"
  by (simp_all add: gather_def Let_def proc_NumThreads_def split: prod.split)

lemma gather_Pid [simp]: "p_Pid (fst (gather G numcpu v t1 t2 p)) = p_Pid p"
  using fillFromStatus_kept [of p "v 4"] by (simp add: gather_process CPUPercent_frame kept_def)

lemma gather_ok: "process_ok p \<Longrightarrow> process_ok (fst (gather G numcpu v t1 t2 p))"
  using fillFromStatus_kept [of p "v 4"] by (simp add: gather_process CPUPercent_frame kept_def process_ok_def)

section \<open>A series of samples\<close>

text \<open>The answers in a series of samples of one process.\<close>

fun series :: "('v \<Rightarrow> 'p \<Rightarrow> 'p \<times> 'r) \<Rightarrow> 'v list \<Rightarrow> 'p \<Rightarrow> 'r list" where
  "series probe [] p = []"
| "series probe (v # vs) p = snd (probe v p) # series probe vs (fst (probe v p))"

lemma length_series [simp]: "length (series probe vs p) = length vs"
  by (induction vs arbitrary: p) simp_all

text \<open>
  The contract between the agent and a source of answers that remembers the memory it has read:
  the pid is the process's own and stays, the answer comes from what is remembered (and what the
  system shows decides only whether there is one), and only then is what the system shows
  remembered, when it can be read.
\<close>

locale remembering_probe =
  fixes probe :: "'v \<Rightarrow> 'p \<Rightarrow> 'p \<times> 'f proc_probes"
    and pid :: "'p \<Rightarrow> int"
    and remembered :: "'p \<Rightarrow> memory_info option"
    and reads :: "'v \<Rightarrow> int \<Rightarrow> memory_info option"
    and shown :: "'v \<Rightarrow> int \<Rightarrow> memory_info option \<Rightarrow> memory_info probe"
  assumes pid_kept: "pid (fst (probe v p)) = pid p"
    and pid_reported: "pr_pid (snd (probe v p)) = pid p"
    and mem_reported: "pr_mem (snd (probe v p)) = shown v (pid p) (remembered p)"
    and remembers: "remembered (fst (probe v p)) = (case reads v (pid p) of None \<Rightarrow> remembered p | Some m \<Rightarrow> Some m)"
begin

lemma series_pid: "x \<in> set (series probe vs p) \<Longrightarrow> pr_pid x = pid p"
  by (induction vs arbitrary: p) (auto simp: pid_kept pid_reported)

lemma series_memory:
  "Suc i < length vs \<Longrightarrow> reads (vs ! i) (pid p) = Some m \<Longrightarrow>
     pr_mem (series probe vs p ! Suc i) = shown (vs ! Suc i) (pid p) (Some m)"
proof (induction vs arbitrary: p i)
  case (Cons v vs)
  show ?case
  proof (cases i)
    case 0
    with Cons.prems obtain w ws where "vs = w # ws" by (cases vs) auto
    with 0 Cons.prems show ?thesis by (simp add: mem_reported remembers pid_kept)
  next
    case (Suc j)
    with Cons show ?thesis by (simp add: pid_kept)
  qed
qed simp

end

type_synonym reading = "(nat \<Rightarrow> os_view) \<times> instant \<times> instant"

definition gather_at :: "'f gops \<Rightarrow> int \<Rightarrow> reading \<Rightarrow> 'f process \<Rightarrow> 'f process \<times> 'f proc_probes" where
  "gather_at G numcpu = (\<lambda>(v, now1, now2). gather G numcpu v now1 now2)"

definition status_read :: "reading \<Rightarrow> int \<Rightarrow> memory_info option" where
  "status_read r pid =
     (let os = fst r 4 in case os_read os (HostProc os [Itoa pid, ''status'']) of
        Inl _ \<Rightarrow> None | Inr _ \<Rightarrow> status_memory os pid)"

definition statm_answer :: "reading \<Rightarrow> int \<Rightarrow> memory_info option \<Rightarrow> memory_info probe" where
  "statm_answer r pid m =
     pbind (fillFromStatm (fst r 0) (new_process pid :: unit process)) (\<lambda>_. case m of None \<Rightarrow> PPanic | Some m \<Rightarrow> POk m)"

lemma fillFromStatm_Pid: "p_Pid p = p_Pid q \<Longrightarrow> fillFromStatm os p = fillFromStatm os q"
  by (simp add: fillFromStatm_def)

lemma status_read_remembers:
  "p_memInfo (fst (gather_at G numcpu r p)) =
     (case status_read r (p_Pid p) of None \<Rightarrow> p_memInfo p | Some m \<Rightarrow> Some m)"
proof (cases "os_read (fst r 4) (HostProc (fst r 4) [Itoa (p_Pid p), ''status''])")
  case (Inr c)
  with status_memory_Some obtain m where "status_memory (fst r 4) (p_Pid p) = Some m" by blast
  with Inr show ?thesis
    by (simp add: gather_at_def split_beta gather_process CPUPercent_frame fillFromStatus_memory status_read_def)
qed (simp add: gather_at_def split_beta gather_process CPUPercent_frame fillFromStatus_memory status_read_def)

interpretation gathered: remembering_probe "gather_at G numcpu" p_Pid p_memInfo status_read statm_answer
  for G :: "'f gops" and numcpu
proof
  fix r :: reading and p :: "'f process"
  show "p_Pid (fst (gather_at G numcpu r p)) = p_Pid p" by (simp add: gather_at_def split_beta)
  show "pr_pid (snd (gather_at G numcpu r p)) = p_Pid p"
    using gather_Pid [of G numcpu "fst r" "fst (snd r)" "snd (snd r)" p]
    by (simp add: gather_at_def split_beta gather_def Let_def)
  show "pr_mem (snd (gather_at G numcpu r p)) = statm_answer r (p_Pid p) (p_memInfo p)"
    using fillFromStatm_Pid [of p "new_process (p_Pid p) :: unit process" "fst r 0"]
    by (simp add: gather_at_def split_beta gather_mem probe_mem_def proc_MemoryInfo_def statm_answer_def pbind_assoc)
  show "p_memInfo (fst (gather_at G numcpu r p)) =
      (case status_read r (p_Pid p) of None \<Rightarrow> p_memInfo p | Some m \<Rightarrow> Some m)"
    by (rule status_read_remembers)
qed

text \<open>
  C24: the memory of the contained process in a sample is one sample old: in every series of samples
  the memory in one is what the status file showed while the one before was taken, whatever the
  system shows now; of the current files only that \<open>statm\<close> can be read and parsed matters. All
  samples carry the pid of the process.
\<close>

theorem memory_one_sample_old:
  assumes "Suc i < length rs" and "status_read (rs ! i) (p_Pid p) = Some m"
  shows "pr_mem (series (gather_at G numcpu) rs p ! Suc i) =
      pbind (fillFromStatm (fst (rs ! Suc i) 0) (new_process (p_Pid p) :: unit process)) (\<lambda>_. POk m) \<and>
    pr_pid (series (gather_at G numcpu) rs p ! Suc i) = p_Pid p"
  using gathered.series_memory [OF assms, where G = G and numcpu = numcpu]
    gathered.series_pid [of "series (gather_at G numcpu) rs p ! Suc i" G numcpu rs p] assms(1)
  by (simp add: statm_answer_def)


section \<open>Open files\<close>

lemma copy_files_Nil: "copy_files [] 0 ofs = (if ofs = [] then POk [] else PPanic)"
  by (cases ofs) (simp_all split: option.split)

lemma OpenFiles_Nil: "proc_OpenFiles os p = POk fs \<Longrightarrow> fs = []"
  by (auto simp: proc_OpenFiles_def pbind_eq_POk copy_files_Nil split: if_splits)

lemma gather_children_files: "concat (oks (map pr_files (gather_children G numcpu v clock cs))) = []"
proof (induction G numcpu v clock cs rule: gather_children.induct)
  case (2 G numcpu v clock c cs)
  then show ?case
    by (cases "proc_OpenFiles (v 0 3) c") (simp_all add: gather_files OpenFiles_Nil)
qed simp

lemma pbind_POk_eq_PPanic: "pbind r (\<lambda>x. POk (f x)) = PPanic \<longleftrightarrow> r = PPanic"
  by (cases r) simp_all

lemma sample_of_sampled:
  assumes "sample_of G numcpu ps w out p = Some (q, s)"
  obtains env :: "('a, 'b) sample_env" and key where "collectSample_stat (fops.truncate G) ps env = Some (s, key)"
    and "se_proc env = snd (gather G numcpu (run_proc w) (fst (run_clock w)) (snd (run_clock w)) p)"
    and "q = fst (gather G numcpu (run_proc w) (fst (run_clock w)) (snd (run_clock w)) p)"
    and "(\<exists>e. proc_Children (run_children w) q = PErr e \<and> se_children env = PErr e) \<or>
      (\<exists>cs. proc_Children (run_children w) q = POk cs \<and>
        se_children env = POk (gather_children G numcpu (run_child w) (run_child_clock w) cs))"
proof -
  obtain env key where env: "collectSample_stat (fops.truncate G) ps env = Some (s, key)"
    "gather_sample G numcpu w out (\<lambda>_. ([], None)) (\<lambda>_ _. None) p = (q, env)"
    using assms by (auto simp: sample_of_def split: prod.splits)
  then have "se_children env \<noteq> PPanic"
    using collectSample_stat_None [of "fops.truncate G" ps env] by auto
  then show ?thesis
    using env
    by (intro that [of env key]; cases "proc_Children (run_children w) q")
      (auto simp: gather_sample_def Let_def split: prod.splits)
qed

text \<open>
  C25: no sample ever lists an open file: \<open>OpenFiles\<close> copies the list it has read into a slice of
  length 0, which panics unless there is nothing to copy.
\<close>

theorem samples_list_no_files:
  assumes "sample_of G numcpu ps w out p = Some (q, s)"
  shows "OpenFiles s = []"
proof -
  obtain env key where env: "collectSample_stat (fops.truncate G) ps env = Some (s, key)"
    "se_proc env = snd (gather G numcpu (run_proc w) (fst (run_clock w)) (snd (run_clock w)) p)"
    "(\<exists>e. se_children env = PErr e) \<or>
      (\<exists>cs. se_children env = POk (gather_children G numcpu (run_child w) (run_child_clock w) cs))"
    using assms by (rule sample_of_sampled) metis
  have "concat (oks [pr_files (se_proc env)]) = []"
    by (cases "proc_OpenFiles (run_proc w 3) p") (simp_all add: env gather_files OpenFiles_Nil)
  then have "concat (oks (pr_files (se_proc env) # xs)) = concat (oks xs)" for xs
    by (cases "pr_files (se_proc env)") simp_all
  moreover have "OpenFiles s = concat (oks (map pr_files (sampled env)))"
    by (rule sample_fields [OF env(1)])
  ultimately show ?thesis
    using env(3) by (elim disjE exE) (simp_all add: sampled_def gather_children_files)
qed


section \<open>The share of the processor\<close>

definition unsampled :: "'f process \<Rightarrow> bool" where
  "unsampled p \<longleftrightarrow> p_lastCPUTimes p = None"

lemma NewProcess_unsampled: "unsampled (fst (NewProcess os pid))"
  unfolding NewProcess_def unsampled_def
  by (rule trans [OF fillFromStatus_kept [unfolded kept_def, THEN conjunct2, THEN conjunct1]])
    (simp add: new_process_def)

lemma new_processes_unsampled:
  "new_processes os pids ret = POk cs \<Longrightarrow> \<forall>c\<in>set ret. unsampled c \<Longrightarrow> \<forall>c\<in>set cs. unsampled c"
proof (induction os pids ret rule: new_processes.induct)
  case (2 os pid pids ret)
  obtain np r where np: "NewProcess os pid = (np :: 'a process, r)" by fastforce
  then have "unsampled np" using NewProcess_unsampled [of os pid] by (metis fst_conv)
  with 2 np show ?case by (auto simp: pbind_eq_POk)
qed simp

lemma unsampled_percent:
  "unsampled p \<Longrightarrow> oks [pr_percent (snd (gather G numcpu v t1 t2 p))] \<in> {[], [gint G 0]}"
  using fillFromStatus_kept [of p "v 4"]
  by (auto simp: gather_percent proc_CPUPercent_def Let_def kept_def unsampled_def split: probe.split)

lemma gather_children_percent:
  "\<forall>c\<in>set cs. unsampled c \<Longrightarrow>
     \<exists>k\<le>length cs. oks (map pr_percent (gather_children G numcpu v clock cs)) = replicate k (gint G 0)"
proof (induction G numcpu v clock cs rule: gather_children.induct)
  case (2 G numcpu v clock c cs)
  then obtain k where k: "k \<le> length cs"
    "oks (map pr_percent (gather_children G numcpu (\<lambda>i. v (Suc i)) (\<lambda>i. clock (Suc i)) cs)) = replicate k (gint G 0)"
    by auto
  let ?x = "pr_percent (snd (gather G numcpu (v 0) (fst (clock 0)) (snd (clock 0)) c))"
  have "oks [?x] \<in> {[], [gint G 0]}" using 2 by (intro unsampled_percent) simp
  then show ?case
    using k by (cases ?x) (auto intro: exI [of _ k] exI [of _ "Suc k"])
qed simp

text \<open>
  The share of the processor in a sample is the contained process's alone: a child is a new
  process for gopsutil in every sample, and the first share of a process is 0.
\<close>

theorem children_have_no_share:
  assumes "sample_of G numcpu ps w out p = Some (q, s)"
  shows "\<exists>k\<le>length (ChildPids s). CPUPercent s = foldl (fadd (fops.truncate G)) (fzero (fops.truncate G))
    (oks [pr_percent (snd (gather G numcpu (run_proc w) (fst (run_clock w)) (snd (run_clock w)) p))] @ replicate k (gint G 0))"
proof -
  obtain env key where env: "collectSample_stat (fops.truncate G) ps env = Some (s, key)"
    "se_proc env = snd (gather G numcpu (run_proc w) (fst (run_clock w)) (snd (run_clock w)) p)"
    "(\<exists>e. proc_Children (run_children w) q = PErr e \<and> se_children env = PErr e) \<or>
      (\<exists>cs. proc_Children (run_children w) q = POk cs \<and>
        se_children env = POk (gather_children G numcpu (run_child w) (run_child_clock w) cs))"
    using assms by (rule sample_of_sampled)
  have "\<exists>k\<le>length (tl (sampled env)). oks (map pr_percent (tl (sampled env))) = replicate k (gint G 0)"
    using env(3)
  proof (elim disjE exE conjE)
    fix cs assume "proc_Children (run_children w) q = POk cs"
      and env': "se_children env = POk (gather_children G numcpu (run_child w) (run_child_clock w) cs)"
    then have "\<forall>c\<in>set cs. unsampled c"
      using new_processes_unsampled [of "run_children w" _ "[]" cs] by (auto simp: proc_Children_def pbind_eq_POk)
    moreover have "length (gather_children G numcpu v c cs) = length cs" for v c
      by (induction G numcpu v c cs rule: gather_children.induct) simp_all
    ultimately show ?thesis
      using gather_children_percent [of cs G numcpu "run_child w" "run_child_clock w"] by (simp add: sampled_def env')
  qed (simp add: sampled_def)
  moreover have "oks (x # xs) = oks [x] @ oks xs" for x :: "'a probe" and xs
    by (cases x) simp_all
  moreover have "sampled env = se_proc env # tl (sampled env)" by (simp add: sampled_def)
  ultimately show ?thesis
    by (metis env(2) length_map list.simps(9) sample_fields(10) [OF env(1)] sample_fields(13) [OF env(1)])
qed

lemma CPUTimes_Pid: "p_Pid p = p_Pid q \<Longrightarrow> proc_CPUTimes G os p = proc_CPUTimes G os q"
  by (simp add: proc_CPUTimes_def fillFromStat_def)

lemma gather_at_apply:
  "gather_at G numcpu r p = gather G numcpu (fst r) (fst (snd r)) (snd (snd r)) p"
  by (simp add: gather_at_def split_beta)

lemma gather_share:
  assumes "proc_CPUTimes G (v 5) p = POk b" and "p_lastCPUTimes p = None \<Longrightarrow> proc_CPUTimes G (v 6) p = POk c"
  shows "pr_percent (snd (gather G numcpu v now1 now2 p)) = POk
      (case p_lastCPUTimes p of
         None \<Rightarrow> gint G 0
       | Some a \<Rightarrow> calculate G numcpu a b (gmul G (gseconds G (time_sub now1 (p_lastCPUTime p))) (gint G numcpu)))"
    and "p_lastCPUTimes (fst (gather G numcpu v now1 now2 p)) =
      Some (case p_lastCPUTimes p of None \<Rightarrow> c | Some a \<Rightarrow> b)"
    and "p_lastCPUTime (fst (gather G numcpu v now1 now2 p)) =
      (case p_lastCPUTimes p of None \<Rightarrow> now1 | Some a \<Rightarrow> now2)"
proof -
  let ?r = "fst (fillFromStatus (v 4) p)"
  have r: "p_Pid ?r = p_Pid p" "p_lastCPUTimes ?r = p_lastCPUTimes p" "p_lastCPUTime ?r = p_lastCPUTime p"
    using fillFromStatus_kept [of p "v 4"] by (simp_all add: kept_def)
  have "proc_CPUTimes G (v 5) ?r = POk b" "p_lastCPUTimes p = None \<Longrightarrow> proc_CPUTimes G (v 6) ?r = POk c"
    using assms CPUTimes_Pid [OF r(1), of G] by simp_all
  then show "pr_percent (snd (gather G numcpu v now1 now2 p)) = POk
      (case p_lastCPUTimes p of
         None \<Rightarrow> gint G 0
       | Some a \<Rightarrow> calculate G numcpu a b (gmul G (gseconds G (time_sub now1 (p_lastCPUTime p))) (gint G numcpu)))"
    and "p_lastCPUTimes (fst (gather G numcpu v now1 now2 p)) =
      Some (case p_lastCPUTimes p of None \<Rightarrow> c | Some a \<Rightarrow> b)"
    and "p_lastCPUTime (fst (gather G numcpu v now1 now2 p)) =
      (case p_lastCPUTimes p of None \<Rightarrow> now1 | Some a \<Rightarrow> now2)"
    using r by (simp_all add: gather_percent gather_process proc_CPUPercent_def Let_def split: option.split)
qed

text \<open>The process after a number of samples, and the answers of the next one.\<close>

fun after_samples :: "('v \<Rightarrow> 'p \<Rightarrow> 'p \<times> 'r) \<Rightarrow> 'v list \<Rightarrow> 'p \<Rightarrow> 'p" where
  "after_samples probe [] p = p"
| "after_samples probe (v # vs) p = after_samples probe vs (fst (probe v p))"

lemma series_nth: "i < length vs \<Longrightarrow> series probe vs p ! i = snd (probe (vs ! i) (after_samples probe (take i vs) p))"
proof (induction vs arbitrary: i p)
  case (Cons v vs)
  then show ?case by (cases i) simp_all
qed simp

lemma after_samples_snoc: "after_samples probe (vs @ [v]) p = fst (probe v (after_samples probe vs p))"
  by (induction vs arbitrary: p) simp_all

lemma after_samples_Pid [simp]: "p_Pid (after_samples (gather_at G numcpu) rs p) = p_Pid p"
  by (induction rs arbitrary: p) (simp_all add: gathered.pid_kept)

text \<open>Each sample leaves its own times and clock for the next one, the first one those of its second reading.\<close>

lemma share_state:
  assumes "unsampled p"
    and times: "\<forall>j<length rs. proc_CPUTimes G (fst (rs ! j) 5) p = POk (ts j)"
    and first: "proc_CPUTimes G (fst (rs ! 0) 6) p = POk t0"
  shows "i < length rs \<Longrightarrow>
     p_lastCPUTimes (after_samples (gather_at G numcpu) (take (Suc i) rs) p) = Some (if i = 0 then t0 else ts i) \<and>
     p_lastCPUTime (after_samples (gather_at G numcpu) (take (Suc i) rs) p) =
       (if i = 0 then fst (snd (rs ! 0)) else snd (snd (rs ! i)))"
proof (induction i)
  case 0
  then show ?case
    using gather_share(2,3) [of G "fst (rs ! 0)" p "ts 0" t0 numcpu "fst (snd (rs ! 0))" "snd (snd (rs ! 0))"]
      assms(1) times first
    by (simp add: take_Suc_conv_app_nth after_samples_snoc gather_at_apply unsampled_def)
next
  case (Suc i)
  let ?q = "after_samples (gather_at G numcpu) (take (Suc i) rs) p"
  have q: "p_lastCPUTimes ?q \<noteq> None" using Suc by simp
  moreover have "proc_CPUTimes G (fst (rs ! Suc i) 5) ?q = POk (ts (Suc i))"
    using CPUTimes_Pid [of ?q p G] times Suc.prems by simp
  moreover have "after_samples (gather_at G numcpu) (take (Suc (Suc i)) rs) p =
      fst (gather G numcpu (fst (rs ! Suc i)) (fst (snd (rs ! Suc i))) (snd (snd (rs ! Suc i))) ?q)"
    unfolding take_Suc_conv_app_nth [OF Suc.prems] after_samples_snoc gather_at_apply [of _ _ "rs ! Suc i"] ..
  ultimately show ?case
    using gather_share(2,3) [of G "fst (rs ! Suc i)" ?q "ts (Suc i)" t0 numcpu
        "fst (snd (rs ! Suc i))" "snd (snd (rs ! Suc i))"]
    by auto
qed

text \<open>
  C26: the share of the processor in a sample is that of the time since the sample before. In every
  series of samples of a process not sampled before, in each of which its processor times can be
  read: the first share is 0; every later one is 100 times the growth of user and system time
  since the sample before, over the time since the clock reading of the sample before multiplied by the
  number of processors, times the number of processors (0 when no time has passed), in the
  arithmetic and the order of the code. The sample before is the one that ended last: its times
  are those of its first reading in \<open>CPUPercent\<close>, of the first sample those of the second.
\<close>

theorem share_since_last_sample:
  assumes "p_lastCPUTimes p = None" and "rs \<noteq> []"
    and "\<forall>j<length rs. proc_CPUTimes G (fst (rs ! j) 5) p = POk (ts j)"
    and "proc_CPUTimes G (fst (rs ! 0) 6) p = POk t0"
  shows "pr_percent (series (gather_at G numcpu) rs p ! 0) = POk (gint G 0) \<and>
    (\<forall>i. Suc i < length rs \<longrightarrow>
      (let a = (if i = 0 then t0 else ts i); b = ts (Suc i);
           last_clock = (if i = 0 then fst (snd (rs ! 0)) else snd (snd (rs ! i)));
           elapsed = gseconds G (time_sub (fst (snd (rs ! Suc i))) last_clock);
           delta = gmul G elapsed (gint G numcpu);
           used = fadd G (gsub G (User b) (User a)) (gsub G (System b) (System a))
       in pr_percent (series (gather_at G numcpu) rs p ! Suc i) =
            POk (if gis0 G delta then gint G 0
                 else gmul G (gmul G (gdiv G used delta) (gint G 100)) (gint G numcpu))))"
proof (intro conjI allI impI)
  show "pr_percent (series (gather_at G numcpu) rs p ! 0) = POk (gint G 0)"
    using gather_share(1) [of G "fst (rs ! 0)" p "ts 0" t0 numcpu "fst (snd (rs ! 0))" "snd (snd (rs ! 0))"] assms
    by (simp add: series_nth gather_at_apply)
next
  fix i assume i: "Suc i < length rs"
  let ?q = "after_samples (gather_at G numcpu) (take (Suc i) rs) p"
  have q: "p_lastCPUTimes ?q = Some (if i = 0 then t0 else ts i)"
    "p_lastCPUTime ?q = (if i = 0 then fst (snd (rs ! 0)) else snd (snd (rs ! i)))"
    using share_state [of p rs G ts t0 i numcpu] assms i by (simp_all add: unsampled_def)
  moreover have "proc_CPUTimes G (fst (rs ! Suc i) 5) ?q = POk (ts (Suc i))"
    using CPUTimes_Pid [of ?q p G] assms(3) i by simp
  ultimately show "let a = (if i = 0 then t0 else ts i); b = ts (Suc i);
           last_clock = (if i = 0 then fst (snd (rs ! 0)) else snd (snd (rs ! i)));
           elapsed = gseconds G (time_sub (fst (snd (rs ! Suc i))) last_clock);
           delta = gmul G elapsed (gint G numcpu);
           used = fadd G (gsub G (User b) (User a)) (gsub G (System b) (System a))
       in pr_percent (series (gather_at G numcpu) rs p ! Suc i) =
            POk (if gis0 G delta then gint G 0
                 else gmul G (gmul G (gdiv G used delta) (gint G 100)) (gint G numcpu))"
    using gather_share(1) [of G "fst (rs ! Suc i)" ?q "ts (Suc i)" t0 numcpu
        "fst (snd (rs ! Suc i))" "snd (snd (rs ! Suc i))"]
    by (simp add: series_nth [OF i] gather_at_apply calculate_def Let_def)
qed

text \<open>
  With exact arithmetic the number of processors cancels: the share is that of one processor, and
  goes beyond 100 for a process that keeps more than one busy.
\<close>

definition real_gops :: "real gops" where
  "real_gops = \<lparr>fzero = 0, fadd = (+), fround32 = (\<lambda>x. x),
     gparse = (\<lambda>s. case s of [c] \<Rightarrow> Some (of_char c - 48) | _ \<Rightarrow> None),
     gsub = (-), gmul = (*), gdiv = (/), gint = of_int, gis0 = (\<lambda>x. x = 0), gseconds = (\<lambda>d. of_int d / of_int second)\<rparr>"

lemma real_share:
  assumes "0 < numcpu"
  shows "calculate real_gops numcpu a b (gmul real_gops s (gint real_gops numcpu)) =
     (if s = 0 then 0 else 100 * ((User b - User a) + (System b - System a)) / s)"
  using assms by (simp add: calculate_def real_gops_def)

section \<open>Instances\<close>

lemma example_CPUTimes: "proc_CPUTimes int_gops example_os (new_process 7) =
    POk ((zero_cpu int_gops)\<lparr>CPU := ''cpu'', User := 0, System := 0\<rparr>)"
proof -
  let ?fs = "''S'' # Itoa 1 # replicate 18 (utoa 3)"
  have words: "\<forall>w\<in>set (''7'' # [''(sh)''] @ ?fs). word_ok w"
    by (simp add: word_ok_def is_space_def spaces_def Itoa_numerals)
  have fs: "gparse int_gops (utoa 3) = Some 3" by (simp add: Itoa_numerals int_gops_def)
  have "getTerminalMap example_os = Inl ''no such directory''"
    by (simp add: getTerminalMap_def example_os_def)
  then show ?thesis
    using fs Fields_stat_text [OF words]
    by (simp add: proc_CPUTimes_def fillFromStat_def example_path example_read new_process_def p_sum_def stat_terminal_def
      stat_times_def stat_created_def p_at_def parse_float_def parse_int_Itoa parse_uint_utoa ClockTicks_def nth_Cons')
      (simp add: int_gops_def)
qed

theorem memory_one_sample_old_witness:
  "\<exists>m. pr_mem (series (gather_at int_gops 4) [(\<lambda>_. example_os, 1, 1), (\<lambda>_. example_os, 2, 2)] (new_process 7) ! 1) =
     pbind (fillFromStatm example_os (new_process 7 :: unit process)) (\<lambda>_. POk m)"
proof -
  have contents: "os_read example_os (HostProc example_os [Itoa 7, ''status'']) = Inr (text_lines (map status_entry example_status))"
    by (simp only: example_path example_read append.simps)
  from status_memory_Some [OF this] obtain m where "status_memory example_os 7 = Some m" ..
  then have "status_read (\<lambda>_. example_os, 1, 1) 7 = Some m" by (simp add: status_read_def contents)
  then show ?thesis
    using memory_one_sample_old [of 0 "[(\<lambda>_. example_os, 1, 1), (\<lambda>_. example_os, 2, 2)]" "new_process 7" m int_gops 4]
    by auto
qed

text \<open>
  A process that has used 3 ticks of each time at the first sample and 9 at the second, two
  seconds later, on four processors: 0.06 and 0.06 seconds are 6 percent.
\<close>

definition busy_os :: "u64 \<Rightarrow> os_view" where
  "busy_os n = files_os [(''/proc/7/stat'', stat_text ''7'' [''(sh)''] (''S'' # Itoa 1 # replicate 18 (utoa n)))]
     (Inr [])"

lemma utoa_9: "utoa 9 = ''9''"
  by code_simp

lemma busy_CPUTimes:
  assumes "n = 3 \<or> n = 9"
  shows "proc_CPUTimes real_gops (busy_os n) (new_process 7) =
    POk ((zero_cpu real_gops)\<lparr>CPU := ''cpu'', User := real_of_int (uint n) / 100, System := real_of_int (uint n) / 100\<rparr>)"
proof -
  let ?fs = "''S'' # Itoa 1 # replicate 18 (utoa n)"
  have words: "\<forall>w\<in>set (''7'' # [''(sh)''] @ ?fs). word_ok w"
    using assms by (auto simp: word_ok_def is_space_def spaces_def Itoa_numerals utoa_9)
  have fs: "gparse real_gops (utoa n) = Some (real_of_int (uint n))"
    using assms by (auto simp: Itoa_numerals utoa_9 real_gops_def)
  have path: "HostProc (busy_os n) [Itoa 7, ''stat''] = ''/proc/7/stat''"
    by (simp add: HostProc_def GetEnv_def busy_os_def Itoa_numerals)
  have contents: "os_read (busy_os n) ''/proc/7/stat'' = Inr (stat_text ''7'' [''(sh)''] ?fs)"
    by (simp add: busy_os_def)
  have "getTerminalMap (busy_os n) = Inl ''no such directory''"
    by (simp add: getTerminalMap_def busy_os_def)
  then show ?thesis
    using fs Fields_stat_text [OF words]
    by (simp add: proc_CPUTimes_def fillFromStat_def path contents new_process_def p_sum_def stat_terminal_def
      stat_times_def stat_created_def p_at_def parse_float_def parse_int_Itoa parse_uint_utoa ClockTicks_def nth_Cons')
      (simp add: real_gops_def)
qed

theorem share_since_last_sample_witness:
  "map pr_percent (series (gather_at real_gops 4)
     [(\<lambda>_. busy_os 3, 0, 0), (\<lambda>_. busy_os 9, 2 * second, 2 * second)] (new_process 7)) = [POk 0, POk 6]"
proof -
  let ?rs = "[(\<lambda>_ :: nat. busy_os 3, 0, 0), (\<lambda>_. busy_os 9, 2 * second, 2 * second)] :: reading list"
  let ?t = "\<lambda>n. (zero_cpu real_gops)\<lparr>CPU := ''cpu'', User := n / 100, System := n / 100\<rparr>"
  have "p_lastCPUTimes (new_process 7 :: real process) = None" "?rs \<noteq> []"
    by (simp_all add: new_process_def)
  moreover have "\<forall>j<length ?rs. proc_CPUTimes real_gops (fst (?rs ! j) 5) (new_process 7) = POk (?t (if j = 0 then 3 else 9))"
    by (simp add: less_Suc_eq busy_CPUTimes)
  moreover have "proc_CPUTimes real_gops (fst (?rs ! 0) 6) (new_process 7) = POk (?t 3)"
    by (simp add: busy_CPUTimes)
  ultimately have "pr_percent (series (gather_at real_gops 4) ?rs (new_process 7) ! 0) = POk 0"
    and "pr_percent (series (gather_at real_gops 4) ?rs (new_process 7) ! 1) = POk 6"
    using share_since_last_sample [of "new_process 7" ?rs real_gops "\<lambda>j. ?t (if j = 0 then 3 else 9)" "?t 3" 4]
    by (auto simp: real_gops_def time_sub_def zero_cpu_def Let_def dest: spec [of _ 0])
  then show ?thesis by simp
qed

definition example_run :: os_run where
  "example_run = \<lparr>run_now = 0, run_host = example_os, run_uptime = 0, run_proc = (\<lambda>_. example_os), run_clock = (0, 0),
     run_children = example_os, run_child = (\<lambda>_ _. example_os), run_child_clock = (\<lambda>_. (0, 0))\<rparr>"

definition example_collector :: "unit collector" where
  "example_collector = \<lparr>connection = None, channel = None, routingKey = '''', exchange = '''', msgTimeout = 0, userJSON = None\<rparr>"

lemma example_sample:
  obtains q s where "sample_of int_gops 4 example_collector example_run 0 (new_process 7) = Some (q, s)"
proof -
  have "os_exists example_os path \<longleftrightarrow> path \<in> fst ` set example_files" for path by (simp add: example_os_def)
  then have "proc_HostInfo example_os 0 \<noteq> PPanic"
    by (simp add: HostInfo_outcome GetPlatformInformation_def platform_version_def example_files_def split: prod.split)
  moreover have "proc_Children example_os q \<noteq> PPanic" for q :: "int process"
  proof -
    have "CallPgrep example_os (p_Pid q) = POk [1]"
      using pgrep_lines_Itoa [of "[1]" "[]"] Split_text_lines [of "[Itoa 1]"]
      by (simp add: CallPgrep_def p_sum_def example_os_def newline_Itoa)
    then show ?thesis
      using example_NewProcess [where 'a = int] by (simp add: proc_Children_def split_beta)
  qed
  ultimately show ?thesis
    using that collectSample_stat_None [of "fops.truncate int_gops" example_collector
        "snd (gather_sample int_gops 4 example_run 0 (\<lambda>_. ([], None)) (\<lambda>_ _. None) (new_process 7))"]
    by (auto simp: sample_of_def gather_sample_def example_run_def Let_def pbind_POk_eq_PPanic split: prod.splits)
qed

theorem samples_list_no_files_witness:
  "\<exists>q s. sample_of int_gops 4 example_collector example_run 0 (new_process 7) = Some (q, s) \<and> OpenFiles s = []"
  by (rule example_sample) (metis samples_list_no_files)

theorem children_have_no_share_witness:
  "\<exists>q s k. sample_of int_gops 4 example_collector example_run 0 (new_process 7) = Some (q, s) \<and>
     CPUPercent s = foldl (fadd (fops.truncate int_gops)) (fzero (fops.truncate int_gops))
       (oks [pr_percent (snd (gather int_gops 4 (run_proc example_run) (fst (run_clock example_run)) (snd (run_clock example_run)) (new_process 7)))]
          @ replicate k (gint int_gops 0))"
  by (rule example_sample) (metis children_have_no_share)

end
