(* ===== verification/Proc_Maps.thy ===== *)
theory Proc_Maps
  imports Proc_Files
begin

text \<open>
  The memory maps of a process, \<open>MemoryMaps\<close> of gopsutil's \<open>process_linux.go\<close>, from the kernel's
  file \<open>smaps\<close>. proc_box does not call it; it is modelled with the rest of the file.
\<close>


section \<open>Reading the file smaps\<close>

record memory_map =
  map_Path :: string
  map_Rss :: u64
  map_Size :: u64
  map_Pss :: u64
  SharedClean :: u64
  SharedDirty :: u64
  PrivateClean :: u64
  PrivateDirty :: u64
  Referenced :: u64
  Anonymous :: u64
  map_Swap :: u64

definition zero_map :: memory_map where
  "zero_map = \<lparr>map_Path = '''', map_Rss = 0, map_Size = 0, map_Pss = 0, SharedClean = 0, SharedDirty = 0,
     PrivateClean = 0, PrivateDirty = 0, Referenced = 0, Anonymous = 0, map_Swap = 0\<rparr>"

definition map_set :: "string \<Rightarrow> u64 \<Rightarrow> memory_map \<Rightarrow> memory_map" where
  "map_set key t m =
     (if key = ''Size'' then m\<lparr>map_Size := t\<rparr>
      else if key = ''Rss'' then m\<lparr>map_Rss := t\<rparr>
      else if key = ''Pss'' then m\<lparr>map_Pss := t\<rparr>
      else if key = ''Shared_Clean'' then m\<lparr>SharedClean := t\<rparr>
      else if key = ''Shared_Dirty'' then m\<lparr>SharedDirty := t\<rparr>
      else if key = ''Private_Clean'' then m\<lparr>PrivateClean := t\<rparr>
      else if key = ''Private_Dirty'' then m\<lparr>PrivateDirty := t\<rparr>
      else if key = ''Referenced'' then m\<lparr>Referenced := t\<rparr>
      else if key = ''Anonymous'' then m\<lparr>Anonymous := t\<rparr>
      else if key = ''Swap'' then m\<lparr>map_Swap := t\<rparr>
      else m)"

fun block_lines :: "string list \<Rightarrow> memory_map \<Rightarrow> memory_map probe" where
  "block_lines [] m = POk m"
| "block_lines (line # block) m =
     (if Contains line ''VmFlags'' then block_lines block m
      else
        let field = Split CHR '':'' line in
        if length field < 2 then block_lines block m
        else pbind (parse_uint (Trim (field ! 1) {blank, CHR ''k'', CHR ''B''})) (\<lambda>t.
          block_lines block (map_set (field ! 0) t m)))"

definition getBlock :: "string list \<Rightarrow> string list \<Rightarrow> memory_map probe" where
  "getBlock first_line block =
     pbind (p_at first_line (length first_line - 1)) (\<lambda>path. block_lines block (zero_map\<lparr>map_Path := path\<rparr>))"

text \<open>A block starts with 16 empty lines, which the parser skips.\<close>

fun smaps_lines :: "string list \<Rightarrow> string list \<Rightarrow> memory_map list \<Rightarrow> memory_map list \<times> unit probe" where
  "smaps_lines [] blocks ret = (ret, POk ())"
| "smaps_lines (line # lines) blocks ret =
     (let field = Split blank line in
      if \<not> HasSuffix (field ! 0) '':'' then
        (if length blocks > 0 then
           (case getBlock field blocks of
              POk g \<Rightarrow> smaps_lines lines (replicate 16 '''') (ret @ [g])
            | PErr e \<Rightarrow> (ret, PErr e)
            | PPanic \<Rightarrow> (ret, PPanic))
         else smaps_lines lines (replicate 16 '''') ret)
      else smaps_lines lines (blocks @ [line]) ret)"

definition MemoryMaps :: "os_view \<Rightarrow> 'f process \<Rightarrow> memory_map list \<times> unit probe" where
  "MemoryMaps os p =
     (case os_read os (HostProc os [Itoa (p_Pid p), ''smaps'']) of
        Inl e \<Rightarrow> ([], PErr e)
      | Inr contents \<Rightarrow> smaps_lines (Split newline contents) (replicate 16 '''') [])"


section \<open>The maps of a file the kernel wrote\<close>

text \<open>A mapping is a line that names it and the sizes in kilobytes.\<close>

type_synonym mapping = "string \<times> (string \<times> u64) list"

definition size_line :: "string \<times> u64 \<Rightarrow> string" where
  "size_line = (\<lambda>(key, w). key @ '':'' @ kB_text 8 w)"

definition mapping_lines :: "mapping \<Rightarrow> string list" where
  "mapping_lines = (\<lambda>(header, sizes). header # map size_line sizes)"

definition header_ok :: "string \<Rightarrow> bool" where
  "header_ok h \<longleftrightarrow> newline \<notin> set h \<and> \<not> HasSuffix (Split blank h ! 0) '':''"

definition map_key_ok :: "string \<Rightarrow> bool" where
  "map_key_ok k \<longleftrightarrow> blank \<notin> set k \<and> newline \<notin> set k \<and> CHR '':'' \<notin> set k \<and> CHR ''F'' \<notin> set k"

definition sizes_of :: "(string \<times> u64) list \<Rightarrow> memory_map \<Rightarrow> memory_map" where
  "sizes_of sizes m = foldl (\<lambda>m (key, w). map_set key w m) m sizes"

definition path_of :: "string \<Rightarrow> string" where
  "path_of h = last (Split blank h)"

lemma kB_text_chars: "c \<in> set (kB_text n w) \<Longrightarrow> c \<in> set ''-0123456789'' \<or> c \<in> {blank, CHR ''k'', CHR ''B''}"
  using Itoa_chars [of c "uint w"] unfolding kB_text_def utoa_def set_append Un_iff set_replicate_conv_if
  by (elim disjE) (simp_all only: simp_thms list.set insert_iff empty_iff split: if_splits)

lemma Contains_char:
  assumes "Contains s p" and "c \<in> set p"
  shows "c \<in> set s"
proof -
  from assms(1) obtain i where "take (length p) (drop i s) = p" unfolding Contains_def by blast
  then have "set p \<subseteq> set (drop i s)" using set_take_subset [of "length p" "drop i s"] by simp
  with assms(2) show ?thesis using set_drop_subset [of i s] by blast
qed

lemma size_line_parts:
  assumes "map_key_ok k"
  shows "Split blank (size_line (k, w)) ! 0 = k @ '':''"
    and "Split CHR '':'' (size_line (k, w)) = [k, kB_text 8 w]"
    and "\<not> Contains (size_line (k, w)) ''VmFlags''"
    and "newline \<notin> set (size_line (k, w))"
proof -
  have "kB_text 8 w = blank # kB_text 7 w" by (simp add: kB_text_def numeral_eq_Suc)
  then have "size_line (k, w) = (k @ '':'') @ blank # kB_text 7 w" by (simp add: size_line_def)
  then show "Split blank (size_line (k, w)) ! 0 = k @ '':''"
    using Split_append [of blank "k @ '':''"] assms by (simp add: map_key_ok_def)
  have "CHR '':'' \<notin> set (kB_text 8 w)" using kB_text_chars [of "CHR '':''"] by auto
  then show "Split CHR '':'' (size_line (k, w)) = [k, kB_text 8 w]"
    using Split_append [of "CHR '':''" k "kB_text 8 w"] assms
    by (simp add: size_line_def map_key_ok_def Split_piece)
  have "CHR ''F'' \<notin> set (size_line (k, w))"
    using assms kB_text_chars [of "CHR ''F''"] by (auto simp: size_line_def map_key_ok_def)
  then show "\<not> Contains (size_line (k, w)) ''VmFlags''" using Contains_char [of _ "''VmFlags''" "CHR ''F''"] by auto
  show "newline \<notin> set (size_line (k, w))"
    using assms kB_text_chars [of newline] by (auto simp: size_line_def map_key_ok_def)
qed

lemma parse_kB_text: "parse_uint (Trim (kB_text n w) {blank, CHR ''k'', CHR ''B''}) = POk w"
  by (simp add: Trim_kB_text parse_uint_utoa)

lemma block_lines_empty: "block_lines (replicate n '''' @ block) m = block_lines block m"
  by (induction n) (simp_all add: Contains_def)

lemma block_lines_sizes:
  "\<forall>(k, w)\<in>set sizes. map_key_ok k \<Longrightarrow> block_lines (map size_line sizes) m = POk (sizes_of sizes m)"
proof (induction sizes arbitrary: m)
  case (Cons kw sizes)
  obtain k w where kw: "kw = (k, w)" by force
  with Cons show ?case by (simp add: size_line_parts parse_kB_text sizes_of_def)
qed (simp add: sizes_of_def)

lemma getBlock_sizes:
  "\<forall>(k, w)\<in>set sizes. map_key_ok k \<Longrightarrow>
     getBlock (Split blank h) (replicate 16 '''' @ map size_line sizes) = POk (sizes_of sizes (zero_map\<lparr>map_Path := path_of h\<rparr>))"
  by (simp add: getBlock_def p_at_def block_lines_empty block_lines_sizes path_of_def last_conv_nth)

lemma smaps_sizes:
  "\<forall>(k, w)\<in>set sizes. map_key_ok k \<Longrightarrow>
     smaps_lines (map size_line sizes @ lines) blocks ret = smaps_lines lines (blocks @ map size_line sizes) ret"
proof (induction sizes arbitrary: blocks)
  case (Cons kw sizes)
  obtain k w where kw: "kw = (k, w)" by force
  with Cons show ?case by (simp add: size_line_parts)
qed simp

text \<open>The sizes found so far go to the next header.\<close>

fun shifted :: "(string \<times> u64) list \<Rightarrow> mapping list \<Rightarrow> memory_map list" where
  "shifted sizes [] = [sizes_of sizes zero_map]"
| "shifted sizes ((h, next_sizes) # ms) = sizes_of sizes (zero_map\<lparr>map_Path := path_of h\<rparr>) # shifted next_sizes ms"

lemma smaps_shifted:
  assumes "\<forall>(k, w)\<in>set sizes. map_key_ok k"
    and "\<forall>(h, szs)\<in>set ms. header_ok h \<and> (\<forall>(k, w)\<in>set szs. map_key_ok k)"
  shows "smaps_lines (concat (map mapping_lines ms) @ ['''']) (replicate 16 '''' @ map size_line sizes) ret =
    (ret @ shifted sizes ms, POk ())"
  using assms
proof (induction ms arbitrary: sizes ret)
  case Nil
  then show ?case using getBlock_sizes [of sizes "''''"] by (simp add: HasSuffix_def path_of_def zero_map_def)
next
  case (Cons m ms)
  obtain h szs where m: "m = (h, szs)" by force
  with Cons.prems have "header_ok h" "\<forall>(k, w)\<in>set szs. map_key_ok k" by auto
  with Cons m show ?case
    using getBlock_sizes [of sizes h] by (simp add: mapping_lines_def header_ok_def smaps_sizes del: replicate.simps)
qed

lemma shifted_map2:
  "shifted sizes ms =
     map2 (\<lambda>path szs. sizes_of szs (zero_map\<lparr>map_Path := path\<rparr>)) (map (path_of \<circ> fst) ms @ ['''']) (sizes # map snd ms)"
  by (induction sizes ms rule: shifted.induct) (simp_all add: zero_map_def)

text \<open>
  The maps of a process come with the wrong paths: there is one more of them than there are
  mappings, the first with the path of the first mapping and no sizes, and the sizes of each mapping with the path of
  the next one (the last with none).
\<close>

theorem maps_shifted:
  assumes "os_read os (HostProc os [Itoa (p_Pid p), ''smaps'']) = Inr (text_lines (concat (map mapping_lines ms)))"
    and "\<forall>(h, szs)\<in>set ms. header_ok h \<and> (\<forall>(k, w)\<in>set szs. map_key_ok k)"
  shows "MemoryMaps os p =
    (map2 (\<lambda>path szs. sizes_of szs (zero_map\<lparr>map_Path := path\<rparr>)) (map (path_of \<circ> fst) ms @ ['''']) ([] # map snd ms), POk ())"
proof -
  have "newline \<notin> set l" if "l \<in> set (concat (map mapping_lines ms))" for l
    using that assms(2) by (fastforce simp: mapping_lines_def header_ok_def size_line_parts(4))
  then have "Split newline (text_lines (concat (map mapping_lines ms))) = concat (map mapping_lines ms) @ [[]]"
    by (intro Split_text_lines) simp
  then show ?thesis
    using smaps_shifted [of "[]" ms "[]"] assms(2) unfolding shifted_map2
    by (simp add: MemoryMaps_def assms(1) del: replicate.simps map_append)
qed

theorem maps_shifted_witness:
  "map map_Path (fst (MemoryMaps (files_os [(''/proc/7/smaps'', text_lines (concat (map mapping_lines
       [(''00400000-0040b000 r-xp 00000000 08:01 12 /bin/cat'', [(''Size'', 44), (''Rss'', 12)]),
        (''7f000000-7f001000 r-xp 00000000 08:01 13 /lib/libc.so'', [(''Size'', 4), (''Rss'', 4)])])))] (Inr ''''))
     (new_process 7 :: unit process))) = [''/bin/cat'', ''/lib/libc.so'', '''']"
proof -
  let ?ms = "[(''00400000-0040b000 r-xp 00000000 08:01 12 /bin/cat'', [(''Size'', 44), (''Rss'', 12)]),
        (''7f000000-7f001000 r-xp 00000000 08:01 13 /lib/libc.so'', [(''Size'', 4), (''Rss'', 4)])] :: mapping list"
  have "\<forall>(h, szs)\<in>set ?ms. header_ok h \<and> (\<forall>(k, w)\<in>set szs. map_key_ok k)"
    by (simp add: header_ok_def map_key_ok_def HasSuffix_def)
  moreover have "HostProc (files_os [(''/proc/7/smaps'', c)] (Inr '''')) [Itoa 7, ''smaps''] = ''/proc/7/smaps''" for c
    by (simp add: HostProc_def GetEnv_def Itoa_numerals)
  ultimately show ?thesis
    using maps_shifted [of "files_os [(''/proc/7/smaps'', text_lines (concat (map mapping_lines ?ms)))] (Inr '''')"
        "new_process 7 :: unit process" ?ms]
    by (simp del: concat.simps) (simp add: path_of_def sizes_of_def map_set_def zero_map_def)
qed

end
