(* ===== verification/Agents_Broker.thy ===== *)
theory Agents_Broker
  imports Process_Stats Remote_Control Amqp_Api Proc_Text
begin

text \<open>
  The two agents on top of the AMQP library: the publishing of a sample (\<open>agents/process_stats.go\<close>)
  down to the octets on the wire, the set-up of the remote control (\<open>agents/remote_control.go\<close>) as
  operations of a channel, and a remote command from the wire to the monitor.
\<close>


section \<open>A command from the wire to the monitor\<close>

text \<open>The consumer's tag, and what \<open>handle\<close> sees of a delivery.\<close>

definition control_tag :: bytes where
  "control_tag = octets ''proc_box_remote_control''"

definition handled :: "Delivery \<Rightarrow> bytes delivery" where
  "handled d = \<lparr>d_body = dl_Body d, d_tag = unat (dl_DeliveryTag d)\<rparr>"

fun to_consumer :: "bytes \<Rightarrow> message \<Rightarrow> bool" where
  "to_consumer tag (MBasic (BasicDeliver t _ _ _ _ _ _)) \<longleftrightarrow> t = tag"
| "to_consumer tag _ \<longleftrightarrow> False"

fun body_of :: "message \<Rightarrow> bytes" where
  "body_of (MBasic (BasicDeliver _ _ _ _ _ _ b)) = b"
| "body_of _ = []"

fun tag_of :: "message \<Rightarrow> 64 word" where
  "tag_of (MBasic (BasicDeliver _ t _ _ _ _ _)) = t"
| "tag_of _ = 0"

fun delivery_in :: "message \<Rightarrow> Delivery" where
  "delivery_in (MBasic (BasicDeliver tag dtag red ex key p b)) =
     \<lparr>dl_properties = p\<lparr>reserved1 := []\<rparr>, dl_ConsumerTag = tag, dl_MessageCount = 0,
      dl_DeliveryTag = dtag, dl_Redelivered = red, dl_Exchange = ex, dl_RoutingKey = key, dl_Body = b\<rparr>"
| "delivery_in m = undefined"

lemma to_consumer_op:
  "to_consumer tag m \<Longrightarrow> is_deliver m \<and> delivery_op m = SendTo tag (delivery_in m) \<and>
     handled (delivery_in m) = \<lparr>d_body = body_of m, d_tag = unat (tag_of m)\<rparr>"
  by (cases m rule: is_deliver.cases) (auto simp: handled_def)

lemma inbox_collects:
  "\<forall>m\<in>set ms. to_consumer tag m \<Longrightarrow> f tag = Some ds \<Longrightarrow>
     fold inbox_do (map delivery_op ms) f tag = Some (ds @ map delivery_in ms)"
proof (induction ms arbitrary: f ds)
  case (Cons m ms)
  then have "delivery_op m = SendTo tag (delivery_in m)" using to_consumer_op by simp
  with Cons show ?case by simp
qed simp

lemma prefix_take_map: "prefix (map f (take n xs)) (map f xs)"
  by (simp add: map_mono_prefix take_is_prefix)

lemma handle_hands_over:
  assumes "handle_trace (handle_start um ds dn) es h"
  shows "prefix (forwarded es) (map (\<lambda>d. fst (um (d_body d))) ds) \<and> prefix (acked es) (map d_tag ds) \<and>
    length (acked es) \<le> length (forwarded es)"
proof -
  from handle_progress [OF assms] obtain m n where "m \<le> n" "n \<le> length ds"
    and runs: "forwarded es = map (\<lambda>d. fst (um (d_body d))) (take n ds)" "acked es = map d_tag (take m ds)" by blast
  then show ?thesis unfolding runs by (simp add: prefix_take_map)
qed

lemma given_prefix_taken: "buffer_run es b \<Longrightarrow> prefix (given es) (taken es)"
  using buffer_run_inv [of es b] by (auto simp: prefix_def)

text \<open>
  Remote commands from the wire to the monitor: a broker that writes deliveries for the
  remote control's consumer, cut into frames of any size, has them read, put together and
  queued; whatever the scheduling of the goroutine that buffers them and of \<open>handle\<close>, the commands
  handed to the monitor are the decoded bodies of the first deliveries in the order the
  broker wrote them, none left out and none twice, and the tags acknowledged are theirs, none before its command.
\<close>

theorem commands_reach_monitor:
  assumes "channel_inv ch" and "inbox (ch_consumers ch) control_tag = Some []"
    and "\<forall>m\<in>set ms. to_consumer control_tag m \<and> content_ok m" and "0 < n" and "n < 2 ^ 32"
  shows "\<exists>bs fs ch' ds.
     wseq (map write_frame (concat (map (content_frames (ch_id ch) n) ms))) = Inr bs \<and>
     read_n ReadFrame (length fs) bs = (Inr fs, []) \<and>
     channel_recvs fs ch = Some ([], ch') \<and> inbox (ch_consumers ch') control_tag = Some ds \<and>
     (\<forall>bes b hes h. buffer_run bes b \<longrightarrow> prefix (taken bes) ds \<longrightarrow>
        handle_trace (handle_start um (map handled (given bes)) dn) hes h \<longrightarrow>
        prefix (forwarded hes) (map (\<lambda>m. fst (um (body_of m))) ms) \<and>
        prefix (acked hes) (map (\<lambda>m. unat (tag_of m)) ms) \<and> length (acked hes) \<le> length (forwarded hes))"
proof -
  have "\<forall>m\<in>set ms. is_deliver m \<and> content_ok m" using assms(3) to_consumer_op by blast
  from deliveries_reach_consumers [OF assms(1) this assms(4,5)] obtain bs fs ch' where
    io: "wseq (map write_frame (concat (map (content_frames (ch_id ch) n) ms))) = Inr bs"
      "read_n ReadFrame (length fs) bs = (Inr fs, [])" "channel_recvs fs ch = Some ([], ch')"
    and inbox: "inbox (ch_consumers ch') = fold inbox_do (map delivery_op ms) (inbox (ch_consumers ch))" by blast
  have ds: "inbox (ch_consumers ch') control_tag = Some (map delivery_in ms)"
    unfolding inbox using inbox_collects [of ms control_tag "inbox (ch_consumers ch)" "[]"] assms(2,3) by simp
  have bodies: "map (\<lambda>d. fst (um (d_body d))) (map handled (map delivery_in ms)) = map (\<lambda>m. fst (um (body_of m))) ms"
    "map d_tag (map handled (map delivery_in ms)) = map (\<lambda>m. unat (tag_of m)) ms"
    using assms(3) to_consumer_op [of control_tag] by (simp_all add: comp_def)
  have "prefix (forwarded hes) (map (\<lambda>m. fst (um (body_of m))) ms) \<and>
      prefix (acked hes) (map (\<lambda>m. unat (tag_of m)) ms) \<and> length (acked hes) \<le> length (forwarded hes)"
    if run: "buffer_run bes b" "prefix (taken bes) (map delivery_in ms)"
      "handle_trace (handle_start um (map handled (given bes)) dn) hes h" for bes b hes h
  proof -
    from given_prefix_taken [OF run(1)] run(2) have "prefix (given bes) (map delivery_in ms)" by (rule prefix_order.trans)
    then have given: "prefix (map handled (given bes)) (map handled (map delivery_in ms))" by (rule map_mono_prefix)
    note over = handle_hands_over [OF run(3)]
    show ?thesis
      using prefix_order.trans [OF over [THEN conjunct1] map_mono_prefix [OF given]]
        prefix_order.trans [OF over [THEN conjunct2, THEN conjunct1] map_mono_prefix [OF given]]
        over [THEN conjunct2, THEN conjunct2]
      by (simp only: bodies simp_thms)
  qed
  with io ds show ?thesis by blast
qed

lemma fits_in_Cons: "fits_in w n \<Longrightarrow> fits_in (wseq ws) k \<Longrightarrow> fits_in (wseq (w # ws)) (n + k)"
  by (auto simp: fits_in_def wthen_def split: sum.splits)

lemma fits_in_mono: "fits_in w n \<Longrightarrow> n \<le> k \<Longrightarrow> fits_in w k"
  by (auto simp: fits_in_def split: sum.splits)

lemma fits_in_parts:
  "length s < 256 \<Longrightarrow> fits_in (writeShortstr s) 257"
  "fits_in (write_u8 a) 2" "fits_in (write_u16 b) 3" "fits_in (write_u32 c) 5" "fits_in (write_u64 d) 9"
  "fits_in w n \<Longrightarrow> 0 < n \<Longrightarrow> fits_in (write_if x w) n" "fits_in (wseq []) 1"
  by (simp_all add: fits_in_def writeShortstr_ok write_u8_def write_u16_def write_u32_def write_u64_def write_word_def
      write_if_def del: be.simps)

text \<open>Properties with only the fields the agents use.\<close>

definition plain_properties :: "bytes \<Rightarrow> bytes \<Rightarrow> byte \<Rightarrow> byte \<Rightarrow> properties" where
  "plain_properties ct ce dm pr =
     no_properties\<lparr>ContentType := ct, ContentEncoding := ce, DeliveryMode := dm, Priority := pr\<rparr>"

lemma plain_ok: "length ct < 256 \<Longrightarrow> length ce < 256 \<Longrightarrow> properties_ok (plain_properties ct ce dm pr)"
  by (simp add: plain_properties_def no_properties_def properties_ok_def table_ok_def zeroTime_def in_int64_def fits_in_def)

lemma plain_header_fits:
  assumes "length ct < 256" and "length ce < 256"
  shows "fits_in (write_header k w sz (plain_properties ct ce dm pr)) (2 ^ 32)"
proof -
  let ?p = "plain_properties ct ce dm pr"
  have strings: "length (ContentType ?p) < 256" "length (ContentEncoding ?p) < 256" "length (CorrelationId ?p) < 256"
    "length (ReplyTo ?p) < 256" "length (Expiration ?p) < 256" "length (MessageId ?p) < 256" "length (Type ?p) < 256"
    "length (UserId ?p) < 256" "length (AppId ?p) < 256"
    using assms by (simp_all add: plain_properties_def no_properties_def)
  have headers: "fits_in (writeTable (Headers ?p)) 5"
    by (simp add: plain_properties_def no_properties_def writeTable_def writeLongstr_ok wthen_def fits_in_def)
  have props: "fits_in (write_properties (property_mask ?p) ?p) 3000"
    unfolding write_properties_def
    by (rule fits_in_mono, (rule fits_in_Cons fits_in_parts strings headers | simp)+)
  show ?thesis
    unfolding write_header_def
    by (rule fits_in_mono, (rule fits_in_Cons fits_in_parts props)+) simp
qed

text \<open>Publishings and deliveries with such properties travel.\<close>

lemma publish_travels:
  assumes "length ex < 256" and "length key < 256" and "length ct < 256" and "length ce < 256" and "length b < 2 ^ 64"
  shows "content_ok (MBasic (BasicPublish 0 ex key mandatory immediate (plain_properties ct ce dm pr) b))"
proof -
  have sized: "fits_in (write_message (MBasic (BasicPublish 0 ex key mandatory immediate (plain_properties ct ce dm pr) b))) 2000"
    unfolding write_message.simps write_basic.simps write_basicPublish_def
    by (rule fits_in_mono, (rule fits_in_Cons fits_in_parts assms)+) simp
  have "fits_in (write_method_payload (MBasic (BasicPublish 0 ex key mandatory immediate (plain_properties ct ce dm pr) b))) (2 ^ 32)"
    unfolding write_method_payload_def
    by (rule fits_in_mono, (rule fits_in_Cons fits_in_parts sized)+) simp
  with assms plain_ok plain_header_fits show ?thesis by (simp add: content_ok_def)
qed

lemma deliver_travels:
  assumes "length tag < 256" and "length ex < 256" and "length key < 256" and "length b < 2 ^ 64"
  shows "content_ok (MBasic (BasicDeliver tag t red ex key (plain_properties [] [] dm pr) b))"
proof -
  have sized: "fits_in (write_message (MBasic (BasicDeliver tag t red ex key (plain_properties [] [] dm pr) b))) 2000"
    unfolding write_message.simps write_basic.simps write_basicDeliver_def
    by (rule fits_in_mono, (rule fits_in_Cons fits_in_parts assms)+) simp
  have "fits_in (write_method_payload (MBasic (BasicDeliver tag t red ex key (plain_properties [] [] dm pr) b))) (2 ^ 32)"
    unfolding write_method_payload_def
    by (rule fits_in_mono, (rule fits_in_Cons fits_in_parts sized)+) simp
  with assms plain_ok [of "[]" "[]"] plain_header_fits [of "[]" "[]"] show ?thesis by (simp add: content_ok_def)
qed

section \<open>A sample from the agent to the wire\<close>

definition amqp_publishing :: "publishing \<Rightarrow> Publishing" where
  "amqp_publishing m =
     (plain_properties (octets (pub_ContentType m)) (octets (pub_ContentEncoding m)) (of_nat (pub_DeliveryMode m))
        (of_nat (pub_Priority m)),
      pub_Body m)"

definition publish_over ::
    "('e, 'c) conn \<Rightarrow> int \<Rightarrow> publishing \<Rightarrow> channel \<Rightarrow> 'c \<Rightarrow> (('e call_error option \<times> channel) \<times> 'c) option" where
  "publish_over send fs m =
     Publish send fs (octets (pub_exchange m)) (octets (pub_key m)) (pub_mandatory m) (pub_immediate m) (amqp_publishing m)"

lemma length_octets [simp]: "length (octets s) = length s"
  by (simp add: octets_def)


section \<open>The set-up of the remote control as operations of a channel\<close>

text \<open>
  \<open>NewRemoteControl\<close> on the AMQP library. The broker is a function from requests to replies;
  \<open>describe\<close> is the text of an error. The result is an error or the channel with its consumer.
\<close>

definition open_request :: message where "open_request = MChannel (ChannelOpen [])"

definition declare_request :: message where
  "declare_request = MQueue (QueueDeclare 0 [] False False False True False [])"

definition bind_request :: "bytes \<Rightarrow> string \<Rightarrow> string \<Rightarrow> message" where
  "bind_request name rk ex = MQueue (QueueBind 0 name (octets ex) (octets rk) False [])"

definition consume_request :: "bytes \<Rightarrow> message" where
  "consume_request name = MBasic (BasicConsume 0 name control_tag False False False False [])"

fun bind_keys ::
    "('e call_error \<Rightarrow> err) \<Rightarrow> ('e, 'c) conn \<Rightarrow> int \<Rightarrow> (message \<Rightarrow> reply) \<Rightarrow> bytes \<Rightarrow> string \<Rightarrow> string list \<Rightarrow>
     channel \<Rightarrow> 'c \<Rightarrow> (err option \<times> 'c) option" where
  "bind_keys describe send fs answer name ex [] ch c = Some (None, c)"
| "bind_keys describe send fs answer name ex (rk # rks) ch c =
     (case Channel_QueueBind send fs (answer (bind_request name rk ex)) name (octets rk) (octets ex) False [] ch c of
        None \<Rightarrow> None
      | Some (Inl e, c) \<Rightarrow> Some (Some (''Failed to bind the queue: '' @ describe e @ rc_newline), c)
      | Some (Inr _, c) \<Rightarrow> bind_keys describe send fs answer name ex rks ch c)"

definition setup_over ::
    "('e call_error \<Rightarrow> err) \<Rightarrow> ('e, 'c) conn \<Rightarrow> int \<Rightarrow> (message \<Rightarrow> reply) \<Rightarrow> bytes \<Rightarrow> string list \<Rightarrow> string \<Rightarrow>
     channel \<Rightarrow> 'c \<Rightarrow> ((err + channel) \<times> 'c) option" where
  "setup_over describe send fs answer fresh keys ex ch c =
     (case channel_open send fs (answer open_request) ch c of
        None \<Rightarrow> None
      | Some (Inl e, c) \<Rightarrow> Some (Inl (''Unable to open a channel on AMQP connection: '' @ describe e @ rc_newline), c)
      | Some (Inr _, c) \<Rightarrow>
          (case Channel_QueueDeclare send fs (answer declare_request) [] False True False False [] ch c of
             None \<Rightarrow> None
           | Some (Inl e, c) \<Rightarrow> Some (Inl (''Failed to acquire a remote control queue: '' @ describe e @ rc_newline), c)
           | Some (Inr q, c) \<Rightarrow>
               (case bind_keys describe send fs answer (q_Name q) ex keys ch c of
                  None \<Rightarrow> None
                | Some (Some e, c) \<Rightarrow> Some (Inl e, c)
                | Some (None, c) \<Rightarrow>
                    (case Channel_Consume send fs (answer (consume_request (q_Name q))) fresh (q_Name q) control_tag
                            False False False False [] ch c of
                       None \<Rightarrow> None
                     | Some ((Some e, _), c) \<Rightarrow> Some (Inl (''Failed to consume queue: '' @ describe e @ rc_newline), c)
                     | Some ((None, ch), c) \<Rightarrow> Some (Inr ch, c)))))"

text \<open>The broker of \<open>Remote_Control\<close> that answers as these replies do.\<close>

definition chars :: "bytes \<Rightarrow> string" where
  "chars b = map (\<lambda>x. char_of (unat x)) b"

lemma octets_chars [simp]: "octets (chars b) = b"
  by (simp add: octets_def chars_def comp_def)

definition refused :: "reply \<Rightarrow> 16 word \<times> 16 word \<Rightarrow> 'e call_error option" where
  "refused rp res =
     (case rp of
        OnErrors e \<Rightarrow> Some (PeerError e)
      | OnRpc None \<Rightarrow> Some ErrClosed
      | OnRpc (Some msg) \<Rightarrow> if message_id msg = res then None else Some ErrCommandInvalid)"

fun reply_message :: "reply \<Rightarrow> message option" where
  "reply_message (OnRpc m) = m"
| "reply_message (OnErrors e) = None"

definition broker_of :: "('e call_error \<Rightarrow> err) \<Rightarrow> (message \<Rightarrow> reply) \<Rightarrow> rc_broker" where
  "broker_of describe answer =
     \<lparr>rb_channel = map_option describe (refused (answer open_request) (20, 11)),
      rb_channel_id = 0,
      rb_queue_declare =
        (case refused (answer declare_request) (50, 11) of
           Some e \<Rightarrow> Inl (describe e)
         | None \<Rightarrow> Inr (chars (q_Name (declared_queue [] (reply_message (answer declare_request)))))),
      rb_queue_bind = (\<lambda>name rk ex. map_option describe (refused (answer (bind_request (octets name) rk ex)) (50, 21))),
      rb_consume = (\<lambda>name tag. map_option describe (refused (answer (consume_request (octets name))) (60, 21)))\<rparr>"

text \<open>The message of a call, and a connection that only records what is sent on it.\<close>

fun call_message :: "rc_call \<Rightarrow> message" where
  "call_message CallChannel = MChannel (ChannelOpen [])"
| "call_message (CallQueueDeclare name durable autoDelete exclusive noWait) =
     MQueue (QueueDeclare 0 (octets name) False durable exclusive autoDelete noWait [])"
| "call_message (CallQueueBind name key ex noWait) = MQueue (QueueBind 0 (octets name) (octets ex) (octets key) noWait [])"
| "call_message (CallConsume queue tag autoAck exclusive noLocal noWait) =
     MBasic (BasicConsume 0 (octets queue) (octets tag) noLocal autoAck exclusive noWait [])"

definition recording :: "('e, frame list) conn" where
  "recording f c = (None, c @ [f])"

definition call_frames :: "channel \<Rightarrow> rc_call list \<Rightarrow> frame list" where
  "call_frames ch calls = map (\<lambda>k. MethodFrame (ch_id ch) 0 0 (Some (call_message k))) calls"

lemma call_frames_append: "call_frames ch xs @ call_frames ch ys = call_frames ch (xs @ ys)"
  by (simp add: call_frames_def)

lemma recorded_call:
  assumes "ch_open ch" and "getContent req = None" and "message_wait req"
  shows "channel_call recording fs rp req [res] ch c =
    Some (case refused rp res of Some e \<Rightarrow> Inl e | None \<Rightarrow> Inr (reply_message rp), c @ [MethodFrame (ch_id ch) 0 0 (Some req)])"
  using assms by (auto simp: channel_call_def channel_send_def sendOpen_def recording_def refused_def
    split: reply.split option.split)

lemma recorded_unit:
  "ch_open ch \<Longrightarrow> getContent req = None \<Longrightarrow> message_wait req \<Longrightarrow>
   call_unit recording fs rp req res ch c =
     Some (case refused rp res of Some e \<Rightarrow> Inl e | None \<Rightarrow> Inr (), c @ [MethodFrame (ch_id ch) 0 0 (Some req)])"
  by (simp add: call_unit_def api_map_def recorded_call split: option.split)

lemma Validate_Nil [simp]: "Validate []"
  by (simp add: Validate_def)

lemma bind_keys_refines:
  assumes "ch_open ch"
  shows "bind_keys describe recording fs answer (octets name) ex keys ch c =
    (case bind_all (broker_of describe answer) name ex keys of (r, calls) \<Rightarrow> Some (r, c @ call_frames ch calls))"
proof (induction keys arbitrary: c)
  case (Cons rk rks)
  have call: "Channel_QueueBind recording fs rp (octets name) (octets rk) (octets ex) False [] ch c =
      Some (case refused rp (50, 21) of Some e \<Rightarrow> Inl e | None \<Rightarrow> Inr (),
        c @ call_frames ch [CallQueueBind name rk ex False])" for rp c
    using assms by (simp add: Channel_QueueBind_def validated_def recorded_unit call_frames_def)
  show ?case
  proof (cases "refused (answer (bind_request (octets name) rk ex)) (50, 21) :: 'a call_error option")
    case None
    then show ?thesis
      using Cons.IH by (simp add: call broker_of_def call_frames_def split: prod.split)
  next
    case (Some e)
    then show ?thesis by (simp add: call broker_of_def)
  qed
qed (simp add: call_frames_def)

lemma consume_recorded:
  assumes "channel_inv ch" and "ch_open ch"
  obtains ch' where "channel_inv ch'" and "ch_open ch'" and "inbox (ch_consumers ch') control_tag = Some []"
    and "refused rp (60, 21) = (None :: 'e call_error option) \<Longrightarrow>
      Channel_Consume recording fs rp fresh (octets name) control_tag False False False False [] ch c =
        Some ((None :: 'e call_error option, ch'),
          c @ call_frames ch [CallConsume name ''proc_box_remote_control'' False False False False])"
    and "\<And>e :: 'e call_error. refused rp (60, 21) = Some e \<Longrightarrow> \<exists>ch2.
      Channel_Consume recording fs rp fresh (octets name) control_tag False False False False [] ch c =
        Some ((Some e, ch2), c @ call_frames ch [CallConsume name ''proc_box_remote_control'' False False False False])"
proof -
  have inv: "consumers_inv (ch_consumers ch)" using assms(1) by (simp add: channel_inv_def)
  from consumers_add_ok [OF inv, of control_tag] obtain t where
    t: "consumers_add control_tag (ch_consumers ch) = Some t" "consumers_inv t" "inbox t control_tag = Some []" by auto
  let ?ch = "ch\<lparr>ch_consumers := t\<rparr>"
  from consumers_do_ok [OF t(2), of "CloseConsumer control_tag"] obtain b t' where
    t': "consumers_close control_tag t = Some (b, t')" by auto
  have tag: "control_tag \<noteq> []" by (simp add: control_tag_def octets_def)
  have call: "channel_call recording fs rp (MBasic (BasicConsume 0 (octets name) control_tag False False False False [])) [(60, 21)] ?ch c =
      Some (case refused rp (60, 21) of Some (e :: 'e call_error) \<Rightarrow> Inl e | None \<Rightarrow> Inr (reply_message rp),
        c @ call_frames ch [CallConsume name ''proc_box_remote_control'' False False False False])" for rp and c
    using assms(2) by (simp add: recorded_call call_frames_def control_tag_def)
  show ?thesis
    by (rule that [of ?ch]) (use assms tag t t' in \<open>simp_all add: channel_inv_def Channel_Consume_def call\<close>)
qed

lemma setup_consumes:
  fixes describe :: "'e call_error \<Rightarrow> err"
  assumes "channel_inv ch" and "ch_open ch"
  shows "\<exists>ch'. channel_inv ch' \<and> ch_open ch' \<and> inbox (ch_consumers ch') control_tag = Some [] \<and>
    (case Channel_Consume recording fs rp fresh (octets name) control_tag False False False False [] ch c of
       None \<Rightarrow> None
     | Some ((Some e, _), c) \<Rightarrow> Some (Inl (''Failed to consume queue: '' @ describe e @ rc_newline), c)
     | Some ((None, ch), c) \<Rightarrow> Some (Inr ch, c)) =
    Some (case refused rp (60, 21) of
        Some e \<Rightarrow> Inl (''Failed to consume queue: '' @ describe e @ rc_newline) | None \<Rightarrow> Inr ch',
      c @ call_frames ch [CallConsume name ''proc_box_remote_control'' False False False False])"
proof -
  obtain ch' where ch': "channel_inv ch'" "ch_open ch'" "inbox (ch_consumers ch') control_tag = Some []"
    and ok: "refused rp (60, 21) = (None :: 'e call_error option) \<Longrightarrow>
      Channel_Consume recording fs rp fresh (octets name) control_tag False False False False [] ch c =
        Some ((None :: 'e call_error option, ch'),
          c @ call_frames ch [CallConsume name ''proc_box_remote_control'' False False False False])"
    and failed: "\<And>e :: 'e call_error. refused rp (60, 21) = Some e \<Longrightarrow> \<exists>ch2.
      Channel_Consume recording fs rp fresh (octets name) control_tag False False False False [] ch c =
        Some ((Some e, ch2), c @ call_frames ch [CallConsume name ''proc_box_remote_control'' False False False False])"
    using consume_recorded [OF assms, of rp fs fresh name c] by blast
  show ?thesis
  proof (cases "refused rp (60, 21) :: 'e call_error option")
    case None
    with ch' ok show ?thesis by (intro exI [of _ ch']) simp
  next
    case (Some e)
    with ch' failed [OF Some] show ?thesis by (intro exI [of _ ch']) auto
  qed
qed

lemma open_recorded:
  "ch_open ch \<Longrightarrow> channel_open recording fs rp ch c =
    Some (case refused rp (20, 11) of Some e \<Rightarrow> Inl e | None \<Rightarrow> Inr (), c @ call_frames ch [CallChannel])"
  by (simp add: channel_open_def recorded_unit call_frames_def)

lemma declare_recorded:
  "ch_open ch \<Longrightarrow> Channel_QueueDeclare recording fs rp [] False True False False [] ch c =
    Some (case refused rp (50, 11) of Some e \<Rightarrow> Inl e | None \<Rightarrow> Inr (declared_queue [] (reply_message rp)),
      c @ call_frames ch [CallQueueDeclare '''' False True False False])"
  by (simp add: Channel_QueueDeclare_def queue_declare_def validated_def api_map_def recorded_call call_frames_def octets_def
    split: option.split)

abbreviation declared_name :: "(message \<Rightarrow> reply) \<Rightarrow> string" where
  "declared_name answer \<equiv> chars (q_Name (declared_queue [] (reply_message (answer declare_request))))"

text \<open>The set-up once the channel is open and the queue is declared.\<close>

lemma setup_runs:
  fixes describe :: "'e call_error \<Rightarrow> err"
  assumes "ch_open ch" and "refused (answer open_request) (20, 11) = (None :: 'e call_error option)"
    and "refused (answer declare_request) (50, 11) = (None :: 'e call_error option)"
    and "bind_all (broker_of describe answer) (declared_name answer) ex keys = (r, binds)"
  shows "setup_over describe recording fs answer fresh keys ex ch [] =
     (let c = call_frames ch ([CallChannel, CallQueueDeclare '''' False True False False] @ binds)
      in case r of
           Some e \<Rightarrow> Some (Inl e, c)
         | None \<Rightarrow>
             (case Channel_Consume recording fs (answer (consume_request (octets (declared_name answer)))) fresh
                     (octets (declared_name answer)) control_tag False False False False [] ch c of
                None \<Rightarrow> None
              | Some ((Some e, _), c) \<Rightarrow> Some (Inl (''Failed to consume queue: '' @ describe e @ rc_newline), c)
              | Some ((None, ch), c) \<Rightarrow> Some (Inr ch, c)))"
proof -
  have "bind_keys describe recording fs answer (q_Name (declared_queue [] (reply_message (answer declare_request)))) ex keys ch c =
      Some (r, c @ call_frames ch binds)" for c
    using bind_keys_refines [OF assms(1), of describe fs answer "declared_name answer" ex keys c] assms(4) by simp
  then show ?thesis
    using assms(1-3) by (simp add: setup_over_def open_recorded declare_recorded call_frames_append Let_def split: option.split)
qed

lemma broker_accepts:
  fixes describe :: "'e call_error \<Rightarrow> err"
  assumes "refused (answer open_request) (20, 11) = (None :: 'e call_error option)"
    and "refused (answer declare_request) (50, 11) = (None :: 'e call_error option)"
  shows "rb_channel (broker_of describe answer) = None" "rb_queue_declare (broker_of describe answer) = Inr (declared_name answer)"
    "rb_consume (broker_of describe answer) (declared_name answer) tag =
       map_option describe (refused (answer (consume_request (octets (declared_name answer)))) (60, 21))"
  using assms by (simp_all add: broker_of_def)

text \<open>
  C8: the set-up of the remote control on the AMQP library implements the one the remote control's own
  properties are about: over any broker it ends without a panic in the same error or
  in success, the frames sent are its calls in their order and nothing else, and after success the channel has the
  consumer with an empty inbox.
\<close>

theorem setup_refines:
  assumes "channel_inv ch" and "ch_open ch"
  shows "case NewRemoteControl (Some conn) keys ex nr (broker_of describe answer) of (rc, calls) \<Rightarrow>
    \<exists>r. setup_over describe recording fs answer fresh keys ex ch [] = Some (r, call_frames ch calls) \<and>
      (case rc of
         Inl e \<Rightarrow> r = Inl e
       | Inr _ \<Rightarrow> \<exists>ch'. r = Inr ch' \<and> channel_inv ch' \<and> ch_open ch' \<and> inbox (ch_consumers ch') control_tag = Some [])"
proof (cases "refused (answer open_request) (20, 11) :: 'a call_error option")
  case (Some e)
  then show ?thesis using assms(2) by (simp add: NewRemoteControl_def broker_of_def setup_over_def open_recorded Let_def)
next
  case opened: None
  show ?thesis
  proof (cases "refused (answer declare_request) (50, 11) :: 'a call_error option")
    case (Some e)
    with opened assms(2) show ?thesis
      by (simp add: NewRemoteControl_def broker_of_def setup_over_def open_recorded declare_recorded Let_def call_frames_append)
  next
    case declared: None
    let ?rp = "answer (consume_request (octets (declared_name answer)))"
    obtain r binds where binds: "bind_all (broker_of describe answer) (declared_name answer) ex keys = (r, binds)" by fastforce
    let ?c = "call_frames ch ([CallChannel, CallQueueDeclare '''' False True False False] @ binds)"
    note runs = setup_runs [OF assms(2) opened declared binds] broker_accepts [OF opened declared] binds
    show ?thesis
    proof (cases r)
      case (Some e)
      with runs show ?thesis by (simp add: NewRemoteControl_def Let_def)
    next
      case None
      obtain ch' where "channel_inv ch'" "ch_open ch'" "inbox (ch_consumers ch') control_tag = Some []"
        "setup_over describe recording fs answer fresh keys ex ch [] =
           Some (case refused ?rp (60, 21) of
               Some e \<Rightarrow> Inl (''Failed to consume queue: '' @ describe e @ rc_newline) | None \<Rightarrow> Inr ch',
             ?c @ call_frames ch [CallConsume (declared_name answer) ''proc_box_remote_control'' False False False False])"
        using setup_consumes [OF assms, of describe fs ?rp fresh "declared_name answer" ?c] runs(1) None by auto
      then show ?thesis using None runs(2-5)
        by (cases "refused ?rp (60, 21) :: 'a call_error option")
          (auto simp: NewRemoteControl_def Let_def call_frames_append)
    qed
  qed
qed

section \<open>Instances\<close>

theorem commands_reach_monitor_witness:
  "\<exists>ch bs fs ch' ds.
     wseq (map write_frame (content_frames 1 2 (MBasic (BasicDeliver control_tag 9 False [] [107] (plain_properties [] [] 0 0) [1, 2, 3])))) = Inr bs \<and>
     channel_recvs fs ch = Some ([], ch') \<and> inbox (ch_consumers ch') control_tag = Some ds \<and>
     (\<forall>bes b hes h. buffer_run bes b \<longrightarrow> prefix (taken bes) ds \<longrightarrow>
        handle_trace (handle_start (\<lambda>b. (\<lparr>Command = ''stop'', Arguments = []\<rparr>, None)) (map handled (given bes)) None) hes h \<longrightarrow>
        prefix (forwarded hes) [\<lparr>Command = ''stop'', Arguments = []\<rparr>] \<and> prefix (acked hes) [9])"
proof -
  let ?m = "MBasic (BasicDeliver control_tag 9 False [] [107] (plain_properties [] [] 0 0) [1, 2, 3])"
  have "consumers_inv (ch_consumers (newChannel 1))" using newChannel_inv [of 1] by (simp add: channel_inv_def)
  from consumers_add_ok [OF this, of control_tag] obtain t where
    t: "consumers_inv t" "inbox t control_tag = Some []" by auto
  let ?ch = "(newChannel 1)\<lparr>ch_consumers := t\<rparr>"
  have "channel_inv ?ch" using newChannel_inv [of 1] t(1) by (simp add: channel_inv_def)
  moreover have "inbox (ch_consumers ?ch) control_tag = Some []" using t(2) by simp
  moreover have "length control_tag < 256" by (simp add: control_tag_def)
  then have "content_ok ?m" by (intro deliver_travels) simp_all
  then have "\<forall>m\<in>set [?m]. to_consumer control_tag m \<and> content_ok m" by simp
  ultimately show ?thesis
    using commands_reach_monitor [of ?ch "[?m]" 2 "\<lambda>b. (\<lparr>Command = ''stop'', Arguments = []\<rparr>, None)" None]
    by (simp add: newChannel_def) blast
qed


theorem setup_refines_witness:
  "case NewRemoteControl (Some 0) [''k''] ''amq.topic'' 1 (broker_of (\<lambda>_ :: werr call_error. ''refused'') (\<lambda>_. OnRpc None)) of (rc, calls) \<Rightarrow>
     \<exists>r. setup_over (\<lambda>_ :: werr call_error. ''refused'') recording 4096 (\<lambda>_. OnRpc None) [] [''k''] ''amq.topic'' (newChannel 1) [] =
       Some (r, call_frames (newChannel 1) calls)"
  using setup_refines [OF newChannel_inv [of 1], where conn = 0 and keys = "[''k'']" and ex = "''amq.topic''" and nr = 1
      and describe = "\<lambda>_ :: werr call_error. ''refused''" and answer = "\<lambda>_. OnRpc None" and fs = 4096 and fresh = "[]"]
  by (auto simp: newChannel_def split: prod.splits)

end
