(* ===== verification/Remote_System.thy ===== *)
theory Remote_System
  imports Agents_Broker Monitor
begin

text \<open>
  The whole path of a remote command: the broker's octets, the channel, the consumer's buffer, \<open>handle\<close>,
  the monitor, and the signals to the process group of the contained process.
\<close>

fun commands_of :: "(between \<times> mon_event) list \<Rightarrow> remote_command list" where
  "commands_of [] = []"
| "commands_of ((b, CommandReceived c) # es) = c # commands_of es"
| "commands_of (_ # es) = commands_of es"

lemma commands_of_append: "commands_of (xs @ ys) = commands_of xs @ commands_of ys"
  by (induction xs rule: commands_of.induct) simp_all

lemma monitor_acts:
  assumes "prefix (commands_of es) cs" and "in_int64 (Pgid (m_job m))" and "Pgid (m_job m) \<noteq> - (2 ^ 63)"
  shows "\<exists>k\<le>length es. (k = length es \<or> 0 < k \<and> stops (snd (es ! (k - 1)))) \<and>
     prefix (commands_of (take k es)) cs \<and>
     kills (m_os (monitor_run pd es m)) =
     kills (m_os m) @ map (Pair (- Pgid (m_job m))) (concat (map (run_signals (m_limit m)) (take k es)))"
proof -
  have "job_target (m_job m) = - Pgid (m_job m)"
    using assms(2,3) by (simp add: job_target_def in_int64_def)
  moreover have "prefix (commands_of (take k es)) cs" for k
    using commands_of_append [of "take k es" "drop k es"] assms(1) by (auto simp: prefix_def)
  ultimately show ?thesis using monitor_run_signals [of es pd m] by simp
qed

text \<open>
  C5: remote commands from the wire to the child: a broker writes deliveries for the remote control's consumer, cut
  into frames of any size; whatever the scheduling of the channel's reader, of the consumer's buffer, of
  \<open>handle\<close> and of the monitor, and whatever signals, ticks and timeouts the monitor sees in between, the commands
  it acts on are the decoded bodies of the first deliveries in the order the broker wrote them, none left out and none
  twice; every signal it sends goes to the process group of the child and is one its events ask for, in their
  order; and it acts on every event it receives unless a stop or the timeout ended proc_box.
\<close>

theorem remote_commands_signal_group:
  assumes "channel_inv ch" and "inbox (ch_consumers ch) control_tag = Some []"
    and "\<forall>msg\<in>set ms. to_consumer control_tag msg \<and> content_ok msg" and "0 < n" and "n < 2 ^ 32"
    and "in_int64 (Pgid (m_job m))" and "Pgid (m_job m) \<noteq> - (2 ^ 63)"
  shows "\<exists>bs fs ch' ds.
     wseq (map write_frame (concat (map (content_frames (ch_id ch) n) ms))) = Inr bs \<and>
     read_n ReadFrame (length fs) bs = (Inr fs, []) \<and>
     channel_recvs fs ch = Some ([], ch') \<and> inbox (ch_consumers ch') control_tag = Some ds \<and>
     (\<forall>bes b hes h es. buffer_run bes b \<longrightarrow> prefix (taken bes) ds \<longrightarrow>
        handle_trace (handle_start um (map handled (given bes)) dn) hes h \<longrightarrow> prefix (commands_of es) (forwarded hes) \<longrightarrow>
        (\<exists>k\<le>length es. (k = length es \<or> 0 < k \<and> stops (snd (es ! (k - 1)))) \<and>
           prefix (commands_of (take k es)) (map (\<lambda>msg. fst (um (body_of msg))) ms) \<and>
           kills (m_os (monitor_run pd es m)) =
           kills (m_os m) @ map (Pair (- Pgid (m_job m))) (concat (map (run_signals (m_limit m)) (take k es)))))"
proof -
  obtain bs fs ch' ds where io:
    "wseq (map write_frame (concat (map (content_frames (ch_id ch) n) ms))) = Inr bs"
    "read_n ReadFrame (length fs) bs = (Inr fs, [])"
    "channel_recvs fs ch = Some ([], ch')" "inbox (ch_consumers ch') control_tag = Some ds"
    and over: "\<And>bes b hes h. buffer_run bes b \<Longrightarrow> prefix (taken bes) ds \<Longrightarrow>
        handle_trace (handle_start um (map handled (given bes)) dn) hes h \<Longrightarrow>
        prefix (forwarded hes) (map (\<lambda>msg. fst (um (body_of msg))) ms)"
    using commands_reach_monitor [OF assms(1-5), of um dn] by metis
  have acts: "\<exists>k\<le>length es. (k = length es \<or> 0 < k \<and> stops (snd (es ! (k - 1)))) \<and>
      prefix (commands_of (take k es)) (map (\<lambda>msg. fst (um (body_of msg))) ms) \<and>
      kills (m_os (monitor_run pd es m)) =
      kills (m_os m) @ map (Pair (- Pgid (m_job m))) (concat (map (run_signals (m_limit m)) (take k es)))"
    if "buffer_run bes b" "prefix (taken bes) ds" "handle_trace (handle_start um (map handled (given bes)) dn) hes h"
      "prefix (commands_of es) (forwarded hes)" for bes b hes h es
    by (rule monitor_acts [OF prefix_order.trans [OF that(4) over [OF that(1-3)]] assms(6,7)])
  show ?thesis
    by (rule exI [of _ bs], rule exI [of _ fs], rule exI [of _ ch'], rule exI [of _ ds])
      (simp only: io simp_thms, intro allI impI acts)
qed

theorem remote_commands_signal_group_witness:
  "\<exists>ch bs fs ch' ds.
     wseq (map write_frame (content_frames 1 2 (MBasic (BasicDeliver control_tag 9 False [] [107] (plain_properties [] [] 0 0) [1, 2, 3])))) = Inr bs \<and>
     channel_recvs fs ch = Some ([], ch') \<and> inbox (ch_consumers ch') control_tag = Some ds \<and>
     (\<forall>bes b hes h. buffer_run bes b \<longrightarrow> prefix (taken bes) ds \<longrightarrow>
        handle_trace (handle_start (\<lambda>b. (\<lparr>Command = ''stop'', Arguments = []\<rparr>, None)) (map handled (given bes)) None) hes h \<longrightarrow>
        forwarded hes = [\<lparr>Command = ''stop'', Arguments = []\<rparr>] \<longrightarrow>
        kills (m_os (monitor_run (\<lambda>_. None) [(demo_between, CommandReceived \<lparr>Command = ''stop'', Arguments = []\<rparr>)]
          (demo_mon (\<lambda>_ _. None) 0 NewMeasuredReader))) = [(- 7, SIGTERM)])"
proof -
  let ?m = "MBasic (BasicDeliver control_tag 9 False [] [107] (plain_properties [] [] 0 0) [1, 2, 3])"
  let ?c = "\<lparr>Command = ''stop'', Arguments = []\<rparr>"
  let ?mon = "demo_mon (\<lambda>_ _. None) 0 NewMeasuredReader" and ?es = "[(demo_between, CommandReceived ?c)]"
  have "consumers_inv (ch_consumers (newChannel 1))" using newChannel_inv [of 1] by (simp add: channel_inv_def)
  from consumers_add_ok [OF this, of control_tag] obtain t where
    t: "consumers_inv t" "inbox t control_tag = Some []" by auto
  let ?ch = "(newChannel 1)\<lparr>ch_consumers := t\<rparr>"
  have "channel_inv ?ch" using newChannel_inv [of 1] t(1) by (simp add: channel_inv_def)
  moreover have "inbox (ch_consumers ?ch) control_tag = Some []" using t(2) by simp
  moreover have "length control_tag < 256" by (simp add: control_tag_def)
  then have "content_ok ?m" by (intro deliver_travels) simp_all
  then have "\<forall>m\<in>set [?m]. to_consumer control_tag m \<and> content_ok m" by simp
  ultimately obtain bs fs ch' ds where
    io: "wseq (map write_frame (concat (map (content_frames (ch_id ?ch) 2) [?m]))) = Inr bs"
      "channel_recvs fs ?ch = Some ([], ch')" "inbox (ch_consumers ch') control_tag = Some ds"
    and acts: "\<forall>bes b hes h es. buffer_run bes b \<longrightarrow> prefix (taken bes) ds \<longrightarrow>
        handle_trace (handle_start (\<lambda>b. (?c, None)) (map handled (given bes)) None) hes h \<longrightarrow>
        prefix (commands_of es) (forwarded hes) \<longrightarrow>
        (\<exists>k\<le>length es. (k = length es \<or> 0 < k \<and> stops (snd (es ! (k - 1)))) \<and>
           prefix (commands_of (take k es)) (map (\<lambda>msg. fst ((?c, None :: err option))) [?m]) \<and>
           kills (m_os (monitor_run (\<lambda>_. None) es ?mon)) =
           kills (m_os ?mon) @ map (Pair (- Pgid (m_job ?mon))) (concat (map (run_signals (m_limit ?mon)) (take k es))))"
    using remote_commands_signal_group [of ?ch "[?m]" 2 ?mon "\<lambda>b. (?c, None)" None "\<lambda>_. None"]
    by (simp only:) (simp add: in_int64_def, blast)
  have "kills (m_os (monitor_run (\<lambda>_. None) ?es ?mon)) = [(- 7, SIGTERM)]"
    if run: "buffer_run bes b" "prefix (taken bes) ds" "forwarded hes = [?c]"
      "handle_trace (handle_start (\<lambda>b. (?c, None)) (map handled (given bes)) None) hes h" for bes b hes h
  proof -
    have "prefix (commands_of ?es) (forwarded hes)" using run(3) by simp
    then obtain k where k: "k \<le> length ?es" "k = length ?es \<or> 0 < k"
      and "kills (m_os (monitor_run (\<lambda>_. None) ?es ?mon)) =
        kills (m_os ?mon) @ map (Pair (- Pgid (m_job ?mon))) (concat (map (run_signals (m_limit ?mon)) (take k ?es)))"
      using acts run(1,2,4) by blast
    moreover have "k = 1" using k by auto
    ultimately show ?thesis by (simp add: run_signals_def del: monitor_run.simps)
  qed
  with io show ?thesis by (intro exI [of _ ?ch]) (simp add: newChannel_def, blast)
qed

end
