(* ===== verification/Utf8.thy ===== *)
theory Utf8
  imports Prelude "HOL-Library.Char_ord"
begin

text \<open>
  Text as Go has it, bytes that are UTF-8 where they can be read so (package \<open>utf8\<close>), and the quoting of
  \<open>strconv.Quote\<close>, the verb \<open>%q\<close> of package \<open>fmt\<close>, with a reader that takes it back. Which
  runes above 127 are printable is a parameter, the tables of \<open>strconv.IsPrint\<close>.
\<close>


section \<open>Runes\<close>

definition RuneError :: nat where
  "RuneError = 65533"

definition follows :: "nat \<Rightarrow> bool" where
  "follows n \<longleftrightarrow> 128 \<le> n \<and> n \<le> 191"

text \<open>The second byte after a lead byte: no overlong forms, no surrogates, nothing above \<open>MaxRune\<close>.\<close>

definition second_byte :: "nat \<Rightarrow> nat \<Rightarrow> bool" where
  "second_byte a b \<longleftrightarrow>
     (if a = 224 then 160 else if a = 240 then 144 else 128) \<le> b \<and>
     b \<le> (if a = 237 then 159 else if a = 244 then 143 else 191)"

text \<open>The six bits of a following byte, behind those read so far.\<close>

definition six_bits :: "nat \<Rightarrow> nat \<Rightarrow> nat" where
  "six_bits x b = x * 64 + (b - 128)"

text \<open>\<open>DecodeRune\<close>: the first rune of the bytes and how many of them it takes.\<close>

definition DecodeRune :: "nat list \<Rightarrow> nat \<times> nat" where
  "DecodeRune ns =
     (case ns of
        [] \<Rightarrow> (RuneError, 0)
      | a # bs \<Rightarrow>
          if a < 128 then (a, 1)
          else if a < 194 \<or> 244 < a then (RuneError, 1)
          else (case bs of
                  [] \<Rightarrow> (RuneError, 1)
                | b # cs \<Rightarrow>
                    if \<not> second_byte a b then (RuneError, 1)
                    else if a < 224 then (six_bits (a - 192) b, 2)
                    else (case cs of
                            [] \<Rightarrow> (RuneError, 1)
                          | c # ds \<Rightarrow>
                              if \<not> follows c then (RuneError, 1)
                              else if a < 240 then (six_bits (six_bits (a - 224) b) c, 3)
                              else (case ds of
                                      [] \<Rightarrow> (RuneError, 1)
                                    | d # _ \<Rightarrow>
                                        if \<not> follows d then (RuneError, 1)
                                        else (six_bits (six_bits (six_bits (a - 240) b) c) d, 4)))))"

definition EncodeRune :: "nat \<Rightarrow> nat list" where
  "EncodeRune r =
     (let r = (if 55296 \<le> r \<and> r \<le> 57343 \<or> 1114111 < r then RuneError else r)
      in if r < 128 then [r]
         else if r < 2048 then [192 + r div 64, 128 + r mod 64]
         else if r < 65536 then [224 + r div 64 div 64, 128 + r div 64 mod 64, 128 + r mod 64]
         else [240 + r div 64 div 64 div 64, 128 + r div 64 div 64 mod 64, 128 + r div 64 mod 64, 128 + r mod 64])"

lemma six_bits_read:
  assumes "follows b"
  shows "six_bits x b div 64 = x" and "128 + six_bits x b mod 64 = b"
    and "64 * x \<le> six_bits x b" and "six_bits x b \<le> 64 * x + 63"
proof -
  from assms obtain y where b: "b = 128 + y" by (auto simp: follows_def dest: le_Suc_ex)
  with assms have "y < 64" by (simp add: follows_def)
  with b show "six_bits x b div 64 = x" and "128 + six_bits x b mod 64 = b"
    and "64 * x \<le> six_bits x b" and "six_bits x b \<le> 64 * x + 63"
    by (simp_all add: six_bits_def)
qed

lemma second_follows: "second_byte a b \<Longrightarrow> follows b"
  by (auto simp: second_byte_def follows_def split: if_splits)

text \<open>A rune that was decoded from more than an invalid byte is encoded as it was.\<close>

lemma two_bytes:
  assumes "194 \<le> a" and "a < 224" and "second_byte a b"
  shows "EncodeRune (six_bits (a - 192) b) = [a, b] \<and> six_bits (a - 192) b \<le> 1114111"
proof -
  note b = six_bits_read [OF second_follows [OF assms(3)], of "a - 192"]
  have "128 \<le> six_bits (a - 192) b" "six_bits (a - 192) b < 2048" using assms(1,2) b(3,4) by linarith+
  then show ?thesis using assms(1) b(1,2) by (simp add: EncodeRune_def)
qed

lemma three_bytes:
  assumes "224 \<le> a" and "a < 240" and "second_byte a b" and "follows c"
  shows "EncodeRune (six_bits (six_bits (a - 224) b) c) = [a, b, c] \<and> six_bits (six_bits (a - 224) b) c \<le> 1114111"
proof -
  note b = six_bits_read [OF second_follows [OF assms(3)], of "a - 224"]
  note c = six_bits_read [OF assms(4), of "six_bits (a - 224) b"]
  have "32 \<le> six_bits (a - 224) b"
  proof (cases "a = 224")
    case True
    then have "160 \<le> b" using assms(3) by (simp add: second_byte_def)
    with True show ?thesis by (simp add: six_bits_def le_diff_conv2)
  next
    case False
    then show ?thesis using assms(1) b(3) by linarith
  qed
  moreover have "six_bits (a - 224) b < 864 \<or> 896 \<le> six_bits (a - 224) b"
  proof -
    consider "a < 237" | "a = 237" "b < 160" | "237 < a"
      using assms(3) by (fastforce simp: second_byte_def split: if_splits)
    then show ?thesis
    proof cases
      case 2
      then have "b - 128 < 32" by linarith
      with 2 show ?thesis by (simp add: six_bits_def)
    qed (use b(3,4) in linarith)+
  qed
  moreover have "six_bits (a - 224) b < 1024" using assms(1,2) b(4) by linarith
  ultimately have "2048 \<le> six_bits (six_bits (a - 224) b) c" "six_bits (six_bits (a - 224) b) c < 65536"
      "six_bits (six_bits (a - 224) b) c < 55296 \<or> 57343 < six_bits (six_bits (a - 224) b) c"
    using c(3,4) by linarith+
  then show ?thesis using assms(1) b(1,2) c(1,2) by (auto simp: EncodeRune_def)
qed

lemma four_bytes:
  assumes "240 \<le> a" and "a \<le> 244" and "second_byte a b" and "follows c" and "follows d"
  shows "EncodeRune (six_bits (six_bits (six_bits (a - 240) b) c) d) = [a, b, c, d] \<and>
     six_bits (six_bits (six_bits (a - 240) b) c) d \<le> 1114111"
proof -
  let ?p = "six_bits (a - 240) b"
  note b = six_bits_read [OF second_follows [OF assms(3)], of "a - 240"]
  note c = six_bits_read [OF assms(4), of ?p]
  note d = six_bits_read [OF assms(5), of "six_bits ?p c"]
  have "16 \<le> ?p \<and> ?p \<le> 271"
  proof -
    consider "a = 240" "144 \<le> b" | "a = 244" "b \<le> 143" | "240 < a" "a < 244"
      using assms(1-3) by (fastforce simp: second_byte_def split: if_splits)
    then show ?thesis
    proof cases
      case 1
      then show ?thesis using b(4) by (simp add: six_bits_def)
    next
      case 2
      then show ?thesis using b(3) by (simp add: six_bits_def)
    qed (use b(3,4) in linarith)
  qed
  then have "65536 \<le> six_bits (six_bits ?p c) d" "six_bits (six_bits ?p c) d \<le> 1114111"
    using c(3,4) d(3,4) by linarith+
  then show ?thesis using assms(1) b(1,2) c(1,2) d(1,2) by (simp add: EncodeRune_def)
qed

lemma EncodeRune_Decode:
  assumes "DecodeRune ns = (r, w)" and "ns \<noteq> []" and "\<not> (w = 1 \<and> r = RuneError)"
  shows "EncodeRune r = take w ns"
proof -
  from assms(2) obtain a bs where ns: "ns = a # bs" by (cases ns) auto
  show ?thesis
  proof (cases "a < 128")
    case True
    with assms(1) ns show ?thesis by (auto simp: DecodeRune_def EncodeRune_def)
  next
    case False
    with assms(1,3) show ?thesis
      unfolding ns
      by (auto simp: DecodeRune_def two_bytes three_bytes four_bytes
          split: list.splits if_splits)
  qed
qed

lemma DecodeRune_bound: "DecodeRune ns = (r, w) \<Longrightarrow> r \<le> 1114111"
  by (auto simp: DecodeRune_def RuneError_def two_bytes three_bytes four_bytes split: list.splits if_splits)

lemma DecodeRune_width: "ns \<noteq> [] \<Longrightarrow> 0 < snd (DecodeRune ns)"
  by (auto simp: DecodeRune_def split: list.splits)

text \<open>A text as its runes, each with the bytes it is made of.\<close>

definition byte_codes :: "string \<Rightarrow> nat list" where
  "byte_codes s = map of_char s"

function (sequential) runes :: "string \<Rightarrow> (nat \<times> string) list" where
  "runes [] = []"
| "runes s = (let (r, w) = DecodeRune (byte_codes s) in (r, take w s) # runes (drop w s))"
  by pat_completeness auto
termination
proof (relation "measure length", simp_all)
  fix c :: char and cs r w
  assume "(r, w) = DecodeRune (byte_codes (c # cs))"
  then have "0 < w" using DecodeRune_width [of "byte_codes (c # cs)"] by (metis byte_codes_def list.map_disc_iff list.simps(3) snd_conv)
  then show "Suc (length cs) - w < Suc (length cs)" by simp
qed

definition rune_text :: "nat \<Rightarrow> string" where
  "rune_text r = map char_of (EncodeRune r)"

lemma rune_text_Decode:
  assumes "DecodeRune (byte_codes s) = (r, w)" and "s \<noteq> []" and "\<not> (w = 1 \<and> r = RuneError)"
  shows "rune_text r = take w s"
  using EncodeRune_Decode [OF assms(1) _ assms(3)] assms(2)
  by (simp add: rune_text_def byte_codes_def take_map [symmetric])

lemma runes_bytes: "concat (map snd (runes s)) = s"
  by (induction s rule: runes.induct) (auto simp: Let_def split: prod.split)

text \<open>Every rune of a text is either an invalid byte or its bytes are its encoding.\<close>

lemma runes_text:
  "(r, bs) \<in> set (runes s) \<Longrightarrow>
     (r = RuneError \<and> (\<exists>c. bs = [c] \<and> 128 \<le> (of_char c :: nat))) \<or> rune_text r = bs \<and> bs \<noteq> []"
proof (induction s rule: runes.induct)
  case (2 c cs)
  obtain r1 w where d: "DecodeRune (byte_codes (c # cs)) = (r1, w)" by (cases "DecodeRune (byte_codes (c # cs))")
  then have "0 < w" using DecodeRune_width [of "byte_codes (c # cs)"] by (simp add: byte_codes_def)
  have head: "(r1 = RuneError \<and> (\<exists>c. take w (c' # cs') = [c] \<and> 128 \<le> (of_char c :: nat))) \<or>
      rune_text r1 = take w (c # cs)" if "c' # cs' = c # cs" for c' cs'
  proof (cases "w = 1 \<and> r1 = RuneError")
    case True
    moreover have "128 \<le> (of_char c :: nat)"
      using d True by (auto simp: DecodeRune_def byte_codes_def RuneError_def split: if_splits)
    ultimately show ?thesis using that by auto
  next
    case False
    then show ?thesis using rune_text_Decode [OF d] by simp
  qed
  from 2 d head [OF refl] \<open>0 < w\<close> show ?case by (auto simp: Let_def)
qed simp


section \<open>Quoting\<close>

abbreviation dquote :: char where "dquote \<equiv> CHR 0x22"
abbreviation backslash :: char where "backslash \<equiv> CHR 0x5C"

definition escapes :: "(nat \<times> char) list" where
  "escapes = [(7, CHR ''a''), (8, CHR ''b''), (9, CHR ''t''), (10, CHR ''n''), (11, CHR ''v''),
     (12, CHR ''f''), (13, CHR ''r'')]"

definition hex_char :: "nat \<Rightarrow> char" where
  "hex_char n = ''0123456789abcdef'' ! n"

fun hex_text :: "nat \<Rightarrow> nat \<Rightarrow> string" where
  "hex_text 0 n = []"
| "hex_text (Suc k) n = hex_text k (n div 16) @ [hex_char (n mod 16)]"

definition IsPrint :: "(nat \<Rightarrow> bool) \<Rightarrow> nat \<Rightarrow> bool" where
  "IsPrint printable r \<longleftrightarrow> (if r < 128 then 32 \<le> r \<and> r < 127 else printable r)"

text \<open>
  An invalid byte, a width of one with \<open>RuneError\<close>, is written by its number. The rune 127 is written \<open>\x7f\<close>, as
  recent releases of Go do; older ones write \<open>\u007f\<close>, which the reader below takes as well.
\<close>

definition quote_rune :: "(nat \<Rightarrow> bool) \<Rightarrow> nat \<times> string \<Rightarrow> string" where
  "quote_rune printable = (\<lambda>(r, bs).
     if r = RuneError \<and> length bs = 1 then [backslash, CHR ''x''] @ hex_text 2 (of_char (hd bs))
     else if r = of_char dquote \<or> r = of_char backslash then backslash # rune_text r
     else if IsPrint printable r then rune_text r
     else (case map_of escapes r of
             Some d \<Rightarrow> [backslash, d]
           | None \<Rightarrow>
               if r < 32 \<or> r = 127 then [backslash, CHR ''x''] @ hex_text 2 r
               else if r < 65536 then [backslash, CHR ''u''] @ hex_text 4 r
               else [backslash, CHR ''U''] @ hex_text 8 r))"

definition Quote :: "(nat \<Rightarrow> bool) \<Rightarrow> string \<Rightarrow> string" where
  "Quote printable s = dquote # concat (map (quote_rune printable) (runes s)) @ [dquote]"


section \<open>Reading a quoted text\<close>

text \<open>The reader, as a specification: a character with its escape gives bytes.\<close>

definition hex_of_char :: "char \<Rightarrow> nat" where
  "hex_of_char c = (let n = of_char c :: nat in if n < 58 then n - 48 else n - 87)"

definition hex_value :: "string \<Rightarrow> nat" where
  "hex_value s = foldl (\<lambda>n c. 16 * n + hex_of_char c) 0 s"

fun read_char :: "string \<Rightarrow> (string \<times> string) option" where
  "read_char (c # cs) =
     (if c \<noteq> backslash then Some ([c], cs)
      else (case cs of
              [] \<Rightarrow> None
            | d # ds \<Rightarrow>
                if d = dquote \<or> d = backslash then Some ([d], ds)
                else if d = CHR ''x'' then Some ([char_of (hex_value (take 2 ds))], drop 2 ds)
                else if d = CHR ''u'' then Some (rune_text (hex_value (take 4 ds)), drop 4 ds)
                else if d = CHR ''U'' then Some (rune_text (hex_value (take 8 ds)), drop 8 ds)
                else map_option (\<lambda>n. ([char_of n], ds)) (map_of (map prod.swap escapes) d)))"
| "read_char [] = None"

lemma read_char_shorter: "read_char s = Some (c, r) \<Longrightarrow> length r < length s"
  by (induction s rule: read_char.induct) (auto split: if_splits list.splits)

function (sequential) read_quoted :: "string \<Rightarrow> (string \<times> string) option" where
  "read_quoted [] = None"
| "read_quoted (c # cs) =
     (if c = dquote then Some ([], cs)
      else (case read_char (c # cs) of
              None \<Rightarrow> None
            | Some (d, r) \<Rightarrow> map_option (\<lambda>(s, r). (d @ s, r)) (read_quoted r)))"
  by pat_completeness auto
termination
  by (relation "measure length") (auto simp del: read_char.simps dest: read_char_shorter)

lemma hex_digits_read: "n < 16 \<Longrightarrow> hex_of_char (hex_char n) = n"
proof -
  have "\<forall>n\<in>set [0..<16]. hex_of_char (hex_char n) = n" by (simp add: hex_char_def hex_of_char_def upt_rec)
  then show "n < 16 \<Longrightarrow> hex_of_char (hex_char n) = n" by auto
qed

lemma length_hex_text [simp]: "length (hex_text k n) = k"
  by (induction k arbitrary: n) simp_all

lemma hex_value_text: "n < 16 ^ k \<Longrightarrow> hex_value (hex_text k n) = n"
proof (induction k arbitrary: n)
  case (Suc k)
  then have "hex_value (hex_text k (n div 16)) = n div 16" by (simp add: div_less_iff_less_mult mult.commute)
  then show ?case by (simp add: hex_value_def hex_digits_read)
qed (simp add: hex_value_def)

lemma escapes_read: "map_of escapes n = Some d \<Longrightarrow>
    map_of (map prod.swap escapes) d = Some n \<and> d \<notin> {CHR ''x'', CHR ''u'', CHR ''U'', dquote, backslash} \<and> n < 128"
  by (auto simp: escapes_def split: if_splits)

lemma read_raw:
  "dquote \<notin> set bs \<Longrightarrow> backslash \<notin> set bs \<Longrightarrow>
     read_quoted (bs @ t) = map_option (\<lambda>(s, r). (bs @ s, r)) (read_quoted t)"
proof (induction bs)
  case (Cons c bs)
  then have "c \<noteq> dquote" "c \<noteq> backslash" by auto
  with Cons show ?case by (simp add: option.map_comp comp_def case_prod_unfold)
qed (simp add: option.map_id)

lemma rune_text_ascii: "r < 128 \<Longrightarrow> rune_text r = [char_of r]"
  by (simp add: rune_text_def EncodeRune_def)

text \<open>Above 127 every byte of a rune is, so none is a quote, a backslash or a newline.\<close>

lemma rune_text_high: "128 \<le> r \<Longrightarrow> c \<in> set (rune_text r) \<Longrightarrow> 128 \<le> (of_char c :: nat)"
proof -
  assume r: "128 \<le> r" and c: "c \<in> set (rune_text r)"
  have byte: "\<forall>n\<in>set (EncodeRune r). 128 \<le> n \<and> n < 256"
    using r by (auto simp: EncodeRune_def RuneError_def Let_def div_less_iff_less_mult)
  from c obtain n where "n \<in> set (EncodeRune r)" "c = char_of n" by (auto simp: rune_text_def)
  with byte show ?thesis by (auto simp: of_char_of)
qed

lemma quote_rune_read:
  assumes "(r = RuneError \<and> (\<exists>c. bs = [c] \<and> 128 \<le> (of_char c :: nat))) \<or> rune_text r = bs \<and> bs \<noteq> []"
    and "r \<le> 1114111"
  shows "read_quoted (quote_rune p (r, bs) @ t) = map_option (\<lambda>(s, u). (bs @ s, u)) (read_quoted t)"
proof (cases "r = RuneError \<and> length bs = 1")
  case True
  then obtain c where c: "bs = [c]" by (auto simp: length_Suc_conv)
  have "of_char c < (256 :: nat)" by (rule nat_of_char_less_256)
  with True c show ?thesis using hex_value_text [of "of_char c" 2] by (simp add: quote_rune_def)
next
  case False
  with assms(1) have bs: "rune_text r = bs" by auto
  consider (quote) "r = of_char dquote \<or> r = of_char backslash"
    | (raw) "r \<noteq> of_char dquote" "r \<noteq> of_char backslash" "IsPrint p r"
    | (hidden) "r \<noteq> of_char dquote" "r \<noteq> of_char backslash" "\<not> IsPrint p r" by blast
  then show ?thesis
  proof cases
    case quote
    then obtain c where c: "r = of_char c" "c = dquote \<or> c = backslash" by blast
    moreover have "bs = [c]" using bs rune_text_ascii [of r] c by auto
    ultimately show ?thesis using False bs by (auto simp: quote_rune_def)
  next
    case raw
    have "c \<noteq> dquote \<and> c \<noteq> backslash" if "c \<in> set bs" for c
    proof (cases "r < 128")
      case True
      then have "of_char c = r" using that bs by (auto simp: rune_text_ascii of_char_of)
      with raw(1,2) show ?thesis by auto
    next
      case False
      with rune_text_high [of r c] that bs show ?thesis by auto
    qed
    then have "read_quoted (bs @ t) = map_option (\<lambda>(s, u). (bs @ s, u)) (read_quoted t)"
      by (intro read_raw) auto
    moreover have "quote_rune p (r, bs) = bs" using raw False bs by (auto simp: quote_rune_def)
    ultimately show ?thesis by simp
  next
    case hidden
    show ?thesis
    proof (cases "map_of escapes r")
      case None
      have "quote_rune p (r, bs) =
          (if r < 32 \<or> r = 127 then [backslash, CHR ''x''] @ hex_text 2 r
           else if r < 65536 then [backslash, CHR ''u''] @ hex_text 4 r
           else [backslash, CHR ''U''] @ hex_text 8 r)"
        using hidden False None by (auto simp: quote_rune_def simp del: hex_text.simps)
      then show ?thesis
        using assms(2) bs hex_value_text [of r 2] hex_value_text [of r 4] hex_value_text [of r 8]
        by (auto simp: rune_text_ascii)
    next
      case (Some d)
      have "quote_rune p (r, bs) = [backslash, d]" using hidden False Some by (auto simp: quote_rune_def)
      with escapes_read [OF Some] bs show ?thesis by (auto simp: rune_text_ascii)
    qed
  qed
qed

lemma runes_bound: "(r, bs) \<in> set (runes s) \<Longrightarrow> r \<le> 1114111"
  by (induction s rule: runes.induct) (auto simp: Let_def split: prod.splits dest: DecodeRune_bound [OF sym])

lemma read_quoted_runes:
  "\<forall>(r, bs)\<in>set rs. r \<le> 1114111 \<and>
     ((r = RuneError \<and> (\<exists>c. bs = [c] \<and> 128 \<le> (of_char c :: nat))) \<or> rune_text r = bs \<and> bs \<noteq> []) \<Longrightarrow>
   read_quoted (concat (map (quote_rune p) rs) @ dquote # t) = Some (concat (map snd rs), t)"
proof (induction rs)
  case (Cons x rs)
  obtain r bs where x: "x = (r, bs)" by (cases x)
  from Cons quote_rune_read [of r bs p "concat (map (quote_rune p) rs) @ dquote # t"] show ?case by (simp add: x)
qed simp

text \<open>What \<open>Quote\<close> writes reads back, whatever the bytes: UTF-8 or not, printable or not.\<close>

lemma read_quoted_Quote:
  "read_quoted (tl (Quote p s) @ t) = Some (s, t)"
proof -
  have "\<forall>(r, bs)\<in>set (runes s). r \<le> 1114111 \<and>
     ((r = RuneError \<and> (\<exists>c. bs = [c] \<and> 128 \<le> (of_char c :: nat))) \<or> rune_text r = bs \<and> bs \<noteq> [])"
    using runes_text runes_bound by fastforce
  from read_quoted_runes [OF this, of p t] show ?thesis by (simp add: Quote_def runes_bytes)
qed

text \<open>A quoted text is on one line.\<close>

lemma hex_text_no_newline: "CHR 0x0A \<notin> set (hex_text k n)"
proof (induction k arbitrary: n)
  case (Suc k)
  have "hex_char m \<noteq> CHR 0x0A" if "m < 16" for m
    using hex_digits_read [OF that] that by (cases "m = 0") (auto simp: hex_of_char_def hex_char_def)
  then have "hex_char (n mod 16) \<noteq> CHR 0x0A" by simp
  with Suc show ?case by auto
qed simp

lemma quote_rune_no_newline: "CHR 0x0A \<notin> set (quote_rune p (r, bs))"
proof -
  have short: "d \<noteq> CHR 0x0A" if "map_of escapes n = Some d" for n d
    using that by (auto simp: escapes_def split: if_splits)
  have raw: "CHR 0x0A \<notin> set (rune_text r)" if "32 \<le> r"
  proof (cases "r < 128")
    case True
    then have "(of_char (char_of r :: char) :: nat) = r" by (simp add: of_char_of)
    with that True show ?thesis by (auto simp: rune_text_ascii dest: arg_cong [where f = "of_char :: char \<Rightarrow> nat"])
  next
    case False
    then show ?thesis using rune_text_high [of r "CHR 0x0A"] by auto
  qed
  have "32 \<le> r" if "IsPrint p r" using that by (auto simp: IsPrint_def split: if_splits)
  then show ?thesis
    using raw short hex_text_no_newline by (auto simp: quote_rune_def simp del: hex_text.simps split: option.split)
qed

end
