(* ===== verification/Log_Format.thy ===== *)
theory Log_Format
  imports Main_Program Proc_Text Utf8 "HOL-Library.List_Lexorder"
begin

text \<open>
  The formatters of the vendored package logrus (\<open>formatter.go\<close>, \<open>text_formatter.go\<close>,
  \<open>json_formatter.go\<close>): how an entry of the log becomes a line. The fields of an entry are a Go map: a list of
  pairs with distinct keys, in the order a \<open>range\<close> happens to give. \<open>time.Format\<close>, \<open>json.Marshal\<close> and
  the terminal are parameters, and so are the printable runes above 127 (theory \<open>Utf8\<close>).
\<close>

datatype field_value =
    FText string
  | FError string         \<comment> \<open>an error, by its message\<close>
  | FOther string string  \<comment> \<open>any other value, by its forms under \<open>%v\<close> and \<open>%+v\<close>\<close>

type_synonym log_fields = "(string \<times> field_value) list"

record entry =
  e_data :: log_fields
  e_time :: instant
  e_level :: Level
  e_message :: string

record log_env =
  le_format :: "string \<Rightarrow> instant \<Rightarrow> string"
  le_marshal :: "log_fields \<Rightarrow> err + string"
  le_terminal :: bool
  le_base :: instant  \<comment> \<open>\<open>baseTimestamp\<close>, taken when the program starts\<close>
  le_now :: instant   \<comment> \<open>the time of the call\<close>
  le_printable :: "nat \<Rightarrow> bool"
  le_sprintf :: "string \<Rightarrow> string list \<Rightarrow> string"

text \<open>What a formatter returns: the entry's map, which it may change, the bytes and an error.\<close>

type_synonym formatted = "log_fields \<times> string \<times> err option"

definition DefaultTimestampFormat :: string where
  "DefaultTimestampFormat = ''2006-01-02T15:04:05Z07:00''"

definition prefix_clash :: "string \<Rightarrow> log_fields \<Rightarrow> log_fields" where
  "prefix_clash k data =
     (case map_of data k of None \<Rightarrow> data | Some v \<Rightarrow> AList.update (''fields.'' @ k) v data)"

definition prefixFieldClashes :: "log_fields \<Rightarrow> log_fields" where
  "prefixFieldClashes data = prefix_clash ''level'' (prefix_clash ''msg'' (prefix_clash ''time'' data))"


section \<open>The JSON formatter\<close>

fun json_value :: "field_value \<Rightarrow> field_value" where
  "json_value (FError e) = FText e"
| "json_value v = v"

definition timestamp_format :: "string \<Rightarrow> string" where
  "timestamp_format f = (if f = '''' then DefaultTimestampFormat else f)"

definition json_data :: "log_env \<Rightarrow> string \<Rightarrow> entry \<Rightarrow> log_fields" where
  "json_data env f e =
     (let data = map (\<lambda>(k, v). (k, json_value v)) (e_data e);
          data = prefixFieldClashes data;
          data = AList.update ''time'' (FText (le_format env (timestamp_format f) (e_time e))) data;
          data = AList.update ''msg'' (FText (e_message e)) data
      in AList.update ''level'' (FText (Level_String (e_level e))) data)"

definition JSON_Format :: "log_env \<Rightarrow> string \<Rightarrow> entry \<Rightarrow> formatted" where
  "JSON_Format env f e =
     (case le_marshal env (json_data env f e) of
        Inl x \<Rightarrow> (e_data e, [], Some (''Failed to marshal fields to JSON, '' @ x))
      | Inr s \<Rightarrow> (e_data e, s @ [newline], None))"


section \<open>The text formatter\<close>

record text_formatter =
  ForceColors :: bool
  DisableColors :: bool
  DisableTimestamp :: bool
  FullTimestamp :: bool
  TimestampFormat :: string
  DisableSorting :: bool

text \<open>\<open>needsQuoting\<close> answers whether the text can do without quotes.\<close>

definition plain_char :: "char \<Rightarrow> bool" where
  "plain_char c \<longleftrightarrow> (let n = of_char c :: nat in
     (97 \<le> n \<and> n \<le> 122) \<or> (65 \<le> n \<and> n \<le> 90) \<or> (48 \<le> n \<and> n \<le> 57) \<or> c = CHR ''-'' \<or> c = CHR ''.'')"

definition needsQuoting :: "string \<Rightarrow> bool" where
  "needsQuoting s = list_all plain_char s"

fun field_text :: "(nat \<Rightarrow> bool) \<Rightarrow> field_value \<Rightarrow> string" where
  "field_text p (FText s) = (if needsQuoting s then s else Quote p s)"
| "field_text p (FError s) = (if needsQuoting s then s else Quote p s)"
| "field_text p (FOther s _) = s"

definition appendKeyValue :: "(nat \<Rightarrow> bool) \<Rightarrow> string \<Rightarrow> string \<Rightarrow> field_value \<Rightarrow> string" where
  "appendKeyValue p b k v = b @ k @ ''='' @ field_text p v @ [blank]"

definition upper_char :: "char \<Rightarrow> char" where
  "upper_char c = (let n = of_char c :: nat in if 97 \<le> n \<and> n \<le> 122 then char_of (n - 32) else c)"

definition level_color :: "Level \<Rightarrow> int" where
  "level_color l =
     (case l of DebugLevel \<Rightarrow> 37 | WarnLevel \<Rightarrow> 33 | ErrorLevel \<Rightarrow> 31 | FatalLevel \<Rightarrow> 31 | PanicLevel \<Rightarrow> 31
      | InfoLevel \<Rightarrow> 34)"

definition miniTS :: "log_env \<Rightarrow> int" where
  "miniTS env = time_sub (le_now env) (le_base env) div second"

definition pad_zeros :: "nat \<Rightarrow> string \<Rightarrow> string" where
  "pad_zeros n s = replicate (n - length s) (CHR ''0'') @ s"

text \<open>The width of \<open>%-44s\<close> is in runes.\<close>

definition pad_blanks :: "nat \<Rightarrow> string \<Rightarrow> string" where
  "pad_blanks n s = s @ replicate (n - length (runes s)) blank"

fun plus_v :: "field_value \<Rightarrow> string" where
  "plus_v (FText s) = s"
| "plus_v (FError s) = s"
| "plus_v (FOther _ s) = s"

definition in_color :: "int \<Rightarrow> string \<Rightarrow> string" where
  "in_color col s = CHR 0x1B # ''['' @ Itoa col @ ''m'' @ s @ CHR 0x1B # ''[0m''"

definition field_of :: "log_fields \<Rightarrow> string \<Rightarrow> field_value" where
  "field_of data k = (case map_of data k of Some v \<Rightarrow> v | None \<Rightarrow> FOther ''<nil>'' ''<nil>'')"

definition printColored :: "log_env \<Rightarrow> text_formatter \<Rightarrow> entry \<Rightarrow> string list \<Rightarrow> string \<Rightarrow> string" where
  "printColored env f e ks tf =
     (let col = level_color (e_level e);
          levelText = take 4 (map upper_char (Level_String (e_level e)));
          stamp = (if FullTimestamp f then le_format env tf (e_time e) else pad_zeros 4 (Itoa (miniTS env)))
      in in_color col levelText @ ''['' @ stamp @ ''] '' @ pad_blanks 44 (e_message e) @ [blank] @
         concat (map (\<lambda>k. blank # in_color col k @ ''='' @ plus_v (field_of (e_data e) k)) ks))"

definition is_colored :: "log_env \<Rightarrow> text_formatter \<Rightarrow> bool" where
  "is_colored env f \<longleftrightarrow> (ForceColors f \<or> le_terminal env) \<and> \<not> DisableColors f"

definition Text_Format :: "log_env \<Rightarrow> text_formatter \<Rightarrow> entry \<Rightarrow> formatted" where
  "Text_Format env f e =
     (let ks = map fst (e_data e);
          ks = (if DisableSorting f then ks else sort ks);
          data = prefixFieldClashes (e_data e);
          e = e\<lparr>e_data := data\<rparr>;
          tf = timestamp_format (TimestampFormat f);
          b = (if is_colored env f then printColored env f e ks tf
               else (let b = (if DisableTimestamp f then []
                              else appendKeyValue (le_printable env) [] ''time'' (FText (le_format env tf (e_time e))));
                         b = appendKeyValue (le_printable env) b ''level'' (FText (Level_String (e_level e)));
                         b = (if e_message e = '''' then b else appendKeyValue (le_printable env) b ''msg'' (FText (e_message e)))
                     in foldl (\<lambda>b k. appendKeyValue (le_printable env) b k (field_of data k)) b ks))
      in (data, b @ [newline], None))"

section \<open>Reading a line back\<close>

text \<open>A reader of lines, as a specification: a value, quoted or not, a pair, the pairs of a line.\<close>

definition read_value :: "string \<Rightarrow> string \<times> string" where
  "read_value s =
     (case s of
        c # cs \<Rightarrow> if c = dquote then (case read_quoted cs of Some x \<Rightarrow> x | None \<Rightarrow> ([], []))
                  else (takeWhile (\<lambda>c. c \<noteq> blank) s, dropWhile (\<lambda>c. c \<noteq> blank) s)
      | [] \<Rightarrow> ([], []))"

fun read_pairs :: "nat \<Rightarrow> string \<Rightarrow> (string \<times> string) list" where
  "read_pairs 0 s = []"
| "read_pairs (Suc n) s =
     (if s = [newline] then []
      else (let k = takeWhile (\<lambda>c. c \<noteq> CHR ''='') s;
                (v, r) = read_value (tl (dropWhile (\<lambda>c. c \<noteq> CHR ''='') s))
            in (k, v) # read_pairs n (tl r)))"

definition read_line :: "string \<Rightarrow> (string \<times> string) list" where
  "read_line s = read_pairs (length s) s"

text \<open>A value whose own form holds no blank and does not look quoted.\<close>

fun bare_value :: "field_value \<Rightarrow> bool" where
  "bare_value (FOther s _) \<longleftrightarrow> blank \<notin> set s \<and> (s = [] \<or> hd s \<noteq> dquote)"
| "bare_value _ \<longleftrightarrow> True"

fun value_text :: "field_value \<Rightarrow> string" where
  "value_text (FText s) = s"
| "value_text (FError s) = s"
| "value_text (FOther s _) = s"

lemma plain_no_blank: "needsQuoting s \<Longrightarrow> blank \<notin> set s \<and> dquote \<notin> set s"
  by (auto simp: needsQuoting_def list_all_iff plain_char_def Let_def)

lemma span_until:
  "x \<notin> set s \<Longrightarrow> takeWhile (\<lambda>c. c \<noteq> x) (s @ x # r) = s \<and> dropWhile (\<lambda>c. c \<noteq> x) (s @ x # r) = x # r"
  by (induction s) auto

lemma read_value_Quote: "read_value (Quote p s @ r) = (s, r)"
  using read_quoted_Quote [of p s r] by (simp add: Quote_def read_value_def)

lemma read_field_text:
  assumes "bare_value v"
  shows "read_value (field_text p v @ blank # r) = (value_text v, blank # r)"
proof -
  have bare: "read_value (s @ blank # r) = (s, blank # r)" if "blank \<notin> set s" "s = [] \<or> hd s \<noteq> dquote" for s
    using that span_until [of blank s r] by (cases s) (auto simp: read_value_def)
  have plain: "read_value (s @ blank # r) = (s, blank # r)" if "needsQuoting s" for s
    using plain_no_blank [OF that] by (intro bare) (auto dest: hd_in_set)
  show ?thesis using assms bare plain
    by (cases v) (simp_all add: read_value_Quote)
qed

lemma read_pairs_step:
  assumes "CHR ''='' \<notin> set k" and "bare_value v"
  shows "read_pairs (Suc n) (k @ ''='' @ field_text p v @ blank # r) = (k, value_text v) # read_pairs n r"
proof -
  have "k @ ''='' @ field_text p v @ blank # r \<noteq> [newline]" by (cases k) auto
  then show ?thesis using span_until [OF assms(1)] read_field_text [OF assms(2)] by (simp add: Let_def)
qed

definition pairs_text :: "(nat \<Rightarrow> bool) \<Rightarrow> (string \<times> field_value) list \<Rightarrow> string" where
  "pairs_text p ps = concat (map (\<lambda>(k, v). k @ ''='' @ field_text p v @ [blank]) ps)"

lemma read_pairs_text:
  assumes "\<forall>(k, v)\<in>set ps. CHR ''='' \<notin> set k \<and> bare_value v" and "length ps < n"
  shows "read_pairs n (pairs_text p ps @ [newline]) = map (\<lambda>(k, v). (k, value_text v)) ps"
  using assms
proof (induction ps arbitrary: n)
  case Nil
  then show ?case by (cases n) (simp_all add: pairs_text_def)
next
  case (Cons x ps)
  obtain k v m where [simp]: "x = (k, v)" "n = Suc m" using Cons.prems by (cases x; cases n) auto
  show ?case
    using read_pairs_step [of k v m p "pairs_text p ps @ [newline]"] Cons by (auto simp: pairs_text_def)
qed

lemma length_pairs_text: "length ps \<le> length (pairs_text p ps)"
  by (induction ps) (auto simp: pairs_text_def)

lemma read_line_pairs:
  "\<forall>(k, v)\<in>set ps. CHR ''='' \<notin> set k \<and> bare_value v \<Longrightarrow>
    read_line (pairs_text p ps @ [newline]) = map (\<lambda>(k, v). (k, value_text v)) ps"
  using read_pairs_text [of ps "length (pairs_text p ps @ [newline])" p] length_pairs_text [of ps p]
  by (simp add: read_line_def del: read_pairs.simps)

text \<open>What the text formatter prints without colours: a list of pairs.\<close>

definition text_pairs :: "log_env \<Rightarrow> text_formatter \<Rightarrow> entry \<Rightarrow> (string \<times> field_value) list" where
  "text_pairs env f e =
     (if DisableTimestamp f then []
      else [(''time'', FText (le_format env (timestamp_format (TimestampFormat f)) (e_time e)))]) @
     (''level'', FText (Level_String (e_level e))) #
     (if e_message e = '''' then [] else [(''msg'', FText (e_message e))]) @
     map (\<lambda>k. (k, field_of (prefixFieldClashes (e_data e)) k))
       (if DisableSorting f then map fst (e_data e) else sort (map fst (e_data e)))"

lemma foldl_append_pairs:
  "foldl (\<lambda>b k. appendKeyValue p b k (g k)) b ks = b @ pairs_text p (map (\<lambda>k. (k, g k)) ks)"
  by (induction ks arbitrary: b) (simp_all add: appendKeyValue_def pairs_text_def)

lemma Text_Format_pairs:
  "\<not> is_colored env f \<Longrightarrow> fst (snd (Text_Format env f e)) = pairs_text (le_printable env) (text_pairs env f e) @ [newline]"
  by (simp add: Text_Format_def Let_def foldl_append_pairs text_pairs_def)
    (simp add: pairs_text_def appendKeyValue_def)

lemma map_of_prefix_clash:
  "map_of (prefix_clash k data) = (map_of data)(''fields.'' @ k := (case map_of data k of
     Some v \<Rightarrow> Some v | None \<Rightarrow> map_of data (''fields.'' @ k)))"
  by (auto simp: prefix_clash_def update_conv' split: option.split)

definition clashing :: "string set" where
  "clashing = {''time'', ''msg'', ''level''}"

lemma prefix_clash_same: "k \<noteq> ''fields.'' @ c \<Longrightarrow> map_of (prefix_clash c data) k = map_of data k"
  by (simp add: map_of_prefix_clash)

lemma map_of_prefixFieldClashes:
  "map_of (prefixFieldClashes data) k =
     (if k \<in> (\<lambda>c. ''fields.'' @ c) ` clashing
      then (case map_of data (drop 7 k) of Some v \<Rightarrow> Some v | None \<Rightarrow> map_of data k)
      else map_of data k)"
  by (auto simp: prefixFieldClashes_def map_of_prefix_clash clashing_def split: option.split)

lemma unprefixed:
  "\<forall>k\<in>fst ` set data. take 7 k \<noteq> ''fields.'' \<Longrightarrow> k \<in> fst ` set data \<Longrightarrow> k \<notin> (\<lambda>c. ''fields.'' @ c) ` clashing"
  by (force simp: clashing_def)

text \<open>
  A line of the text formatter without colours reads back as what was logged: the time, the level, the
  message as it is with every character, and each field under its key with its text, in the order of the keys, as
  long as no key has an equals sign and no other value prints with a blank or as if it were quoted.
\<close>

theorem text_line_read_back:
  assumes "\<not> is_colored env f" and "\<not> DisableTimestamp f" and "\<not> DisableSorting f"
    and "e_message e \<noteq> ''''" and "distinct (map fst (e_data e))"
    and "\<forall>(k, v)\<in>set (e_data e). CHR ''='' \<notin> set k \<and> take 7 k \<noteq> ''fields.'' \<and> bare_value v"
  shows "read_line (fst (snd (Text_Format env f e))) =
     (''time'', le_format env (timestamp_format (TimestampFormat f)) (e_time e)) #
     (''level'', Level_String (e_level e)) # (''msg'', e_message e) #
     map (\<lambda>k. (k, value_text (the (map_of (e_data e) k)))) (sort (map fst (e_data e)))"
proof -
  have field: "field_of (prefixFieldClashes (e_data e)) k = the (map_of (e_data e) k) \<and> (k, the (map_of (e_data e) k)) \<in> set (e_data e)"
    if k: "k \<in> fst ` set (e_data e)" for k
  proof -
    obtain v where v: "(k, v) \<in> set (e_data e)" "map_of (e_data e) k = Some v"
      using k assms(5) by auto
    moreover have "k \<notin> (\<lambda>c. ''fields.'' @ c) ` clashing"
      using unprefixed [of "e_data e" k] assms(6) k by fastforce
    ultimately show ?thesis by (simp add: field_of_def map_of_prefixFieldClashes)
  qed
  have ok: "CHR ''='' \<notin> set k \<and> bare_value (field_of (prefixFieldClashes (e_data e)) k)"
    if "k \<in> fst ` set (e_data e)" for k
    using field [OF that] assms(6) by fastforce
  have "\<forall>(k, v)\<in>set (text_pairs env f e). CHR ''='' \<notin> set k \<and> bare_value v"
    using assms(3) ok by (auto simp: text_pairs_def)
  then have "read_line (fst (snd (Text_Format env f e))) = map (\<lambda>(k, v). (k, value_text v)) (text_pairs env f e)"
    by (simp add: Text_Format_pairs [OF assms(1)] read_line_pairs)
  then show ?thesis using assms(2,3,4) field by (simp add: text_pairs_def)
qed

text \<open>
  With the keys sorted, the line does not depend on the order in which Go happens to range over the map of
  fields, with colours or without.
\<close>

theorem text_ignores_map_order:
  assumes "\<not> DisableSorting f" and "distinct (map fst d)" and "distinct (map fst d')" and "map_of d = map_of d'"
  shows "fst (snd (Text_Format env f (e\<lparr>e_data := d\<rparr>))) = fst (snd (Text_Format env f (e\<lparr>e_data := d'\<rparr>)))"
proof -
  have "set (map fst d) = set (map fst d')"
    using assms(4) by (metis dom_map_of_conv_image_fst set_map)
  then have keys: "sort (map fst d) = sort (map fst d')"
    using assms(2,3) by (metis sorted_list_of_set_sort_remdups distinct_remdups_id)
  have "map_of (prefixFieldClashes d) = map_of (prefixFieldClashes d')"
    by (intro ext) (simp add: map_of_prefixFieldClashes assms(4) split: option.split)
  then have "field_of (prefixFieldClashes d) = field_of (prefixFieldClashes d')"
    by (simp add: field_of_def fun_eq_iff)
  then show ?thesis using assms(1) keys by (simp add: Text_Format_def printColored_def Let_def)
qed

text \<open>
  The text formatter collects the keys before it renames the fields that clash: a field \<open>level\<close> of the user is
  printed as a second \<open>level\<close> and not as \<open>fields.level\<close>. The renamed field stays in the map of the entry,
  so the next line logged with the same entry prints both.
\<close>

theorem text_clash_shows_next_time:
  assumes "map_of (e_data e) ''level'' = Some v" and "''fields.level'' \<notin> fst ` set (e_data e)"
  shows "''fields.level'' \<notin> fst ` set (text_pairs env f e) \<and>
    (''fields.level'', v) \<in> set (text_pairs env f (e\<lparr>e_data := fst (Text_Format env f e)\<rparr>))"
proof -
  let ?d = "prefixFieldClashes (e_data e)"
  have "map_of ?d ''fields.level'' = Some v"
    using assms(1) by (simp add: map_of_prefixFieldClashes clashing_def)
  moreover have "map_of (prefixFieldClashes ?d) ''fields.level'' = Some v"
    using assms(1) by (simp add: map_of_prefixFieldClashes clashing_def)
  moreover have "fst (Text_Format env f e) = ?d" by (simp add: Text_Format_def Let_def)
  moreover have "''fields.level'' \<in> fst ` set ?d" using calculation(1) by (force dest: map_of_SomeD)
  ultimately show ?thesis using assms(2) by (auto simp: text_pairs_def field_of_def image_image)
qed

text \<open>
  the JSON formatter hides no field of the user behind its own: every field is marshalled with its value, an
  error as its message, under its own key or, for \<open>time\<close>, \<open>msg\<close> and \<open>level\<close>, under the key with \<open>fields.\<close> in
  front, and those three hold the time, the message and the level of the entry; as long as no key of the user
  starts with \<open>fields.\<close> already.
\<close>

theorem json_hides_no_field:
  assumes "map_of (e_data e) k = Some v" and "\<forall>k\<in>fst ` set (e_data e). take 7 k \<noteq> ''fields.''"
  shows "map_of (json_data env f e) (if k \<in> {''time'', ''msg'', ''level''} then ''fields.'' @ k else k) = Some (json_value v) \<and>
    map_of (json_data env f e) ''msg'' = Some (FText (e_message e)) \<and>
    map_of (json_data env f e) ''level'' = Some (FText (Level_String (e_level e))) \<and>
    map_of (json_data env f e) ''time'' = Some (FText (le_format env (timestamp_format f) (e_time e)))"
proof -
  let ?data = "map (\<lambda>(k, v). (k, json_value v)) (e_data e)"
  have v: "map_of ?data k = Some (json_value v)" using assms(1) by (simp add: map_of_map)
  have key: "k \<in> fst ` set (e_data e)" using assms(1) by (metis domI dom_map_of_conv_image_fst)
  have "map_of (prefixFieldClashes ?data) (if k \<in> clashing then ''fields.'' @ k else k) = Some (json_value v)"
    using v unprefixed [OF assms(2) key] by (auto simp: map_of_prefixFieldClashes)
  moreover have "(if k \<in> clashing then ''fields.'' @ k else k) \<notin> clashing" by (auto simp: clashing_def)
  ultimately show ?thesis
    by (auto simp: json_data_def Let_def update_conv' clashing_def)
qed

abbreviation demo_env :: log_env where
  "demo_env \<equiv> \<lparr>le_format = (\<lambda>_ _. ''16:20''), le_marshal = (\<lambda>_. Inr []), le_terminal = False, le_base = 0,
     le_now = 0, le_printable = (\<lambda>r. r < 1000), le_sprintf = (\<lambda>f _. f)\<rparr>"

theorem json_hides_no_field_witness:
  "map_of (json_data demo_env '''' \<lparr>e_data = [(''level'', FError ''mine'')], e_time = 0, e_level = WarnLevel, e_message = ''m''\<rparr>)
     ''fields.level'' = Some (FText ''mine'')"
  using json_hides_no_field [of "\<lparr>e_data = [(''level'', FError ''mine'')], e_time = 0, e_level = WarnLevel, e_message = ''m''\<rparr>"
      "''level''" "FError ''mine''" demo_env "''''"] by simp

end
