(* ===== verification/Logging.thy ===== *)
theory Logging
  imports Log_Format
begin

text \<open>
  The entries, hooks and loggers of the vendored package logrus (\<open>entry.go\<close>, \<open>hooks.go\<close>, \<open>logger.go\<close>,
  \<open>exported.go\<close>), which proc_box and its agents log with. A call gives the map of the entry's fields as the hooks and the
  formatter leave it, what was written, and how the call ends. Hooks and custom formatters are
  functions; a hook may change the map of the entry it is given. The mutex makes each write atomic.
\<close>

datatype log_effect = WroteLog string | WroteStderr string

text \<open>A panic carries the entry (\<open>Panics\<close>) or a text (\<open>PanicsText\<close>); \<open>OsExit\<close> is \<open>os.Exit\<close>.\<close>

datatype log_end = Returns | OsExit int | Panics entry | PanicsText string

type_synonym log_result = "log_fields \<times> log_effect list \<times> log_end"

definition log_skip :: "log_fields \<Rightarrow> log_result" where
  "log_skip d = (d, [], Returns)"

definition and_then :: "log_result \<Rightarrow> log_end \<Rightarrow> log_result" where
  "and_then r fin = (case r of (d, fx, en) \<Rightarrow> (d, fx, if en = Returns then fin else en))"

datatype log_hook = Hook (hook_levels: "Level list") (hook_fire: "entry \<Rightarrow> log_fields \<times> err option")

type_synonym level_hooks = "Level \<Rightarrow> log_hook list"

definition hooks_Add :: "log_hook \<Rightarrow> level_hooks \<Rightarrow> level_hooks" where
  "hooks_Add h hs = foldl (\<lambda>hs l. hs(l := hs l @ [h])) hs (hook_levels h)"

fun fire_hooks :: "log_hook list \<Rightarrow> entry \<Rightarrow> entry \<times> err option" where
  "fire_hooks [] e = (e, None)"
| "fire_hooks (h # hs) e =
     (case hook_fire h e of
        (d, Some x) \<Rightarrow> (e\<lparr>e_data := d\<rparr>, Some x)
      | (d, None) \<Rightarrow> fire_hooks hs (e\<lparr>e_data := d\<rparr>))"

definition hooks_Fire :: "level_hooks \<Rightarrow> Level \<Rightarrow> entry \<Rightarrow> entry \<times> err option" where
  "hooks_Fire hs l e = fire_hooks (hs l) e"

datatype log_formatter = TextFormatter text_formatter | JSONFormatter string | OtherFormatter "entry \<Rightarrow> formatted"

fun formatter_Format :: "log_env \<Rightarrow> log_formatter \<Rightarrow> entry \<Rightarrow> formatted" where
  "formatter_Format env (TextFormatter f) e = Text_Format env f e"
| "formatter_Format env (JSONFormatter tf) e = JSON_Format env tf e"
| "formatter_Format env (OtherFormatter g) e = g e"

type_synonym writer_fn = "string \<Rightarrow> err option"

record logger =
  l_out :: writer_fn  \<comment> \<open>the error of a write\<close>
  l_hooks :: level_hooks
  l_formatter :: log_formatter
  l_level :: Level

definition logger_New :: "writer_fn \<Rightarrow> logger" where
  "logger_New stderr = \<lparr>l_out = stderr, l_hooks = (\<lambda>_. []), l_formatter = TextFormatter \<lparr>ForceColors = False, DisableColors = False,
     DisableTimestamp = False, FullTimestamp = False, TimestampFormat = [], DisableSorting = False\<rparr>,
     l_level = InfoLevel\<rparr>"


section \<open>Entries\<close>

definition NewEntry :: log_fields where
  "NewEntry = []"

definition WithFields :: "log_fields \<Rightarrow> log_fields \<Rightarrow> log_fields" where
  "WithFields fs d = foldl (\<lambda>d (k, v). AList.update k v d) (foldl (\<lambda>d (k, v). AList.update k v d) [] d) fs"

definition WithField :: "string \<Rightarrow> field_value \<Rightarrow> log_fields \<Rightarrow> log_fields" where
  "WithField k v d = WithFields [(k, v)] d"

definition ErrorKey :: string where
  "ErrorKey = ''error''"

definition WithError :: "err \<Rightarrow> log_fields \<Rightarrow> log_fields" where
  "WithError e d = WithField ErrorKey (FError e) d"

definition entry_Reader :: "log_env \<Rightarrow> logger \<Rightarrow> entry \<Rightarrow> formatted" where
  "entry_Reader env lg e = formatter_Format env (l_formatter lg) e"

definition entry_String :: "log_env \<Rightarrow> logger \<Rightarrow> entry \<Rightarrow> log_fields \<times> string \<times> err option" where
  "entry_String env lg e =
     (case entry_Reader env lg e of (d, s, Some x) \<Rightarrow> (d, [], Some x) | (d, s, None) \<Rightarrow> (d, s, None))"

definition stderr_line :: "string \<Rightarrow> err option \<Rightarrow> log_effect list" where
  "stderr_line s x = (case x of None \<Rightarrow> [] | Some x \<Rightarrow> [WroteStderr (s @ x @ [newline])])"

text \<open>\<open>io.Copy\<close> of an empty buffer writes nothing.\<close>

definition copy_out :: "writer_fn \<Rightarrow> string \<Rightarrow> log_effect list" where
  "copy_out out s =
     (if s = [] then [] else WroteLog s # stderr_line ''Failed to write to log, '' (out s))"

definition entry_log :: "log_env \<Rightarrow> logger \<Rightarrow> log_fields \<Rightarrow> Level \<Rightarrow> string \<Rightarrow> log_result" where
  "entry_log env lg d level msg =
     (let e = \<lparr>e_data = d, e_time = le_now env, e_level = level, e_message = msg\<rparr>;
          (e, x) = hooks_Fire (l_hooks lg) level e;
          fx1 = stderr_line ''Failed to fire hook: '' x;
          (d, s, x) = entry_Reader env lg e;
          fx2 = stderr_line ''Failed to obtain reader, '' x
      in (d, fx1 @ fx2 @ copy_out (l_out lg) s, if level \<le> PanicLevel then Panics (e\<lparr>e_data := d\<rparr>) else Returns))"

text \<open>
  What is logged: values, of which \<open>fmt.Sprint\<close> puts a space between two that are both not strings, and
  \<open>fmt.Sprintln\<close> between any two.
\<close>

datatype log_arg = AText (arg_text: string) | AValue (arg_text: string)

fun Sprint :: "log_arg list \<Rightarrow> string" where
  "Sprint [] = []"
| "Sprint [a] = arg_text a"
| "Sprint (AValue s # AValue t # as) = s @ blank # Sprint (AValue t # as)"
| "Sprint (a # b # as) = arg_text a @ Sprint (b # as)"

fun Sprintln :: "log_arg list \<Rightarrow> string" where
  "Sprintln [] = [newline]"
| "Sprintln [a] = arg_text a @ [newline]"
| "Sprintln (a # b # as) = arg_text a @ blank # Sprintln (b # as)"

definition sprintlnn :: "log_arg list \<Rightarrow> string" where
  "sprintlnn as = (let msg = Sprintln as in take (length msg - 1) msg)"

definition Sprintf :: "log_env \<Rightarrow> string \<Rightarrow> log_arg list \<Rightarrow> string" where
  "Sprintf env f as = le_sprintf env f (map arg_text as)"

text \<open>The methods of an entry: \<open>Debug\<close> and its sisters, then the families with a format and with spaces.\<close>

datatype log_method = Debug | Print | Info | Warn | Warning | Error | Fatal | Panic

text \<open>\<open>Print\<close> and \<open>Warning\<close> call the method they are another name of.\<close>

fun is_alias :: "log_method \<Rightarrow> nat" where
  "is_alias Print = 1"
| "is_alias Warning = 1"
| "is_alias _ = 0"

function entry_print :: "log_env \<Rightarrow> logger \<Rightarrow> log_method \<Rightarrow> log_arg list \<Rightarrow> log_fields \<Rightarrow> log_result" where
  "entry_print env lg Debug as d =
     (if DebugLevel \<le> l_level lg then entry_log env lg d DebugLevel (Sprint as) else log_skip d)"
| "entry_print env lg Info as d =
     (if InfoLevel \<le> l_level lg then entry_log env lg d InfoLevel (Sprint as) else log_skip d)"
| "entry_print env lg Print as d = entry_print env lg Info as d"
| "entry_print env lg Warn as d =
     (if WarnLevel \<le> l_level lg then entry_log env lg d WarnLevel (Sprint as) else log_skip d)"
| "entry_print env lg Warning as d = entry_print env lg Warn as d"
| "entry_print env lg Error as d =
     (if ErrorLevel \<le> l_level lg then entry_log env lg d ErrorLevel (Sprint as) else log_skip d)"
| "entry_print env lg Fatal as d =
     and_then (if FatalLevel \<le> l_level lg then entry_log env lg d FatalLevel (Sprint as) else log_skip d) (OsExit 1)"
| "entry_print env lg Panic as d =
     and_then (if PanicLevel \<le> l_level lg then entry_log env lg d PanicLevel (Sprint as) else log_skip d)
       (PanicsText (Sprint as))"
  by pat_completeness auto
termination
  by (relation "measure (\<lambda>(env, lg, m, as, d). is_alias m)") simp_all

function entry_printf :: "log_env \<Rightarrow> logger \<Rightarrow> log_method \<Rightarrow> string \<Rightarrow> log_arg list \<Rightarrow> log_fields \<Rightarrow> log_result" where
  "entry_printf env lg Debug f as d =
     (if DebugLevel \<le> l_level lg then entry_print env lg Debug [AText (Sprintf env f as)] d else log_skip d)"
| "entry_printf env lg Info f as d =
     (if InfoLevel \<le> l_level lg then entry_print env lg Info [AText (Sprintf env f as)] d else log_skip d)"
| "entry_printf env lg Print f as d = entry_printf env lg Info f as d"
| "entry_printf env lg Warn f as d =
     (if WarnLevel \<le> l_level lg then entry_print env lg Warn [AText (Sprintf env f as)] d else log_skip d)"
| "entry_printf env lg Warning f as d = entry_printf env lg Warn f as d"
| "entry_printf env lg Error f as d =
     (if ErrorLevel \<le> l_level lg then entry_print env lg Error [AText (Sprintf env f as)] d else log_skip d)"
| "entry_printf env lg Fatal f as d =
     and_then (if FatalLevel \<le> l_level lg then entry_print env lg Fatal [AText (Sprintf env f as)] d else log_skip d)
       (OsExit 1)"
| "entry_printf env lg Panic f as d =
     (if PanicLevel \<le> l_level lg then entry_print env lg Panic [AText (Sprintf env f as)] d else log_skip d)"
  by pat_completeness auto
termination
  by (relation "measure (\<lambda>(env, lg, m, f, as, d). is_alias m)") simp_all

function entry_println :: "log_env \<Rightarrow> logger \<Rightarrow> log_method \<Rightarrow> log_arg list \<Rightarrow> log_fields \<Rightarrow> log_result" where
  "entry_println env lg Debug as d =
     (if DebugLevel \<le> l_level lg then entry_print env lg Debug [AText (sprintlnn as)] d else log_skip d)"
| "entry_println env lg Info as d =
     (if InfoLevel \<le> l_level lg then entry_print env lg Info [AText (sprintlnn as)] d else log_skip d)"
| "entry_println env lg Print as d = entry_println env lg Info as d"
| "entry_println env lg Warn as d =
     (if WarnLevel \<le> l_level lg then entry_print env lg Warn [AText (sprintlnn as)] d else log_skip d)"
| "entry_println env lg Warning as d = entry_println env lg Warn as d"
| "entry_println env lg Error as d =
     (if ErrorLevel \<le> l_level lg then entry_print env lg Error [AText (sprintlnn as)] d else log_skip d)"
| "entry_println env lg Fatal as d =
     and_then (if FatalLevel \<le> l_level lg then entry_print env lg Fatal [AText (sprintlnn as)] d else log_skip d)
       (OsExit 1)"
| "entry_println env lg Panic as d =
     (if PanicLevel \<le> l_level lg then entry_print env lg Panic [AText (sprintlnn as)] d else log_skip d)"
  by pat_completeness auto
termination
  by (relation "measure (\<lambda>(env, lg, m, as, d). is_alias m)") simp_all

section \<open>Loggers\<close>

text \<open>A call of a logger makes an entry with no fields, whose map nobody sees afterwards.\<close>

type_synonym log_call = "log_effect list \<times> log_end"

definition on_new_entry :: "(log_fields \<Rightarrow> log_result) \<Rightarrow> log_call" where
  "on_new_entry c = snd (c NewEntry)"

definition call_skip :: log_call where
  "call_skip = ([], Returns)"

definition call_then :: "log_call \<Rightarrow> log_end \<Rightarrow> log_call" where
  "call_then r fin = (case r of (fx, en) \<Rightarrow> (fx, if en = Returns then fin else en))"

fun logger_print :: "log_env \<Rightarrow> logger \<Rightarrow> log_method \<Rightarrow> log_arg list \<Rightarrow> log_call" where
  "logger_print env lg Debug as =
     (if DebugLevel \<le> l_level lg then on_new_entry (entry_print env lg Debug as) else call_skip)"
| "logger_print env lg Info as =
     (if InfoLevel \<le> l_level lg then on_new_entry (entry_print env lg Info as) else call_skip)"
| "logger_print env lg Print as = on_new_entry (entry_print env lg Info as)"
| "logger_print env lg Warn as =
     (if WarnLevel \<le> l_level lg then on_new_entry (entry_print env lg Warn as) else call_skip)"
| "logger_print env lg Warning as =
     (if WarnLevel \<le> l_level lg then on_new_entry (entry_print env lg Warn as) else call_skip)"
| "logger_print env lg Error as =
     (if ErrorLevel \<le> l_level lg then on_new_entry (entry_print env lg Error as) else call_skip)"
| "logger_print env lg Fatal as =
     call_then (if FatalLevel \<le> l_level lg then on_new_entry (entry_print env lg Fatal as) else call_skip) (OsExit 1)"
| "logger_print env lg Panic as =
     (if PanicLevel \<le> l_level lg then on_new_entry (entry_print env lg Panic as) else call_skip)"

fun logger_printf :: "log_env \<Rightarrow> logger \<Rightarrow> log_method \<Rightarrow> string \<Rightarrow> log_arg list \<Rightarrow> log_call" where
  "logger_printf env lg Debug f as =
     (if DebugLevel \<le> l_level lg then on_new_entry (entry_printf env lg Debug f as) else call_skip)"
| "logger_printf env lg Info f as =
     (if InfoLevel \<le> l_level lg then on_new_entry (entry_printf env lg Info f as) else call_skip)"
| "logger_printf env lg Print f as = on_new_entry (entry_printf env lg Print f as)"
| "logger_printf env lg Warn f as =
     (if WarnLevel \<le> l_level lg then on_new_entry (entry_printf env lg Warn f as) else call_skip)"
| "logger_printf env lg Warning f as =
     (if WarnLevel \<le> l_level lg then on_new_entry (entry_printf env lg Warn f as) else call_skip)"
| "logger_printf env lg Error f as =
     (if ErrorLevel \<le> l_level lg then on_new_entry (entry_printf env lg Error f as) else call_skip)"
| "logger_printf env lg Fatal f as =
     call_then (if FatalLevel \<le> l_level lg then on_new_entry (entry_printf env lg Fatal f as) else call_skip) (OsExit 1)"
| "logger_printf env lg Panic f as =
     (if PanicLevel \<le> l_level lg then on_new_entry (entry_printf env lg Panic f as) else call_skip)"

fun logger_println :: "log_env \<Rightarrow> logger \<Rightarrow> log_method \<Rightarrow> log_arg list \<Rightarrow> log_call" where
  "logger_println env lg Debug as =
     (if DebugLevel \<le> l_level lg then on_new_entry (entry_println env lg Debug as) else call_skip)"
| "logger_println env lg Info as =
     (if InfoLevel \<le> l_level lg then on_new_entry (entry_println env lg Info as) else call_skip)"
| "logger_println env lg Print as = on_new_entry (entry_println env lg Print as)"
| "logger_println env lg Warn as =
     (if WarnLevel \<le> l_level lg then on_new_entry (entry_println env lg Warn as) else call_skip)"
| "logger_println env lg Warning as =
     (if WarnLevel \<le> l_level lg then on_new_entry (entry_println env lg Warn as) else call_skip)"
| "logger_println env lg Error as =
     (if ErrorLevel \<le> l_level lg then on_new_entry (entry_println env lg Error as) else call_skip)"
| "logger_println env lg Fatal as =
     call_then (if FatalLevel \<le> l_level lg then on_new_entry (entry_println env lg Fatal as) else call_skip) (OsExit 1)"
| "logger_println env lg Panic as =
     (if PanicLevel \<le> l_level lg then on_new_entry (entry_println env lg Panic as) else call_skip)"

definition logger_WithField :: "string \<Rightarrow> field_value \<Rightarrow> log_fields" where
  "logger_WithField k v = WithField k v NewEntry"

definition logger_WithFields :: "log_fields \<Rightarrow> log_fields" where
  "logger_WithFields fs = WithFields fs NewEntry"

text \<open>\<open>writerScanner\<close>: the lines written to the writer of a logger, and the error the scanner ended with.\<close>

fun scanner_calls :: "log_env \<Rightarrow> logger \<Rightarrow> string list \<Rightarrow> err option \<Rightarrow> log_call list" where
  "scanner_calls env lg (l # ls) x = logger_print env lg Print [AText l] # scanner_calls env lg ls x"
| "scanner_calls env lg [] (Some x) =
     [logger_printf env lg Error ''Error while reading from Writer: %s'' [AText x]]"
| "scanner_calls env lg [] None = []"


section \<open>The standard logger\<close>

text \<open>The functions of the package work on the one logger \<open>std\<close>.\<close>

definition std_init :: "writer_fn \<Rightarrow> logger" where
  "std_init stderr = logger_New stderr"

definition SetOutput :: "writer_fn \<Rightarrow> logger \<Rightarrow> logger" where
  "SetOutput out std = std\<lparr>l_out := out\<rparr>"

definition SetFormatter :: "log_formatter \<Rightarrow> logger \<Rightarrow> logger" where
  "SetFormatter f std = std\<lparr>l_formatter := f\<rparr>"

definition SetLevel :: "Level \<Rightarrow> logger \<Rightarrow> logger" where
  "SetLevel l std = std\<lparr>l_level := l\<rparr>"

definition GetLevel :: "logger \<Rightarrow> Level" where
  "GetLevel std = l_level std"

definition AddHook :: "log_hook \<Rightarrow> logger \<Rightarrow> logger" where
  "AddHook h std = std\<lparr>l_hooks := hooks_Add h (l_hooks std)\<rparr>"

definition std_WithError :: "err \<Rightarrow> log_fields" where
  "std_WithError e = logger_WithField ErrorKey (FError e)"

definition std_print :: "log_env \<Rightarrow> log_method \<Rightarrow> log_arg list \<Rightarrow> logger \<Rightarrow> log_call" where
  "std_print env m as std = logger_print env std m as"

definition std_printf :: "log_env \<Rightarrow> log_method \<Rightarrow> string \<Rightarrow> log_arg list \<Rightarrow> logger \<Rightarrow> log_call" where
  "std_printf env m f as std = logger_printf env std m f as"

definition std_println :: "log_env \<Rightarrow> log_method \<Rightarrow> log_arg list \<Rightarrow> logger \<Rightarrow> log_call" where
  "std_println env m as std = logger_println env std m as"


section \<open>What a call does\<close>

text \<open>The contract of every call, however it is spelt: the level's check, one entry, and the end.\<close>

fun method_level :: "log_method \<Rightarrow> Level" where
  "method_level Debug = DebugLevel"
| "method_level Print = InfoLevel"
| "method_level Info = InfoLevel"
| "method_level Warn = WarnLevel"
| "method_level Warning = WarnLevel"
| "method_level Error = ErrorLevel"
| "method_level Fatal = FatalLevel"
| "method_level Panic = PanicLevel"

definition log_spec :: "log_env \<Rightarrow> logger \<Rightarrow> log_method \<Rightarrow> string \<Rightarrow> log_call" where
  "log_spec env lg m msg =
     (let (fx, en) = (if method_level m \<le> l_level lg then snd (entry_log env lg [] (method_level m) msg) else ([], Returns))
      in (fx, if m = Fatal then OsExit 1 else en))"

lemma Level_le_simps [simp]: "PanicLevel \<le> l" "l \<le> DebugLevel" "\<not> FatalLevel \<le> PanicLevel" "\<not> ErrorLevel \<le> PanicLevel"
    "\<not> WarnLevel \<le> PanicLevel" "\<not> InfoLevel \<le> PanicLevel" "\<not> DebugLevel \<le> PanicLevel"
  by (cases l; simp add: less_eq_Level_def level_code_def)+

lemma le_PanicLevel: "l \<le> PanicLevel \<longleftrightarrow> l = PanicLevel"
  by (cases l) simp_all

lemma fire_hooks_message: "e_message (fst (fire_hooks hs e)) = e_message e"
  by (induction hs e rule: fire_hooks.induct) (auto split: prod.split option.split)

lemma entry_log_ends:
  obtains d' fx e where "entry_log env lg d l msg = (d', fx, if l = PanicLevel then Panics e else Returns)"
    "e_message e = msg"
proof -
  let ?e = "\<lparr>e_data = d, e_time = le_now env, e_level = l, e_message = msg\<rparr>"
  obtain e x where fire: "hooks_Fire (l_hooks lg) l ?e = (e, x)" by fastforce
  obtain d' s y where "entry_Reader env lg e = (d', s, y)" by (metis prod_cases3)
  moreover have "e_message e = msg"
    using fire_hooks_message [of "l_hooks lg l" ?e] fire by (simp add: hooks_Fire_def)
  ultimately show ?thesis using fire
    by (intro that [of d' _ "e\<lparr>e_data := d'\<rparr>"]) (simp_all add: entry_log_def le_PanicLevel)
qed

definition entry_spec :: "log_env \<Rightarrow> logger \<Rightarrow> log_method \<Rightarrow> string \<Rightarrow> log_fields \<Rightarrow> log_result" where
  "entry_spec env lg m msg d =
     (let (d, fx, en) = (if method_level m \<le> l_level lg then entry_log env lg d (method_level m) msg else (d, [], Returns))
      in (d, fx, if m = Fatal then OsExit 1 else en))"

lemma entry_print_spec: "entry_print env lg m as d = entry_spec env lg m (Sprint as) d"
  by (rule entry_log_ends [of env lg d "method_level m" "Sprint as"], cases m)
    (simp_all add: entry_spec_def and_then_def log_skip_def)

lemma and_then_exit: "and_then (entry_spec env lg Fatal msg d) (OsExit 1) = entry_spec env lg Fatal msg d"
  by (simp add: and_then_def entry_spec_def split: prod.split)

lemma and_then_skip: "and_then (d, [], Returns) fin = (d, [], fin)"
  by (simp add: and_then_def)

lemma entry_spec_alias:
  "entry_spec env lg Print = entry_spec env lg Info" "entry_spec env lg Warning = entry_spec env lg Warn"
  by (simp_all add: entry_spec_def fun_eq_iff)

lemmas entry_families = entry_print_spec and_then_exit and_then_skip entry_spec_alias

lemma entry_skips: "\<not> method_level m \<le> l_level lg \<Longrightarrow>
    entry_spec env lg m msg d = (d, [], if m = Fatal then OsExit 1 else Returns)"
  by (simp add: entry_spec_def)

lemma entry_printf_spec: "entry_printf env lg m f as d = entry_spec env lg m (Sprintf env f as) d"
  by (cases m) (simp_all add: entry_families entry_skips log_skip_def)

lemma entry_println_spec: "entry_println env lg m as d = entry_spec env lg m (sprintlnn as) d"
  by (cases m) (simp_all add: entry_families entry_skips log_skip_def)

lemma on_new_entry_spec: "on_new_entry (entry_spec env lg m msg) = log_spec env lg m msg"
  by (simp add: on_new_entry_def entry_spec_def log_spec_def NewEntry_def split: prod.split)

lemma call_then_exit: "call_then (log_spec env lg Fatal msg) (OsExit 1) = log_spec env lg Fatal msg"
  by (simp add: call_then_def log_spec_def split: prod.split)

lemma call_then_skip: "call_then ([], Returns) fin = ([], fin)"
  by (simp add: call_then_def)

lemma log_spec_skips: "\<not> method_level m \<le> l_level lg \<Longrightarrow>
    log_spec env lg m msg = ([], if m = Fatal then OsExit 1 else Returns)"
  by (simp add: log_spec_def)

lemma log_spec_alias: "log_spec env lg Print = log_spec env lg Info" "log_spec env lg Warning = log_spec env lg Warn"
  by (simp_all add: log_spec_def fun_eq_iff)

lemma sprintlnn_Join: "sprintlnn as = Join blank (map arg_text as)"
proof -
  have "Sprintln as = Join blank (map arg_text as) @ [newline]"
    by (induction as rule: Sprintln.induct) simp_all
  then show ?thesis by (simp add: sprintlnn_def)
qed

lemma logger_spec:
  "logger_print env lg m as = log_spec env lg m (Sprint as)"
  "logger_printf env lg m f as = log_spec env lg m (Sprintf env f as)"
  "logger_println env lg m as = log_spec env lg m (sprintlnn as)"
proof -
  have eta: "entry_print env lg m as = entry_spec env lg m (Sprint as)"
    "entry_printf env lg m f as = entry_spec env lg m (Sprintf env f as)"
    "entry_println env lg m as = entry_spec env lg m (sprintlnn as)" for m as f
    by (simp_all add: fun_eq_iff entry_print_spec entry_printf_spec entry_println_spec)
  note rules = eta on_new_entry_spec call_then_exit log_spec_skips log_spec_alias call_then_skip call_skip_def
  show "logger_print env lg m as = log_spec env lg m (Sprint as)" by (cases m) (simp_all add: rules)
  show "logger_printf env lg m f as = log_spec env lg m (Sprintf env f as)" by (cases m) (simp_all add: rules)
  show "logger_println env lg m as = log_spec env lg m (sprintlnn as)" by (cases m) (simp_all add: rules)
qed

text \<open>
  C37: however a message is logged with the standard logger, by \<open>Print\<close>, \<open>Printf\<close> or \<open>Println\<close> and their sisters,
  through the guards of the package, the logger and the entry, the outcome is that of one check of the level and one
  entry; \<open>Println\<close> puts one space between any two arguments and no newline at the end.
\<close>

theorem calls_meet_contract:
  "std_print env m as lg = log_spec env lg m (Sprint as) \<and>
   std_printf env m f as lg = log_spec env lg m (Sprintf env f as) \<and>
   std_println env m as lg = log_spec env lg m (Join blank (map arg_text as))"
  by (simp add: std_print_def std_printf_def std_println_def logger_spec sprintlnn_Join)

lemma log_spec_ends:
  "(case m of Fatal \<Rightarrow> snd (log_spec env lg m msg) = OsExit 1
    | Panic \<Rightarrow> (\<exists>e. snd (log_spec env lg m msg) = Panics e \<and> e_message e = msg)
    | _ \<Rightarrow> snd (log_spec env lg m msg) = Returns)"
  by (rule entry_log_ends [of env lg "[]" "method_level m" msg], cases m) (auto simp: log_spec_def)

text \<open>
  At every level of the logger, with every hook and formatter, \<open>Fatal\<close> ends the program with status 1,
  \<open>Panic\<close> panics with the entry, and every other call returns. What \<open>Fatal\<close> logs is written unless
  the level is \<open>PanicLevel\<close>.
\<close>

theorem log_call_ends:
  "(case m of Fatal \<Rightarrow> snd (std_printf env m f as lg) = OsExit 1
    | Panic \<Rightarrow> (\<exists>e. snd (std_printf env m f as lg) = Panics e \<and> e_message e = Sprintf env f as)
    | _ \<Rightarrow> snd (std_printf env m f as lg) = Returns)"
  unfolding std_printf_def logger_spec by (rule log_spec_ends)


section \<open>The log of a program\<close>

text \<open>A run of calls, each with the time and the terminal it meets; it stops at the first that does not return.\<close>

fun run_calls :: "logger \<Rightarrow> (log_env \<times> log_method \<times> string) list \<Rightarrow> log_call" where
  "run_calls lg [] = ([], Returns)"
| "run_calls lg ((env, m, msg) # cs) =
     (case std_print env m [AText msg] lg of
        (fx, Returns) \<Rightarrow> (case run_calls lg cs of (fx', en) \<Rightarrow> (fx @ fx', en))
      | (fx, en) \<Rightarrow> (fx, en))"

fun made_calls :: "(log_env \<times> log_method \<times> string) list \<Rightarrow> (log_env \<times> log_method \<times> string) list" where
  "made_calls [] = []"
| "made_calls ((env, m, msg) # cs) =
     (env, m, msg) # (if m = Fatal \<or> m = Panic then [] else made_calls cs)"

definition log_text :: "log_effect list \<Rightarrow> string" where
  "log_text fx = concat (map (\<lambda>x. case x of WroteLog s \<Rightarrow> s | WroteStderr _ \<Rightarrow> []) fx)"

definition new_entry :: "log_env \<Rightarrow> log_method \<Rightarrow> string \<Rightarrow> entry" where
  "new_entry env m msg = \<lparr>e_data = NewEntry, e_time = le_now env, e_level = method_level m, e_message = msg\<rparr>"

definition enabled_calls ::
    "logger \<Rightarrow> (log_env \<times> log_method \<times> string) list \<Rightarrow> (log_env \<times> log_method \<times> string) list" where
  "enabled_calls lg cs = filter (\<lambda>(env, m, msg). method_level m \<le> l_level lg) (made_calls cs)"

lemma log_text_append [simp]: "log_text (xs @ ys) = log_text xs @ log_text ys"
  by (simp add: log_text_def)

lemma log_text_Nil [simp]: "log_text [] = []"
  by (simp add: log_text_def)

lemma log_text_stderr [simp]: "log_text (stderr_line s x) = []"
  by (cases x) (simp_all add: log_text_def stderr_line_def)

lemma log_text_copy [simp]: "log_text (copy_out out s) = s"
proof -
  have "log_text (WroteLog s # fx) = s @ log_text fx" for fx by (simp add: log_text_def)
  then show ?thesis by (simp add: copy_out_def)
qed

text \<open>
  The contract of a formatter that writes one line for an entry that is \<open>ok\<close>; \<open>line\<close> is the line
  without its newline.
\<close>

locale line_formatter =
  fixes fmt :: "log_env \<Rightarrow> entry \<Rightarrow> formatted"
    and ok :: "log_env \<Rightarrow> entry \<Rightarrow> bool"
    and line :: "log_env \<Rightarrow> entry \<Rightarrow> string"
  assumes one_line: "ok env e \<Longrightarrow> snd (fmt env e) = (line env e @ [newline], None) \<and> newline \<notin> set (line env e)"
begin

lemma call_line:
  assumes "\<And>e. entry_Reader env lg e = fmt env e" and "l_hooks lg = (\<lambda>_. [])"
    and "method_level m \<le> l_level lg \<Longrightarrow> ok env (new_entry env m msg)"
  shows "log_text (fst (std_print env m [AText msg] lg)) =
     (if method_level m \<le> l_level lg then line env (new_entry env m msg) @ [newline] else [])"
proof (cases "method_level m \<le> l_level lg")
  case True
  obtain d where "fmt env (new_entry env m msg) = (d, line env (new_entry env m msg) @ [newline], None)"
    using one_line [OF assms(3) [OF True]] by (metis prod.collapse)
  then show ?thesis using True assms(1,2)
    by (simp add: std_print_def logger_spec log_spec_def entry_log_def hooks_Fire_def new_entry_def NewEntry_def
      Let_def)
next
  case False
  then show ?thesis by (simp add: std_print_def logger_spec log_spec_skips)
qed

lemma run_lines:
  assumes "\<And>env e. entry_Reader env lg e = fmt env e" and "l_hooks lg = (\<lambda>_. [])"
    and "\<forall>(env, m, msg)\<in>set (enabled_calls lg cs). ok env (new_entry env m msg)"
  shows "log_text (fst (run_calls lg cs)) =
     text_lines (map (\<lambda>(env, m, msg). line env (new_entry env m msg)) (enabled_calls lg cs))"
  using assms(3)
proof (induction cs)
  case (Cons c cs)
  obtain env m msg where [simp]: "c = (env, m, msg)" by (cases c)
  have here: "method_level m \<le> l_level lg \<Longrightarrow> ok env (new_entry env m msg)"
    using Cons.prems by (simp add: enabled_calls_def)
  have ends: "snd (std_print env m [AText msg] lg) = Returns \<longleftrightarrow> m \<noteq> Fatal \<and> m \<noteq> Panic"
    using log_spec_ends [of env lg m msg] by (cases m) (auto simp: std_print_def logger_spec)
  obtain fx en where call: "std_print env m [AText msg] lg = (fx, en)" by fastforce
  then have line: "log_text fx = (if method_level m \<le> l_level lg then line env (new_entry env m msg) @ [newline] else [])"
    using call_line [OF assms(1,2) here] by simp
  show ?case
  proof (cases "en = Returns")
    case True
    then have "log_text (fst (run_calls lg cs)) =
        text_lines (map (\<lambda>(env, m, msg). line env (new_entry env m msg)) (enabled_calls lg cs))"
      using ends call Cons by (auto simp: enabled_calls_def)
    then show ?thesis using True ends call line by (auto simp: enabled_calls_def text_lines_def split: prod.split)
  next
    case False
    then show ?thesis using ends call line
      by (auto simp: enabled_calls_def text_lines_def split: log_end.split)
  qed
qed (simp add: enabled_calls_def text_lines_def)

lemma lines_read:
  assumes "\<And>env e. entry_Reader env lg e = fmt env e" and "l_hooks lg = (\<lambda>_. [])"
    and "\<forall>(env, m, msg)\<in>set (enabled_calls lg cs). ok env (new_entry env m msg)"
  shows "ReadLines (log_text (fst (run_calls lg cs))) =
     map (\<lambda>(env, m, msg). line env (new_entry env m msg)) (enabled_calls lg cs)"
proof -
  have "\<forall>l\<in>set (map (\<lambda>(env, m, msg). line env (new_entry env m msg)) (enabled_calls lg cs)). newline \<notin> set l"
    using assms(3) one_line by fastforce
  then show ?thesis by (simp only: run_lines [OF assms] ReadLines_text_lines)
qed

end

text \<open>Both formatters keep it: the text formatter without colours, whatever the message holds, and the JSON formatter.\<close>

definition text_line_ok :: "log_env \<Rightarrow> text_formatter \<Rightarrow> entry \<Rightarrow> bool" where
  "text_line_ok env f e \<longleftrightarrow> \<not> is_colored env f \<and>
     (\<forall>(k, v)\<in>set (text_pairs env f e). newline \<notin> set k \<and>
        (case v of FOther s _ \<Rightarrow> newline \<notin> set s | _ \<Rightarrow> True))"

lemma field_text_no_newline:
  "(case v of FOther s _ \<Rightarrow> newline \<notin> set s | _ \<Rightarrow> True) \<Longrightarrow> newline \<notin> set (field_text p v)"
  using quote_rune_no_newline
  by (cases v) (auto simp: Quote_def needsQuoting_def list_all_iff plain_char_def)

interpretation text_line: line_formatter "\<lambda>env. Text_Format env f" "\<lambda>env. text_line_ok env f"
    "\<lambda>env e. pairs_text (le_printable env) (text_pairs env f e)" for f
proof
  fix env e
  assume ok: "text_line_ok env f e"
  then have "fst (snd (Text_Format env f e)) = pairs_text (le_printable env) (text_pairs env f e) @ [newline]"
    by (intro Text_Format_pairs) (simp add: text_line_ok_def)
  moreover have "snd (snd (Text_Format env f e)) = None" by (simp add: Text_Format_def Let_def)
  moreover have "newline \<notin> set (pairs_text (le_printable env) (text_pairs env f e))"
    using ok field_text_no_newline by (fastforce simp: text_line_ok_def pairs_text_def)
  ultimately show "snd (Text_Format env f e) = (pairs_text (le_printable env) (text_pairs env f e) @ [newline], None) \<and>
      newline \<notin> set (pairs_text (le_printable env) (text_pairs env f e))"
    by (simp add: prod_eq_iff)
qed

definition json_line_ok :: "log_env \<Rightarrow> string \<Rightarrow> entry \<Rightarrow> bool" where
  "json_line_ok env tf e \<longleftrightarrow>
     (case le_marshal env (json_data env tf e) of Inl _ \<Rightarrow> False | Inr s \<Rightarrow> newline \<notin> set s)"

interpretation json_line: line_formatter "\<lambda>env. JSON_Format env tf" "\<lambda>env. json_line_ok env tf"
    "\<lambda>env e. projr (le_marshal env (json_data env tf e))" for tf
  by unfold_locales (auto simp: json_line_ok_def JSON_Format_def split: sum.splits)

definition proc_box_logger :: "writer_fn \<Rightarrow> flags \<Rightarrow> logger" where
  "proc_box_logger stderr fl = SetLevel (main_log_level fl) (std_init stderr)"

lemma proc_box_lines_ok:
  assumes "\<not> le_terminal env"
  shows "text_line_ok env (case l_formatter (proc_box_logger stderr fl) of TextFormatter f \<Rightarrow> f) (new_entry env m msg)"
  using assms by (auto simp: text_line_ok_def is_colored_def proc_box_logger_def SetLevel_def std_init_def
    logger_New_def text_pairs_def new_entry_def NewEntry_def)

lemma made_calls_subset: "set (made_calls cs) \<subseteq> set cs"
  by (induction cs rule: made_calls.induct) auto

text \<open>
  C23: the log of proc_box reads back to what was logged. Whatever the flags, and whatever characters the
  messages hold, newlines, quotes and bytes that are no UTF-8 included: where standard output is no terminal, the lines of the log are the
  messages of the enabled levels up to a fatal one, in order, each with its time, its level and its text.
\<close>

theorem log_reads_back:
  assumes "\<forall>(env, m, msg)\<in>set cs. \<not> le_terminal env \<and> msg \<noteq> ''''"
  shows "map (\<lambda>l. read_line (l @ [newline])) (ReadLines (log_text (fst (run_calls (proc_box_logger stderr fl) cs)))) =
     map (\<lambda>(env, m, msg). [(''time'', le_format env DefaultTimestampFormat (le_now env)),
         (''level'', Level_String (method_level m)), (''msg'', msg)])
       (filter (\<lambda>(env, m, msg). method_level m \<le> main_log_level fl) (made_calls cs))"
proof -
  let ?f = "case l_formatter (proc_box_logger stderr fl) of TextFormatter f \<Rightarrow> f"
  let ?cs = "enabled_calls (proc_box_logger stderr fl) cs"
  have lg: "entry_Reader env (proc_box_logger stderr fl) e = Text_Format env ?f e"
      "l_hooks (proc_box_logger stderr fl) = (\<lambda>_. [])" "l_level (proc_box_logger stderr fl) = main_log_level fl" for env e
    by (simp_all add: entry_Reader_def proc_box_logger_def SetLevel_def std_init_def logger_New_def)
  have calls: "\<forall>(env, m, msg)\<in>set ?cs. \<not> le_terminal env \<and> msg \<noteq> ''''"
    using assms made_calls_subset [of cs] by (fastforce simp: enabled_calls_def)
  then have "\<forall>(env, m, msg)\<in>set ?cs. text_line_ok env ?f (new_entry env m msg)"
    using proc_box_lines_ok by blast
  then have "ReadLines (log_text (fst (run_calls (proc_box_logger stderr fl) cs))) =
      map (\<lambda>(env, m, msg). pairs_text (le_printable env) (text_pairs env ?f (new_entry env m msg))) ?cs"
    by (rule text_line.lines_read [OF lg(1,2)])
  moreover have "read_line (pairs_text (le_printable env) (text_pairs env ?f (new_entry env m msg)) @ [newline]) =
      [(''time'', le_format env DefaultTimestampFormat (le_now env)),
       (''level'', Level_String (method_level m)), (''msg'', msg)]" if "msg \<noteq> ''''" for env m msg
    using that read_line_pairs [of "text_pairs env ?f (new_entry env m msg)"]
    by (simp add: text_pairs_def new_entry_def NewEntry_def proc_box_logger_def SetLevel_def std_init_def
      logger_New_def timestamp_format_def)
  ultimately show ?thesis using calls lg(3)
    by (auto simp: enabled_calls_def)
qed

theorem log_reads_back_witness:
  "map (\<lambda>l. read_line (l @ [newline])) (ReadLines (log_text (fst (run_calls (proc_box_logger (\<lambda>_. None) (\<lambda>_. None))
      [(demo_env, Debug, ''quiet''), (demo_env, Warn, ''say '' @ [dquote, newline, CHR 0xFF]), (demo_env, Fatal, ''bye''), (demo_env, Warn, ''never'')])))) =
    [[(''time'', ''16:20''), (''level'', ''warning''), (''msg'', ''say '' @ [dquote, newline, CHR 0xFF])],
     [(''time'', ''16:20''), (''level'', ''fatal''), (''msg'', ''bye'')]]"
proof -
  let ?cs = "[(demo_env, Debug, ''quiet''), (demo_env, Warn, ''say '' @ [dquote, newline, CHR 0xFF]), (demo_env, Fatal, ''bye''), (demo_env, Warn, ''never'')]"
  have "\<forall>(env, m, msg)\<in>set ?cs. \<not> le_terminal env \<and> msg \<noteq> ''''" by simp
  from log_reads_back [OF this, of "\<lambda>_. None" "\<lambda>_. None"] show ?thesis
    by (simp only:) (simp add: main_log_level_def flag_bool_def Level_String_def less_eq_Level_def level_code_def)
qed

end
