(* ===== verification/Throttle.thy ===== *)
theory Throttle
  imports Measured
begin

text \<open>
  Throttled readers and writers and the pools that share a rate among them (vendored,
  \<open>iocontrol/limiter.go\<close>, \<open>iocontrol/throttle.go\<close>, \<open>iocontrol/pool.go\<close>). proc_box uses the package
  for the counter of \<open>Measured\<close> only. What is wrapped, the clock and what they change is a type
  \<open>'w\<close> of worlds with the functions of \<open>timing\<close>, a \<open>writer\<close> and a \<open>reader\<close> on it; \<open>None\<close>
  is a division by zero in the arithmetic of rates, and in \<open>write_loop\<close> a call that does not return.
\<close>

record 'w timing =
  now_of :: "'w \<Rightarrow> instant \<times> 'w"
  sleep_for :: "duration \<Rightarrow> 'w \<Rightarrow> 'w"

type_synonym 'w writer = "bytes \<Rightarrow> 'w \<Rightarrow> (int \<times> err option) \<times> 'w"

text \<open>A reader is given the length of the buffer; what it puts there belongs to the world.\<close>

type_synonym 'w reader = "nat \<Rightarrow> 'w \<Rightarrow> (int \<times> err option) \<times> 'w"


section \<open>The limiter\<close>

record rateLimiter =
  limitPerSec :: int
  resolution :: duration
  batchDone :: int
  lastBatch :: "instant option"  \<comment> \<open>\<open>None\<close> is the zero \<open>time.Time\<close>\<close>
  maxPerBatch :: int

definition per_batch :: "int \<Rightarrow> duration \<Rightarrow> int option" where
  "per_batch perSec maxBurst =
     (if maxBurst = 0 then None
      else let batches = go_div second maxBurst
           in if batches = 0 then None else Some (wrap64 (go_div perSec batches)))"

definition newRateLimiter :: "int \<Rightarrow> duration \<Rightarrow> rateLimiter option" where
  "newRateLimiter perSec maxBurst =
     map_option (\<lambda>m. \<lparr>limitPerSec = perSec, resolution = maxBurst, batchDone = 0, lastBatch = None,
       maxPerBatch = m\<rparr>) (per_batch perSec maxBurst)"

definition CanDo :: "rateLimiter \<Rightarrow> int" where
  "CanDo r = (let canDo = wrap64 (maxPerBatch r - batchDone r) in if canDo < 0 then 0 else canDo)"

definition Did :: "int \<Rightarrow> rateLimiter \<Rightarrow> rateLimiter" where
  "Did n r = r\<lparr>batchDone := wrap64 (batchDone r + n)\<rparr>"

definition limiter_SetRate :: "int \<Rightarrow> rateLimiter \<Rightarrow> rateLimiter option" where
  "limiter_SetRate perSec r = map_option (\<lambda>m. r\<lparr>maxPerBatch := m\<rparr>) (per_batch perSec (resolution r))"

text \<open>From the zero time to any instant is further than the largest duration.\<close>

definition Limit :: "'w timing \<Rightarrow> rateLimiter \<Rightarrow> 'w \<Rightarrow> rateLimiter \<times> 'w" where
  "Limit tm r w =
     (let (now, w) = now_of tm w;
          durationToNextBatch = (case lastBatch r of None \<Rightarrow> - (2 ^ 63)
                                 | Some t \<Rightarrow> time_sub (t + resolution r) now);
          w = sleep_for tm durationToNextBatch w;
          (now, w) = now_of tm w
      in (r\<lparr>lastBatch := Some now, batchDone := 0\<rparr>, w))"


section \<open>Readers and writers\<close>

definition ThrottledReader :: "int \<Rightarrow> duration \<Rightarrow> rateLimiter option" where
  "ThrottledReader bytesPerSec maxBurst = newRateLimiter bytesPerSec maxBurst"

definition ThrottledWriter :: "int \<Rightarrow> duration \<Rightarrow> rateLimiter option" where
  "ThrottledWriter bytesPerSec maxBurst = newRateLimiter bytesPerSec maxBurst"

definition throttled_Read ::
    "'w timing \<Rightarrow> 'w reader \<Rightarrow> nat \<Rightarrow> rateLimiter \<Rightarrow> 'w \<Rightarrow> (int \<times> err option) \<times> rateLimiter \<times> 'w" where
  "throttled_Read tm rd len r w =
     (let canRead = CanDo r
      in if int len \<le> canRead then
           let ((n, e), w) = rd len w in ((n, e), Did n r, w)
         else
           let ((n, e), w) = (if canRead > 0 then rd (nat canRead) w else ((0, None), w));
               (r, w) = Limit tm r w
           in ((n, e), r, w))"

datatype write_end = Returned int "err option" | SlicePanic

partial_function (option) write_loop ::
    "'w timing \<Rightarrow> 'w writer \<Rightarrow> bytes \<Rightarrow> int \<Rightarrow> rateLimiter \<Rightarrow> 'w \<Rightarrow> (write_end \<times> rateLimiter \<times> 'w) option" where
  "write_loop tm wr b n r w =
     (if n < 0 \<or> int (length b) < n then Some (SlicePanic, r, w)
      else let rest = drop (nat n) b; canWrite = CanDo r
           in if int (length rest) \<le> canWrite then
                (case wr rest w of ((m, e), w) \<Rightarrow> Some (Returned (wrap64 (n + m)) e, Did m r, w))
              else
                (case wr (take (nat canWrite) rest) w of ((m, e), w) \<Rightarrow>
                   if e \<noteq> None then Some (Returned (wrap64 (n + m)) e, r, w)
                   else (case Limit tm r w of (r, w) \<Rightarrow> write_loop tm wr b (wrap64 (n + m)) r w)))"

declare write_loop.simps [code]

definition throttled_Write ::
    "'w timing \<Rightarrow> 'w writer \<Rightarrow> bytes \<Rightarrow> rateLimiter \<Rightarrow> 'w \<Rightarrow> (write_end \<times> rateLimiter \<times> 'w) option" where
  "throttled_Write tm wr b r w = write_loop tm wr b 0 r w"

text \<open>A run of calls: reads whatever they return, writes until one fails.\<close>

fun read_run :: "'w timing \<Rightarrow> 'w reader \<Rightarrow> nat list \<Rightarrow> rateLimiter \<Rightarrow> 'w \<Rightarrow> rateLimiter \<times> 'w" where
  "read_run tm rd [] r w = (r, w)"
| "read_run tm rd (len # ls) r w =
     (let (res, r, w) = throttled_Read tm rd len r w in read_run tm rd ls r w)"

fun write_run :: "'w timing \<Rightarrow> 'w writer \<Rightarrow> bytes list \<Rightarrow> rateLimiter \<Rightarrow> 'w \<Rightarrow> (rateLimiter \<times> 'w) option" where
  "write_run tm wr [] r w = Some (r, w)"
| "write_run tm wr (b # bs) r w =
     (case throttled_Write tm wr b r w of
        Some (Returned n None, r, w) \<Rightarrow> write_run tm wr bs r w
      | _ \<Rightarrow> None)"


section \<open>The rate is kept\<close>

lemma div_times_le: "0 < b \<Longrightarrow> a div b * b \<le> (a :: int)"
  by (simp add: minus_mod_eq_div_mult [symmetric])

lemma per_batch_pos:
  assumes "0 < maxBurst" and "maxBurst \<le> second" and "0 \<le> perSec" and "in_int64 perSec"
  shows "per_batch perSec maxBurst = Some (perSec div (second div maxBurst))"
proof -
  have b: "0 < second div maxBurst" using assms(1,2) by (simp add: pos_imp_zdiv_pos_iff)
  have "perSec div (second div maxBurst) \<le> perSec" "0 \<le> perSec div (second div maxBurst)"
    using b assms(3) zdiv_mono2 [of perSec 1 "second div maxBurst"] by (auto simp: pos_imp_zdiv_nonneg_iff)
  then have "in_int64 (perSec div (second div maxBurst))"
    using in_int64_between [of 0 perSec] assms(4) by simp
  then show ?thesis using assms(1,3) b by (simp add: per_batch_def go_div_nonneg Let_def)
qed

definition fresh_limiter :: "rateLimiter \<Rightarrow> bool" where
  "fresh_limiter r \<longleftrightarrow> batchDone r = 0 \<and> lastBatch r = None"

lemma newRateLimiter_fresh:
  "newRateLimiter perSec maxBurst = Some r \<Longrightarrow>
     fresh_limiter r \<and> resolution r = maxBurst \<and> per_batch perSec maxBurst = Some (maxPerBatch r)"
  by (auto simp: newRateLimiter_def fresh_limiter_def)

text \<open>What a limiter with a rate keeps of itself: it counts within its batch.\<close>

definition within_batch :: "rateLimiter \<Rightarrow> bool" where
  "within_batch r \<longleftrightarrow>
     0 \<le> batchDone r \<and> batchDone r \<le> maxPerBatch r \<and> in_int64 (maxPerBatch r) \<and>
     0 < resolution r \<and> in_int64 (resolution r)"

lemma CanDo_within: "within_batch r \<Longrightarrow> CanDo r = maxPerBatch r - batchDone r"
  using in_int64_between [of 0 "maxPerBatch r" "maxPerBatch r - batchDone r"]
  by (simp add: within_batch_def CanDo_def Let_def)

lemma within_batch_Did:
  assumes "within_batch r" and "0 \<le> n" and "n \<le> CanDo r"
  shows "within_batch (Did n r)" and "batchDone (Did n r) = batchDone r + n"
proof -
  have "in_int64 (batchDone r + n)"
    using assms CanDo_within [OF assms(1)] in_int64_between [of 0 "maxPerBatch r" "batchDone r + n"]
    by (simp add: within_batch_def)
  then show "within_batch (Did n r)" and "batchDone (Did n r) = batchDone r + n"
    using assms CanDo_within [OF assms(1)] by (simp_all add: within_batch_def Did_def)
qed

lemma Did_simps [simp]:
  "maxPerBatch (Did n r) = maxPerBatch r" "resolution (Did n r) = resolution r" "lastBatch (Did n r) = lastBatch r"
  by (simp_all add: Did_def)

lemma Limit_simps:
  assumes "Limit tm r w = (r', w')"
  shows "maxPerBatch r' = maxPerBatch r" "resolution r' = resolution r" "batchDone r' = 0"
    and "within_batch r \<Longrightarrow> within_batch r'"
  using assms by (auto simp: Limit_def Let_def within_batch_def split: prod.splits)

text \<open>
  The world of a limiter: its clock does not go back, sleeping takes its time, and neither
  moves a byte.
\<close>

locale ticking =
  fixes tm :: "'w timing"
    and time :: "'w \<Rightarrow> instant"
    and moved :: "'w \<Rightarrow> int"
  assumes now_reads: "now_of tm w = (t, w') \<Longrightarrow> time w \<le> t \<and> t \<le> time w' \<and> moved w' = moved w"
    and sleeps: "time w + max d 0 \<le> time (sleep_for tm d w) \<and> moved (sleep_for tm d w) = moved w"
begin

text \<open>
  Since \<open>t0\<close> and \<open>m0\<close>, \<open>k\<close> batches are over, all but the first of them as long as the resolution.
\<close>

definition batches :: "instant \<Rightarrow> int \<Rightarrow> int \<Rightarrow> rateLimiter \<Rightarrow> 'w \<Rightarrow> bool" where
  "batches t0 m0 k r w \<longleftrightarrow>
     moved w - m0 \<le> maxPerBatch r * k + batchDone r \<and> t0 \<le> time w \<and>
     (case lastBatch r of None \<Rightarrow> k = 0
      | Some t \<Rightarrow> 1 \<le> k \<and> t0 + (k - 1) * resolution r \<le> t \<and> t \<le> time w)"

definition paced :: "instant \<Rightarrow> int \<Rightarrow> rateLimiter \<Rightarrow> 'w \<Rightarrow> bool" where
  "paced t0 m0 r w \<longleftrightarrow> within_batch r \<and> (\<exists>k. batches t0 m0 k r w)"

lemma fresh_paced: "fresh_limiter r \<Longrightarrow> within_batch r \<Longrightarrow> paced (time w) (moved w) r w"
  by (simp add: paced_def batches_def fresh_limiter_def)

lemma Limit_time:
  assumes "Limit tm r w = (r', w')" and "in_int64 (resolution r)"
    and "\<And>t. lastBatch r = Some t \<Longrightarrow> t \<le> time w"
  obtains t' where "lastBatch r' = Some t'" and "time w \<le> t'" and "t' \<le> time w'" and "moved w' = moved w"
    and "\<And>t. lastBatch r = Some t \<Longrightarrow> t + resolution r \<le> t'"
proof -
  obtain now1 w1 where n1: "now_of tm w = (now1, w1)" by (cases "now_of tm w")
  define d where "d = (case lastBatch r of None \<Rightarrow> - (2 ^ 63) | Some t \<Rightarrow> time_sub (t + resolution r) now1)"
  obtain now2 w2 where n2: "now_of tm (sleep_for tm d w1) = (now2, w2)" by (cases "now_of tm (sleep_for tm d w1)")
  have r': "r' = r\<lparr>lastBatch := Some now2, batchDone := 0\<rparr>" and w': "w' = w2"
    using assms(1) n1 n2 by (simp_all add: Limit_def d_def Let_def)
  note order = now_reads [OF n1] sleeps [of w1 d] now_reads [OF n2]
  show ?thesis
  proof (rule that)
    show "lastBatch r' = Some now2" "now2 \<le> time w'" "moved w' = moved w" using order r' w' by simp_all
    show "time w \<le> now2" using order by linarith
    fix t assume t: "lastBatch r = Some t"
    then have "t + resolution r - now1 \<le> time_sub (t + resolution r) now1"
      using assms(2) assms(3) [OF t] order by (simp add: time_sub_def in_int64_def)
    then show "t + resolution r \<le> now2" using t order by (simp add: d_def) linarith
  qed
qed

text \<open>Beyond the batch there is room for what it still allows.\<close>

lemma Limit_paced:
  assumes "Limit tm r w' = (r'', w'')" and "within_batch r" and "batches t0 m0 k r w"
    and "time w \<le> time w'" and "moved w' \<le> moved w + CanDo r"
  shows "paced t0 m0 r'' w''"
proof -
  have res: "0 < resolution r" "in_int64 (resolution r)" using assms(2) by (simp_all add: within_batch_def)
  have "t \<le> time w'" if "lastBatch r = Some t" for t using that assms(3,4) by (simp add: batches_def)
  then obtain t' where t': "lastBatch r'' = Some t'" "time w' \<le> t'" "t' \<le> time w''" "moved w'' = moved w'"
      and next_batch: "\<And>t. lastBatch r = Some t \<Longrightarrow> t + resolution r \<le> t'"
    using Limit_time [OF assms(1) res(2)] by blast
  note kept = Limit_simps [OF assms(1)]
  have "moved w'' - m0 \<le> maxPerBatch r * (k + 1)"
    using assms(3,5) t'(4) CanDo_within [OF assms(2)] by (simp add: batches_def distrib_left)
  moreover have "1 \<le> k + 1 \<and> t0 + k * resolution r \<le> t'"
  proof (cases "lastBatch r")
    case None
    then show ?thesis using assms(3,4) t'(2) by (simp add: batches_def)
  next
    case (Some t)
    then show ?thesis using assms(3) next_batch [OF Some] by (simp add: batches_def algebra_simps)
  qed
  ultimately have "batches t0 m0 (k + 1) r'' w''"
    using assms(3,4) t' kept by (simp add: batches_def)
  then show ?thesis using kept(4) assms(2) by (auto simp: paced_def)
qed

lemma Did_paced:
  assumes "within_batch r" and "batches t0 m0 k r w" and "time w \<le> time w'"
    and "moved w' = moved w + n" and "0 \<le> n" and "n \<le> CanDo r"
  shows "paced t0 m0 (Did n r) w'"
proof -
  have "batches t0 m0 k (Did n r) w'"
    using assms within_batch_Did [OF assms(1,5,6)] by (auto simp: batches_def split: option.splits)
  then show ?thesis using within_batch_Did [OF assms(1,5,6)] by (auto simp: paced_def)
qed

lemma paced_total:
  assumes "paced t0 m0 r w"
  shows "moved w - m0 \<le> maxPerBatch r * ((time w - t0) div resolution r + 2)"
proof -
  obtain k where k: "batches t0 m0 k r w" and r: "within_batch r" using assms by (auto simp: paced_def)
  have "k - 1 \<le> (time w - t0) div resolution r"
  proof (cases "lastBatch r")
    case None
    then have "0 \<le> (time w - t0) div resolution r" and "k = 0" using k r
      by (auto simp: batches_def within_batch_def pos_imp_zdiv_nonneg_iff)
    then show ?thesis by simp
  next
    case (Some t)
    then have "(k - 1) * resolution r \<le> time w - t0" using k by (simp add: batches_def)
    then show ?thesis using r zdiv_mono1 [of "(k - 1) * resolution r" "time w - t0" "resolution r"]
      by (simp add: within_batch_def)
  qed
  then have "maxPerBatch r * (k + 1) \<le> maxPerBatch r * ((time w - t0) div resolution r + 2)"
    using r by (intro mult_left_mono) (auto simp: within_batch_def)
  then show ?thesis using k r by (simp add: batches_def within_batch_def distrib_left)
qed

end

text \<open>
  What a throttled reader wraps keeps the contract of \<open>io.Reader\<close>: a \<open>Read\<close> returns how many bytes
  it moved, at most as many as the buffer takes.
\<close>

locale source_world = ticking tm time moved
  for tm :: "'w timing" and time moved +
  fixes rd :: "'w reader"
  assumes reads: "rd len w = ((n, e), w') \<Longrightarrow>
      0 \<le> n \<and> n \<le> int len \<and> moved w' = moved w + n \<and> time w \<le> time w'"
begin

lemma Read_paced:
  assumes "throttled_Read tm rd len r w = ((n, e), r', w')" and "paced t0 m0 r w"
  shows "paced t0 m0 r' w'" and "maxPerBatch r' = maxPerBatch r" and "resolution r' = resolution r"
proof -
  obtain k where k: "batches t0 m0 k r w" and r: "within_batch r" using assms(2) by (auto simp: paced_def)
  consider (room) w1 where "int len \<le> CanDo r" "rd len w = ((n, e), w1)" "r' = Did n r" "w' = w1"
    | (partly) w1 where "rd (nat (CanDo r)) w = ((n, e), w1)" "Limit tm r w1 = (r', w')" "0 < CanDo r"
    | (full) "Limit tm r w = (r', w')" "CanDo r = 0"
    using assms(1) within_batch_def r CanDo_within [OF r]
    by (force simp: throttled_Read_def Let_def split: if_splits prod.splits)
  then have "paced t0 m0 r' w' \<and> maxPerBatch r' = maxPerBatch r \<and> resolution r' = resolution r"
  proof cases
    case room
    then show ?thesis using Did_paced [OF r k, of w1 n] reads [OF room(2)] by simp
  next
    case partly
    then show ?thesis using Limit_paced [OF partly(2) r k] reads [OF partly(1)] Limit_simps [OF partly(2)] by simp
  next
    case full
    then show ?thesis using Limit_paced [OF full(1) r k] Limit_simps [OF full(1)] by simp
  qed
  then show "paced t0 m0 r' w'" and "maxPerBatch r' = maxPerBatch r" and "resolution r' = resolution r" by auto
qed

lemma read_run_paced:
  "read_run tm rd ls r w = (r', w') \<Longrightarrow> paced t0 m0 r w \<Longrightarrow>
     paced t0 m0 r' w' \<and> maxPerBatch r' = maxPerBatch r \<and> resolution r' = resolution r"
proof (induction ls arbitrary: r w)
  case (Cons len ls)
  obtain n e r1 w1 where step: "throttled_Read tm rd len r w = ((n, e), r1, w1)"
    by (cases "throttled_Read tm rd len r w") auto
  then show ?case using Cons Read_paced [OF step Cons.prems(2)] by simp
qed simp

end

text \<open>
  What a throttled writer wraps keeps the contract of \<open>io.Writer\<close>: a \<open>Write\<close> returns how many
  bytes it took, and an error when these are not all.
\<close>

locale sink_world = ticking tm time "\<lambda>w. int (length (out w))"
  for tm :: "'w timing" and time and out :: "'w \<Rightarrow> bytes" +
  fixes wr :: "'w writer"
  assumes writes: "wr b w = ((m, e), w') \<Longrightarrow>
      0 \<le> m \<and> m \<le> int (length b) \<and> (m < int (length b) \<longrightarrow> e \<noteq> None) \<and>
      out w' = out w @ take (nat m) b \<and> time w \<le> time w'"
    and now_keeps: "now_of tm w = (t, w') \<Longrightarrow> out w' = out w"
    and sleep_keeps: "out (sleep_for tm d w) = out w"
begin

lemma Limit_keeps: "Limit tm r w = (r', w') \<Longrightarrow> out w' = out w"
  by (auto simp: Limit_def Let_def sleep_keeps dest!: now_keeps split: prod.splits)

text \<open>The three ends of an iteration, with a limiter that lets something through.\<close>

lemma write_loop_cases:
  assumes "within_batch r" and "0 \<le> n" and "n \<le> int (length b)" and "in_int64 (int (length b))"
  obtains (last) m e w' where "int (length b) - n \<le> CanDo r" "wr (drop (nat n) b) w = ((m, e), w')"
      "write_loop tm wr b n r w = Some (Returned (n + m) e, Did m r, w')"
      "0 \<le> m" "m \<le> int (length b) - n"
  | (failed) m e w' where "wr (take (nat (CanDo r)) (drop (nat n) b)) w = ((m, Some e), w')"
      "write_loop tm wr b n r w = Some (Returned (n + m) (Some e), r, w')"
      "CanDo r < int (length b) - n" "0 \<le> m" "m \<le> CanDo r"
  | (batch) w1 r2 w2 where "wr (take (nat (CanDo r)) (drop (nat n) b)) w = ((CanDo r, None), w1)"
      "Limit tm r w1 = (r2, w2)" "CanDo r < int (length b) - n"
      "write_loop tm wr b n r w = write_loop tm wr b (n + CanDo r) r2 w2"
proof (cases "int (length b) - n \<le> CanDo r")
  case True
  obtain m e w' where w: "wr (drop (nat n) b) w = ((m, e), w')" by (metis surj_pair)
  then have "0 \<le> m" "m \<le> int (length b) - n" using writes [OF w] assms(2,3) by auto
  moreover then have "in_int64 (n + m)" using in_int64_between [of 0 "int (length b)"] assms(2,4) by simp
  ultimately show ?thesis using True w assms(2,3) by (intro last) (auto simp: write_loop.simps)
next
  case False
  have c: "0 \<le> CanDo r" using CanDo_within [OF assms(1)] assms(1) by (simp add: within_batch_def)
  define piece where "piece = take (nat (CanDo r)) (drop (nat n) b)"
  have len: "int (length piece) = CanDo r" using False c assms(2,3) by (simp add: piece_def)
  obtain m e w' where w: "wr piece w = ((m, e), w')" by (metis surj_pair)
  then have m: "0 \<le> m" "m \<le> CanDo r" "m < CanDo r \<longrightarrow> e \<noteq> None" using writes [OF w] len by auto
  have "in_int64 (n + m)" using in_int64_between [of 0 "int (length b)"] assms(2,4) m False by simp
  moreover obtain r2 w2 where "Limit tm r w' = (r2, w2)" by (cases "Limit tm r w'")
  ultimately show ?thesis using False m w assms(2,3) failed batch
    by (cases e) (auto simp: write_loop.simps [of tm wr b n r w] piece_def)
qed

lemma take_piece:
  assumes "0 \<le> n" and "0 \<le> c" and "n + c \<le> m"
  shows "take (nat c) (drop (nat n) b) @ take (nat (m - (n + c))) (drop (nat (n + c)) b)
     = take (nat (m - n)) (drop (nat n) b)"
proof -
  have "nat (m - n) = nat c + nat (m - (n + c))" "nat (n + c) = nat c + nat n" using assms by auto
  then show ?thesis by (simp add: take_add add.commute)
qed

text \<open>What a write from position \<open>n\<close> ends in: the rest went through up to the position it reports.\<close>

definition delivered ::
    "instant \<Rightarrow> int \<Rightarrow> bytes \<Rightarrow> int \<Rightarrow> rateLimiter \<Rightarrow> 'w \<Rightarrow> (write_end \<times> rateLimiter \<times> 'w) option \<Rightarrow> bool" where
  "delivered t0 m0 b n r w res \<longleftrightarrow>
     (\<exists>m e r' w'. res = Some (Returned m e, r', w') \<and> n \<le> m \<and> m \<le> int (length b) \<and>
        (m < int (length b) \<longrightarrow> e \<noteq> None) \<and> out w' = out w @ take (nat (m - n)) (drop (nat n) b) \<and>
        (e = None \<and> paced t0 m0 r w \<longrightarrow> paced t0 m0 r' w') \<and>
        within_batch r' \<and> maxPerBatch r' = maxPerBatch r \<and> resolution r' = resolution r)"

lemma delivered_last:
  assumes r: "within_batch r" and "0 \<le> n" and "int (length b) - n \<le> CanDo r"
    and w: "wr (drop (nat n) b) w = ((m, e), w')" and m: "0 \<le> m" "m \<le> int (length b) - n"
  shows "delivered t0 m0 b n r w (Some (Returned (n + m) e, Did m r, w'))"
proof -
  have "paced t0 m0 (Did m r) w'" if p: "paced t0 m0 r w"
  proof -
    obtain k where "batches t0 m0 k r w" using p by (auto simp: paced_def)
    then show ?thesis using Did_paced [OF r, of t0 m0 k w w' m] writes [OF w] assms by simp
  qed
  then show ?thesis using writes [OF w] within_batch_Did(1) [OF r, of m] assms by (auto simp: delivered_def)
qed

lemma delivered_batch:
  assumes r: "within_batch r" and n: "0 \<le> n" and w: "wr (take (nat (CanDo r)) (drop (nat n) b)) w = ((CanDo r, None), w1)"
    and limit: "Limit tm r w1 = (r2, w2)" and rest: "delivered t0 m0 b (n + CanDo r) r2 w2 res"
  shows "delivered t0 m0 b n r w res"
proof -
  have c: "0 \<le> CanDo r" using CanDo_within [OF r] r by (simp add: within_batch_def)
  note kept = Limit_simps [OF limit]
  have paced: "paced t0 m0 r2 w2" if p: "paced t0 m0 r w"
  proof -
    obtain k where "batches t0 m0 k r w" using p by (auto simp: paced_def)
    then show ?thesis using Limit_paced [OF limit r, of t0 m0 k w] writes [OF w] c by simp
  qed
  from rest obtain m e r' w' where *: "res = Some (Returned m e, r', w')"
      "n + CanDo r \<le> m" "m \<le> int (length b)" "m < int (length b) \<longrightarrow> e \<noteq> None"
      "out w' = out w2 @ take (nat (m - (n + CanDo r))) (drop (nat (n + CanDo r)) b)"
      "e = None \<and> paced t0 m0 r2 w2 \<longrightarrow> paced t0 m0 r' w'"
      "within_batch r'" "maxPerBatch r' = maxPerBatch r2" "resolution r' = resolution r2"
    unfolding delivered_def by blast
  have "out w' = out w @ take (nat (m - n)) (drop (nat n) b)"
    using Limit_keeps [OF limit] writes [OF w] c *(5) take_piece [OF n c *(2), of b] by (simp add: min_def)
  moreover have "e = None \<and> paced t0 m0 r w \<longrightarrow> paced t0 m0 r' w'" using *(6) paced by blast
  moreover have "n \<le> m" "maxPerBatch r' = maxPerBatch r" "resolution r' = resolution r"
    using *(2,8,9) kept(1,2) c by simp_all
  ultimately show ?thesis unfolding delivered_def using *(1,3,4,7) by blast
qed

lemma write_loop_delivers:
  assumes "within_batch r" and "0 < maxPerBatch r" and "0 \<le> n" and "n \<le> int (length b)"
    and "in_int64 (int (length b))"
  shows "delivered t0 m0 b n r w (write_loop tm wr b n r w)"
  using assms
proof (induction "nat (2 * (int (length b) - n) + (if CanDo r = 0 then 1 else 0))" arbitrary: n r w rule: less_induct)
  case less
  note r = less.prems(1)
  have c: "0 \<le> CanDo r" using CanDo_within [OF r] r by (simp add: within_batch_def)
  show ?case
  proof (rule write_loop_cases [OF r less.prems(3,4,5), of w], goal_cases last failed batch)
    case (last m e w')
    then show ?case using delivered_last [OF r less.prems(3) last(1,2,4,5)] by simp
  next
    case (failed m e w')
    then show ?case using writes [OF failed(1)] r less.prems c by (auto simp: delivered_def min_def)
  next
    case (batch w1 r2 w2)
    note kept = Limit_simps [OF batch(2)]
    have r2: "within_batch r2" "CanDo r2 = maxPerBatch r" using kept r CanDo_within [of r2] by simp_all
    have "nat (2 * (int (length b) - (n + CanDo r)) + (if CanDo r2 = 0 then 1 else 0))
        < nat (2 * (int (length b) - n) + (if CanDo r = 0 then 1 else 0))"
      using batch(3) r2(2) less.prems(2) c by auto
    from less.hyps [OF this r2(1)] have "delivered t0 m0 b (n + CanDo r) r2 w2 (write_loop tm wr b (n + CanDo r) r2 w2)"
      using kept(1) less.prems(2,3,5) batch(3) c by simp
    from delivered_batch [OF r less.prems(3) batch(1,2) this] show ?case by (simp add: batch(4))
  qed
qed

lemma write_run_paced:
  assumes "write_run tm wr bs r w = Some (r', w')" and "\<forall>b\<in>set bs. in_int64 (int (length b))"
    and "paced t0 m0 r w" and "0 < maxPerBatch r"
  shows "paced t0 m0 r' w' \<and> maxPerBatch r' = maxPerBatch r \<and> resolution r' = resolution r \<and>
     out w' = out w @ concat bs"
  using assms
proof (induction bs arbitrary: r w)
  case (Cons b bs)
  have "within_batch r" using Cons.prems(3) by (simp add: paced_def)
  then obtain m e r1 w1 where *: "throttled_Write tm wr b r w = Some (Returned m e, r1, w1)" "m \<le> int (length b)"
      "m < int (length b) \<longrightarrow> e \<noteq> None" "out w1 = out w @ take (nat m) b"
      "e = None \<longrightarrow> paced t0 m0 r1 w1" "maxPerBatch r1 = maxPerBatch r" "resolution r1 = resolution r"
    using write_loop_delivers [of r 0 b t0 m0 w] Cons.prems by (auto simp: throttled_Write_def delivered_def)
  moreover have "e = None" using Cons.prems(1) *(1) by (cases e) auto
  ultimately show ?case using Cons by auto
qed simp

end


section \<open>Rates that let nothing through\<close>

text \<open>
  A limiter whose batch is empty is stuck in the loop of a write that is not: it hands the wrapped
  writer empty slices for ever.
\<close>

definition stuck :: "'w writer \<Rightarrow> bytes \<Rightarrow> int \<Rightarrow> rateLimiter \<Rightarrow> bool" where
  "stuck wr b n r \<longleftrightarrow> (\<forall>w. fst (wr [] w) = (0, None)) \<and> maxPerBatch r \<le> 0 \<and> in_int64 (maxPerBatch r) \<and>
     batchDone r = 0 \<and> 0 \<le> n \<and> n < int (length b) \<and> in_int64 n"

lemma write_loop_stuck:
  assumes "write_loop tm wr b n r w = Some res"
  shows "\<not> stuck wr b n r"
proof (rule write_loop.raw_induct [where P = "\<lambda>tm wr b n r w res. \<not> stuck wr b n r", OF _ assms])
  fix f tm wr b n r w res
  assume IH: "\<And>tm wr b n r w res. f tm wr b n r w = Some res \<Longrightarrow> \<not> stuck wr b n r"
    and eq: "(if n < 0 \<or> int (length b) < n then Some (SlicePanic, r, w)
      else let rest = drop (nat n) b; canWrite = CanDo r
           in if int (length rest) \<le> canWrite then
                (case wr rest w of ((m, e), w) \<Rightarrow> Some (Returned (wrap64 (n + m)) e, Did m r, w))
              else
                (case wr (take (nat canWrite) rest) w of ((m, e), w) \<Rightarrow>
                   if e \<noteq> None then Some (Returned (wrap64 (n + m)) e, r, w)
                   else (case Limit tm r w of (r, w) \<Rightarrow> f tm wr b (wrap64 (n + m)) r w))) = Some res"
  show "\<not> stuck wr b n r"
  proof
    assume *: "stuck wr b n r"
    then have "CanDo r = 0" by (auto simp: stuck_def CanDo_def Let_def)
    moreover obtain w1 where "wr [] w = ((0, None), w1)" using * by (metis stuck_def prod.collapse)
    moreover obtain r2 w2 where lim: "Limit tm r w1 = (r2, w2)" by (cases "Limit tm r w1")
    moreover have "\<not> length b \<le> nat n" "0 \<le> n" "wrap64 n = n" "n < int (length b)"
      using * by (auto simp: stuck_def)
    ultimately have "f tm wr b n r2 w2 = Some res" using eq by (simp add: Let_def)
    moreover have "stuck wr b n r2" using * Limit_simps [OF lim] by (simp add: stuck_def)
    ultimately show False using IH by blast
  qed
qed

lemma throttled_Write_stalls:
  assumes "0 < maxBurst" and "maxBurst \<le> second" and "0 \<le> perSec" and "perSec < second div maxBurst"
    and "ThrottledWriter perSec maxBurst = Some r" and "b \<noteq> []" and "\<And>w. fst (wr [] w) = (0, None)"
  shows "throttled_Write tm wr b r w = None"
proof -
  have "second div maxBurst \<le> second" using assms(1) zdiv_mono2 [of second 1 maxBurst] by simp
  then have "in_int64 perSec" using assms(3,4) by (simp add: in_int64_def)
  then have "maxPerBatch r = 0 \<and> batchDone r = 0"
    using per_batch_pos [OF assms(1-3)] assms(3-5)
    by (auto simp: ThrottledWriter_def dest!: newRateLimiter_fresh simp: fresh_limiter_def)
  then have "stuck wr b 0 r" using assms(6,7) by (simp add: stuck_def)
  then show ?thesis using write_loop_stuck unfolding throttled_Write_def by fastforce
qed

text \<open>A burst of more than a second, or of none, divides by zero.\<close>

lemma ThrottledWriter_panics_iff:
  "ThrottledWriter perSec maxBurst = None \<longleftrightarrow> maxBurst = 0 \<or> second < \<bar>maxBurst\<bar>"
proof -
  have "second div \<bar>maxBurst\<bar> = 0 \<longleftrightarrow> second < \<bar>maxBurst\<bar>" if "maxBurst \<noteq> 0"
    using that by (simp add: zdiv_eq_0_iff)
  then show ?thesis
    by (auto simp: ThrottledWriter_def newRateLimiter_def per_batch_def go_div_def Let_def)
qed

text \<open>The bytes of a write that fails inside its batch are not counted.\<close>

lemma failed_write_uncounted:
  assumes "CanDo r < int (length b)" and "0 \<le> CanDo r"
    and "wr (take (nat (CanDo r)) b) w = ((m, Some e), w')" and "in_int64 m"
  shows "throttled_Write tm wr b r w = Some (Returned m (Some e), r, w')"
  using assms by (simp add: throttled_Write_def write_loop.simps [of tm wr b 0 r w])


section \<open>The measured streams, throttled\<close>

text \<open>
  A world of its own clock, with a \<open>MeasuredWriter\<close> on top of a sink that has room for so many bytes, and a
  \<open>MeasuredReader\<close> on top of a source that has so many left.
\<close>

record measured_world =
  w_time :: instant
  w_out :: bytes
  w_room :: nat
  w_left :: nat
  w_written :: measured_writer
  w_read :: measured_reader

definition world_clock :: "measured_world timing" where
  "world_clock = \<lparr>now_of = \<lambda>w. (w_time w, w\<lparr>w_time := w_time w + 1\<rparr>),
     sleep_for = \<lambda>d w. w\<lparr>w_time := w_time w + max d 0\<rparr>\<rparr>"

definition measured_Write :: "measured_world writer" where
  "measured_Write b w =
     (let m = min (length b) (w_room w);
          (res, meter) = writer_Write (int m, if m < length b then Some ''no space left'' else None) (w_time w) (w_written w)
      in (res, w\<lparr>w_out := w_out w @ take m b, w_room := w_room w - m, w_written := meter\<rparr>))"

definition measured_Read :: "measured_world reader" where
  "measured_Read len w =
     (let m = min len (w_left w);
          (res, meter) = reader_Read (int m, if m = 0 \<and> 0 < len then Some ''EOF'' else None) (w_time w) (w_read w)
      in (res, w\<lparr>w_left := w_left w - m, w_read := meter\<rparr>))"

interpretation sink: sink_world world_clock w_time w_out measured_Write
  by unfold_locales
    (auto simp: world_clock_def measured_Write_def writer_Write_def Let_def min_def split: if_splits)

interpretation source: source_world world_clock w_time "\<lambda>w. - int (w_left w)" measured_Read
  by unfold_locales
    (auto simp: world_clock_def measured_Read_def reader_Read_def Let_def min_def split: if_splits)


section \<open>What a client of a throttled stream can rely on\<close>

lemma new_limiter_within:
  assumes "newRateLimiter perSec maxBurst = Some r" and "0 < maxBurst" and "maxBurst \<le> second"
    and "0 \<le> perSec" and "in_int64 perSec"
  shows "fresh_limiter r" and "within_batch r" and "resolution r = maxBurst"
    and "maxPerBatch r = perSec div (second div maxBurst)"
proof -
  note new = newRateLimiter_fresh [OF assms(1)]
  have b: "0 < second div maxBurst" using assms(2,3) by (simp add: pos_imp_zdiv_pos_iff)
  show max: "maxPerBatch r = perSec div (second div maxBurst)" using new per_batch_pos [OF assms(2-5)] by simp
  have "in_int64 (maxPerBatch r)" using new in_int64_wrap64 [of "go_div perSec (go_div second maxBurst)"]
    by (auto simp: per_batch_def Let_def simp del: in_int64_wrap64 split: if_splits)
  then show "within_batch r" using new max b assms(2-4)
    by (simp add: within_batch_def fresh_limiter_def in_int64_def pos_imp_zdiv_nonneg_iff)
  show "fresh_limiter r" and "resolution r = maxBurst" using new by auto
qed

text \<open>
  With a rate of at least one byte for each batch a write to a throttled writer returns, and it keeps the
  contract of \<open>io.Writer\<close> that the wrapped writer keeps: the bytes it reports are those that
  went through, in their order, and there is an error when they are not all.
\<close>

theorem throttled_write_returns:
  assumes "\<And>w t w'. now_of tm w = (t, w') \<Longrightarrow> time w \<le> t \<and> t \<le> time w' \<and> out w' = out w"
    and "\<And>w d. time w + max d 0 \<le> time (sleep_for tm d w) \<and> out (sleep_for tm d w) = out w"
    and "\<And>b w m e w'. wr b w = ((m, e), w') \<Longrightarrow> 0 \<le> m \<and> m \<le> int (length b) \<and>
        (m < int (length b) \<longrightarrow> e \<noteq> None) \<and> out w' = out w @ take (nat m) b \<and> time w \<le> time w'"
    and "within_batch r" and "0 < maxPerBatch r" and "in_int64 (int (length b))"
  shows "\<exists>m e r' w'. throttled_Write tm wr b r w = Some (Returned (int m) e, r', w') \<and> m \<le> length b \<and>
     (m < length b \<longrightarrow> e \<noteq> None) \<and> out w' = out w @ take m b \<and> within_batch r'"
proof -
  have "sink_world tm time out wr" using assms(1-3) by unfold_locales auto
  from sink_world.write_loop_delivers [OF this assms(4,5), of 0 b 0 0 w] assms(6)
  obtain m e r' w' where *: "write_loop tm wr b 0 r w = Some (Returned m e, r', w')" "0 \<le> m" "m \<le> int (length b)"
      "m < int (length b) \<longrightarrow> e \<noteq> None" "out w' = out w @ take (nat m) b" "within_batch r'"
    by (auto simp: sink_world.delivered_def [OF \<open>sink_world tm time out wr\<close>])
  then show ?thesis
    by (intro exI [of _ "nat m"] exI [of _ e] exI [of _ r'] exI [of _ w']) (auto simp: throttled_Write_def)
qed

text \<open>
  C39: A throttled writer keeps its rate: after any sequence of writes that succeed all bytes have gone through
  in their order, and in the time since it was made they are at most those of one batch for each
  \<open>maxBurst\<close> and of two more, where the batches of a second have at most the bytes of its rate.
\<close>

theorem throttled_writes_paced:
  assumes "\<And>w t w'. now_of tm w = (t, w') \<Longrightarrow> time w \<le> t \<and> t \<le> time w' \<and> out w' = out w"
    and "\<And>w d. time w + max d 0 \<le> time (sleep_for tm d w) \<and> out (sleep_for tm d w) = out w"
    and "\<And>b w m e w'. wr b w = ((m, e), w') \<Longrightarrow> 0 \<le> m \<and> m \<le> int (length b) \<and>
        (m < int (length b) \<longrightarrow> e \<noteq> None) \<and> out w' = out w @ take (nat m) b \<and> time w \<le> time w'"
    and "ThrottledWriter perSec maxBurst = Some r" and "0 < maxBurst" and "maxBurst \<le> second"
    and "second div maxBurst \<le> perSec" and "in_int64 perSec" and "\<forall>b\<in>set bs. in_int64 (int (length b))"
    and "write_run tm wr bs r w = Some (r', w')"
  shows "out w' = out w @ concat bs \<and>
     int (length (concat bs)) \<le> maxPerBatch r * ((time w' - time w) div maxBurst + 2) \<and>
     maxPerBatch r * (second div maxBurst) \<le> perSec"
proof -
  have sink: "sink_world tm time out wr" using assms(1-3) by unfold_locales auto
  then have tick: "ticking tm time (\<lambda>w. int (length (out w)))" by (rule sink_world.axioms)
  have b: "0 < second div maxBurst" using assms(5,6) by (simp add: pos_imp_zdiv_pos_iff)
  note r = new_limiter_within [OF assms(4) [unfolded ThrottledWriter_def] assms(5,6) _ assms(8)]
  have max: "0 < maxPerBatch r" "maxPerBatch r * (second div maxBurst) \<le> perSec"
    using r(4) b assms(7) div_times_le [OF b, of perSec] by (simp_all add: pos_imp_zdiv_pos_iff)
  note start = ticking.fresh_paced [OF tick r(1,2)]
  note run = sink_world.write_run_paced [OF sink assms(10,9) start max(1)]
  show ?thesis using ticking.paced_total [OF tick run [THEN conjunct1]] run max(2) r(3) b assms(7) by auto
qed

definition half_second_limiter :: rateLimiter where
  "half_second_limiter = \<lparr>limitPerSec = 4, resolution = 500 * millisecond, batchDone = 0, lastBatch = None, maxPerBatch = 2\<rparr>"

definition idle_world :: measured_world where
  "idle_world = \<lparr>w_time = 7, w_out = [], w_room = 10, w_left = 20,
     w_written = NewMeasuredWriter, w_read = NewMeasuredReader\<rparr>"

lemma world_laws:
  "now_of world_clock w = (t, w') \<Longrightarrow> w_time w \<le> t \<and> t \<le> w_time w' \<and> w_out w' = w_out w \<and> w_left w' = w_left w"
  "w_time w + max d 0 \<le> w_time (sleep_for world_clock d w) \<and> w_out (sleep_for world_clock d w) = w_out w \<and>
     w_left (sleep_for world_clock d w) = w_left w"
  by (auto simp: world_clock_def)

theorem throttled_writes_paced_witness:
  "\<exists>r' w'. ThrottledWriter 4 (500 * millisecond) = Some half_second_limiter \<and>
     write_run world_clock measured_Write [[1, 2, 3], [4, 5]] half_second_limiter idle_world = Some (r', w') \<and>
     w_out w' = [1, 2, 3, 4, 5] \<and> 5 \<le> 2 * ((w_time w' - 7) div (500 * millisecond) + 2)"
proof -
  have r: "ThrottledWriter 4 (500 * millisecond) = Some half_second_limiter"
    by (simp add: ThrottledWriter_def newRateLimiter_def per_batch_def go_div_def half_second_limiter_def in_int64_def)
  have "write_run world_clock measured_Write [[1, 2, 3], [4, 5]] half_second_limiter idle_world \<noteq> None"
    by code_simp
  then obtain r' w' where
    run: "write_run world_clock measured_Write [[1, 2, 3], [4, 5]] half_second_limiter idle_world = Some (r', w')"
    by auto
  have "w_out w' = w_out idle_world @ concat [[1, 2, 3], [4, 5]] \<and>
     int (length (concat [[1, 2, 3], [4, 5 :: byte]])) \<le>
       maxPerBatch half_second_limiter * ((w_time w' - w_time idle_world) div (500 * millisecond) + 2) \<and>
     maxPerBatch half_second_limiter * (second div (500 * millisecond)) \<le> 4"
    by (rule throttled_writes_paced [OF _ _ sink.writes r _ _ _ _ _ run])
      (use world_laws in \<open>auto simp: in_int64_def\<close>)
  then show ?thesis using r run by (auto simp: idle_world_def half_second_limiter_def)
qed

text \<open>A throttled reader keeps its rate, whatever the reads return.\<close>

theorem throttled_reads_paced:
  assumes "\<And>w t w'. now_of tm w = (t, w') \<Longrightarrow> time w \<le> t \<and> t \<le> time w' \<and> moved w' = moved w"
    and "\<And>w d. time w + max d 0 \<le> time (sleep_for tm d w) \<and> moved (sleep_for tm d w) = moved w"
    and "\<And>len w n e w'. rd len w = ((n, e), w') \<Longrightarrow> 0 \<le> n \<and> n \<le> int len \<and> moved w' = moved w + n \<and> time w \<le> time w'"
    and "ThrottledReader perSec maxBurst = Some r" and "0 < maxBurst" and "maxBurst \<le> second"
    and "0 \<le> perSec" and "in_int64 perSec"
    and "read_run tm rd ls r w = (r', w')"
  shows "moved w' - moved w \<le> perSec div (second div maxBurst) * ((time w' - time w) div maxBurst + 2)"
proof -
  have source: "source_world tm time moved rd" using assms(1-3) by unfold_locales auto
  then have tick: "ticking tm time moved" by (rule source_world.axioms)
  note r = new_limiter_within [OF assms(4) [unfolded ThrottledReader_def] assms(5-8)]
  note run = source_world.read_run_paced [OF source assms(9) ticking.fresh_paced [OF tick r(1,2)]]
  show ?thesis using ticking.paced_total [OF tick run [THEN conjunct1]] run r(3,4) by simp
qed


section \<open>Pools\<close>

text \<open>
  The throttled streams a pool has given out are addresses of their limiters in a store; \<open>mk\<close> is
  \<open>ThrottledWriter\<close> or \<open>ThrottledReader\<close>. The two kinds of pools have the same code otherwise.
\<close>

record stream_pool =
  maxRate :: int
  pool_maxBurst :: duration
  givenOut :: "nat list"  \<comment> \<open>the keys of the table\<close>

definition NewWriterPool :: "int \<Rightarrow> duration \<Rightarrow> stream_pool" where
  "NewWriterPool rate burst = \<lparr>maxRate = rate, pool_maxBurst = burst, givenOut = []\<rparr>"

definition NewReaderPool :: "int \<Rightarrow> duration \<Rightarrow> stream_pool" where
  "NewReaderPool rate burst = \<lparr>maxRate = rate, pool_maxBurst = burst, givenOut = []\<rparr>"

fun set_rates :: "int \<Rightarrow> nat list \<Rightarrow> rateLimiter list \<Rightarrow> rateLimiter list option" where
  "set_rates perSec [] st = Some st"
| "set_rates perSec (a # as) st =
     (case limiter_SetRate perSec (st ! a) of None \<Rightarrow> None | Some r \<Rightarrow> set_rates perSec as (st[a := r]))"

definition setSharedRates :: "stream_pool \<Rightarrow> rateLimiter list \<Rightarrow> rateLimiter list option" where
  "setSharedRates p st =
     (if givenOut p = [] then Some st
      else set_rates (go_div (maxRate p) (int (length (givenOut p)))) (givenOut p) st)"

definition pool_Get ::
    "(int \<Rightarrow> duration \<Rightarrow> rateLimiter option) \<Rightarrow> stream_pool \<Rightarrow> rateLimiter list \<Rightarrow>
     (nat \<times> stream_pool \<times> rateLimiter list) option" where
  "pool_Get mk p st =
     (case mk 0 (pool_maxBurst p) of None \<Rightarrow> None
      | Some r \<Rightarrow>
          let a = length st; p = p\<lparr>givenOut := givenOut p @ [a]\<rparr>
          in map_option (\<lambda>st. (a, p, st)) (setSharedRates p (st @ [r])))"

definition WriterPool_Get :: "stream_pool \<Rightarrow> rateLimiter list \<Rightarrow> (nat \<times> stream_pool \<times> rateLimiter list) option" where
  "WriterPool_Get = pool_Get ThrottledWriter"

definition ReaderPool_Get :: "stream_pool \<Rightarrow> rateLimiter list \<Rightarrow> (nat \<times> stream_pool \<times> rateLimiter list) option" where
  "ReaderPool_Get = pool_Get ThrottledReader"

definition pool_release :: "nat \<Rightarrow> stream_pool \<Rightarrow> rateLimiter list \<Rightarrow> (stream_pool \<times> rateLimiter list) option" where
  "pool_release a p st =
     (let p = p\<lparr>givenOut := filter (\<lambda>b. b \<noteq> a) (givenOut p)\<rparr>
      in map_option (\<lambda>st. (p, st)) (setSharedRates p st))"

definition pool_SetRate :: "int \<Rightarrow> stream_pool \<Rightarrow> rateLimiter list \<Rightarrow> (int \<times> stream_pool \<times> rateLimiter list) option" where
  "pool_SetRate rate p st =
     (let old = maxRate p; p = p\<lparr>maxRate := rate\<rparr>
      in map_option (\<lambda>st. (old, p, st)) (setSharedRates p st))"

definition pool_Len :: "stream_pool \<Rightarrow> int" where
  "pool_Len p = int (length (givenOut p))"

datatype pool_call = Get | Release nat | SetPoolRate int

fun pool_step ::
    "(int \<Rightarrow> duration \<Rightarrow> rateLimiter option) \<Rightarrow> pool_call \<Rightarrow> stream_pool \<times> rateLimiter list \<Rightarrow>
     (stream_pool \<times> rateLimiter list) option" where
  "pool_step mk Get (p, st) = map_option snd (pool_Get mk p st)"
| "pool_step mk (Release a) (p, st) = pool_release a p st"
| "pool_step mk (SetPoolRate rate) (p, st) = map_option snd (pool_SetRate rate p st)"

fun pool_run ::
    "(int \<Rightarrow> duration \<Rightarrow> rateLimiter option) \<Rightarrow> pool_call list \<Rightarrow> stream_pool \<times> rateLimiter list \<Rightarrow>
     (stream_pool \<times> rateLimiter list) option" where
  "pool_run mk [] s = Some s"
| "pool_run mk (c # cs) s = Option.bind (pool_step mk c s) (pool_run mk cs)"

definition pool_ok :: "stream_pool \<times> rateLimiter list \<Rightarrow> bool" where
  "pool_ok s \<longleftrightarrow>
     (let (p, st) = s
      in distinct (givenOut p) \<and> (\<forall>a\<in>set (givenOut p). a < length st) \<and>
         (\<forall>r\<in>set st. resolution r = pool_maxBurst p) \<and> 0 < pool_maxBurst p \<and> pool_maxBurst p \<le> second \<and>
         0 \<le> maxRate p \<and> in_int64 (maxRate p))"

definition shared :: "stream_pool \<times> rateLimiter list \<Rightarrow> bool" where
  "shared s \<longleftrightarrow>
     (let (p, st) = s
      in \<forall>a\<in>set (givenOut p).
           per_batch (maxRate p div int (length (givenOut p))) (pool_maxBurst p) = Some (maxPerBatch (st ! a)))"

lemma set_rates_all:
  assumes "distinct as" and "\<forall>a\<in>set as. a < length st" and "\<forall>r\<in>set st. resolution r = burst"
    and "per_batch perSec burst = Some m"
  shows "\<exists>st'. set_rates perSec as st = Some st' \<and> length st' = length st \<and>
     (\<forall>r\<in>set st'. resolution r = burst) \<and> (\<forall>a\<in>set as. maxPerBatch (st' ! a) = m) \<and>
     (\<forall>a. a \<notin> set as \<longrightarrow> st' ! a = st ! a)"
  using assms
proof (induction as arbitrary: st)
  case (Cons a as)
  define r where "r = (st ! a)\<lparr>maxPerBatch := m\<rparr>"
  have a: "a < length st" "resolution (st ! a) = burst" using Cons.prems by auto
  then have r: "limiter_SetRate perSec (st ! a) = Some r" using Cons.prems(4) by (simp add: limiter_SetRate_def r_def)
  have "\<forall>r\<in>set (st[a := r]). resolution r = burst"
    using Cons.prems(3) a by (auto simp: r_def dest!: set_update_subset_insert [THEN subsetD])
  with Cons.IH [of "st[a := r]"] Cons.prems obtain st' where
    *: "set_rates perSec as (st[a := r]) = Some st'" "length st' = length st" "\<forall>r\<in>set st'. resolution r = burst"
      "\<forall>a\<in>set as. maxPerBatch (st' ! a) = m" "\<forall>b. b \<notin> set as \<longrightarrow> st' ! b = st[a := r] ! b"
    by auto
  moreover have "maxPerBatch (st' ! a) = m" using *(5) Cons.prems(1) a by (simp add: r_def)
  ultimately show ?case using r by auto
qed simp

lemma setSharedRates_ok:
  assumes "pool_ok (p, st)"
  shows "\<exists>st'. setSharedRates p st = Some st' \<and> pool_ok (p, st') \<and> shared (p, st')"
proof (cases "givenOut p = []")
  case True
  then show ?thesis using assms by (simp add: setSharedRates_def shared_def)
next
  case False
  define n where "n = int (length (givenOut p))"
  have n: "0 < n" using False by (simp add: n_def)
  have "0 \<le> maxRate p div n" "maxRate p div n \<le> maxRate p"
    using assms n zdiv_mono2 [of "maxRate p" 1 n] by (auto simp: pool_ok_def pos_imp_zdiv_nonneg_iff)
  then have "\<exists>m. per_batch (maxRate p div n) (pool_maxBurst p) = Some m"
    using assms per_batch_pos [of "pool_maxBurst p" "maxRate p div n"] in_int64_between [of 0 "maxRate p" "maxRate p div n"]
    by (auto simp: pool_ok_def)
  then obtain m where m: "per_batch (maxRate p div n) (pool_maxBurst p) = Some m" by blast
  have "go_div (maxRate p) n = maxRate p div n" using n assms by (simp add: go_div_nonneg pool_ok_def)
  moreover obtain st' where "set_rates (maxRate p div n) (givenOut p) st = Some st'" "length st' = length st"
      "\<forall>r\<in>set st'. resolution r = pool_maxBurst p" "\<forall>a\<in>set (givenOut p). maxPerBatch (st' ! a) = m"
    using set_rates_all [OF _ _ _ m, of "givenOut p" st] assms by (auto simp: pool_ok_def)
  ultimately show ?thesis using False m assms
    by (auto simp: setSharedRates_def shared_def pool_ok_def n_def)
qed

text \<open>What the calls of a pool need of its arguments.\<close>

fun call_ok :: "pool_call \<Rightarrow> bool" where
  "call_ok (SetPoolRate rate) \<longleftrightarrow> 0 \<le> rate \<and> in_int64 rate"
| "call_ok _ \<longleftrightarrow> True"

lemma pool_step_ok:
  assumes "pool_ok (p, st)" and "call_ok c" and "mk = ThrottledWriter \<or> mk = ThrottledReader"
  shows "\<exists>s'. pool_step mk c (p, st) = Some s' \<and> pool_ok s' \<and> shared s' \<and>
     pool_maxBurst (fst s') = pool_maxBurst p"
proof (cases c)
  case Get
  have "mk 0 (pool_maxBurst p) = newRateLimiter 0 (pool_maxBurst p)"
    using assms(3) by (auto simp: ThrottledWriter_def ThrottledReader_def)
  then obtain r where r: "mk 0 (pool_maxBurst p) = Some r" "resolution r = pool_maxBurst p"
    using per_batch_pos [of "pool_maxBurst p" 0] assms(1) by (auto simp: newRateLimiter_def pool_ok_def)
  then have "pool_ok (p\<lparr>givenOut := givenOut p @ [length st]\<rparr>, st @ [r])"
    using assms(1) by (auto simp: pool_ok_def)
  from setSharedRates_ok [OF this] show ?thesis using Get r by (auto simp: pool_Get_def Let_def)
next
  case (Release a)
  have "pool_ok (p\<lparr>givenOut := filter (\<lambda>b. b \<noteq> a) (givenOut p)\<rparr>, st)" using assms(1) by (auto simp: pool_ok_def)
  from setSharedRates_ok [OF this] show ?thesis using Release by (auto simp: pool_release_def Let_def)
next
  case (SetPoolRate rate)
  then have "pool_ok (p\<lparr>maxRate := rate\<rparr>, st)" using assms(1,2) by (auto simp: pool_ok_def)
  from setSharedRates_ok [OF this] show ?thesis using SetPoolRate by (auto simp: pool_SetRate_def Let_def)
qed

lemma pool_run_ok:
  assumes "pool_ok s" and "shared s" and "\<forall>c\<in>set cs. call_ok c" and "mk = ThrottledWriter \<or> mk = ThrottledReader"
  shows "\<exists>s'. pool_run mk cs s = Some s' \<and> pool_ok s' \<and> shared s' \<and>
     pool_maxBurst (fst s') = pool_maxBurst (fst s)"
  using assms
proof (induction cs arbitrary: s)
  case (Cons c cs)
  obtain p st where s: "s = (p, st)" by (cases s)
  from pool_step_ok [of p st c mk] Cons.prems s obtain s' where "pool_step mk c s = Some s'" "pool_ok s'" "shared s'"
      "pool_maxBurst (fst s') = pool_maxBurst (fst s)" by auto
  with Cons.IH [of s'] Cons.prems show ?case by auto
qed simp

lemma sum_list_same: "\<forall>a\<in>set as. f a = (m :: int) \<Longrightarrow> (\<Sum>a\<leftarrow>as. f a) = int (length as) * m"
  by (induction as) (simp_all add: distrib_right)

text \<open>
  The streams a pool has given out never exceed its rate together: no call on a pool with a burst
  of at most a second panics, and after any of them the limits of the streams that are given out
  have the same value, and the bytes all of them may move in the batches of a second are at
  most the rate of the pool, whatever streams have been released and whatever rates set before.
\<close>

theorem pool_keeps_rate:
  assumes "0 < burst" and "burst \<le> second" and "0 \<le> rate" and "in_int64 rate"
    and "\<And>n. SetPoolRate n \<in> set cs \<Longrightarrow> 0 \<le> n \<and> in_int64 n"
    and "mk = ThrottledWriter \<or> mk = ThrottledReader"
  shows "\<exists>p st. pool_run mk cs (NewWriterPool rate burst, []) = Some (p, st) \<and>
     (\<Sum>a\<leftarrow>givenOut p. maxPerBatch (st ! a)) * (second div burst) \<le> maxRate p \<and>
     (\<forall>a\<in>set (givenOut p). \<forall>b\<in>set (givenOut p). maxPerBatch (st ! a) = maxPerBatch (st ! b))"
proof -
  have "pool_ok (NewWriterPool rate burst, [])" "shared (NewWriterPool rate burst, [])"
    using assms(1-4) by (simp_all add: pool_ok_def shared_def NewWriterPool_def)
  moreover have "\<forall>c\<in>set cs. call_ok c" using assms(5) by (metis call_ok.elims(3))
  ultimately obtain p st where
    run: "pool_run mk cs (NewWriterPool rate burst, []) = Some (p, st)" "pool_ok (p, st)" "shared (p, st)"
      "pool_maxBurst p = burst"
    using pool_run_ok [of "(NewWriterPool rate burst, [])" cs mk] assms(6) by (auto simp: NewWriterPool_def)
  show ?thesis
  proof (cases "givenOut p = []")
    case True
    then show ?thesis using run by (simp add: pool_ok_def)
  next
    case False
    define n B where "n = int (length (givenOut p))" and "B = second div pool_maxBurst p"
    have pos: "0 < n" "0 < B" and rate: "0 \<le> maxRate p" "in_int64 (maxRate p)"
      using False run(2) by (auto simp: n_def B_def pool_ok_def pos_imp_zdiv_pos_iff)
    have "0 \<le> maxRate p div n" "maxRate p div n \<le> maxRate p"
      using pos rate zdiv_mono2 [of "maxRate p" 1 n] by (auto simp: pos_imp_zdiv_nonneg_iff)
    then have each: "\<forall>a\<in>set (givenOut p). maxPerBatch (st ! a) = maxRate p div n div B"
      using run(2,3) per_batch_pos [of "pool_maxBurst p" "maxRate p div n"] in_int64_between [OF _ rate(2), of 0]
      by (auto simp: shared_def pool_ok_def n_def B_def)
    have "n * (maxRate p div n div B) * B \<le> n * (maxRate p div n)"
      using pos div_times_le [OF pos(2), of "maxRate p div n"] by (simp add: mult.assoc)
    also have "\<dots> \<le> maxRate p" using div_times_le [OF pos(1), of "maxRate p"] by (simp add: mult.commute)
    finally have "n * (maxRate p div n div B) * B \<le> maxRate p" .
    then show ?thesis using run each sum_list_same [OF each] by (auto simp: n_def B_def pool_ok_def)
  qed
qed

theorem pool_keeps_rate_witness:
  "\<exists>p st. pool_run ThrottledReader [Get, Get, Release 0, Get, SetPoolRate 900]
       (NewWriterPool 1000 (5 * millisecond), []) = Some (p, st) \<and>
     (\<Sum>a\<leftarrow>givenOut p. maxPerBatch (st ! a)) * 200 \<le> maxRate p"
proof -
  have "\<exists>p st. pool_run ThrottledReader [Get, Get, Release 0, Get, SetPoolRate 900]
       (NewWriterPool 1000 (5 * millisecond), []) = Some (p, st) \<and>
     (\<Sum>a\<leftarrow>givenOut p. maxPerBatch (st ! a)) * (second div (5 * millisecond)) \<le> maxRate p \<and>
     (\<forall>a\<in>set (givenOut p). \<forall>b\<in>set (givenOut p). maxPerBatch (st ! a) = maxPerBatch (st ! b))"
    by (rule pool_keeps_rate) (auto simp: in_int64_def)
  then show ?thesis by auto
qed

end
