(* ===== verification/Stream_Profile.thy ===== *)
theory Stream_Profile
  imports Throttle
begin

text \<open>
  The profiles of a writer and a reader (vendored, \<open>iocontrol/stream_profile.go\<close>): the time spent in their
  calls, measured, or estimated from samples. The worlds, the clock and the wrapped streams are those of
  \<open>Throttle\<close>; the atomic operations on the counters are steps.
\<close>

record TimeProfile =
  WaitRead :: duration
  WaitWrite :: duration
  Total :: duration


section \<open>The precise profile\<close>

text \<open>The sum of the time in a precise reader or writer; a call adds the time around it.\<close>

definition precise_Read ::
    "'w timing \<Rightarrow> 'w reader \<Rightarrow> nat \<Rightarrow> int \<Rightarrow> 'w \<Rightarrow> (int \<times> err option) \<times> int \<times> 'w" where
  "precise_Read clk r len sumNS w =
     (let (start, w) = now_of clk w; (res, w) = r len w; (now, w) = now_of clk w
      in (res, wrap64 (sumNS + time_sub now start), w))"

definition precise_Write ::
    "'w timing \<Rightarrow> 'w writer \<Rightarrow> bytes \<Rightarrow> int \<Rightarrow> 'w \<Rightarrow> (int \<times> err option) \<times> int \<times> 'w" where
  "precise_Write clk wr p sumNS w =
     (let (start, w) = now_of clk w; (res, w) = wr p w; (now, w) = now_of clk w
      in (res, wrap64 (sumNS + time_sub now start), w))"

record profiled =
  start_at :: instant
  sum_read :: int
  sum_write :: int

definition profile :: "'w timing \<Rightarrow> 'w \<Rightarrow> profiled \<times> 'w" where
  "profile clk w =
     (let (start, w) = now_of clk w in (\<lparr>start_at = start, sum_read = 0, sum_write = 0\<rparr>, w))"

definition profile_done :: "'w timing \<Rightarrow> profiled \<Rightarrow> 'w \<Rightarrow> TimeProfile \<times> 'w" where
  "profile_done clk s w =
     (let (now, w) = now_of clk w
      in (\<lparr>WaitRead = sum_read s, WaitWrite = sum_write s, Total = time_sub now (start_at s)\<rparr>, w))"

text \<open>The calls of one goroutine on the two, as \<open>io.Copy\<close> makes them.\<close>

datatype stream_call = CallRead nat | CallWrite bytes

fun profiled_call ::
    "'w timing \<Rightarrow> 'w writer \<Rightarrow> 'w reader \<Rightarrow> stream_call \<Rightarrow> profiled \<times> 'w \<Rightarrow> profiled \<times> 'w" where
  "profiled_call clk wr rd (CallRead len) (s, w) =
     (let (res, sum, w) = precise_Read clk rd len (sum_read s) w in (s\<lparr>sum_read := sum\<rparr>, w))"
| "profiled_call clk wr rd (CallWrite p) (s, w) =
     (let (res, sum, w) = precise_Write clk wr p (sum_write s) w in (s\<lparr>sum_write := sum\<rparr>, w))"

definition profiled_calls ::
    "'w timing \<Rightarrow> 'w writer \<Rightarrow> 'w reader \<Rightarrow> stream_call list \<Rightarrow> profiled \<times> 'w \<Rightarrow> profiled \<times> 'w" where
  "profiled_calls clk wr rd cs s = fold (profiled_call clk wr rd) cs s"

text \<open>Within 292 years of the start, both times and their sum are those of calls that are over.\<close>

definition waits_within :: "('w \<Rightarrow> instant) \<Rightarrow> profiled \<times> 'w \<Rightarrow> bool" where
  "waits_within time s \<longleftrightarrow>
     (case s of (s, w) \<Rightarrow> time w - start_at s < 2 ^ 63 \<longrightarrow>
        0 \<le> sum_read s \<and> 0 \<le> sum_write s \<and> sum_read s + sum_write s \<le> time w - start_at s)"

lemma time_around:
  assumes "time w \<le> t \<and> t \<le> time w1" and "time w1 \<le> time w2" and "time w2 \<le> u \<and> u \<le> time w3"
  shows "0 \<le> time_sub u t \<and> time_sub u t \<le> time w3 - time w"
  using assms time_sub_nonneg [of t u] time_sub_le [of t u] by linarith

lemma wait_added:
  assumes "0 \<le> a" and "0 \<le> b" and "a + b \<le> x" and "0 \<le> d" and "d \<le> y - x" and "y < 2 ^ 63"
  shows "0 \<le> wrap64 (a + d) \<and> wrap64 (a + d) + b \<le> y"
  using assms by (simp add: in_int64_def)

lemma profiled_call_within:
  assumes clock: "\<And>w t w'. now_of clk w = (t, w') \<Longrightarrow> time w \<le> t \<and> t \<le> time w'"
    and rd: "\<And>len w res w'. rd len w = (res, w') \<Longrightarrow> time w \<le> time w'"
    and wr: "\<And>p w res w'. wr p w = (res, w') \<Longrightarrow> time w \<le> time w'"
    and within: "waits_within time (s, w)" and call: "profiled_call clk wr rd c (s, w) = (s', w')"
  shows "waits_within time (s', w') \<and> start_at s' = start_at s"
proof (cases c)
  case (CallRead len)
  obtain t w1 where now: "now_of clk w = (t, w1)" by (cases "now_of clk w")
  obtain res w2 where read: "rd len w1 = (res, w2)" by (cases "rd len w1")
  obtain u w3 where later: "now_of clk w2 = (u, w3)" by (cases "now_of clk w2")
  have s': "s' = s\<lparr>sum_read := wrap64 (sum_read s + time_sub u t)\<rparr>" "w' = w3"
    using call CallRead now read later by (auto simp: precise_Read_def)
  show ?thesis using within time_around [of time, OF clock [OF now] rd [OF read] clock [OF later]] s'
      wait_added [of "sum_read s" "sum_write s" "time w - start_at s" "time_sub u t" "time w3 - start_at s"]
    by (auto simp: waits_within_def)
next
  case (CallWrite p)
  obtain t w1 where now: "now_of clk w = (t, w1)" by (cases "now_of clk w")
  obtain res w2 where wrote: "wr p w1 = (res, w2)" by (cases "wr p w1")
  obtain u w3 where later: "now_of clk w2 = (u, w3)" by (cases "now_of clk w2")
  have s': "s' = s\<lparr>sum_write := wrap64 (sum_write s + time_sub u t)\<rparr>" "w' = w3"
    using call CallWrite now wrote later by (auto simp: precise_Write_def)
  show ?thesis using within time_around [of time, OF clock [OF now] wr [OF wrote] clock [OF later]] s'
      wait_added [of "sum_write s" "sum_read s" "time w - start_at s" "time_sub u t" "time w3 - start_at s"]
    by (auto simp: waits_within_def)
qed

lemma profiled_calls_within:
  assumes "\<And>w t w'. now_of clk w = (t, w') \<Longrightarrow> time w \<le> t \<and> t \<le> time w'"
    and "\<And>len w res w'. rd len w = (res, w') \<Longrightarrow> time w \<le> time w'"
    and "\<And>p w res w'. wr p w = (res, w') \<Longrightarrow> time w \<le> time w'"
    and "waits_within time (s, w)" and "profiled_calls clk wr rd cs (s, w) = (s', w')"
  shows "waits_within time (s', w') \<and> start_at s' = start_at s"
  using assms(4,5)
proof (induction cs arbitrary: s w)
  case (Cons c cs)
  obtain s1 w1 where step: "profiled_call clk wr rd c (s, w) = (s1, w1)" by (metis surj_pair)
  have "waits_within time (s1, w1) \<and> start_at s1 = start_at s"
    by (rule profiled_call_within [OF _ _ _ Cons.prems(1) step]) (erule assms)+
  then show ?case using Cons.IH [of s1 w1] Cons.prems(2) step by (simp add: profiled_calls_def)
qed (simp add: profiled_calls_def)

text \<open>
  The profile of one goroutine that reads and writes: neither time is negative, and together they are at
  most the total.
\<close>

theorem profile_adds_up:
  assumes "\<And>w t w'. now_of clk w = (t, w') \<Longrightarrow> time w \<le> t \<and> t \<le> time w'"
    and "\<And>len w res w'. rd len w = (res, w') \<Longrightarrow> time w \<le> time w'"
    and "\<And>p w res w'. wr p w = (res, w') \<Longrightarrow> time w \<le> time w'"
    and "profile clk w0 = (s0, w1)" and "profiled_calls clk wr rd cs (s0, w1) = (s2, w2)"
    and "profile_done clk s2 w2 = (tp, w3)" and "time w3 - time w0 < 2 ^ 63"
  shows "0 \<le> WaitRead tp \<and> 0 \<le> WaitWrite tp \<and> WaitRead tp + WaitWrite tp \<le> Total tp"
proof -
  obtain t where now: "now_of clk w0 = (t, w1)" and s0: "s0 = \<lparr>start_at = t, sum_read = 0, sum_write = 0\<rparr>"
    using assms(4) by (auto simp: profile_def split: prod.splits)
  obtain u where later: "now_of clk w2 = (u, w3)"
      and tp: "tp = \<lparr>WaitRead = sum_read s2, WaitWrite = sum_write s2, Total = time_sub u (start_at s2)\<rparr>"
    using assms(6) by (auto simp: profile_done_def split: prod.splits)
  note order = assms(1) [OF now] assms(1) [OF later]
  have "waits_within time (s0, w1)" using order s0 by (simp add: waits_within_def)
  then have "waits_within time (s2, w2) \<and> start_at s2 = start_at s0"
    by (rule profiled_calls_within [OF _ _ _ _ assms(5), rotated 3]) (erule assms)+
  then have *: "waits_within time (s2, w2)" "start_at s2 = t" using s0 by simp_all
  have "time w2 - t \<le> time_sub u t" using order assms(7) by (simp add: time_sub_def) linarith
  moreover have "time w2 - t < 2 ^ 63" using order assms(7) by simp
  ultimately show ?thesis using * by (auto simp: waits_within_def tp)
qed


section \<open>The sampling profile\<close>

text \<open>
  The two states are set at the start and the end of a call, and a goroutine of its own looks at them at each
  tick. \<open>scaled a b t\<close> is the conversion of \<open>a / b * t\<close> in floats, also where \<open>b\<close> is zero.
\<close>

datatype sample_event = ReadBegins | ReadEnds | WriteBegins | WriteEnds | SampleTick

record SamplingProfile =
  Reading :: int
  Writing :: int
  NotReading :: int
  NotWriting :: int

record sampler =
  reader_blocked :: bool
  writer_blocked :: bool
  samples :: SamplingProfile
  sampling_start :: instant
  sampling_done :: bool

definition profileSample :: "'w timing \<Rightarrow> 'w \<Rightarrow> sampler \<times> 'w" where
  "profileSample clk w =
     (let (start, w) = now_of clk w
      in (\<lparr>reader_blocked = False, writer_blocked = False,
           samples = \<lparr>Reading = 0, Writing = 0, NotReading = 0, NotWriting = 0\<rparr>,
           sampling_start = start, sampling_done = False\<rparr>, w))"

definition take_sample :: "bool \<Rightarrow> bool \<Rightarrow> SamplingProfile \<Rightarrow> SamplingProfile" where
  "take_sample isReading isWriting p =
     (let p = (if isWriting then p\<lparr>Writing := wrap64 (Writing p + 1)\<rparr>
               else p\<lparr>NotWriting := wrap64 (NotWriting p + 1)\<rparr>)
      in if isReading then p\<lparr>Reading := wrap64 (Reading p + 1)\<rparr>
         else p\<lparr>NotReading := wrap64 (NotReading p + 1)\<rparr>)"

fun sampling_step :: "sample_event \<Rightarrow> sampler \<Rightarrow> sampler" where
  "sampling_step ReadBegins s = s\<lparr>reader_blocked := True\<rparr>"
| "sampling_step ReadEnds s = s\<lparr>reader_blocked := False\<rparr>"
| "sampling_step WriteBegins s = s\<lparr>writer_blocked := True\<rparr>"
| "sampling_step WriteEnds s = s\<lparr>writer_blocked := False\<rparr>"
| "sampling_step SampleTick s =
     (if sampling_done s then s
      else s\<lparr>samples := take_sample (reader_blocked s) (writer_blocked s) (samples s)\<rparr>)"

text \<open>\<open>None\<close> is the panic of closing a channel twice.\<close>

definition sampling_end ::
    "'w timing \<Rightarrow> (int \<Rightarrow> int \<Rightarrow> int \<Rightarrow> int) \<Rightarrow> sampler \<Rightarrow> 'w \<Rightarrow>
     ((TimeProfile \<times> SamplingProfile) \<times> sampler \<times> 'w) option" where
  "sampling_end clk scaled s w =
     (if sampling_done s then None
      else let (now, w) = now_of clk w; total = time_sub now (sampling_start s); p = samples s
           in Some ((\<lparr>WaitRead = scaled (Reading p) (wrap64 (Reading p + NotReading p)) total,
                      WaitWrite = scaled (Writing p) (wrap64 (Writing p + NotWriting p)) total,
                      Total = total\<rparr>, p),
                    s\<lparr>sampling_done := True\<rparr>, w))"

text \<open>The ticks at which a call was going on: after its begin and not yet after its end.\<close>

fun ticks_during :: "sample_event \<Rightarrow> sample_event \<Rightarrow> bool \<Rightarrow> sample_event list \<Rightarrow> int" where
  "ticks_during b e going [] = 0"
| "ticks_during b e going (x # xs) =
     (if x = SampleTick then (if going then 1 else 0) + ticks_during b e going xs
      else ticks_during b e ((going \<or> x = b) \<and> x \<noteq> e) xs)"

definition count_ticks :: "sample_event list \<Rightarrow> int" where
  "count_ticks xs = int (length (filter (\<lambda>x. x = SampleTick) xs))"

lemma samples_counted:
  assumes "\<not> sampling_done s" and "fold sampling_step xs s = s'" and "p = samples s"
    and "0 \<le> Reading p" "0 \<le> NotReading p" "0 \<le> Writing p" "0 \<le> NotWriting p"
    and "Reading p + NotReading p + count_ticks xs < 2 ^ 63" and "Writing p + NotWriting p + count_ticks xs < 2 ^ 63"
  shows "Reading (samples s') = Reading p + ticks_during ReadBegins ReadEnds (reader_blocked s) xs \<and>
     Writing (samples s') = Writing p + ticks_during WriteBegins WriteEnds (writer_blocked s) xs \<and>
     Reading (samples s') + NotReading (samples s') = Reading p + NotReading p + count_ticks xs \<and>
     Writing (samples s') + NotWriting (samples s') = Writing p + NotWriting p + count_ticks xs"
  using assms
proof (induction xs arbitrary: s p)
  case (Cons x xs)
  have n: "0 \<le> count_ticks xs" by (simp add: count_ticks_def)
  show ?case
  proof (cases "x = SampleTick")
    case True
    then have ticks: "count_ticks (x # xs) = count_ticks xs + 1" by (simp add: count_ticks_def)
    define q where "q = take_sample (reader_blocked s) (writer_blocked s) p"
    have q: "Reading q = Reading p + (if reader_blocked s then 1 else 0)"
        "NotReading q = NotReading p + (if reader_blocked s then 0 else 1)"
        "Writing q = Writing p + (if writer_blocked s then 1 else 0)"
        "NotWriting q = NotWriting p + (if writer_blocked s then 0 else 1)"
      using Cons.prems(4-9) ticks n by (simp_all add: q_def take_sample_def Let_def in_int64_def)
    then have sums: "Reading q + NotReading q = Reading p + NotReading p + 1"
        "Writing q + NotWriting q = Writing p + NotWriting p + 1" by simp_all
    have "fold sampling_step xs (s\<lparr>samples := q\<rparr>) = s'" using Cons.prems True by (simp add: q_def)
    from Cons.IH [OF _ this] Cons.prems(1,4-9) q sums ticks show ?thesis by (simp add: True)
  next
    case False
    then have "count_ticks (x # xs) = count_ticks xs" by (simp add: count_ticks_def)
    then show ?thesis using False Cons.IH [of "sampling_step x s" p] Cons.prems by (cases x) simp_all
  qed
qed (simp add: count_ticks_def)

text \<open>
  Every sample is counted once for the reader and once for the writer, as blocked when a call was going on;
  a second call of the function that ends the profile panics.
\<close>

theorem samples_add_up:
  assumes "count_ticks xs < 2 ^ 63" and "profileSample clk w0 = (s0, w1)" and "fold sampling_step xs s0 = s"
    and "sampling_end clk scaled s w = Some ((tp, p), s', w')"
  shows "Reading p = ticks_during ReadBegins ReadEnds False xs \<and>
     Writing p = ticks_during WriteBegins WriteEnds False xs \<and>
     Reading p + NotReading p = count_ticks xs \<and> Writing p + NotWriting p = count_ticks xs \<and>
     sampling_end clk scaled s' w' = None"
proof -
  have s0: "\<not> sampling_done s0" "samples s0 = \<lparr>Reading = 0, Writing = 0, NotReading = 0, NotWriting = 0\<rparr>"
      "\<not> reader_blocked s0" "\<not> writer_blocked s0"
    using assms(2) by (auto simp: profileSample_def split: prod.splits)
  have "p = samples s" "sampling_end clk scaled s' w' = None"
    using assms(4) by (auto simp: sampling_end_def Let_def split: if_splits prod.splits)
  then show ?thesis using samples_counted [OF s0(1) assms(3) refl] s0 assms(1) by simp
qed

end
