(* ===== verification/Amqp_Reading.thy ===== *)
theory Amqp_Reading
  imports Amqp_Field "HOL-Library.Sublist"
begin

text \<open>
  What reading a field value or a table can end in, over arbitrary octets: the fuel of the
  readers of \<open>Amqp_Field\<close> does not show in their results, and besides values and the errors of
  the code there is one panic.
\<close>


section \<open>More fuel changes nothing\<close>

text \<open>\<open>refined p q\<close>: \<open>q\<close> is \<open>p\<close> wherever \<open>p\<close> does not run out of fuel.\<close>

definition refined :: "'a rd \<Rightarrow> 'a rd \<Rightarrow> bool" where
  "refined p q \<longleftrightarrow> (\<forall>s. fst (p s) \<noteq> Inl OutOfFuel \<longrightarrow> q s = p s)"

named_theorems refined_intros \<open>readers refined part by part\<close>

lemma refined_refl [refined_intros]: "refined p p"
  by (simp add: refined_def)

lemma refined_OutOfFuel: "refined (rfail OutOfFuel) q"
  by (simp add: refined_def rfail_def)

lemma refined_rbind [refined_intros]:
  "refined p q \<Longrightarrow> (\<And>x. refined (f x) (g x)) \<Longrightarrow> refined (rbind p f) (rbind q g)"
  unfolding refined_def
proof (intro allI impI)
  fix s
  assume p: "\<forall>s. fst (p s) \<noteq> Inl OutOfFuel \<longrightarrow> q s = p s"
    and f: "\<And>x. \<forall>s. fst (f x s) \<noteq> Inl OutOfFuel \<longrightarrow> g x s = f x s"
    and s: "fst (rbind p f s) \<noteq> Inl OutOfFuel"
  obtain r s' where ps: "p s = (r, s')" by fastforce
  with s have "r \<noteq> Inl OutOfFuel" by (auto simp: rbind_def)
  with p ps have "q s = (r, s')" by simp
  with ps f s show "rbind q g s = rbind p f s" by (cases r) (simp_all add: rbind_def)
qed

lemma refined_if [refined_intros]:
  "refined p q \<Longrightarrow> refined p' q' \<Longrightarrow> refined (if b then p else p') (if b then q else q')"
  by simp

lemma refined_limited [refined_intros]: "refined p q \<Longrightarrow> refined (limited n p) (limited n q)"
  unfolding refined_def limited_def by (metis (no_types, lifting) fst_conv old.prod.case prod.collapse)

lemma refined_nested:
  assumes "refined (rdTableLoop n t) (rdTableLoop m t)"
  shows "refined (case rdTableLoop n t str of (Inl e, _) \<Rightarrow> rfail e | (Inr t, _) \<Rightarrow> rreturn (h t))
    (case rdTableLoop m t str of (Inl e, _) \<Rightarrow> rfail e | (Inr t, _) \<Rightarrow> rreturn (h t))"
proof (cases "fst (rdTableLoop n t str) = Inl OutOfFuel")
  case True
  then have "(case rdTableLoop n t str of (Inl e, _) \<Rightarrow> rfail e | (Inr t, _) \<Rightarrow> rreturn (h t)) = rfail OutOfFuel"
    by (cases "rdTableLoop n t str") simp
  then show ?thesis by (simp only: refined_OutOfFuel)
next
  case False
  with assms have "rdTableLoop m t str = rdTableLoop n t str" by (simp add: refined_def)
  then show ?thesis by (simp only: refined_refl)
qed

lemma refined_array:
  assumes field: "refined (rdField n) (rdField m)" and loop: "refined (rdArrayLoop n) (rdArrayLoop m)"
  shows "refined (rdArrayLoop (Suc n)) (rdArrayLoop (Suc m))"
  unfolding refined_def
proof (intro allI impI)
  fix s assume s: "fst (rdArrayLoop (Suc n) s) \<noteq> Inl OutOfFuel"
  obtain r s' where f: "rdField n s = (r, s')" by fastforce
  with s have "r \<noteq> Inl OutOfFuel" by auto
  with field f have m: "rdField m s = (r, s')" by (simp add: refined_def)
  show "rdArrayLoop (Suc m) s = rdArrayLoop (Suc n) s"
  proof (cases r)
    case (Inl e)
    with f m show ?thesis by (cases e) simp_all
  next
    case (Inr x)
    have "refined (rbind (rdArrayLoop n) (\<lambda>fs. rreturn (x # fs))) (rbind (rdArrayLoop m) (\<lambda>fs. rreturn (x # fs)))"
      by (intro refined_intros loop)
    with s f m Inr show ?thesis by (simp add: refined_def)
  qed
qed

lemma refined_Suc:
  "refined (rdField n) (rdField (Suc n)) \<and> refined (rdArrayLoop n) (rdArrayLoop (Suc n)) \<and>
   (\<forall>t. refined (rdTableLoop n t) (rdTableLoop (Suc n) t))"
proof (induction n)
  case 0
  then show ?case by (simp only: rdField.simps rdArrayLoop.simps rdTableLoop.simps refined_OutOfFuel simp_thms)
next
  case (Suc n)
  have "refined (rdField (Suc n)) (rdField (Suc (Suc n)))"
    unfolding rdField.simps(2) [of n] rdField.simps(2) [of "Suc n"]
    using Suc by (intro refined_intros refined_nested) simp_all
  moreover have "refined (rdTableLoop (Suc n) t) (rdTableLoop (Suc (Suc n)) t)" for t
  proof -
    have "refined (rbind readShortstr (\<lambda>k. rbind (rdField n) (\<lambda>v. rdTableLoop n (AList.update k v t))))
        (rbind readShortstr (\<lambda>k. rbind (rdField (Suc n)) (\<lambda>v. rdTableLoop (Suc n) (AList.update k v t))))"
      using Suc by (intro refined_intros) simp_all
    then show ?thesis
      unfolding rdTableLoop.simps(2) [of n] rdTableLoop.simps(2) [of "Suc n"] by (simp add: refined_def)
  qed
  ultimately show ?case using Suc refined_array by blast
qed

lemma fuel_suffices:
  assumes "k \<le> n" and "\<And>j. fst (p j s) \<noteq> Inl OutOfFuel \<Longrightarrow> p (Suc j) s = p j s" and "fst (p k s) \<noteq> Inl OutOfFuel"
  shows "p n s = p k s"
  using assms(1)
proof (induction n rule: dec_induct)
  case (step n)
  then show ?case using assms(2) [of n] assms(3) by simp
qed simp

lemma loops_fuel:
  assumes "2 * length s + 2 \<le> n"
  shows "rdField n s = readField s"
    and "rdArrayLoop n s = rdArrayLoop (2 * length s + 2) s"
    and "rdTableLoop n t s = rdTableLoop (2 * length s + 2) t s"
proof -
  have enough: "fst (rdArrayLoop (2 * length s + 2) s) \<noteq> Inl OutOfFuel"
    "fst (rdTableLoop (2 * length s + 2) t s) \<noteq> Inl OutOfFuel"
    using fuelled_loops [of "length s" "2 * length s + 2"] by (simp_all add: fuelled_def)
  show "rdField n s = readField s"
    unfolding readField_def using assms refined_Suc readField_fuel [of s]
    by (intro fuel_suffices [of "2 * length s + 1" n rdField]) (simp_all add: refined_def readField_def)
  show "rdArrayLoop n s = rdArrayLoop (2 * length s + 2) s"
    using assms refined_Suc enough(1) by (intro fuel_suffices [of _ n rdArrayLoop]) (simp_all add: refined_def)
  show "rdTableLoop n t s = rdTableLoop (2 * length s + 2) t s"
    using assms refined_Suc enough(2)
    by (intro fuel_suffices [of _ n "\<lambda>n. rdTableLoop n t"]) (simp_all add: refined_def)
qed


section \<open>What a reader can end in\<close>

text \<open>An octet string that could hold a byte array of negative length.\<close>

definition negative_length :: "bytes \<Rightarrow> bool" where
  "negative_length s \<longleftrightarrow> (\<exists>u b v. s = u @ [0x78, b] @ v \<and> 0x80 \<le> b)"

lemma negative_length_append: "negative_length s \<Longrightarrow> negative_length (u @ s @ v)"
  unfolding negative_length_def by (metis append_assoc)

definition error_ok :: "bytes \<Rightarrow> rerr \<Rightarrow> bool" where
  "error_ok s e \<longleftrightarrow> e \<in> {EOF, UnexpectedEOF, ErrSyntax, OutOfFuel} \<or>
     e = RPanic ''makeslice: len out of range'' \<and> negative_length s"

text \<open>\<open>ends pre p\<close>: what \<open>p\<close> can end in, behind the octets \<open>pre\<close>.\<close>

definition ends :: "bytes \<Rightarrow> 'a rd \<Rightarrow> bool" where
  "ends pre p \<longleftrightarrow> (\<forall>s. suffix (snd (p s)) s \<and> (\<forall>e. fst (p s) = Inl e \<longrightarrow> error_ok (pre @ s) e))"

lemma error_ok_append: "error_ok s e \<Longrightarrow> error_ok (u @ s @ v) e"
  using negative_length_append [of s u v] by (auto simp: error_ok_def)

lemma ends_Nil: "ends [] p \<Longrightarrow> ends pre p"
  using error_ok_append [where v = "[]"] by (fastforce simp: ends_def)

named_theorems ends_intros \<open>what readers end in\<close>

lemma ends_prims [ends_intros]:
  "ends pre (rreturn x)" "e \<in> {EOF, UnexpectedEOF, ErrSyntax, OutOfFuel} \<Longrightarrow> ends pre (rfail e)" "ends pre (ReadFull n)"
  by (auto simp: ends_def rreturn_def rfail_def ReadFull_def error_ok_def suffix_drop)

lemma ends_rbind_pre:
  assumes "ends pre p" and "\<And>x s s'. p s = (Inr x, s') \<Longrightarrow> \<exists>u. s = u @ s' \<and> ends (pre @ u) (f x)"
  shows "ends pre (rbind p f)"
  unfolding ends_def
proof
  fix s
  obtain r s' where ps: "p s = (r, s')" by fastforce
  with assms(1) have suf: "suffix s' s" and err: "\<And>e. r = Inl e \<Longrightarrow> error_ok (pre @ s) e"
    unfolding ends_def by (metis snd_conv, metis fst_conv)
  show "suffix (snd (rbind p f s)) s \<and> (\<forall>e. fst (rbind p f s) = Inl e \<longrightarrow> error_ok (pre @ s) e)"
  proof (cases r)
    case (Inl e)
    with ps suf err show ?thesis by (simp add: rbind_def)
  next
    case (Inr x)
    with assms(2) ps obtain u where u: "s = u @ s'" "ends (pre @ u) (f x)" by blast
    then have "suffix (snd (f x s')) s'" "\<forall>e. fst (f x s') = Inl e \<longrightarrow> error_ok (pre @ u @ s') e"
      by (simp_all add: ends_def)
    with ps Inr u(1) show ?thesis by (simp add: rbind_def suffix_append)
  qed
qed

lemma ends_rbind [ends_intros]:
  assumes "ends pre p" and "\<And>x. ends [] (f x)"
  shows "ends pre (rbind p f)"
proof (rule ends_rbind_pre [OF assms(1)])
  fix x s s' assume "p s = (Inr x, s')"
  then have "suffix s' s" using assms(1) unfolding ends_def by (metis snd_conv)
  then show "\<exists>u. s = u @ s' \<and> ends (pre @ u) (f x)"
    using assms(2) ends_Nil unfolding suffix_def by blast
qed

lemma ends_if [ends_intros]:
  "(b \<Longrightarrow> ends pre p) \<Longrightarrow> (\<not> b \<Longrightarrow> ends pre q) \<Longrightarrow> ends pre (if b then p else q)"
  by simp

lemma ends_words [ends_intros]:
  "ends pre read_u8" "ends pre read_u16" "ends pre read_u32" "ends pre read_u64"
  unfolding read_u8_def read_u16_def read_u32_def read_u64_def read_word_def
  by (intro ends_intros)+

lemma ends_parts [ends_intros]:
  "ends pre readShortstr" "ends pre readLongstr" "ends pre readDecimal" "ends pre readTimestamp"
  unfolding readShortstr_def readLongstr_def readDecimal_def readTimestamp_def
  by (intro ends_intros)+

lemma ends_limited [ends_intros]:
  assumes "ends pre p"
  shows "ends pre (limited n p)"
  unfolding ends_def
proof
  fix s
  obtain r l where p: "p (take n s) = (r, l)" by fastforce
  with assms have "suffix l (take n s)" "\<And>e. r = Inl e \<Longrightarrow> error_ok (pre @ take n s) e"
    unfolding ends_def by (metis snd_conv, metis fst_conv)
  moreover from this(1) have "suffix (l @ drop n s) s"
    by (metis append_assoc append_take_drop_id suffix_def)
  ultimately show "suffix (snd (limited n p s)) s \<and> (\<forall>e. fst (limited n p s) = Inl e \<longrightarrow> error_ok (pre @ s) e)"
    using p error_ok_append [of "pre @ take n s" _ "[]" "drop n s"] by (simp add: limited_def)
qed

text \<open>The length of a byte array is negative if its first octet is above 127.\<close>

lemma read_u32_Inr: "read_u32 s = (Inr w, s') \<Longrightarrow>
    \<exists>b c d e. s = [b, c, d, e] @ s' \<and> w = of_nat (((unat b * 256 + unat c) * 256 + unat d) * 256 + unat e)"
proof -
  assume *: "read_u32 s = (Inr w, s')"
  then have len: "4 \<le> length s" and s: "s' = drop 4 s" "w = of_nat (unbe (take 4 s))"
    by (auto simp: read_u32_def read_word_def rbind_def ReadFull_def rreturn_def split: if_splits)
  from len have "length (take 4 s) = Suc (Suc (Suc (Suc 0)))" by simp
  then obtain b c d e where t: "take 4 s = [b, c, d, e]"
    by (auto simp: length_Suc_conv simp del: length_take)
  then have "s = [b, c, d, e] @ s'" by (metis s(1) append_take_drop_id)
  moreover have "w = of_nat (((unat b * 256 + unat c) * 256 + unat d) * 256 + unat e)"
    unfolding s(2) t by (simp add: unbe_def)
  ultimately show ?thesis by blast
qed

lemma sint_negative:
  fixes b c d e :: byte
  assumes "sint (of_nat (((unat b * 256 + unat c) * 256 + unat d) * 256 + unat e) :: 32 word) < 0"
  shows "0x80 \<le> b"
proof (rule ccontr)
  assume "\<not> 0x80 \<le> b"
  then have "unat b < 0x80" by (simp add: word_le_nat_alt)
  moreover have "unat c < 256" "unat d < 256" "unat e < 256"
    using unsigned_less [of c] unsigned_less [of d] unsigned_less [of e] by simp_all
  ultimately have "((unat b * 256 + unat c) * 256 + unat d) * 256 + unat e < 2 ^ 31" by simp
  note small = sint_of_nat_small [OF this]
  from assms show False by (simp only: small of_nat_less_0_iff)
qed

lemma ends_readBytes: "ends [0x78] readBytes"
  unfolding readBytes_def
proof (rule ends_rbind_pre)
  fix w :: "32 word" and s s'
  assume "read_u32 s = (Inr w, s')"
  from read_u32_Inr [OF this] obtain b c d e where
    s: "s = [b, c, d, e] @ s'" "w = of_nat (((unat b * 256 + unat c) * 256 + unat d) * 256 + unat e)" by blast
  have "ends ([0x78] @ [b, c, d, e])
      (if sint w < 0 then rfail (RPanic ''makeslice: len out of range'') else ReadFull (unat w))"
  proof (cases "sint w < 0")
    case True
    then have "0x80 \<le> b" using s(2) sint_negative by simp
    then have "negative_length ([0x78] @ [b, c, d, e] @ t)" for t
      unfolding negative_length_def by (intro exI [of _ "[]"] exI [of _ b] exI [of _ "[c, d, e] @ t"]) simp
    with True show ?thesis by (simp add: ends_def rfail_def error_ok_def)
  qed (simp add: ends_intros)
  with s show "\<exists>u. s = u @ s' \<and> ends ([0x78] @ u)
      (if sint w < 0 then rfail (RPanic ''makeslice: len out of range'') else ReadFull (unat w))" by blast
qed (intro ends_intros)

lemma ends_nested:
  assumes "ends [] (rdTableLoop n t)"
  shows "ends pre (rbind readLongstr (\<lambda>str. case rdTableLoop n t str of
    (Inl e, _) \<Rightarrow> rfail e | (Inr t, _) \<Rightarrow> rreturn (h t)))"
proof (rule ends_rbind_pre)
  fix str s s' assume "readLongstr s = (Inr str, s')"
  then obtain w rest where "read_u32 s = (Inr w, rest)" and rest: "ReadFull (unat w) rest = (Inr str, s')"
    by (auto simp: readLongstr_def rbind_def split: prod.splits sum.splits)
  then obtain u where "s = u @ rest" using read_u32_Inr by blast
  moreover have "rest = str @ s'" using rest by (auto simp: ReadFull_def split: if_splits)
  ultimately have u: "s = u @ str @ s'" by simp
  have "ends (pre @ u @ str) (case rdTableLoop n t str of (Inl e, _) \<Rightarrow> rfail e | (Inr t, _) \<Rightarrow> rreturn (h t))"
  proof (cases "fst (rdTableLoop n t str)")
    case (Inl e)
    then have "error_ok str e" using assms by (simp add: ends_def)
    then have "error_ok ((pre @ u @ str) @ x) e" for x
      using error_ok_append [of str e "pre @ u" x] by simp
    with Inl show ?thesis by (cases "rdTableLoop n t str") (simp add: ends_def rfail_def)
  next
    case (Inr v)
    then show ?thesis by (cases "rdTableLoop n t str") (simp add: ends_intros)
  qed
  with u show "\<exists>u. s = u @ s' \<and> ends (pre @ u)
      (case rdTableLoop n t str of (Inl e, _) \<Rightarrow> rfail e | (Inr t, _) \<Rightarrow> rreturn (h t))" by (metis append_assoc)
qed (intro ends_intros)

lemma read_u8_Inr: "read_u8 s = (Inr b, s') \<Longrightarrow> s = [b] @ s'"
  by (cases s) (auto simp: read_u8_def read_word_def rbind_def ReadFull_def rreturn_def unbe_def split: if_splits)

lemma ends_field:
  assumes "ends [] (rdArrayLoop n)" and "ends [] (rdTableLoop n [])"
  shows "ends [] (rdField (Suc n))"
  unfolding rdField.simps
proof (rule ends_rbind_pre)
  fix ty s s' assume "read_u8 s = (Inr ty, s')"
  then have s: "s = [ty] @ s'" by (rule read_u8_Inr)
  have x: "ends [ty] (rbind readBytes (\<lambda>v. rreturn (FdBytes v)))" if "ty = 0x78"
    using ends_readBytes that by (intro ends_rbind ends_prims) simp
  show "\<exists>u. s = u @ s' \<and> ends ([] @ u)
     (if ty = 0x74 then rbind read_u8 (\<lambda>v. rreturn (FdBool (v \<noteq> 0)))
       else if ty = 0x62 then rbind read_u8 (\<lambda>v. rreturn (FdByte v))
       else if ty = 0x73 then rbind read_u16 (\<lambda>v. rreturn (FdInt16 v))
       else if ty = 0x49 then rbind read_u32 (\<lambda>v. rreturn (FdInt32 v))
       else if ty = 0x6C then rbind read_u64 (\<lambda>v. rreturn (FdInt64 v))
       else if ty = 0x66 then rbind read_u32 (\<lambda>v. rreturn (FdFloat32 v))
       else if ty = 0x64 then rbind read_u64 (\<lambda>v. rreturn (FdFloat64 v))
       else if ty = 0x44 then readDecimal
       else if ty = 0x53 then rbind readLongstr (\<lambda>v. rreturn (FdString v))
       else if ty = 0x41 then
         rbind read_u32 (\<lambda>size. rbind (limited (unat size) (rdArrayLoop n)) (\<lambda>v. rreturn (FdArray v)))
       else if ty = 0x54 then rbind readTimestamp (\<lambda>v. rreturn (FdTime v))
       else if ty = 0x46 then
         rbind readLongstr (\<lambda>str. case rdTableLoop n [] str of
           (Inl e, _) \<Rightarrow> rfail e | (Inr t, _) \<Rightarrow> rreturn (FdTable t))
       else if ty = 0x78 then rbind readBytes (\<lambda>v. rreturn (FdBytes v))
       else if ty = 0x56 then rreturn FdNil
       else rfail ErrSyntax)"
    using s by (intro exI [of _ "[ty]"] conjI; (simp only: append_Nil)?)
      (intro ends_if x ends_nested assms ends_rbind ends_limited ends_words ends_parts ends_prims; simp)
qed (intro ends_intros)

lemma ends_array:
  assumes "ends [] (rdField n)" and "ends [] (rdArrayLoop n)"
  shows "ends [] (rdArrayLoop (Suc n))"
  unfolding ends_def
proof
  fix s
  obtain r s' where f: "rdField n s = (r, s')" by fastforce
  with assms(1) have suf: "suffix s' s" and err: "\<And>e. r = Inl e \<Longrightarrow> error_ok s e"
    unfolding ends_def by (metis snd_conv, metis append_Nil fst_conv)
  show "suffix (snd (rdArrayLoop (Suc n) s)) s \<and> (\<forall>e. fst (rdArrayLoop (Suc n) s) = Inl e \<longrightarrow> error_ok ([] @ s) e)"
  proof (cases r)
    case (Inl e)
    with f suf err show ?thesis by (cases e) simp_all
  next
    case (Inr x)
    have "ends [] (rbind (rdArrayLoop n) (\<lambda>fs. rreturn (x # fs)))"
      by (intro ends_intros assms)
    then have "suffix (snd (rbind (rdArrayLoop n) (\<lambda>fs. rreturn (x # fs)) s')) s'"
      "\<And>e. fst (rbind (rdArrayLoop n) (\<lambda>fs. rreturn (x # fs)) s') = Inl e \<Longrightarrow> error_ok s' e"
      by (simp_all add: ends_def)
    moreover from suf obtain u where "s = u @ s'" by (auto simp: suffix_def)
    ultimately show ?thesis
      using f Inr error_ok_append [of s' _ u "[]"] by (simp add: suffix_append)
  qed
qed

lemma ends_loops: "ends [] (rdField n) \<and> ends [] (rdArrayLoop n) \<and> (\<forall>t. ends [] (rdTableLoop n t))"
proof (induction n)
  case 0
  show ?case unfolding rdField.simps rdArrayLoop.simps rdTableLoop.simps
    by (intro conjI allI ends_prims; simp)
next
  case (Suc n)
  have "ends [] (rbind readShortstr (\<lambda>k. rbind (rdField n) (\<lambda>v. rdTableLoop n (AList.update k v t))))" for t
    using Suc by (intro ends_intros) simp_all
  then have "ends [] (rdTableLoop (Suc n) t)" for t
    by (simp add: ends_def)
  with Suc ends_field ends_array show ?case by blast
qed

lemma ends_readTable: "ends [] readTable"
proof -
  have "ends [] (\<lambda>s. rbind readLongstr (\<lambda>str. case rdTableLoop m [] str of
      (Inl e, _) \<Rightarrow> rfail e | (Inr t, _) \<Rightarrow> rreturn t) s)" for m
    using ends_nested [of m "[]" "[]" "\<lambda>t. t"] ends_loops [of m] by simp
  moreover have "readTable s = rbind readLongstr (\<lambda>str. case rdTableLoop (2 * length s + 2) [] str of
      (Inl e, _) \<Rightarrow> rfail e | (Inr t, _) \<Rightarrow> rreturn t) s" for s
  proof (cases "readLongstr s")
    case (Pair r s')
    have "rdTableLoop (2 * length str + 2) [] str = rdTableLoop (2 * length s + 2) [] str" if "r = Inr str" for str
    proof -
      have "length str \<le> length s"
        using Pair that by (auto simp: readLongstr_def read_u32_def read_word_def rbind_def ReadFull_def
            rreturn_def split: if_splits)
      then show ?thesis by (intro loops_fuel(3) [symmetric]) simp
    qed
    with Pair show ?thesis
      by (cases r) (simp_all add: readTable_def rbind_def del: rdTableLoop.simps)
  qed
  ultimately show ?thesis by (simp add: ends_def del: rdTableLoop.simps)
qed


section \<open>Properties of reading\<close>

text \<open>
  C35: reading ends, whatever the octets and however deeply arrays and tables are nested. The
  recursion of the code without a bound gives what the model gives: with any larger amount of
  fuel the readers return the same. \<open>readField\<close> and \<open>readTable\<close> return a value, or one of the
  errors \<open>EOF\<close>, \<open>ErrUnexpectedEOF\<close> and \<open>ErrSyntax\<close>, or they panic, and this only on octets with
  the type of a byte array followed by the first octet of a negative length. What they leave is the rest
  of the stream.
\<close>

theorem field_reading_terminates:
  assumes "2 * length s + 2 \<le> n"
  shows "rdField n s = readField s \<and> rdArrayLoop n s = rdArrayLoop (2 * length s + 2) s \<and>
     rdTableLoop n t s = rdTableLoop (2 * length s + 2) t s \<and>
     suffix (snd (readField s)) s \<and> suffix (snd (readTable s)) s \<and>
     (\<forall>e. fst (readField s) = Inl e \<or> fst (readTable s) = Inl e \<longrightarrow>
        e = EOF \<or> e = UnexpectedEOF \<or> e = ErrSyntax \<or>
        e = RPanic ''makeslice: len out of range'' \<and> (\<exists>u b v. s = u @ [0x78, b] @ v \<and> 0x80 \<le> b))"
proof -
  have "ends [] readField"
    using ends_loops by (simp add: ends_def readField_def)
  then have "suffix (snd (readField s)) s" "\<And>e. fst (readField s) = Inl e \<Longrightarrow> error_ok s e"
    by (simp_all add: ends_def)
  moreover have "suffix (snd (readTable s)) s" "\<And>e. fst (readTable s) = Inl e \<Longrightarrow> error_ok s e"
    using ends_readTable by (simp_all add: ends_def)
  ultimately show ?thesis
    using loops_fuel(1,2) [OF assms] loops_fuel(3) [OF assms, of t] readField_fuel [of s] readTable_fuel [of s]
    unfolding error_ok_def negative_length_def by (metis empty_iff insert_iff)
qed

text \<open>A byte array of length \<open>- 2 ^ 31\<close>: the panic is one of the outcomes.\<close>

theorem field_reading_terminates_witness:
  "fst (rdField 100 [0x78, 0x80, 0, 0, 0]) = Inl (RPanic ''makeslice: len out of range'') \<and>
   fst (readTable [0, 0, 0, 1, 5]) = Inl EOF"
proof -
  have "rdField (Suc 10) [0x78, 0x80, 0, 0, 0] = (Inl (RPanic ''makeslice: len out of range''), [])"
    unfolding rdField_tags
    by (simp add: readBytes_def rbind_def read_u32_def read_word_def ReadFull_def rreturn_def rfail_def unbe_def)
  moreover have "rdField 100 [0x78, 0x80, 0, 0, 0] = readField [0x78, 0x80, 0, 0, 0]"
    using field_reading_terminates [of "[0x78, 0x80, 0, 0, 0]" 100 "[]"] by simp
  moreover have "fst (readTable [0, 0, 0, 1, 5]) = Inl EOF"
    by code_simp
  ultimately show ?thesis by (simp add: readField_def)
qed

end
