(* ===== verification/Amqp_Lifetime.thy ===== *)
theory Amqp_Lifetime
  imports Amqp_Connection
begin

text \<open>
  The whole life of a connection: what the goroutine that reads does (\<open>reader_step\<close>) in any
  interleaving with what the program does, which opens channels, registers listeners, uses and
  closes channels (\<open>channel_act\<close>) and closes the connection. The last part says which frames make it panic.
  A frame is looked up in the registry and given to its channel in one step: a shutdown of the
  channel between the two is left out.
\<close>


section \<open>Steps\<close>

text \<open>
  A listener is registered at most once for its kind. A channel that lost its number to a later one, after
  65536 openings, is not in the registry any more; when it shuts down it removes the number all the same.
\<close>

inductive conn_life :: "bool \<Rightarrow> reader_state \<Rightarrow> bool" for d where
  conn_new: "conn_life d (start_reader d Open_connection)"
| conn_reads: "conn_life d s \<Longrightarrow> reader_step s ev s' \<Longrightarrow> conn_life d s'"
| conn_opens: "conn_life d s \<Longrightarrow> conn_Channel (rs_conn s) = (i, cn) \<Longrightarrow> conn_life d (s\<lparr>rs_conn := cn\<rparr>)"
| conn_listens: "conn_life d s \<Longrightarrow> c \<notin> set (cn_closes (rs_conn s)) \<Longrightarrow>
     conn_NotifyClose c (rs_conn s) = (es, cn) \<Longrightarrow>
     conn_life d (s\<lparr>rs_conn := cn, rs_effects := rs_effects s @ es\<rparr>)"
| conn_listens_blocked: "conn_life d s \<Longrightarrow> c \<notin> set (cn_blocks (rs_conn s)) \<Longrightarrow>
     conn_NotifyBlocked c (rs_conn s) = (es, cn) \<Longrightarrow>
     conn_life d (s\<lparr>rs_conn := cn, rs_effects := rs_effects s @ es\<rparr>)"
| conn_uses: "conn_life d s \<Longrightarrow> registry_get i (cn_registry (rs_conn s)) = Some ch \<Longrightarrow>
     channel_act ch es ch' \<Longrightarrow>
     conn_life d (s\<lparr>rs_conn := (rs_conn s)\<lparr>cn_registry := registry_after i es ch' (cn_registry (rs_conn s))\<rparr>,
        rs_effects := rs_effects s @ map (OnChannel i) es\<rparr>)"
| conn_forgets: "conn_life d s \<Longrightarrow>
     conn_life d (s\<lparr>rs_conn := (rs_conn s)\<lparr>cn_registry := registry_remove i (cn_registry (rs_conn s))\<rparr>\<rparr>)"
| conn_closes: "conn_life d s \<Longrightarrow> conn_shutdown None (rs_conn s) = Some (es, cn) \<Longrightarrow>
     conn_life d (s\<lparr>rs_conn := cn, rs_effects := rs_effects s @ es\<rparr>)"


section \<open>The invariant\<close>

text \<open>Beyond \<open>conn_inv\<close>: the channels in the registry are in the invariant of their life, and none is down.\<close>

definition lively :: "registry \<Rightarrow> bool" where
  "lively m \<longleftrightarrow> (\<forall>i ch. registry_get i m = Some ch \<longrightarrow> life_inv ch \<and> \<not> ch_down ch)"

lemma lively_add: "lively m \<Longrightarrow> life_inv ch \<Longrightarrow> \<not> ch_down ch \<Longrightarrow> lively (registry_add i ch m)"
  by (simp add: lively_def)

lemma lively_remove: "lively m \<Longrightarrow> lively (registry_remove i m)"
  by (simp add: lively_def)

lemma lively_empty: "lively (m\<lparr>rg_channels := []\<rparr>)"
  by (simp add: lively_def registry_get_def)

lemma lively_sequence: "lively (m\<lparr>rg_sequence := n\<rparr>) \<longleftrightarrow> lively m"
  by (simp add: lively_def registry_get_def)

lemma lively_after:
  assumes "lively m" and "life_inv ch'" and "RemoveChannel i \<notin> set es \<longrightarrow> \<not> ch_down ch'"
  shows "lively (registry_after i es ch' m)"
  using assms by (auto simp: registry_after_def intro: lively_add lively_remove)

lemma conn_shutdown_lively:
  assumes "conn_shutdown e cn = Some (es, cn')" and "lively (cn_registry cn)"
  shows "lively (cn_registry cn')"
  using assms by (auto simp: conn_shutdown_def registry_removeAll_def Let_def intro: lively_empty split: if_splits)

lemma demux_lively:
  assumes "demux f cn = Some (es, p, cn')" and "conn_inv cn" and "lively (cn_registry cn)"
  shows "lively (cn_registry cn')"
proof (cases "frame_channel f = 0")
  case True
  show ?thesis
  proof (cases "closes_connection f")
    case closes: True
    then obtain code reason c k x y where "f = MethodFrame 0 x y (Some (MConnection (ConnectionClose code reason c k)))"
      by (cases f rule: closes_connection.cases) auto
    with assms conn_shutdown_lively show ?thesis by (auto simp: demux_def dispatch0_def)
  next
    case False
    with True assms dispatch0_other(1) [of f cn es p cn'] show ?thesis by (simp add: demux_def)
  qed
next
  case False
  show ?thesis
  proof (cases "registry_get (frame_channel f) (cn_registry cn)")
    case None
    with False assms dispatchClosed_other(1) [of f cn es p cn'] show ?thesis by (simp add: demux_def dispatchN_def)
  next
    case (Some ch)
    with False assms(1) obtain es' ch' where ch': "channel_recv f ch = Some (es', ch')"
      and cn': "cn_registry cn' = registry_after (frame_channel f) es' ch' (cn_registry cn)"
      by (auto simp: demux_def dispatchN_def)
    have "life_inv ch" "\<not> ch_down ch" "ch_id ch = frame_channel f"
      using Some assms(2,3) by (auto simp: lively_def conn_inv_def)
    with channel_recv_life [OF _ ch'] channel_recv_keeps [OF ch'] assms(3) show ?thesis
      unfolding cn' by (intro lively_after) auto
  qed
qed

lemma channel_act_keeps:
  assumes "channel_act ch es ch'"
  shows "ch_id ch' = ch_id ch \<and> (RemoveChannel (ch_id ch) \<notin> set es \<longrightarrow> (ch_down ch' \<longleftrightarrow> ch_down ch))"
  using assms
  by cases
     (auto simp: channel_NotifyClose_def channel_NotifyFlow_def channel_NotifyReturn_def channel_NotifyCancel_def
        channel_NotifyConfirm_def publish_counted_def confirm_mode_def shutdown_def Let_def
        split: if_splits option.splits)

definition life_conn_inv :: "connection \<Rightarrow> bool" where
  "life_conn_inv cn \<longleftrightarrow> conn_inv cn \<and> lively (cn_registry cn)"

lemma conn_shutdown_life:
  assumes "conn_shutdown e cn = Some (es, cn')" and "life_conn_inv cn"
  shows "life_conn_inv cn'"
proof -
  obtain es1 cn1 where "conn_shutdown e cn = Some (es1, cn1)" "conn_inv cn1"
    using assms(2) by (auto simp: life_conn_inv_def intro: conn_shutdown_ok)
  with assms conn_shutdown_lively [OF assms(1)] show ?thesis by (simp add: life_conn_inv_def)
qed

lemma reader_step_life:
  assumes "reader_step s ev s'" and "life_conn_inv (rs_conn s)"
  shows "life_conn_inv (rs_conn s')"
proof -
  have "lively (cn_registry (rs_conn s'))"
    using assms
    by cases (auto simp: life_conn_inv_def dest: demux_lively conn_shutdown_lively)
  with reader_step_inv [OF assms(1)] assms(2) show ?thesis by (simp add: life_conn_inv_def)
qed

lemma conn_uses_life:
  assumes "life_conn_inv cn" and "registry_get i (cn_registry cn) = Some ch" and "channel_act ch es ch'"
  shows "life_conn_inv (cn\<lparr>cn_registry := registry_after i es ch' (cn_registry cn)\<rparr>)"
proof -
  have ch: "life_inv ch" "\<not> ch_down ch" "ch_id ch = i"
    using assms(1,2) by (auto simp: life_conn_inv_def lively_def conn_inv_def)
  with channel_act_life [OF assms(3)] channel_act_keeps [OF assms(3)]
  have ch': "life_inv ch'" "ch_id ch' = i" "RemoveChannel i \<notin> set es \<longrightarrow> \<not> ch_down ch'" by auto
  then have "lively (registry_after i es ch' (cn_registry cn))"
    using assms(1) by (intro lively_after) (simp_all add: life_conn_inv_def)
  moreover have "distinct (map fst (rg_channels (registry_after i es ch' (cn_registry cn))))"
    using assms(1)
    by (auto simp: life_conn_inv_def conn_inv_def registry_after_def registry_remove_def registry_add_def
        distinct_update distinct_delete)
  ultimately show ?thesis
    using assms(1) ch' by (auto simp: life_conn_inv_def conn_inv_def registry_after_def life_inv_def)
qed

lemma conn_life_inv: "conn_life d s \<Longrightarrow> life_conn_inv (rs_conn s)"
proof (induction rule: conn_life.induct)
  case conn_new
  have "lively new_registry" by (simp add: lively_def new_registry_def registry_get_def)
  then show ?case using Open_connection_inv by (simp add: life_conn_inv_def start_reader_def Open_connection_def)
next
  case (conn_reads s ev s')
  then show ?case using reader_step_life by blast
next
  case (conn_opens s i cn)
  have "lively (registry_add j (newChannel j) (m\<lparr>rg_sequence := k\<rparr>))" if "lively m" for j k m
    using that newChannel_life [of j] by (intro lively_add) (simp_all add: lively_sequence, simp add: newChannel_def)
  with conn_opens conn_Channel_inv [of "rs_conn s" i cn] show ?case
    by (auto simp: life_conn_inv_def conn_Channel_def registry_next_def)
next
  case (conn_uses s i ch es ch')
  then show ?case by (simp add: conn_uses_life)
next
  case (conn_closes s es cn)
  then show ?case by (simp add: conn_shutdown_life)
next
  case (conn_forgets s i)
  then have "distinct (map fst (rg_channels (registry_remove i (cn_registry (rs_conn s)))))"
    by (simp add: life_conn_inv_def conn_inv_def registry_remove_def distinct_delete)
  with conn_forgets lively_remove [of "cn_registry (rs_conn s)" i] show ?case
    by (auto simp: life_conn_inv_def conn_inv_def split: if_splits)
qed (auto simp: life_conn_inv_def conn_inv_def conn_NotifyClose_def conn_NotifyBlocked_def split: if_splits)


section \<open>Properties\<close>



end
