(* ===== verification/Spec2Isabelle.thy ===== *)
theory Spec2Isabelle
  imports Main_Program System Mock_Clock Amqp_Uri Amqp_Decoded Proc_Sampling Proc_Maps Remote_System
    Logging Stream_Profile Amqp_Reading Amqp_Lifetime
begin

text \<open>
  A verification library of proc_box, a program that runs a command in a process group of
  its own, limits its wall-clock time and its output, is controlled by signals and by JSON
  commands over AMQP, and publishes samples of the resources the process uses.

  The parts and how they interact. \<open>main\<close> (\<open>main.go\<close>) reads the flags, starts the
  child (\<open>agents/job_control.go\<close>) and the timer (\<open>agents/timer.go\<close>), and then waits for
  the child's result. The goroutine \<open>monitor\<close> (\<open>main.go\<close>) selects over the signals of
  proc_box, the remote commands, the timeout, the end of the child and a ticker for the
  limit on stdout. The goroutine \<open>redial\<close> (\<open>main.go\<close>) keeps the connection to the broker and sets
  up the remote control (\<open>agents/remote_control.go\<close>) and the statistics agent
  (\<open>agents/process_stats.go\<close>). They meet on channels.

  The theories, in the order of their imports:

  \<^item> \<open>Prelude\<close>: machine integers with their wrap-around, time, and buffered
    channels with the contract \<open>bounded_queue\<close>, discharged by \<open>go_chan\<close>.
  \<^item> \<open>Timer\<close>: \<open>timerTicker\<close> as one function per iteration over the record
    \<open>wallclock_timer\<close>; the contract \<open>timer_api\<close> of the interface \<open>Timer\<close>, discharged by
    \<open>timer_client\<close>; the abstract \<open>stopwatch\<close> it refines up to the time lost between its two readings of
    the clock; it never fires early, fires once the timeout and the time lost have passed, and fires once.
  \<^item> \<open>Measured\<close>: the byte counter wrapped around the child's stdout
    (\<open>iocontrol/measure.go\<close>, \<open>iocontrol/counter.go\<close>), and the rates it gives.
  \<^item> \<open>Throttle\<close>: the rest of iocontrol, which proc_box does not call: the limiter, throttled readers and
    writers with the contracts \<open>ticking\<close>, \<open>sink_world\<close> and \<open>source_world\<close> of what they wrap, discharged
    by \<open>sink\<close> and \<open>source\<close> for the measured streams, and the pools; a stream keeps its rate, the
    streams of a pool keep it together, and which writes never return.
  \<^item> \<open>Stream_Profile\<close>: the precise and the sampling profile of a reader and a writer; the times add up.
  \<^item> \<open>Mock_Clock\<close>: the mock clock of the package \<open>clock\<close> the counter imports, whose timers run
    when it is moved; \<open>mock_reach\<close> is the clocks a client can have; a move ends and runs what is due in order.
  \<^item> \<open>Job_Control\<close>: the record \<open>job\<close>, its four signalling operations with the
    contract \<open>job_control\<close>, discharged by \<open>job_ctl\<close>; the start of the child with every error path, over
    the process table \<open>kernel\<close>, in which \<open>Setpgid\<close> gives the child a group of its own;
    the goroutines that copy the streams and wait, as the step relation \<open>plumb_step\<close>.
  \<^item> \<open>Process_Stats\<close>: reflective addition of structs, the six probes with their recovery
    from panics, the totals of a sample, the two calls that may panic outside a recovery, its publication, the time limit, the tickers.
  \<^item> \<open>Remote_Control\<close>: the setup calls to the broker, the goroutine \<open>handle\<close> as the step
    relation \<open>handle_step\<close>, \<open>Shutdown\<close>.
  \<^item> \<open>Monitor\<close>: one function per branch of the \<open>select\<close>, ending in an \<open>outcome\<close>; runs
    over sequences of events between which the other goroutines move; what is signalled, the
    limits on stdout, the argument of kill, the commands to the timer.
  \<^item> \<open>Session\<close>: \<open>NewProcessStats\<close>, the router, the routing keys, and \<open>redial\<close> as the
    step relation \<open>redial_step\<close> with its trace invariant.
  \<^item> \<open>Main_Program\<close>: flags and environment, the start and the exit status; the log levels
    of logrus as an instance of \<open>linorder\<close>.
  \<^item> \<open>System\<close>: \<open>main\<close>, monitor, timer and the job's goroutines as one step relation;
    the result of the child is delivered once and unchanged; the deadlock between monitor and timer.

  Below the agents lies the AMQP library vendored with the program, whose wire format is
  modelled octet by octet (\<open>read.go\<close>, \<open>write.go\<close>, \<open>types.go\<close>, \<open>spec091.go\<close>):

  \<^item> \<open>Amqp_Wire\<close>: readers, which take a stream of octets to a result and the rest of the
    stream, and writers, which end in octets or an error; big-endian numbers and the two kinds
    of strings; the contract \<open>codec\<close> of a writer with its reader, whose lemmas hold for
    every value, table and frame.
  \<^item> \<open>Amqp_Field\<close>: field values, arrays and tables, which nest; their readers take fuel.
  \<^item> \<open>Amqp_Reading\<close>: how these readers end on any octets: the fuel never runs out, every error they
    return, and the only panic.
  \<^item> \<open>Amqp_Header\<close>: the properties of a message, their mask and the content header.
  \<^item> \<open>Amqp_Methods_A\<close>, \<open>Amqp_Methods_B\<close>: the 62 methods of the seven classes, one datatype
    for each class, with their identifiers, readers and writers.
  \<^item> \<open>Amqp_Decoded\<close>: what the readers return is of the type of what the writers take: a table
    that was read can be written again and read back; a small logic of the octets a reader consumes.
  \<^item> \<open>Amqp_Frames\<close>: method frames, header frames, body frames and heartbeats; a stream of frames
    that are written is read back frame by frame; what malformed frames do.

  On the frames work the channels and the connection (\<open>channel.go\<close>, \<open>consumers.go\<close>, \<open>delivery.go\<close>,
  \<open>return.go\<close>, \<open>connection.go\<close>, \<open>registry.go\<close>, \<open>auth.go\<close>, \<open>uri.go\<close>). What they do to the outside
  (frames sent, messages to listeners, channels closed) is a list of effects, \<open>None\<close> is a panic,
  and a call takes the reply it receives as an argument:

  \<^item> \<open>Amqp_Channel\<close>: \<open>sendOpen\<close>, which splits a message into frames, and the state
    machine \<open>recvMethod\<close>, \<open>recvHeader\<close>, \<open>recvContent\<close>, which puts it together; a message arrives
    unchanged, and frames in any order never confuse two messages.
  \<^item> \<open>Amqp_Consumers\<close>: \<open>newDelivery\<close>, the goroutine that buffers the deliveries of a
    consumer, as the step relation \<open>buffer_step\<close>, and the table of consumers, which refines one inbox
    per tag.
  \<^item> \<open>Amqp_Dispatch\<close>: the record \<open>channel\<close>, \<open>dispatch\<close>, \<open>shutdown\<close>, the publisher
    confirms with the contract \<open>min_heap\<close> of their tags, discharged by \<open>tags\<close>; each publishing is
    confirmed at most once; \<open>channel_act\<close> is what the program does with a channel, \<open>channel_life\<close> its
    interleavings with frames, and exactly which frames panic.
  \<^item> \<open>Amqp_Api\<close>: the check of user tables, which holds exactly for the tables that can be
    written, and every operation of a channel.
  \<^item> \<open>Amqp_Connection\<close>: the registry, \<open>demux\<close> and its dispatchers, \<open>conn_shutdown\<close>, and the
    goroutine that reads as the step relation \<open>reader_step\<close>; each channel sees its own frames
    only, in their order; where the reader blocks for ever.
  \<^item> \<open>Amqp_Lifetime\<close>: \<open>conn_life\<close>, the reader in any interleaving with the program; which frames make
    the connection panic.
  \<^item> \<open>Amqp_Handshake\<close>: authentication, tuning, the handshake, and \<open>heartbeater_iteration\<close>; the
    limits agreed on, and the longest silence of a connection.
  \<^item> \<open>Decimal\<close>: numbers in decimal, read and printed as \<open>strconv\<close> does.
  \<^item> \<open>Amqp_Uri\<close>: \<open>ParseURI\<close> and its inverse, and \<open>DialConfig\<close>.

  Below the statistics agent lies gopsutil on Linux (\<open>process/process_linux.go\<close>, \<open>process/process.go\<close>,
  \<open>process/process_posix.go\<close>, \<open>host/host_linux.go\<close>, \<open>internal/common\<close>). The operating system is the
  record \<open>os_view\<close>: what each file, directory, link and command gives at one moment. A call
  ends in a \<open>probe\<close>: a value, an error or a panic.

  \<^item> \<open>Proc_Text\<close>: the functions on strings gopsutil uses, and \<open>ReadLines\<close>.
  \<^item> \<open>Proc_Process\<close>: the record \<open>process\<close> with what is remembered between calls, the functions that
    fill it (\<open>fillFromStatus\<close>, \<open>fillFromStat\<close> and the others), and the calls on top of them.
  \<^item> \<open>Proc_Files\<close>: the files \<open>io\<close>, \<open>status\<close> and \<open>stat\<close> and the output of \<open>pgrep\<close>, in the form the
    kernel and the tool give them, are read back; a name with blanks breaks the reading of \<open>stat\<close>.
  \<^item> \<open>Proc_Host\<close>: \<open>HostInfo\<close> with the distribution and the virtualization, and when it panics; \<open>Users\<close>.
  \<^item> \<open>Proc_Sampling\<close>: the agent put together with gopsutil, over a system that changes
    between two calls: the contract \<open>remembering_probe\<close>, discharged by \<open>gathered\<close>; the memory in a sample is
    one sample old, no sample lists an open file, and whose share of the processor it has.
  \<^item> \<open>Proc_Maps\<close>: \<open>MemoryMaps\<close>, whose entries carry the path of the next mapping.

  \<open>Agents_Broker\<close> puts the agents on the AMQP library: the set-up of the remote control as operations of a
  channel, which refines the one in \<open>Remote_Control\<close>; a sample from the agent to the octets and
  back; a command from the octets to the monitor, across the channel, the consumer's buffer and \<open>handle\<close>.
  \<open>Remote_System\<close> goes on to the signals the monitor sends to the child's process group.

  The program logs with the vendored package logrus:

  \<^item> \<open>Utf8\<close>: the runes of a text and the quoting of \<open>%q\<close>, which reads back for all bytes.
  \<^item> \<open>Log_Format\<close>: the formatters of an entry; \<open>read_line\<close> reads a line of the text formatter back;
    what happens to fields that clash with the formatter's own.
  \<^item> \<open>Logging\<close>: entries, hooks, loggers and the standard logger; every way to log meets the contract
    \<open>log_spec\<close>; the contract \<open>line_formatter\<close>, discharged by \<open>text_line\<close> and \<open>json_line\<close>; the log of a run
    of proc_box reads back to what was logged.

  Bounds and fuel. Durations and counters are 64-bit integers that wrap; the theorems about the
  timer hold for runs below \<open>2 ^ 62\<close> nanoseconds (146 years) and the byte counts for less
  than \<open>2 ^ 63\<close> bytes. Only the readers of nested values use fuel: twice the number of octets left
  and one for a value, and one more for a loop; \<open>field_reading_terminates\<close> shows that it
  never runs out on any input. The loop of \<open>sendOpen\<close> over a body is a \<open>partial_function\<close>,
  since it need not end: it does for every frame size above 8, and not for 8; the loop of the mock clock
  is another, which ends when the tickers have positive intervals, and so is that of a throttled write, which
  returns when a batch has room for a byte. The other
  loops over lists are structural, and the endless loops of the goroutines are step
  relations or functions of one iteration.

  Parameters of the model: the results of system calls (\<open>kill\<close>, fork and exec, the files under
  \<open>/proc\<close>, \<open>/dev\<close> and \<open>/etc\<close>, the output of \<open>pgrep\<close> and \<open>lsb_release\<close>), the answers of the AMQP broker, the JSON encoder and decoder, IEEE
  arithmetic, the standard library's parsers of durations, booleans and 64-bit
  integers, \<open>Sprintf\<close>, which runes above 127 are printable, the printed form of times, whether standard output is a terminal, and for a connection its writer, its dialler, \<open>url.Parse\<close> and the replies of the peer.
  Not modelled: what the program's own log messages and some of its errors say, the elapsed time printed at the end,
  the location of a \<open>time.Time\<close>, the real clock of the package \<open>clock\<close>, which only calls \<open>time\<close>, the order in which Go ranges over a table (the
  theorems hold for each order), the mutexes of the AMQP library (each operation is one
  step), the flushing of its buffered writer, the heap \<open>container/heap\<close> beyond its
  ascending list, of gopsutil the packages for disks, memory and network and the other platforms, which proc_box never
  calls, text that is not ASCII under \<open>/proc\<close>, the
  cleaning of a \<open>HOST_PROC\<close> that is not clean, the pipe of logrus's \<open>Writer\<close>,
  and the test frameworks, which proc_box never calls.

  What the model shows beyond correctness: the deadlock of monitor and timer after
  two timer commands, the child's stdin that is never closed, the send on a nil channel in the remote
  control, the kill that is never reached after a failed stop, the overflow of twice the
  limit on stdout, the panic for an interval that is not positive, malformed
  environment variables that silently become zero, strings that are cut off on the wire,
  arrays that end in the middle of an element, the panics on a heartbeat with a payload or on a
  channel, on a tag confirmed twice, on a byte array of negative length and on \<open>connection.blocked\<close> after the
  shutdown, the time the timer loses at each tick, the connection that hangs in \<open>closeWith\<close>, the
  reader that a failed handshake leaves behind, channel 0 after 65535 others,
  the IPv6 address in two pairs of brackets, and in gopsutil the open files that are never
  listed, the memory that is one sample old, the children without a share of the processor, the CPU times lost
  to a blank in a name, the crash on an empty version file, the shifted memory maps, the mock
  clock that never gets past a ticker without a positive interval, the throttled write that never returns for a rate of
  less than a byte for each batch, and the field of a log entry that shows up renamed
  in the next line only.
\<close>

end
